(* ===== verification/Tvm_Prelude.thy ===== *)
theory Tvm_Prelude
  imports Main "HOL-Library.Word"
begin

unbundle bit_operations_syntax

section \<open>Shared vocabulary of the development\<close>

text \<open>
  The Go code of the repository reports a failure by returning an \<open>error\<close> beside its
  result, and the objects it has mutated up to that point stay mutated: an instruction that
  pops two operands and then finds the second of the wrong type has consumed both.  An
  operation is therefore a function from a state to a pair of an outcome and the state it
  leaves behind, \<^emph>\<open>also\<close> when the outcome is an error.  This theory holds that shape of
  computation (\<open>ret\<close>, \<open>raise\<close>, \<open>bnd\<close>, \<open>lift_field\<close>), the error values, the wrap-around of
  Go's fixed-width integers, and the list facts that several components need.
\<close>

subsection \<open>Errors\<close>

text \<open>
  \<open>VMError c\<close> is \<open>vmerr.VMError\<close> with exception code \<open>c\<close> (the message text is not kept),
  \<open>HandledException c\<close> the quit signal of \<open>vm.HandledException\<close>, \<open>VirtualizationError\<close> the error of
  the same name, \<open>CellError\<close> the sentinel errors of package \<open>cell\<close>, \<open>OtherError\<close> any plain
  Go error and \<open>GoPanic\<close> a run-time panic.
\<close>

datatype cell_error =
    ErrNotFit1023 | ErrTooMuchRefs | ErrTooBigValue | ErrTooBigSize | ErrNegative
  | ErrSmallSlice | ErrNoMoreRefs | ErrNotEnoughData | ErrInvalidSize | ErrRefCannotBeNil
  | ErrCellDepthLimit | ErrNilBigInt | ErrAddressTypeNotSupported | ErrShortBuffer
  | ErrInvalidAddress

datatype go_error =
    VMError int
  | HandledException int
  | VirtualizationError
  | CellError cell_error
  | ErrCorruptedOpcode
  | ErrStopOnAccept
  | OtherError string
  | GoPanic

subsection \<open>Computations that leave their state behind on failure\<close>

type_synonym ('s, 'a) action = "'s \<Rightarrow> (go_error + 'a) \<times> 's"

definition ret :: "'a \<Rightarrow> ('s, 'a) action" where
  "ret x = (\<lambda>s. (Inr x, s))"

definition raise :: "go_error \<Rightarrow> ('s, 'a) action" where
  "raise e = (\<lambda>s. (Inl e, s))"

definition bnd :: "('s, 'a) action \<Rightarrow> ('a \<Rightarrow> ('s, 'b) action) \<Rightarrow> ('s, 'b) action" where
  "bnd m f = (\<lambda>s. case m s of (Inl e, t) \<Rightarrow> (Inl e, t) | (Inr x, t) \<Rightarrow> f x t)"

definition seq :: "('s, unit) action \<Rightarrow> ('s, 'b) action \<Rightarrow> ('s, 'b) action" where
  "seq m k = bnd m (\<lambda>_. k)"

definition getS :: "('s, 's) action" where
  "getS = (\<lambda>s. (Inr s, s))"

definition modifyS :: "('s \<Rightarrow> 's) \<Rightarrow> ('s, unit) action" where
  "modifyS f = (\<lambda>s. (Inr (), f s))"

definition lift_sum :: "go_error + 'a \<Rightarrow> ('s, 'a) action" where
  "lift_sum r = (\<lambda>s. (r, s))"

text \<open>Run an action of one field of the state.\<close>

definition lift_field ::
    "('s \<Rightarrow> 'f) \<Rightarrow> (('f \<Rightarrow> 'f) \<Rightarrow> 's \<Rightarrow> 's) \<Rightarrow> ('f, 'a) action \<Rightarrow> ('s, 'a) action" where
  "lift_field sel upd m = (\<lambda>s. let (r, f) = m (sel s) in (r, upd (\<lambda>_. f) s))"

fun repeat_act :: "nat \<Rightarrow> ('s, unit) action \<Rightarrow> ('s, unit) action" where
  "repeat_act 0 m = ret ()"
| "repeat_act (Suc n) m = seq m (repeat_act n m)"

fun for_each :: "'x list \<Rightarrow> ('x \<Rightarrow> ('s, unit) action) \<Rightarrow> ('s, unit) action" where
  "for_each [] f = ret ()"
| "for_each (x # xs) f = seq (f x) (for_each xs f)"

named_theorems act_simps \<open>unfolding of actions at a state\<close>

lemma ret_apply [simp, act_simps]: "ret x s = (Inr x, s)"
  by (simp add: ret_def)

lemma raise_apply [simp, act_simps]: "raise e s = (Inl e, s)"
  by (simp add: raise_def)

lemma lift_sum_apply [simp, act_simps]: "lift_sum r s = (r, s)"
  by (simp add: lift_sum_def)

lemma getS_apply [simp, act_simps]: "getS s = (Inr s, s)"
  by (simp add: getS_def)

lemma modifyS_apply [simp, act_simps]: "modifyS f s = (Inr (), f s)"
  by (simp add: modifyS_def)

lemma bnd_apply [act_simps]:
  "bnd m f s = (case m s of (Inl e, t) \<Rightarrow> (Inl e, t) | (Inr x, t) \<Rightarrow> f x t)"
  by (simp add: bnd_def)

lemma seq_apply [act_simps]:
  "seq m k s = (case m s of (Inl e, t) \<Rightarrow> (Inl e, t) | (Inr _, t) \<Rightarrow> k t)"
  by (simp add: seq_def bnd_def)

lemma lift_field_apply [act_simps]:
  "lift_field sel upd m s = (case m (sel s) of (r, f) \<Rightarrow> (r, upd (\<lambda>_. f) s))"
  by (simp add: lift_field_def Let_def)

lemma bnd_ret [simp]: "bnd (ret x) f = f x"
  by (rule ext) (simp add: bnd_def)

lemma bnd_raise [simp]: "bnd (raise e) f = raise e"
  by (rule ext) (simp add: bnd_def)

text \<open>
  Invariant preservation of an action: whatever the outcome, the state left behind satisfies
  the invariant, and a result satisfies \<open>Q\<close>.
\<close>

definition keeps :: "('s \<Rightarrow> bool) \<Rightarrow> ('s, 'a) action \<Rightarrow> ('a \<Rightarrow> bool) \<Rightarrow> bool" where
  "keeps I m Q \<longleftrightarrow>
     (\<forall>s. I s \<longrightarrow> I (snd (m s)) \<and> (\<forall>x. fst (m s) = Inr x \<longrightarrow> Q x))"

named_theorems keeps_intros \<open>compositional rules for invariant preservation\<close>

lemma keepsI:
  assumes "\<And>s. I s \<Longrightarrow> I (snd (m s))" and "\<And>s x. I s \<Longrightarrow> fst (m s) = Inr x \<Longrightarrow> Q x"
  shows "keeps I m Q"
  using assms by (auto simp: keeps_def)

lemma keepsD1: "keeps I m Q \<Longrightarrow> I s \<Longrightarrow> I (snd (m s))"
  by (auto simp: keeps_def)

lemma keepsD2: "keeps I m Q \<Longrightarrow> I s \<Longrightarrow> fst (m s) = Inr x \<Longrightarrow> Q x"
  by (auto simp: keeps_def)

lemma keeps_weaken: "keeps I m Q \<Longrightarrow> (\<And>x. Q x \<Longrightarrow> R x) \<Longrightarrow> keeps I m R"
  by (auto simp: keeps_def)

lemma keeps_top: "keeps I m Q \<Longrightarrow> keeps I m (\<lambda>_. True)"
  by (auto simp: keeps_def)

lemma keeps_ret [keeps_intros]: "Q x \<Longrightarrow> keeps I (ret x) Q"
  by (auto simp: keeps_def)

lemma keeps_raise [keeps_intros]: "keeps I (raise e) Q"
  by (auto simp: keeps_def)

lemma keeps_lift_sum [keeps_intros]: "(\<And>x. r = Inr x \<Longrightarrow> Q x) \<Longrightarrow> keeps I (lift_sum r) Q"
  by (auto simp: keeps_def)

lemma keeps_bnd [keeps_intros]:
  assumes "keeps I m R" and "\<And>x. R x \<Longrightarrow> keeps I (f x) Q"
  shows "keeps I (bnd m f) Q"
  using assms by (auto simp: keeps_def bnd_def split: prod.splits sum.splits)

lemma keeps_seq [keeps_intros]:
  assumes "keeps I m (\<lambda>_. True)" and "keeps I k Q"
  shows "keeps I (seq m k) Q"
  unfolding seq_def using assms by (auto intro: keeps_bnd)

lemma keeps_if [keeps_intros]:
  "(b \<Longrightarrow> keeps I m Q) \<Longrightarrow> (\<not> b \<Longrightarrow> keeps I k Q) \<Longrightarrow> keeps I (if b then m else k) Q"
  by simp

lemma keeps_getS_bnd [keeps_intros]:
  "(\<And>s. I s \<Longrightarrow> keeps I (f s) Q) \<Longrightarrow> keeps I (bnd getS f) Q"
  by (auto simp: keeps_def bnd_def)

lemma keeps_modifyS [keeps_intros]: "(\<And>s. I s \<Longrightarrow> I (f s)) \<Longrightarrow> keeps I (modifyS f) (\<lambda>_. True)"
  by (auto simp: keeps_def)

lemma keeps_option_case [keeps_intros]:
  "(r = None \<Longrightarrow> keeps I m Q) \<Longrightarrow> (\<And>x. r = Some x \<Longrightarrow> keeps I (f x) Q) \<Longrightarrow>
   keeps I (case r of None \<Rightarrow> m | Some x \<Rightarrow> f x) Q"
  by (cases r) auto

lemma keeps_sum_case [keeps_intros]:
  "(\<And>x. r = Inl x \<Longrightarrow> keeps I (f x) Q) \<Longrightarrow> (\<And>x. r = Inr x \<Longrightarrow> keeps I (g x) Q) \<Longrightarrow>
   keeps I (case r of Inl x \<Rightarrow> f x | Inr x \<Rightarrow> g x) Q"
  by (cases r) auto

lemma keeps_prod_case [keeps_intros]:
  "(\<And>a b. p = (a, b) \<Longrightarrow> keeps I (f a b) Q) \<Longrightarrow> keeps I (case p of (a, b) \<Rightarrow> f a b) Q"
  by (cases p) auto

lemma keeps_Let [keeps_intros]: "keeps I (f x) Q \<Longrightarrow> keeps I (Let x f) Q"
  by simp

lemma keeps_Pair [keeps_intros]: "(\<And>x. r = Inr x \<Longrightarrow> Q x) \<Longrightarrow> keeps I (Pair r) Q"
  by (auto simp: keeps_def)

lemma keeps_repeat_act [keeps_intros]:
  "keeps I m (\<lambda>_. True) \<Longrightarrow> keeps I (repeat_act n m) (\<lambda>_. True)"
  by (induction n) (auto intro!: keeps_ret keeps_seq)

lemma keeps_for_each [keeps_intros]:
  "(\<And>x. x \<in> set xs \<Longrightarrow> keeps I (f x) (\<lambda>_. True)) \<Longrightarrow> keeps I (for_each xs f) (\<lambda>_. True)"
  by (induction xs) (auto intro!: keeps_ret keeps_seq)

subsection \<open>Fixed-width Go integers\<close>

text \<open>
  \<open>int64\<close> values are HOL integers; an arithmetic result is brought back into
  $[-2^{63}, 2^{63})$ by \<open>wrap64\<close>, as two's complement addition does.
\<close>

definition wrap64 :: "int \<Rightarrow> int" where
  "wrap64 x = (x + 2 ^ 63) mod 2 ^ 64 - 2 ^ 63"

definition is_int64 :: "int \<Rightarrow> bool" where
  "is_int64 x \<longleftrightarrow> - (2 ^ 63) \<le> x \<and> x < 2 ^ 63"

lemma wrap64_id: "is_int64 x \<Longrightarrow> wrap64 x = x"
  by (simp add: wrap64_def is_int64_def)

lemma wrap64_range: "is_int64 (wrap64 x)"
  by (simp add: wrap64_def is_int64_def)

lemma wrap64_wrap64_diff: "wrap64 (wrap64 x - y) = wrap64 (x - y)"
  by (simp add: wrap64_def algebra_simps mod_simps)

lemma wrap64_wrap64_add: "wrap64 (wrap64 x + y) = wrap64 (x + y)"
  by (simp add: wrap64_def algebra_simps mod_simps)

subsection \<open>Lists\<close>

lemma swap_swap_list:
  assumes "i < length xs" "j < length xs"
  shows "(xs[i := xs ! j, j := xs ! i])[i := (xs[i := xs ! j, j := xs ! i]) ! j,
           j := (xs[i := xs ! j, j := xs ! i]) ! i] = xs"
  using assms by (intro nth_equalityI) (auto simp: nth_list_update)

lemma list_all_update:
  "list_all P xs \<Longrightarrow> P x \<Longrightarrow> list_all P (xs[i := x])"
  by (auto simp: list_all_iff dest: set_update_subset_insert [THEN subsetD])

lemma list_all_takeI: "list_all P xs \<Longrightarrow> list_all P (take n xs)"
  by (auto simp: list_all_iff dest: in_set_takeD)

lemma list_all_dropI: "list_all P xs \<Longrightarrow> list_all P (drop n xs)"
  by (auto simp: list_all_iff dest: in_set_dropD)

lemma list_all_nthI: "list_all P xs \<Longrightarrow> i < length xs \<Longrightarrow> P (xs ! i)"
  by (auto simp: list_all_iff)

lemma list_all_butlastI: "list_all P xs \<Longrightarrow> list_all P (butlast xs)"
  by (auto simp: list_all_iff dest: in_set_butlastD)

lemma list_all_lastI: "list_all P xs \<Longrightarrow> xs \<noteq> [] \<Longrightarrow> P (last xs)"
  by (auto simp: list_all_iff)

end
