(* ===== verification/Cell_Types.thy ===== *)
theory Cell_Types
  imports Tvm_Prelude
begin

section \<open>Cells, slices and builders: the data\<close>

text \<open>
  The data of package \<open>cell\<close> (\<^verbatim>\<open>src/tvm/cell/cell.go\<close>, \<^verbatim>\<open>slice.go\<close>, \<^verbatim>\<open>builder.go\<close>) as the
  Go structs have it: the payload is a byte array, a slice is a window of bit and reference
  positions into a cell, a builder is a 128-byte buffer with a bit count.  A finalised cell
  is immutable, so a pointer to a cell is modelled by its value.  Traces (the observers that
  record which cells were read), the lazy loaders and the virtualisation metadata are not
  part of the model; the cached hashes and depths are functions of the data.
\<close>

type_synonym byte = "8 word"

datatype cell = Cell
  (cell_data: "byte list")
  (cell_bitsSz: nat)
  (cell_special: bool)
  (cell_levelMask: byte)
  (cell_refs: "cell list")

record slice =
  sl_cell :: cell
  sl_bitStart :: nat
  sl_bitEnd :: nat
  sl_refStart :: nat
  sl_refEnd :: nat

record builder =
  b_data :: "byte list"
  b_refs :: "cell list"
  b_bitsSz :: nat

definition maxDepth :: nat where
  "maxDepth = 1024"

definition maxCellDataBytes :: nat where
  "maxCellDataBytes = 128"

definition emptyCell :: cell where
  "emptyCell = Cell [] 0 False 0 []"

definition newSliceFromCell :: "cell \<Rightarrow> slice" where
  "newSliceFromCell c =
     \<lparr>sl_cell = c, sl_bitStart = 0, sl_bitEnd = cell_bitsSz c,
      sl_refStart = 0, sl_refEnd = length (cell_refs c)\<rparr>"

definition BeginCell :: builder where
  "BeginCell = \<lparr>b_data = replicate 128 0, b_refs = [], b_bitsSz = 0\<rparr>"

end
