(* ===== verification/Vm_Values.thy ===== *)
theory Vm_Values
  imports Cell_Types
begin

section \<open>Stack values, continuations and control registers\<close>

text \<open>
  The dynamic types a TVM stack entry may have (\<^verbatim>\<open>src/tvm/vm/stack.go\<close>, \<open>shareStackValue\<close>),
  the continuations of \<^verbatim>\<open>src/tvm/vm/continuation.go\<close> and the \<open>Register\<close> and \<open>ControlData\<close> of
  \<^verbatim>\<open>src/tvm/vm/state.go\<close>.  An entry of Go type \<open>*cell.Cell\<close>, \<open>*cell.Slice\<close> or
  \<open>*cell.Builder\<close> may be a typed nil, which keeps its stack type: these entries carry an option.
  A \<open>tuple.Tuple\<close> without data is the null tuple (\<open>VTuple None\<close>).  \<open>NullCont\<close> is the shared
  \<open>nullContinuationValue\<close>; the nil interface in a register slot is \<open>None\<close>.
\<close>

datatype tvm_value =
    VNull
  | VNaN
  | VInt int
  | VCell "cell option"
  | VSlice "slice option"
  | VBuilder "builder option"
  | VTuple "tvm_value list option"
  | VCont continuation
and continuation =
    NullCont
  | QuitCont int
  | ExcQuitCont
  | OrdinaryCont control_data slice
  | ArgExtCont control_data continuation
  | PushIntCont int continuation
  | RepeatCont int continuation continuation
  | AgainCont continuation
  | WhileCont bool continuation continuation continuation
  | UntilCont continuation continuation
and control_data = ControlData
  (cd_Save: register)
  (cd_Stack: "tvm_value list option")
  (cd_NumArgs: int)
  (cd_CP: int)
and register = Register
  (reg_C: "continuation option list")
  (reg_D: "cell option list")
  (reg_C7: "tvm_value list option")

type_synonym stack = "tvm_value list"
type_synonym tuple = "tvm_value list option"

definition minTVMInt :: int where
  "minTVMInt = - (2 ^ 256)"

definition maxTVMInt :: int where
  "maxTVMInt = 2 ^ 256 - 1"

definition fitsTVMInt :: "int \<Rightarrow> bool" where
  "fitsTVMInt v \<longleftrightarrow> v \<ge> minTVMInt \<and> v \<le> maxTVMInt"

lemma fitsTVMInt_iff: "fitsTVMInt v \<longleftrightarrow> - (2 ^ 256) \<le> v \<and> v < 2 ^ 256"
  by (auto simp: fitsTVMInt_def minTVMInt_def maxTVMInt_def)

lemma int64_fits: "is_int64 v \<Longrightarrow> fitsTVMInt v"
  unfolding is_int64_def fitsTVMInt_iff by (auto intro: order_trans less_le_trans)

subsection \<open>Null continuations and registers\<close>

text \<open>\<open>IsNullContinuation\<close>: the nil interface and the shared null instance both count.\<close>

fun IsNullContinuation :: "continuation option \<Rightarrow> bool" where
  "IsNullContinuation None = True"
| "IsNullContinuation (Some NullCont) = True"
| "IsNullContinuation (Some _) = False"

definition emptyRegister :: register where
  "emptyRegister = Register [None, None, None, None] [None, None] None"

subsection \<open>Well-formed values\<close>

text \<open>
  What the machine promises of every value it lets onto a stack: integers lie in the signed
  257-bit range, tuples have at most 255 entries, and the same holds of everything captured
  inside a continuation; a register file has four continuation and two cell slots.
\<close>

fun val_ok :: "tvm_value \<Rightarrow> bool"
  and cont_ok :: "continuation \<Rightarrow> bool"
  and cdata_ok :: "control_data \<Rightarrow> bool"
  and reg_ok :: "register \<Rightarrow> bool" where
  "val_ok (VInt i) \<longleftrightarrow> fitsTVMInt i"
| "val_ok (VTuple t) \<longleftrightarrow>
     (case t of None \<Rightarrow> True | Some vs \<Rightarrow> length vs \<le> 255 \<and> list_all val_ok vs)"
| "val_ok (VCont c) \<longleftrightarrow> cont_ok c"
| "val_ok VNull \<longleftrightarrow> True"
| "val_ok VNaN \<longleftrightarrow> True"
| "val_ok (VCell _) \<longleftrightarrow> True"
| "val_ok (VSlice _) \<longleftrightarrow> True"
| "val_ok (VBuilder _) \<longleftrightarrow> True"
| "cont_ok NullCont \<longleftrightarrow> True"
| "cont_ok (QuitCont _) \<longleftrightarrow> True"
| "cont_ok ExcQuitCont \<longleftrightarrow> True"
| "cont_ok (OrdinaryCont d _) \<longleftrightarrow> cdata_ok d"
| "cont_ok (ArgExtCont d c) \<longleftrightarrow> cdata_ok d \<and> cont_ok c"
| "cont_ok (PushIntCont i c) \<longleftrightarrow> is_int64 i \<and> cont_ok c"
| "cont_ok (RepeatCont n b a) \<longleftrightarrow> is_int64 n \<and> cont_ok b \<and> cont_ok a"
| "cont_ok (AgainCont b) \<longleftrightarrow> cont_ok b"
| "cont_ok (WhileCont _ b c a) \<longleftrightarrow> cont_ok b \<and> cont_ok c \<and> cont_ok a"
| "cont_ok (UntilCont b a) \<longleftrightarrow> cont_ok b \<and> cont_ok a"
| "cdata_ok (ControlData r s n cp) \<longleftrightarrow>
     reg_ok r \<and> (case s of None \<Rightarrow> True | Some vs \<Rightarrow> list_all val_ok vs)"
| "reg_ok (Register cs ds t) \<longleftrightarrow>
     length cs = 4 \<and> length ds = 2 \<and>
     list_all (\<lambda>c. case c of None \<Rightarrow> True | Some k \<Rightarrow> cont_ok k) cs \<and>
     (case t of None \<Rightarrow> True | Some vs \<Rightarrow> length vs \<le> 255 \<and> list_all val_ok vs)"

abbreviation stack_ok :: "stack \<Rightarrow> bool" where
  "stack_ok \<equiv> list_all val_ok"

abbreviation tuple_ok :: "tuple \<Rightarrow> bool" where
  "tuple_ok t \<equiv> val_ok (VTuple t)"

end
