(* ===== verification/Vm_Error.thy ===== *)
theory Vm_Error
  imports Tvm_Prelude
begin

section \<open>Exception codes of the virtual machine\<close>

text \<open>
  \<^verbatim>\<open>src/tvm/vmerr/error.go\<close>: the exception codes, the default messages and the walk that
  extracts a code from an error.  The unwrap chains of Go errors collapse here, because the
  error values of the model are already the innermost coded error.
\<close>

definition CodeStackUnderflow :: int where "CodeStackUnderflow = 2"
definition CodeStackOverflow :: int where "CodeStackOverflow = 3"
definition CodeIntOverflow :: int where "CodeIntOverflow = 4"
definition CodeRangeCheck :: int where "CodeRangeCheck = 5"
definition CodeInvalidOpcode :: int where "CodeInvalidOpcode = 6"
definition CodeTypeCheck :: int where "CodeTypeCheck = 7"
definition CodeCellOverflow :: int where "CodeCellOverflow = 8"
definition CodeCellUnderflow :: int where "CodeCellUnderflow = 9"
definition CodeDict :: int where "CodeDict = 10"
definition CodeUnknown :: int where "CodeUnknown = 11"
definition CodeFatal :: int where "CodeFatal = 12"
definition CodeOutOfGas :: int where "CodeOutOfGas = 13"
definition CodeVirtualization :: int where "CodeVirtualization = 14"

lemmas vm_code_defs =
  CodeStackUnderflow_def CodeStackOverflow_def CodeIntOverflow_def CodeRangeCheck_def
  CodeInvalidOpcode_def CodeTypeCheck_def CodeCellOverflow_def CodeCellUnderflow_def
  CodeDict_def CodeUnknown_def CodeFatal_def CodeOutOfGas_def CodeVirtualization_def

fun ErrorCode :: "go_error \<Rightarrow> int option" where
  "ErrorCode (VMError c) = Some c"
| "ErrorCode (HandledException c) = Some c"
| "ErrorCode VirtualizationError = Some CodeVirtualization"
| "ErrorCode _ = None"

text \<open>A handled exception wraps an error of the machine and unwraps to it.\<close>

fun AsVMError :: "go_error \<Rightarrow> int option" where
  "AsVMError (VMError c) = Some c"
| "AsVMError (HandledException c) = Some c"
| "AsVMError _ = None"

fun IsHandledException :: "go_error \<Rightarrow> bool" where
  "IsHandledException (HandledException _) = True"
| "IsHandledException _ = False"

definition handledError :: "int \<Rightarrow> go_error" where
  "handledError c = HandledException c"

definition defaultErrorMsg :: "int \<Rightarrow> string" where
  "defaultErrorMsg c =
     (if c = CodeStackUnderflow then ''stack underflow''
      else if c = CodeStackOverflow then ''stack overflow''
      else if c = CodeIntOverflow then ''integer overflow''
      else if c = CodeRangeCheck then ''integer out of range''
      else if c = CodeInvalidOpcode then ''invalid opcode''
      else if c = CodeTypeCheck then ''type check error''
      else if c = CodeCellOverflow then ''cell overflow''
      else if c = CodeCellUnderflow then ''cell underflow''
      else if c = CodeDict then ''dictionary error''
      else if c = CodeUnknown then ''unknown error''
      else if c = CodeFatal then ''fatal error''
      else '''')"

abbreviation errStackUnderflow :: go_error where
  "errStackUnderflow \<equiv> VMError CodeStackUnderflow"

abbreviation errIntOverflow :: go_error where
  "errIntOverflow \<equiv> VMError CodeIntOverflow"

abbreviation errRangeCheck :: go_error where
  "errRangeCheck \<equiv> VMError CodeRangeCheck"

abbreviation errTypeCheck :: go_error where
  "errTypeCheck \<equiv> VMError CodeTypeCheck"

abbreviation errInvalidOpcode :: go_error where
  "errInvalidOpcode \<equiv> VMError CodeInvalidOpcode"

abbreviation errOutOfGas :: go_error where
  "errOutOfGas \<equiv> VMError CodeOutOfGas"

end
