(* ===== verification/Vm_Stack.thy ===== *)
theory Vm_Stack
  imports Vm_Values Vm_Error "HOL-Library.Multiset"
begin

section \<open>The operand stack\<close>

text \<open>
  \<^verbatim>\<open>src/tvm/vm/stack.go\<close>.  The stack is the slice \<open>elems\<close> of the Go struct, bottom first, so the
  top is the last element and entry \<open>i\<close> from the top is \<open>elems[len-1-i]\<close>.  Go \<open>int\<close> arguments are HOL integers,
  and the guards \<open>uint(n) > uint(len)\<close> of the code, which reject negative \<open>n\<close> too, are written
  out.  Small integers the Go code shares as static instances are ordinary values here.
\<close>

type_synonym 'a stack_action = "(stack, 'a) action"

abbreviation slen :: "stack \<Rightarrow> int" where
  "slen s \<equiv> int (length s)"

subsection \<open>Pushing\<close>

definition canonicalStackInt :: "int \<Rightarrow> int" where
  "canonicalStackInt v =
     (if v = 0 then 0
      else if is_int64 v then (if v = -1 then -1 else if v = 1 then 1 else v)
      else v)"

lemma canonicalStackInt_id [simp]: "canonicalStackInt v = v"
  by (simp add: canonicalStackInt_def)

definition pushStaticInt :: "int \<Rightarrow> unit stack_action" where
  "pushStaticInt v = modifyS (\<lambda>elems. elems @ [VInt v])"

definition PushBool :: "bool \<Rightarrow> unit stack_action" where
  "PushBool v = (if v then pushStaticInt (-1) else pushStaticInt 0)"

fun shareStackValue :: "tvm_value \<Rightarrow> go_error + tvm_value" where
  "shareStackValue (VInt t) = Inr (VInt (canonicalStackInt t))"
| "shareStackValue VNaN = Inr VNaN"
| "shareStackValue (VCell t) = Inr (VCell t)"
| "shareStackValue (VBuilder t) = Inr (VBuilder t)"
| "shareStackValue (VSlice t) = Inr (VSlice t)"
| "shareStackValue (VTuple t) = Inr (VTuple t)"
| "shareStackValue VNull = Inr VNull"
| "shareStackValue (VCont c) = Inr (VCont c)"

lemma shareStackValue_eq [simp]: "shareStackValue v = Inr v"
  by (cases v) auto

definition PushAny :: "tvm_value \<Rightarrow> unit stack_action" where
  "PushAny val =
     (case shareStackValue val of
        Inl e \<Rightarrow> raise e
      | Inr v \<Rightarrow> modifyS (\<lambda>elems. elems @ [v]))"

definition PushInt :: "int \<Rightarrow> unit stack_action" where
  "PushInt val =
     (if \<not> fitsTVMInt val then raise errIntOverflow else pushStaticInt (canonicalStackInt val))"

definition PushOwnedInt :: "int \<Rightarrow> unit stack_action" where
  "PushOwnedInt val =
     (if \<not> fitsTVMInt val then raise errIntOverflow else pushStaticInt (canonicalStackInt val))"

definition PushIntQuiet :: "int \<Rightarrow> unit stack_action" where
  "PushIntQuiet val =
     (if \<not> fitsTVMInt val then PushAny VNaN else pushStaticInt (canonicalStackInt val))"

definition PushOwnedIntQuiet :: "int \<Rightarrow> unit stack_action" where
  "PushOwnedIntQuiet val =
     (if \<not> fitsTVMInt val then PushAny VNaN else pushStaticInt (canonicalStackInt val))"

definition stackStaticIntMin :: int where "stackStaticIntMin = -5"
definition stackStaticIntMax :: int where "stackStaticIntMax = 10"

definition stackStaticInt :: "int \<Rightarrow> int option" where
  "stackStaticInt val =
     (if val < stackStaticIntMin \<or> val > stackStaticIntMax then None else Some val)"

definition PushSmallInt :: "int \<Rightarrow> unit stack_action" where
  "PushSmallInt val =
     (case stackStaticInt val of
        Some static \<Rightarrow> pushStaticInt static
      | None \<Rightarrow> PushOwnedInt val)"

definition PushHostValue :: "tvm_value \<Rightarrow> unit stack_action" where
  "PushHostValue val = (case val of VInt x \<Rightarrow> PushInt x | _ \<Rightarrow> PushAny val)"

definition PushBuilder :: "builder option \<Rightarrow> unit stack_action" where
  "PushBuilder val = PushAny (VBuilder val)"

definition PushSlice :: "slice option \<Rightarrow> unit stack_action" where
  "PushSlice val = PushAny (VSlice val)"

definition PushCell :: "cell option \<Rightarrow> unit stack_action" where
  "PushCell val = PushAny (VCell val)"

definition PushMaybeCell :: "cell option \<Rightarrow> unit stack_action" where
  "PushMaybeCell val = (if val = None then PushAny VNull else PushCell val)"

definition PushContinuation :: "continuation option \<Rightarrow> unit stack_action" where
  "PushContinuation val =
     (case val of
        None \<Rightarrow> modifyS (\<lambda>elems. elems @ [VCont NullCont])
      | Some c \<Rightarrow> PushAny (VCont c))"

definition canonicalOwnedContinuation :: "continuation option \<Rightarrow> continuation" where
  "canonicalOwnedContinuation c = (if IsNullContinuation c then NullCont else the c)"

definition PushOwnedContinuation :: "continuation option \<Rightarrow> unit stack_action" where
  "PushOwnedContinuation val =
     modifyS (\<lambda>elems. elems @ [VCont (canonicalOwnedContinuation val)])"

definition PushTuple :: "tuple \<Rightarrow> unit stack_action" where
  "PushTuple t = PushAny (VTuple t)"

definition PushMaybeTuple :: "tuple option \<Rightarrow> unit stack_action" where
  "PushMaybeTuple t =
     (case t of None \<Rightarrow> PushAny VNull
              | Some t' \<Rightarrow> if t' = None then PushAny VNull else PushAny (VTuple t'))"

definition pushOwnedValueChecked :: "tvm_value \<Rightarrow> unit stack_action" where
  "pushOwnedValueChecked val =
     (case val of
        VInt v \<Rightarrow>
          if \<not> fitsTVMInt v then raise errIntOverflow
          else modifyS (\<lambda>elems. elems @ [VInt (canonicalStackInt v)])
      | _ \<Rightarrow> modifyS (\<lambda>elems. elems @ [val]))"

definition PushOwnedValue :: "tvm_value \<Rightarrow> unit stack_action" where
  "PushOwnedValue val =
     (if val \<in> {VInt (-1), VInt 0, VInt 1} then modifyS (\<lambda>elems. elems @ [val])
      else pushOwnedValueChecked val)"

subsection \<open>Depth, inspection and block moves\<close>

definition stack_index :: "stack \<Rightarrow> int \<Rightarrow> nat" where
  "stack_index s i = nat (slen s - 1 - i)"

definition Get :: "int \<Rightarrow> tvm_value stack_action" where
  "Get i = bnd getS (\<lambda>s.
     if i < 0 \<or> i \<ge> slen s then raise errStackUnderflow
     else ret (s ! stack_index s i))"

definition PushAt :: "int \<Rightarrow> unit stack_action" where
  "PushAt i = bnd getS (\<lambda>s.
     if i < 0 \<or> i \<ge> slen s then raise errStackUnderflow
     else PushAny (s ! stack_index s i))"

definition Drop :: "int \<Rightarrow> unit stack_action" where
  "Drop num = bnd getS (\<lambda>s.
     if num < 0 \<or> num > slen s then raise errStackUnderflow
     else modifyS (\<lambda>elems. take (length elems - nat num) elems))"

definition DropMany :: "int \<Rightarrow> int \<Rightarrow> unit stack_action" where
  "DropMany num offs = bnd getS (\<lambda>s.
     if num < 0 \<or> num > slen s \<or> offs < 0 \<or> offs > slen s - num then raise errStackUnderflow
     else if num = 0 then ret ()
     else modifyS (\<lambda>elems.
       let e = length elems; n = nat num; k = nat offs in
       take (e - n)
         (take (e - (n + k)) elems @ drop (e - k) elems @ drop (e - n) elems)))"

definition DropAfter :: "int \<Rightarrow> unit stack_action" where
  "DropAfter num = bnd getS (\<lambda>s.
     if num < 0 \<or> num > slen s then raise errStackUnderflow
     else modifyS (\<lambda>elems. drop (length elems - nat num) elems))"

definition PopSwapAt :: "int \<Rightarrow> unit stack_action" where
  "PopSwapAt i = bnd getS (\<lambda>s.
     if i < 0 \<or> i \<ge> slen s then raise errStackUnderflow
     else modifyS (\<lambda>elems. butlast (elems[stack_index elems i := last elems])))"

definition Exchange :: "int \<Rightarrow> int \<Rightarrow> unit stack_action" where
  "Exchange a b = bnd getS (\<lambda>s.
     if (a < 0 \<or> a \<ge> slen s) \<or> (b < 0 \<or> b \<ge> slen s) then raise errStackUnderflow
     else modifyS (\<lambda>elems.
       let i = stack_index elems a; j = stack_index elems b in
       elems[i := elems ! j, j := elems ! i]))"

text \<open>The in-place loop of \<open>Reverse\<close>: two cursors that swap and move towards each other.\<close>

function reverse_loop :: "int \<Rightarrow> int \<Rightarrow> stack \<Rightarrow> stack" where
  "reverse_loop l r elems =
     (if l < r then
        reverse_loop (l + 1) (r - 1)
          (elems[nat l := elems ! nat r, nat r := elems ! nat l])
      else elems)"
  by pat_completeness auto
termination
  by (relation "measure (\<lambda>(l, r, elems). nat (r - l))") auto

declare reverse_loop.simps [simp del]

definition Reverse :: "int \<Rightarrow> int \<Rightarrow> unit stack_action" where
  "Reverse from to = bnd getS (\<lambda>s.
     if from < 0 \<or> to < 0 \<or> from > slen s \<or> to > slen s \<or> from < to
     then raise errStackUnderflow
     else modifyS (\<lambda>elems. reverse_loop (slen elems - from) (slen elems - to - 1) elems))"

definition Rotate :: "int \<Rightarrow> int \<Rightarrow> unit stack_action" where
  "Rotate from to = bnd getS (\<lambda>s.
     if from < 0 \<or> to < 0 \<or> from + to \<le> 0 \<or> from + to > slen s
     then raise errStackUnderflow
     else seq (Reverse (slen s) (from + to))
         (seq (Reverse (from + to) 0)
              (Reverse (slen s) 0)))"

definition FromTop :: "int \<Rightarrow> int stack_action" where
  "FromTop offset = bnd getS (\<lambda>s.
     if offset < 0 \<or> offset \<ge> slen s then raise errStackUnderflow
     else ret (slen s - 1 - offset))"

text \<open>
  \<open>MoveFrom\<close> and \<open>SplitTop\<close> involve two stacks; both are returned.  \<open>SplitTop\<close> returns the new
  stack of the top \<open>top\<close> entries and leaves the receiver without these and the \<open>drop\<close> entries below.
\<close>

definition MoveFrom :: "stack \<Rightarrow> stack \<Rightarrow> int \<Rightarrow> go_error + stack \<times> stack" where
  "MoveFrom s frm num =
     (if num < 0 \<or> slen frm < num then Inl errStackUnderflow
      else let k = length frm - nat num in Inr (s @ drop k frm, take k frm))"

definition SplitTop :: "int \<Rightarrow> int \<Rightarrow> stack stack_action" where
  "SplitTop tp drp = bnd getS (\<lambda>s.
     if tp < 0 \<or> drp < 0 \<or> tp > slen s \<or> drp > slen s - tp then raise errStackUnderflow
     else bnd (if tp \<noteq> 0
               then (case MoveFrom [] s tp of
                       Inl e \<Rightarrow> raise e
                     | Inr (new, rest) \<Rightarrow> seq (modifyS (\<lambda>_. rest)) (ret new))
               else ret [])
       (\<lambda>new. seq (if drp \<noteq> 0 then Drop drp else ret ()) (ret new)))"

definition Clear :: "unit stack_action" where
  "Clear = modifyS (\<lambda>_. [])"

subsection \<open>Popping\<close>

definition PopAny :: "tvm_value stack_action" where
  "PopAny = bnd getS (\<lambda>s.
     if s = [] then raise errStackUnderflow
     else seq (modifyS butlast) (ret (last s)))"

text \<open>A popped integer is an option: \<open>None\<close> is the nil that stands for NaN.\<close>

definition PopInt :: "int option stack_action" where
  "PopInt = bnd PopAny (\<lambda>e.
     case e of VNaN \<Rightarrow> ret None | VInt v \<Rightarrow> ret (Some v) | _ \<Rightarrow> raise errTypeCheck)"

definition PopIntRead :: "int option stack_action" where
  "PopIntRead = bnd PopAny (\<lambda>e.
     case e of VNaN \<Rightarrow> ret None | VInt v \<Rightarrow> ret (Some v) | _ \<Rightarrow> raise errTypeCheck)"

definition PopIntFinite :: "int stack_action" where
  "PopIntFinite = bnd PopInt (\<lambda>e. case e of None \<Rightarrow> raise errIntOverflow | Some v \<Rightarrow> ret v)"

definition PopIntFiniteRead :: "int stack_action" where
  "PopIntFiniteRead =
     bnd PopIntRead (\<lambda>e. case e of None \<Rightarrow> raise errIntOverflow | Some v \<Rightarrow> ret v)"

definition PopBool :: "bool stack_action" where
  "PopBool = bnd PopAny (\<lambda>e.
     case e of VNaN \<Rightarrow> raise errIntOverflow | VInt v \<Rightarrow> ret (v \<noteq> 0) | _ \<Rightarrow> raise errTypeCheck)"

definition PopCell :: "cell stack_action" where
  "PopCell = bnd PopAny (\<lambda>e. case e of VCell (Some c) \<Rightarrow> ret c | _ \<Rightarrow> raise errTypeCheck)"

definition PopMaybeCell :: "cell option stack_action" where
  "PopMaybeCell = bnd PopAny (\<lambda>e.
     case e of VNull \<Rightarrow> ret None | VCell (Some c) \<Rightarrow> ret (Some c) | _ \<Rightarrow> raise errTypeCheck)"

definition PopContinuation :: "continuation stack_action" where
  "PopContinuation = bnd PopAny (\<lambda>e.
     case e of
       VCont c \<Rightarrow> if c = NullCont then raise errTypeCheck else ret c
     | _ \<Rightarrow> raise errTypeCheck)"

definition PopBuilder :: "builder stack_action" where
  "PopBuilder = bnd PopAny (\<lambda>e. case e of VBuilder (Some b) \<Rightarrow> ret b | _ \<Rightarrow> raise errTypeCheck)"

definition PopSlice :: "slice stack_action" where
  "PopSlice = bnd PopAny (\<lambda>e. case e of VSlice (Some b) \<Rightarrow> ret b | _ \<Rightarrow> raise errTypeCheck)"

definition PopTuple :: "tvm_value list stack_action" where
  "PopTuple = bnd PopAny (\<lambda>e. case e of VTuple (Some t) \<Rightarrow> ret t | _ \<Rightarrow> raise errTypeCheck)"

definition PopTupleRange :: "int \<Rightarrow> int \<Rightarrow> tvm_value list stack_action" where
  "PopTupleRange mx lower = bnd PopAny (\<lambda>e.
     case e of
       VTuple (Some t) \<Rightarrow>
         if (mx \<ge> 0 \<and> slen t > mx) \<or> slen t < lower then raise errTypeCheck else ret t
     | _ \<Rightarrow> raise errTypeCheck)"

definition PopMaybeTupleRange :: "int \<Rightarrow> tvm_value list option stack_action" where
  "PopMaybeTupleRange mx = bnd PopAny (\<lambda>e.
     case e of
       VNull \<Rightarrow> ret None
     | VTuple (Some t) \<Rightarrow> if mx \<ge> 0 \<and> slen t > mx then raise errTypeCheck else ret (Some t)
     | _ \<Rightarrow> raise errTypeCheck)"

definition PopIntRange :: "int \<Rightarrow> int \<Rightarrow> int stack_action" where
  "PopIntRange mn mx = bnd PopInt (\<lambda>e.
     case e of
       None \<Rightarrow> raise errRangeCheck
     | Some v \<Rightarrow>
         if \<not> is_int64 v then raise errRangeCheck
         else if v < mn \<or> v > mx then raise errRangeCheck else ret v)"

definition PopIntRangeInt64 :: "int \<Rightarrow> int \<Rightarrow> int stack_action" where
  "PopIntRangeInt64 mn mx = bnd PopAny (\<lambda>e.
     case e of
       VNaN \<Rightarrow> raise errRangeCheck
     | VInt v \<Rightarrow>
         if \<not> is_int64 v then raise errRangeCheck
         else if v < mn \<or> v > mx then raise errRangeCheck else ret v
     | _ \<Rightarrow> raise errTypeCheck)"

subsection \<open>Preservation of well-formed stacks\<close>

named_theorems stack_keeps \<open>every stack operation keeps well-formedness\<close>

abbreviation Sk :: "'a stack_action \<Rightarrow> ('a \<Rightarrow> bool) \<Rightarrow> bool" where
  "Sk \<equiv> keeps stack_ok"

lemma Sk_append: "val_ok v \<Longrightarrow> Sk (modifyS (\<lambda>elems. elems @ [v])) (\<lambda>_. True)"
  by (rule keeps_modifyS) simp

lemma Sk_pushStaticInt [stack_keeps]: "fitsTVMInt v \<Longrightarrow> Sk (pushStaticInt v) (\<lambda>_. True)"
  unfolding pushStaticInt_def by (rule Sk_append) simp

lemma Sk_PushBool [stack_keeps]: "Sk (PushBool v) (\<lambda>_. True)"
  unfolding PushBool_def by (auto intro!: stack_keeps simp: fitsTVMInt_iff)

lemma Sk_PushAny [stack_keeps]: "val_ok v \<Longrightarrow> Sk (PushAny v) (\<lambda>_. True)"
  unfolding PushAny_def by (auto intro: Sk_append)

lemma Sk_PushInt [stack_keeps]: "Sk (PushInt v) (\<lambda>_. True)"
  unfolding PushInt_def by (auto intro!: stack_keeps keeps_intros)

lemma Sk_PushOwnedInt [stack_keeps]: "Sk (PushOwnedInt v) (\<lambda>_. True)"
  unfolding PushOwnedInt_def by (auto intro!: stack_keeps keeps_intros)

lemma Sk_PushIntQuiet [stack_keeps]: "Sk (PushIntQuiet v) (\<lambda>_. True)"
  unfolding PushIntQuiet_def by (auto intro!: stack_keeps keeps_intros)

lemma Sk_PushOwnedIntQuiet [stack_keeps]: "Sk (PushOwnedIntQuiet v) (\<lambda>_. True)"
  unfolding PushOwnedIntQuiet_def by (auto intro!: stack_keeps keeps_intros)

lemma Sk_PushSmallInt [stack_keeps]: "Sk (PushSmallInt v) (\<lambda>_. True)"
  unfolding PushSmallInt_def
  by (auto intro!: stack_keeps keeps_intros
      simp: stackStaticInt_def stackStaticIntMin_def stackStaticIntMax_def fitsTVMInt_iff
      split: option.splits if_splits)

lemma Sk_PushTuple [stack_keeps]: "tuple_ok t \<Longrightarrow> Sk (PushTuple t) (\<lambda>_. True)"
  unfolding PushTuple_def by (rule Sk_PushAny)

lemma Sk_PushContinuation [stack_keeps]:
  "(\<And>k. c = Some k \<Longrightarrow> cont_ok k) \<Longrightarrow> Sk (PushContinuation c) (\<lambda>_. True)"
  unfolding PushContinuation_def
  by (auto intro!: stack_keeps keeps_intros split: option.splits)

lemma Sk_PushOwnedContinuation [stack_keeps]:
  "(\<And>k. c = Some k \<Longrightarrow> cont_ok k) \<Longrightarrow> Sk (PushOwnedContinuation c) (\<lambda>_. True)"
  unfolding PushOwnedContinuation_def canonicalOwnedContinuation_def
  by (rule Sk_append) (cases c; auto)

lemma Sk_pushCells [stack_keeps]: "Sk (PushBuilder b) (\<lambda>_. True)" "Sk (PushSlice s) (\<lambda>_. True)"
  "Sk (PushCell c) (\<lambda>_. True)" "Sk (PushMaybeCell c) (\<lambda>_. True)"
  unfolding PushBuilder_def PushSlice_def PushMaybeCell_def PushCell_def
  by (auto intro!: stack_keeps keeps_intros)

lemma Sk_PushMaybeTuple [stack_keeps]:
  "(\<And>u. t = Some u \<Longrightarrow> tuple_ok u) \<Longrightarrow> Sk (PushMaybeTuple t) (\<lambda>_. True)"
  unfolding PushMaybeTuple_def by (cases t) (auto intro!: stack_keeps keeps_intros)

lemma Sk_PushOwnedValue [stack_keeps]: "val_ok v \<Longrightarrow> Sk (PushOwnedValue v) (\<lambda>_. True)"
  unfolding PushOwnedValue_def pushOwnedValueChecked_def
  by (cases v) (auto intro!: Sk_append keeps_intros)

lemma stack_index_less: "0 \<le> i \<Longrightarrow> i < slen s \<Longrightarrow> stack_index s i < length s"
  by (simp add: stack_index_def nat_less_iff)

lemma stack_ok_entry: "stack_ok s \<Longrightarrow> \<not> i < 0 \<Longrightarrow> \<not> slen s \<le> i \<Longrightarrow> val_ok (s ! stack_index s i)"
  by (rule list_all_nthI) (auto intro!: stack_index_less)

lemma Sk_Get [stack_keeps]: "Sk (Get i) val_ok"
  by (rule keepsI) (auto simp: Get_def act_simps intro: stack_ok_entry split: if_splits)

lemma Sk_PushAt [stack_keeps]: "Sk (PushAt i) (\<lambda>_. True)"
  by (rule keepsI)
    (auto simp: PushAt_def PushAny_def act_simps intro: stack_ok_entry split: if_splits)

lemma Sk_Drop [stack_keeps]: "Sk (Drop n) (\<lambda>_. True)"
  by (rule keepsI) (auto simp: Drop_def act_simps intro: list_all_takeI split: if_splits)

lemma Sk_DropMany [stack_keeps]: "Sk (DropMany n k) (\<lambda>_. True)"
  by (rule keepsI)
    (auto simp: DropMany_def Let_def act_simps intro!: list_all_takeI list_all_dropI split: if_splits)

lemma Sk_DropAfter [stack_keeps]: "Sk (DropAfter n) (\<lambda>_. True)"
  by (rule keepsI) (auto simp: DropAfter_def act_simps intro: list_all_dropI split: if_splits)

lemma Sk_PopSwapAt [stack_keeps]: "Sk (PopSwapAt i) (\<lambda>_. True)"
  by (rule keepsI)
    (auto simp: PopSwapAt_def act_simps intro!: list_all_butlastI list_all_update list_all_lastI [where P = val_ok]
      split: if_splits)

lemma Sk_Exchange [stack_keeps]: "Sk (Exchange a b) (\<lambda>_. True)"
  by (rule keepsI)
    (auto simp: Exchange_def Let_def act_simps intro!: list_all_update stack_ok_entry split: if_splits)

subsection \<open>Reversal\<close>

lemma length_reverse_loop [simp]: "length (reverse_loop l r s) = length s"
  by (induction l r s rule: reverse_loop.induct) (subst reverse_loop.simps, simp)

lemma nth_reverse_loop:
  assumes "0 \<le> l" "r < slen s" "i < length s"
  shows "reverse_loop l r s ! i =
    (if l \<le> int i \<and> int i \<le> r then s ! nat (l + r - int i) else s ! i)"
  using assms
proof (induction l r s rule: reverse_loop.induct)
  case (1 l r s)
  show ?case
  proof (cases "l < r")
    case True
    have IH: "reverse_loop (l + 1) (r - 1) (s[nat l := s ! nat r, nat r := s ! nat l]) ! i =
      (if l + 1 \<le> int i \<and> int i \<le> r - 1
       then s[nat l := s ! nat r, nat r := s ! nat l] ! nat (l + r - int i)
       else s[nat l := s ! nat r, nat r := s ! nat l] ! i)"
      using "1.IH"[OF True] "1.prems" by simp
    have eq: "reverse_loop l r s =
        reverse_loop (l + 1) (r - 1) (s[nat l := s ! nat r, nat r := s ! nat l])"
      using True by (subst reverse_loop.simps) simp
    have rl: "nat r < length s" "nat l < length s"
      using True "1.prems" by auto
    consider "int i = l" | "int i = r" | "int i < l \<or> r < int i" | "l < int i \<and> int i < r"
      by linarith
    then show ?thesis
    proof cases
      case 1
      then have "i = nat l" "nat l \<noteq> nat r" using True by auto
      then show ?thesis using True rl 1 IH by (simp add: eq nth_list_update)
    next
      case 2
      then have "i = nat r" by simp
      then show ?thesis using True rl 2 IH by (simp add: eq nth_list_update)
    next
      case 3
      then have "i \<noteq> nat l" "i \<noteq> nat r" using True "1.prems" by arith+
      then show ?thesis using 3 by (auto simp: eq IH nth_list_update)
    next
      case 4
      then have "nat (l + r - int i) \<noteq> nat l" "nat (l + r - int i) \<noteq> nat r"
        using True "1.prems" by auto
      then show ?thesis using 4 by (simp add: eq IH nth_list_update)
    qed
  next
    case False
    then have "reverse_loop l r s = s" by (subst reverse_loop.simps) simp
    moreover have "int i = l \<and> l = r" if "l \<le> int i \<and> int i \<le> r" using that False by linarith
    ultimately show ?thesis by auto
  qed
qed

lemma reverse_loop_spec_nat:
  assumes "t \<le> f" "f \<le> length s"
  shows "reverse_loop (slen s - int f) (slen s - int t - 1) s =
    take (length s - f) s @ rev (take (f - t) (drop (length s - f) s)) @ drop (length s - t) s"
    (is "?l = ?a @ rev ?m @ ?b")
proof (rule nth_equalityI)
  have lens: "length ?a = length s - f" "length ?m = f - t" using assms by auto
  show "length ?l = length (?a @ rev ?m @ ?b)" using assms by auto
  fix i assume "i < length ?l"
  then have i: "i < length s" by simp
  obtain d where d: "length s = f + d" using assms(2) le_iff_add[of f] by (auto simp: add.commute)
  obtain e where e: "f = t + e" using assms(1) le_iff_add[of t] by auto
  consider "i < d" | k where "i = d + k" "k < e" | k where "i = d + e + k"
    by (metis add.assoc le_iff_add not_less)
  then show "?l ! i = (?a @ rev ?m @ ?b) ! i"
  proof cases
    case 1
    then show ?thesis using i by (simp add: nth_reverse_loop nth_append d)
  next
    case (2 k)
    have "?l ! i = s ! nat (slen s - int f + (slen s - int t - 1) - int i)"
      using 2 i by (subst nth_reverse_loop) (auto simp: d e)
    also have "nat (slen s - int f + (slen s - int t - 1) - int i) = d + (e - Suc k)"
      using 2 by (simp add: d e)
    also have "s ! (d + (e - Suc k)) = ?m ! (e - Suc k)"
      using 2 by (simp add: d e)
    also have "\<dots> = (?a @ rev ?m @ ?b) ! i"
      using 2 by (simp add: d e nth_append rev_nth)
    finally show ?thesis .
  next
    case (3 k)
    have "?l ! i = s ! i"
      using 3 i by (subst nth_reverse_loop) (auto simp: d e)
    then show ?thesis using 3 by (simp add: d e nth_append algebra_simps)
  qed
qed

lemma reverse_loop_spec:
  assumes "0 \<le> to" "to \<le> from" "from \<le> slen s"
  shows "reverse_loop (slen s - from) (slen s - to - 1) s =
    take (length s - nat from) s @
    rev (take (nat from - nat to) (drop (length s - nat from) s)) @
    drop (length s - nat to) s"
  using reverse_loop_spec_nat [of "nat to" "nat from" s] assms by simp

lemma Reverse_apply:
  assumes "0 \<le> to" "to \<le> from" "from \<le> slen s"
  shows "Reverse from to s = (Inr (),
    take (length s - nat from) s @
    rev (take (nat from - nat to) (drop (length s - nat from) s)) @
    drop (length s - nat to) s)"
  using assms by (simp add: Reverse_def act_simps reverse_loop_spec)

lemma Sk_Reverse [stack_keeps]: "Sk (Reverse from to) (\<lambda>_. True)"
proof (rule keepsI, goal_cases)
  case (1 s)
  show ?case
  proof (cases "from < 0 \<or> to < 0 \<or> from > slen s \<or> to > slen s \<or> from < to")
    case True then show ?thesis using 1 by (simp add: Reverse_def act_simps)
  next
    case False
    then have "Reverse from to s = (Inr (),
      take (length s - nat from) s @
      rev (take (nat from - nat to) (drop (length s - nat from) s)) @
      drop (length s - nat to) s)"
      by (intro Reverse_apply) auto
    then show ?thesis using 1 by (simp add: list_all_takeI list_all_dropI)
  qed
qed simp

subsection \<open>Popping keeps the stack well-formed\<close>

abbreviation int_ok :: "int option \<Rightarrow> bool" where
  "int_ok r \<equiv> (case r of None \<Rightarrow> True | Some v \<Rightarrow> fitsTVMInt v)"

lemma Sk_PopAny [stack_keeps]: "Sk PopAny val_ok"
  by (rule keepsI)
    (auto simp: PopAny_def act_simps intro: list_all_butlastI list_all_lastI [where P = val_ok]
      split: if_splits)

lemma Sk_PopInt [stack_keeps]: "Sk PopInt int_ok"
  unfolding PopInt_def
  by (rule keeps_bnd [OF Sk_PopAny]) (auto intro!: keeps_intros split: tvm_value.splits)

lemma Sk_PopIntRead [stack_keeps]: "Sk PopIntRead int_ok"
  unfolding PopIntRead_def
  by (rule keeps_bnd [OF Sk_PopAny]) (auto intro!: keeps_intros split: tvm_value.splits)

lemma Sk_PopIntFinite [stack_keeps]: "Sk PopIntFinite fitsTVMInt"
  unfolding PopIntFinite_def
  by (rule keeps_bnd [OF Sk_PopInt]) (auto intro!: keeps_intros split: option.splits)

lemma Sk_PopIntFiniteRead [stack_keeps]: "Sk PopIntFiniteRead fitsTVMInt"
  unfolding PopIntFiniteRead_def
  by (rule keeps_bnd [OF Sk_PopIntRead]) (auto intro!: keeps_intros split: option.splits)

lemma Sk_PopBool [stack_keeps]: "Sk PopBool (\<lambda>_. True)"
  unfolding PopBool_def
  by (rule keeps_bnd [OF Sk_PopAny]) (auto intro!: keeps_intros split: tvm_value.splits)

lemma Sk_PopCell [stack_keeps]: "Sk PopCell (\<lambda>_. True)"
  unfolding PopCell_def
  by (rule keeps_bnd [OF Sk_PopAny]) (auto intro!: keeps_intros split: tvm_value.splits option.splits)

lemma Sk_PopMaybeCell [stack_keeps]: "Sk PopMaybeCell (\<lambda>_. True)"
  unfolding PopMaybeCell_def
  by (rule keeps_bnd [OF Sk_PopAny]) (auto intro!: keeps_intros split: tvm_value.splits option.splits)

lemma Sk_PopContinuation [stack_keeps]: "Sk PopContinuation cont_ok"
  unfolding PopContinuation_def
  by (rule keeps_bnd [OF Sk_PopAny]) (auto intro!: keeps_intros split: tvm_value.splits)

lemma Sk_PopBuilder [stack_keeps]: "Sk PopBuilder (\<lambda>_. True)"
  unfolding PopBuilder_def
  by (rule keeps_bnd [OF Sk_PopAny]) (auto intro!: keeps_intros split: tvm_value.splits option.splits)

lemma Sk_PopSlice [stack_keeps]: "Sk PopSlice (\<lambda>_. True)"
  unfolding PopSlice_def
  by (rule keeps_bnd [OF Sk_PopAny]) (auto intro!: keeps_intros split: tvm_value.splits option.splits)

lemma Sk_PopTuple [stack_keeps]: "Sk PopTuple (\<lambda>t. tuple_ok (Some t))"
  unfolding PopTuple_def
  by (rule keeps_bnd [OF Sk_PopAny]) (auto intro!: keeps_intros split: tvm_value.splits option.splits)

lemma Sk_PopTupleRange [stack_keeps]:
  "Sk (PopTupleRange mx lower) (\<lambda>t. tuple_ok (Some t) \<and> lower \<le> slen t \<and> (0 \<le> mx \<longrightarrow> slen t \<le> mx))"
  unfolding PopTupleRange_def
  by (rule keeps_bnd [OF Sk_PopAny])
    (auto intro!: keeps_intros split: tvm_value.splits option.splits)

lemma Sk_PopMaybeTupleRange [stack_keeps]:
  "Sk (PopMaybeTupleRange mx) (\<lambda>r. tuple_ok r)"
  unfolding PopMaybeTupleRange_def
  by (rule keeps_bnd [OF Sk_PopAny])
    (auto intro!: keeps_intros split: tvm_value.splits option.splits)

lemma Sk_PopIntRange [stack_keeps]: "Sk (PopIntRange mn mx) (\<lambda>v. mn \<le> v \<and> v \<le> mx)"
  unfolding PopIntRange_def
  by (rule keeps_bnd [OF Sk_PopInt]) (auto intro!: keeps_intros split: option.splits)

lemma Sk_PopIntRangeInt64 [stack_keeps]: "Sk (PopIntRangeInt64 mn mx) (\<lambda>v. mn \<le> v \<and> v \<le> mx)"
  unfolding PopIntRangeInt64_def
  by (rule keeps_bnd [OF Sk_PopAny]) (auto intro!: keeps_intros split: tvm_value.splits)

lemma Sk_Clear [stack_keeps]: "Sk Clear (\<lambda>_. True)"
  unfolding Clear_def by (rule keeps_modifyS) simp

lemma SplitTop_apply:
  "SplitTop tp drp s =
     (if tp < 0 \<or> drp < 0 \<or> tp > slen s \<or> drp > slen s - tp then (Inl errStackUnderflow, s)
      else (Inr (drop (length s - nat tp) s), take (length s - nat tp - nat drp) s))"
  by (auto simp: SplitTop_def MoveFrom_def Drop_def Let_def act_simps min_def)

lemma Sk_SplitTop [stack_keeps]: "Sk (SplitTop tp drp) stack_ok"
  by (rule keepsI) (auto simp: SplitTop_apply intro: list_all_takeI list_all_dropI split: if_splits)

subsection \<open>Permutations of the stack\<close>

lemma Exchange_apply:
  "Exchange a b s =
     (if 0 \<le> a \<and> a < slen s \<and> 0 \<le> b \<and> b < slen s
      then (Inr (), s[stack_index s a := s ! stack_index s b, stack_index s b := s ! stack_index s a])
      else (Inl errStackUnderflow, s))"
  by (auto simp: Exchange_def Let_def act_simps)

lemma Exchange_mset: "mset (snd (Exchange a b s)) = mset s"
  by (auto simp: Exchange_apply mset_swap stack_index_less)

lemma Exchange_involutive:
  assumes "0 \<le> a" "a < slen s" "0 \<le> b" "b < slen s"
  shows "seq (Exchange a b) (Exchange a b) s = (Inr (), s)"
  using assms swap_swap_list [of "stack_index s a" s "stack_index s b"]
  by (simp add: seq_apply Exchange_apply stack_index_def)

text \<open>
  Three reversals swap two adjacent blocks: the idiom behind \<open>BLKSWAP\<close>, \<open>BLKSWX\<close> and \<open>Rotate\<close>.
\<close>

lemma Reverse_blocks:
  assumes "length xs = n" "length ys = m"
  shows "Reverse (int n + int m) (int m) (base @ xs @ ys) = (Inr (), base @ rev xs @ ys)"
    and "Reverse (int m) 0 (base @ xs @ ys) = (Inr (), base @ xs @ rev ys)"
    and "Reverse (int n + int m) 0 (base @ xs @ ys) = (Inr (), base @ rev ys @ rev xs)"
  using assms by (simp_all add: Reverse_apply nat_add_distrib)

lemma three_reversals:
  assumes "length xs = n" "length ys = m"
  shows "seq (Reverse (int n + int m) (int m)) (seq (Reverse (int m) 0) (Reverse (int n + int m) 0))
           (base @ xs @ ys) = (Inr (), base @ ys @ xs)"
  using Reverse_blocks [of xs n ys m base] Reverse_blocks [of "rev xs" n ys m base]
    Reverse_blocks [of "rev xs" n "rev ys" m base] assms
  by (simp add: seq_apply)

end
