(* ===== verification/Vm_Gas.thy ===== *)
theory Vm_Gas
  imports Vm_Error
begin

section \<open>Gas accounting\<close>

text \<open>
  \<^verbatim>\<open>src/tvm/vm/gas.go\<close>.  The fields are Go \<open>int64\<close>; they are integers here and every addition and
  subtraction of the source is followed by \<open>wrap64\<close>.  \<open>gas_inv\<close> is the range in which no
  wrap-around happens: a machine whose gas was set up from a non-negative limit and credit stays
  in it, and there the gas used is exactly the sum of the amounts charged.
\<close>

record gas =
  g_Max :: int
  g_Limit :: int
  g_Credit :: int
  g_Remaining :: int
  g_Base :: int
  g_FreeConsumed :: int

record gas_config =
  gc_Max :: int
  gc_Limit :: int
  gc_Credit :: int

definition GasInfinite :: int where
  "GasInfinite = 2 ^ 63 - 1"

definition "CellLoadGasPrice = (100 :: int)"
definition "CellReloadGasPrice = (25 :: int)"
definition "CellCreateGasPrice = (500 :: int)"
definition "ExceptionGasPrice = (50 :: int)"
definition "InstructionBaseGasPrice = (10 :: int)"
definition "TupleEntryGasPrice = (1 :: int)"
definition "ImplicitJmprefGasPrice = (10 :: int)"
definition "ImplicitRetGasPrice = (5 :: int)"
definition "FreeStackDepth = (32 :: int)"
definition "StackEntryGasPrice = (1 :: int)"
definition "GetExtraBalanceCheapCount = (5 :: nat)"
definition "FreeNestedContJump = (8 :: nat)"
definition "SignatureCheckFreeCount = (10 :: nat)"
definition "SignatureCheckGasPrice = (4000 :: int)"

lemmas gas_price_defs =
  CellLoadGasPrice_def CellReloadGasPrice_def CellCreateGasPrice_def ExceptionGasPrice_def
  InstructionBaseGasPrice_def TupleEntryGasPrice_def ImplicitJmprefGasPrice_def
  ImplicitRetGasPrice_def FreeStackDepth_def StackEntryGasPrice_def
  GetExtraBalanceCheapCount_def FreeNestedContJump_def SignatureCheckFreeCount_def
  SignatureCheckGasPrice_def

definition NewGas :: "gas_config option \<Rightarrow> gas" where
  "NewGas cfg =
     (let c = (case cfg of Some c \<Rightarrow> c | None \<Rightarrow> \<lparr>gc_Max = 0, gc_Limit = 0, gc_Credit = 0\<rparr>);
          mx = (if gc_Max c = 0 then GasInfinite else gc_Max c);
          limit = (if gc_Limit c = 0 then mx else gc_Limit c);
          limit' = (if limit > mx then mx else limit);
          base = wrap64 (limit' + gc_Credit c)
      in \<lparr>g_Max = mx, g_Limit = limit', g_Credit = gc_Credit c, g_Remaining = base,
          g_Base = base, g_FreeConsumed = 0\<rparr>)"

definition GasWithLimit :: "int \<Rightarrow> int option \<Rightarrow> gas" where
  "GasWithLimit limit mx =
     (let maxLimit = (case mx of Some m \<Rightarrow> if m \<noteq> 0 then m else GasInfinite | None \<Rightarrow> GasInfinite);
          limit' = (if limit > maxLimit then maxLimit else limit)
      in \<lparr>g_Max = maxLimit, g_Limit = limit', g_Credit = 0, g_Remaining = limit',
          g_Base = limit', g_FreeConsumed = 0\<rparr>)"

definition SetLimits :: "int \<Rightarrow> int \<Rightarrow> int option \<Rightarrow> gas \<Rightarrow> gas" where
  "SetLimits mx limit credit g =
     (let creditVal = (case credit of Some c \<Rightarrow> c | None \<Rightarrow> 0);
          base = wrap64 (limit + creditVal)
      in \<lparr>g_Max = mx, g_Limit = limit, g_Credit = creditVal, g_Remaining = base,
          g_Base = base, g_FreeConsumed = 0\<rparr>)"

definition ChangeBase :: "int \<Rightarrow> gas \<Rightarrow> gas" where
  "ChangeBase base g =
     g\<lparr>g_Remaining := wrap64 (g_Remaining g + wrap64 (base - g_Base g)), g_Base := base\<rparr>"

definition ChangeLimit :: "int \<Rightarrow> gas \<Rightarrow> gas" where
  "ChangeLimit limit g =
     (let l0 = (if limit < 0 then 0 else limit);
          l = (if l0 > g_Max g then g_Max g else l0)
      in ChangeBase l (g\<lparr>g_Credit := 0, g_Limit := l\<rparr>))"

definition Consume :: "int \<Rightarrow> (gas, unit) action" where
  "Consume amount =
     (if amount < 0 then raise (VMError CodeRangeCheck)
      else seq (modifyS (\<lambda>g. g\<lparr>g_Remaining := wrap64 (g_Remaining g - amount)\<rparr>))
        (bnd getS (\<lambda>g. if g_Remaining g < 0 then raise (VMError CodeOutOfGas) else ret ())))"

definition Check :: "(gas, unit) action" where
  "Check = bnd getS (\<lambda>g. if g_Remaining g < 0 then raise (VMError CodeOutOfGas) else ret ())"

definition ConsumeFree :: "int \<Rightarrow> gas \<Rightarrow> gas" where
  "ConsumeFree amount g = g\<lparr>g_FreeConsumed := wrap64 (g_FreeConsumed g + amount)\<rparr>"

definition FlushFree :: "(gas, unit) action" where
  "FlushFree =
     bnd getS (\<lambda>g. if g_FreeConsumed g = 0 then ret ()
       else seq (Consume (g_FreeConsumed g)) (modifyS (\<lambda>g. g\<lparr>g_FreeConsumed := 0\<rparr>)))"

definition Used :: "gas \<Rightarrow> int" where
  "Used g = wrap64 (g_Base g - g_Remaining g)"

subsection \<open>The range without wrap-around\<close>

text \<open>
  \<open>gas_inv\<close>: the base and the limit lie in \<open>[0, 2^63)\<close>, the limit is at most the maximum, and the
  remaining gas is at most the base.  The remaining gas may be negative (after an
  out-of-gas charge), but not below \<open>- 2^63\<close> plus the base.
\<close>

definition gas_inv :: "gas \<Rightarrow> bool" where
  "gas_inv g \<longleftrightarrow> 0 \<le> g_Base g \<and> g_Base g < 2 ^ 63 \<and> 0 \<le> g_Max g \<and> g_Max g < 2 ^ 63 \<and>
     g_Remaining g \<le> g_Base g \<and> g_Base g - g_Remaining g < 2 ^ 63"

lemma gas_invD:
  assumes "gas_inv g"
  shows "0 \<le> g_Base g" "g_Base g < 2 ^ 63" "0 \<le> g_Max g" "g_Max g < 2 ^ 63"
    "g_Remaining g \<le> g_Base g" "g_Base g - g_Remaining g < 2 ^ 63"
  using assms by (simp_all add: gas_inv_def)

lemma Used_exact: "gas_inv g \<Longrightarrow> Used g = g_Base g - g_Remaining g"
  by (simp add: Used_def gas_inv_def wrap64_id is_int64_def)

lemma Used_nonneg: "gas_inv g \<Longrightarrow> 0 \<le> Used g"
  by (simp add: Used_exact gas_inv_def)

lemma Consume_negative: "amount < 0 \<Longrightarrow> Consume amount g = (Inl (VMError CodeRangeCheck), g)"
  by (simp add: Consume_def act_simps)

lemma Consume_apply:
  assumes "gas_inv g" "0 \<le> amount" "Used g + amount < 2 ^ 63"
  shows "Consume amount g =
    (if amount \<le> g_Remaining g then Inr () else Inl (VMError CodeOutOfGas),
     g\<lparr>g_Remaining := g_Remaining g - amount\<rparr>)"
proof -
  have "is_int64 (g_Remaining g - amount)"
    using assms gas_invD [OF assms(1)] by (simp add: is_int64_def Used_exact)
  then show ?thesis
    using assms(2) by (auto simp: Consume_def act_simps wrap64_id)
qed

lemma Consume_gas_inv:
  assumes "gas_inv g" "0 \<le> amount" "Used g + amount < 2 ^ 63"
  shows "gas_inv (snd (Consume amount g)) \<and> Used (snd (Consume amount g)) = Used g + amount"
proof -
  have "gas_inv (g\<lparr>g_Remaining := g_Remaining g - amount\<rparr>)"
    using assms gas_invD [OF assms(1)] by (simp add: gas_inv_def Used_exact)
  then show ?thesis
    using assms by (simp add: Consume_apply Used_exact)
qed

lemma ChangeLimit_apply:
  assumes "gas_inv g" "Used g \<le> limit"
  shows "ChangeLimit limit g =
    g\<lparr>g_Credit := 0, g_Limit := min limit (g_Max g), g_Base := min limit (g_Max g),
      g_Remaining := min limit (g_Max g) - Used g\<rparr>"
proof -
  have pos: "0 \<le> limit"
    using Used_nonneg [OF assms(1)] assms(2) by simp
  note d = gas_invD [OF assms(1)]
  let ?l = "min limit (g_Max g)"
  have l: "(if (if limit < 0 then 0 else limit) > g_Max g then g_Max g else (if limit < 0 then 0 else limit)) = ?l"
    using pos by auto
  have r1: "wrap64 (?l - g_Base g) = ?l - g_Base g"
    using d pos by (intro wrap64_id) (auto simp: is_int64_def)
  have r2: "wrap64 (g_Remaining g + (?l - g_Base g)) = ?l - Used g"
    using d pos Used_exact [OF assms(1)]
    by (subst wrap64_id) (auto simp: is_int64_def)
  show ?thesis
    unfolding ChangeLimit_def ChangeBase_def Let_def l by (simp add: r1 r2)
qed

lemma ChangeLimit_gas_inv:
  assumes "gas_inv g" "Used g \<le> limit"
  shows "gas_inv (ChangeLimit limit g) \<and> Used (ChangeLimit limit g) = Used g"
proof -
  have "gas_inv (ChangeLimit limit g)"
    using assms gas_invD [OF assms(1)] Used_nonneg [OF assms(1)]
    unfolding ChangeLimit_apply [OF assms] by (auto simp: gas_inv_def Used_exact)
  then show ?thesis
    using Used_exact [of "ChangeLimit limit g"] ChangeLimit_apply [OF assms] by simp
qed

end
