(* ===== verification/Vm_Tuple.thy ===== *)
theory Vm_Tuple
  imports Vm_Values Vm_Error
begin

section \<open>Tuples\<close>

text \<open>
  \<^verbatim>\<open>src/tvm/tuple/tuple.go\<close>.  A \<open>Tuple\<close> is a pointer to shared immutable data or nil, so its value is a
  list of entries or \<open>None\<close> (the null tuple, which is not the empty tuple).  A Go \<open>nil\<close> entry is the
  value \<open>VNull\<close>.  The binding id and the snapshot flag track ownership for tracing and are
  left out.
\<close>

definition NewTupleValue :: "tvm_value list \<Rightarrow> tuple" where
  "NewTupleValue vals = Some vals"

definition NewTupleSized :: "int \<Rightarrow> go_error + tuple" where
  "NewTupleSized sz =
     (if sz < 0 then Inl GoPanic else Inr (Some (replicate (nat sz) VNull)))"

definition tuple_Len :: "tuple \<Rightarrow> nat" where
  "tuple_Len t = (case t of None \<Rightarrow> 0 | Some vs \<Rightarrow> length vs)"

definition tuple_Index :: "tuple \<Rightarrow> int \<Rightarrow> go_error + tvm_value" where
  "tuple_Index t i =
     (case t of
        None \<Rightarrow> Inl (VMError CodeRangeCheck)
      | Some vs \<Rightarrow> if i < 0 \<or> i \<ge> int (length vs) then Inl (VMError CodeRangeCheck)
                   else Inr (vs ! nat i))"

definition tuple_Set :: "tuple \<Rightarrow> int \<Rightarrow> tvm_value \<Rightarrow> go_error + tuple" where
  "tuple_Set t i val =
     (case t of
        None \<Rightarrow> Inl (VMError CodeRangeCheck)
      | Some vs \<Rightarrow> if i < 0 \<or> i \<ge> int (length vs) then Inl (VMError CodeRangeCheck)
                   else Inr (Some (vs[nat i := val])))"

definition tuple_Resize :: "tuple \<Rightarrow> int \<Rightarrow> tuple" where
  "tuple_Resize t sz =
     (let n = (if sz < 0 then 0 else nat sz); cur = tuple_Len t in
      if cur = n then t
      else let vs = (case t of None \<Rightarrow> [] | Some vs \<Rightarrow> vs)
           in Some (take n vs @ replicate (n - length vs) VNull))"

definition tuple_PopLast :: "tuple \<Rightarrow> go_error + (tvm_value \<times> tuple)" where
  "tuple_PopLast t =
     (case t of
        None \<Rightarrow> Inl (VMError CodeRangeCheck)
      | Some vs \<Rightarrow> if vs = [] then Inl (VMError CodeRangeCheck)
                   else Inr (last vs, Some (butlast vs)))"

definition tuple_Append :: "tuple \<Rightarrow> tvm_value \<Rightarrow> tuple" where
  "tuple_Append t val = (case t of None \<Rightarrow> Some [val] | Some vs \<Rightarrow> Some (vs @ [val]))"

subsection \<open>Laws\<close>

lemma tuple_Index_Set:
  "tuple_Set t i v = Inr t' \<Longrightarrow>
     tuple_Index t' j = (if j = i then Inr v else tuple_Index t j) \<and> tuple_Len t' = tuple_Len t"
  by (auto simp: tuple_Set_def tuple_Index_def tuple_Len_def nth_list_update
      split: option.splits if_splits)

lemma tuple_PopLast_Append: "tuple_PopLast (tuple_Append (Some vs) v) = Inr (v, Some vs)"
  by (simp add: tuple_PopLast_def tuple_Append_def)

lemma tuple_Len_Resize: "tuple_Len (tuple_Resize t n) = nat n"
  by (auto simp: tuple_Resize_def tuple_Len_def Let_def split: option.splits)

lemma tuple_Index_Resize:
  "tuple_Index (tuple_Resize t n) i =
     (if 0 \<le> i \<and> i < n
      then (if i < int (tuple_Len t) then tuple_Index t i else Inr VNull)
      else Inl (VMError CodeRangeCheck))"
  by (auto simp: tuple_Resize_def tuple_Len_def tuple_Index_def Let_def nth_append
      split: option.splits)

lemma list_all_replicate_VNull [simp]: "list_all val_ok (replicate n VNull)"
  by (simp add: list_all_iff)

lemma tuple_ok_Set: "tuple_ok t \<Longrightarrow> val_ok v \<Longrightarrow> tuple_Set t i v = Inr t' \<Longrightarrow> tuple_ok t'"
  by (auto simp: tuple_Set_def list_all_update split: option.splits if_splits)

lemma tuple_ok_Resize: "tuple_ok t \<Longrightarrow> n \<le> 255 \<Longrightarrow> tuple_ok (tuple_Resize t n)"
  by (auto simp: tuple_Resize_def Let_def tuple_Len_def list_all_takeI split: option.splits)

lemma tuple_ok_Index: "tuple_ok t \<Longrightarrow> tuple_Index t i = Inr v \<Longrightarrow> val_ok v"
  by (auto simp: tuple_Index_def list_all_length split: option.splits if_splits)

end
