(* ===== verification/Cell_Bits.thy ===== *)
theory Cell_Bits
  imports Cell_Types
begin

section \<open>Bits inside byte arrays\<close>

text \<open>
  Cell payloads are byte arrays read most significant bit first.  \<open>bitAt d i\<close> is bit \<open>i\<close> of the array; the
  lemmas say which bits a store of one byte, of a big-endian 64-bit word or of a block of bytes
  changes, and what a big-endian read returns.  The word-at-a-time code of \<^verbatim>\<open>builder.go\<close> and
  \<^verbatim>\<open>slice.go\<close> is compared with plain bit sequences through them.
\<close>

definition bitAt :: "byte list \<Rightarrow> nat \<Rightarrow> bool" where
  "bitAt d i = bit (d ! (i div 8)) (7 - i mod 8)"

definition bitsOf :: "byte list \<Rightarrow> nat \<Rightarrow> nat \<Rightarrow> bool list" where
  "bitsOf d from to = map (bitAt d) [from..<to]"

text \<open>\<open>binary.BigEndian.Uint64\<close> and the byte loops that shift bytes into a word.\<close>

definition beWord :: "byte list \<Rightarrow> 64 word" where
  "beWord bs = foldl (\<lambda>v b. push_bit 8 v OR ucast b) 0 bs"

definition beUint64 :: "byte list \<Rightarrow> nat \<Rightarrow> 64 word" where
  "beUint64 d i = beWord (take 8 (drop i d))"

text \<open>The \<open>n\<close> low bytes of a word, most significant first (\<open>PutUint16\<close>, \<open>PutUint32\<close>, \<open>PutUint64\<close>).\<close>

definition beBytesN :: "nat \<Rightarrow> 64 word \<Rightarrow> byte list" where
  "beBytesN n w = map (\<lambda>j. ucast (drop_bit (8 * (n - 1 - j)) w)) [0..<n]"

abbreviation beBytes64 :: "64 word \<Rightarrow> byte list" where
  "beBytes64 \<equiv> beBytesN 8"

text \<open>The \<open>n\<close> low bytes of a number, most significant first (\<open>big.Int.FillBytes\<close>).\<close>

definition be_bytes :: "nat \<Rightarrow> int \<Rightarrow> byte list" where
  "be_bytes n v = map (\<lambda>i. word_of_int (v div 256 ^ (n - 1 - i))) [0..<n]"

text \<open>Overwrite a block of bytes (\<open>copy(d[i:], bs)\<close>, \<open>PutUint64\<close>).\<close>

definition putBytes :: "byte list \<Rightarrow> nat \<Rightarrow> byte list \<Rightarrow> byte list" where
  "putBytes d i bs = take i d @ bs @ drop (i + length bs) d"

definition maskTail :: "nat \<Rightarrow> byte" where
  "maskTail rem = push_bit (8 - rem) 0xFF"

subsection \<open>Unsigned and signed values of bit sequences\<close>

fun uintOf :: "bool list \<Rightarrow> nat" where
  "uintOf [] = 0"
| "uintOf (b # bs) = of_bool b * 2 ^ length bs + uintOf bs"

definition bitsUint :: "nat \<Rightarrow> nat \<Rightarrow> bool list" where
  "bitsUint sz v = map (\<lambda>i. bit v (sz - 1 - i)) [0..<sz]"

definition bitsInt :: "nat \<Rightarrow> int \<Rightarrow> bool list" where
  "bitsInt sz v = map (\<lambda>i. bit v (sz - 1 - i)) [0..<sz]"

definition sintOf :: "bool list \<Rightarrow> int" where
  "sintOf bs = (if bs \<noteq> [] \<and> hd bs then int (uintOf bs) - 2 ^ length bs else int (uintOf bs))"

lemma uintOf_less: "uintOf bs < 2 ^ length bs"
  by (induction bs) (auto simp: of_bool_def)

lemma uintOf_append: "uintOf (xs @ ys) = uintOf xs * 2 ^ length ys + uintOf ys"
  by (induction xs) (simp_all add: algebra_simps power_add)

lemma bit_uintOf: "bit (uintOf bs) k \<longleftrightarrow> k < length bs \<and> bs ! (length bs - 1 - k)"
proof (induction bs arbitrary: k)
  case (Cons b bs)
  have "of_bool b * 2 ^ length bs + uintOf bs = push_bit (length bs) (of_bool b) + uintOf bs"
    by (simp add: push_bit_eq_mult)
  also have "\<dots> = push_bit (length bs) (of_bool b) OR uintOf bs"
    by (rule disjunctive_add) (auto simp: bit_simps Cons.IH)
  finally have eq: "of_bool b * 2 ^ length bs + uintOf bs = push_bit (length bs) (of_bool b) OR uintOf bs" .
  show ?case
    unfolding uintOf.simps eq bit_or_iff Cons.IH
    by (cases k "length bs" rule: linorder_cases) (auto simp: bit_simps nth_Cons' diff_Suc_1)
qed simp

lemma length_bitsUint [simp]: "length (bitsUint sz v) = sz"
  by (simp add: bitsUint_def)

lemma uintOf_bitsUint: "uintOf (bitsUint sz v) = v mod 2 ^ sz"
  by (rule bit_eqI) (auto simp: bit_uintOf bitsUint_def bit_take_bit_iff simp flip: take_bit_eq_mod)

lemma bitsUint_uintOf: "bitsUint (length bs) (uintOf bs) = bs"
  by (rule nth_equalityI) (auto simp: bitsUint_def bit_uintOf)

lemma length_bitsInt [simp]: "length (bitsInt sz v) = sz"
  by (simp add: bitsInt_def)

lemma bitsInt_nth [simp]: "i < sz \<Longrightarrow> bitsInt sz v ! i = bit v (sz - 1 - i)"
  by (simp add: bitsInt_def)

lemma bitsInt_mod: "bitsInt sz (v mod 2 ^ sz) = bitsInt sz v"
  by (auto simp: bitsInt_def bit_take_bit_iff simp flip: take_bit_eq_mod)

lemma uintOf_bitsInt: "int (uintOf (bitsInt sz v)) = v mod 2 ^ sz"
proof -
  have "bitsInt sz v = bitsUint sz (nat (v mod 2 ^ sz))"
    by (rule nth_equalityI) (auto simp: bitsUint_def bit_nat_iff bit_take_bit_iff simp flip: take_bit_eq_mod)
  then show ?thesis by (simp add: uintOf_bitsUint)
qed

lemma sintOf_bitsInt:
  assumes "0 < sz" "- (2 ^ (sz - 1)) \<le> v" "v < 2 ^ (sz - 1)"
  shows "sintOf (bitsInt sz v) = v"
proof -
  have two: "(2 :: int) ^ sz = 2 * 2 ^ (sz - 1)" using assms(1) by (simp flip: power_Suc)
  have ne: "bitsInt sz v \<noteq> []" using assms(1) by (metis length_bitsInt length_0_conv less_irrefl)
  have "hd (bitsInt sz v) = bit v (sz - 1)" using ne assms(1) by (simp add: hd_conv_nth)
  also have "\<dots> = (v < 0)"
  proof (cases "v < 0")
    case True
    then have "drop_bit (sz - 1) v = - 1"
      using assms int_div_pos_eq [of v "2 ^ (sz - 1)" "- 1" "v + 2 ^ (sz - 1)"] by (simp add: drop_bit_eq_div)
    then show ?thesis using True bit_drop_bit_eq [of "sz - 1" v] by (metis add.right_neutral bit_minus_1_iff comp_def possible_bit_int)
  next
    case False
    then have "drop_bit (sz - 1) v = 0"
      using assms by (simp add: drop_bit_eq_div)
    then show ?thesis using False bit_drop_bit_eq [of "sz - 1" v] by (metis add.right_neutral bit_0_eq bot_apply bot_bool_def comp_def)
  qed
  finally have hd: "hd (bitsInt sz v) = (v < 0)" .
  show ?thesis
  proof (cases "v < 0")
    case True
    have "v mod 2 ^ sz = v + 2 ^ sz"
      using True assms two int_mod_pos_eq [of v "2 ^ sz" "- 1" "v + 2 ^ sz"] by simp
    then show ?thesis using True ne hd by (simp add: sintOf_def uintOf_bitsInt)
  next
    case False
    then have "v mod 2 ^ sz = v" using assms two by (simp add: mod_pos_pos_trivial)
    then show ?thesis using False hd by (simp add: sintOf_def uintOf_bitsInt)
  qed
qed

subsection \<open>Reading and writing single bits\<close>

lemma length_bitsOf [simp]: "length (bitsOf d f t) = t - f"
  by (simp add: bitsOf_def)

lemma bitsOf_nth [simp]: "i < t - f \<Longrightarrow> bitsOf d f t ! i = bitAt d (f + i)"
  by (simp add: bitsOf_def)

lemma bitsOf_append: "f \<le> m \<Longrightarrow> m \<le> t \<Longrightarrow> bitsOf d f t = bitsOf d f m @ bitsOf d m t"
  using upt_add_eq_append [of f m "t - m"] by (simp add: bitsOf_def flip: map_append)

lemma take_bitsOf: "take n (bitsOf d f t) = bitsOf d f (min t (f + n))"
  by (simp add: bitsOf_def take_map min_def)

lemma drop_bitsOf: "drop n (bitsOf d f t) = bitsOf d (f + n) t"
  by (simp add: bitsOf_def drop_map)

lemma bitsOf_cong: "(\<And>i. f \<le> i \<Longrightarrow> i < t \<Longrightarrow> bitAt d i = bitAt e i) \<Longrightarrow> bitsOf d f t = bitsOf e f t"
  by (simp add: bitsOf_def)

lemma bitAt_byte: "j < 8 \<Longrightarrow> bitAt d (8 * k + j) = bit (d ! k) (7 - j)"
  by (simp add: bitAt_def)

lemma bitAt_update:
  "k < length d \<Longrightarrow> bitAt (d[k := x]) i = (if i div 8 = k then bit x (7 - i mod 8) else bitAt d i)"
  by (auto simp: bitAt_def)

lemma bit_beWord:
  "bit (beWord bs) k \<longleftrightarrow> k < 64 \<and> k < 8 * length bs \<and> bit (bs ! (length bs - 1 - k div 8)) (k mod 8)"
proof (induction bs arbitrary: k rule: rev_induct)
  case (snoc b bs)
  have "beWord (bs @ [b]) = push_bit 8 (beWord bs) OR ucast b"
    by (simp add: beWord_def)
  moreover have "bit b k \<Longrightarrow> k < 8" by (auto dest: bit_imp_le_length)
  moreover have "8 \<le> k \<Longrightarrow> (k - 8) div 8 = k div 8 - 1 \<and> (k - 8) mod 8 = k mod 8"
    by (simp add: le_div_geq le_mod_geq)
  moreover have "8 \<le> k \<Longrightarrow> k < 8 * length bs + 8 \<Longrightarrow>
      length bs - Suc (k div 8 - 1) = length bs - k div 8 \<and> length bs - k div 8 < length bs"
    by (auto simp: le_div_geq)
  moreover have "8 \<le> k \<Longrightarrow> k < 64 \<Longrightarrow> k - 8 < 64 \<and> (k - 8 < 8 * length bs \<longleftrightarrow> k < 8 * length bs + 8)"
    by linarith
  ultimately show ?case
    by (cases "k < 8") (auto simp: bit_simps snoc.IH nth_append)
qed (simp add: beWord_def)

lemma split63:
  fixes k :: nat
  assumes "k < 64"
  obtains q r q' r' where "q + q' = 7" "r + r' = 7" "k = 8 * q + r" "63 - k = 8 * q' + r'"
proof
  show "k div 8 + (7 - k div 8) = 7"
    using assms by (simp add: less_mult_imp_div_less Suc_leI flip: less_Suc_eq_le)
  moreover show "k mod 8 + (7 - k mod 8) = 7"
    using mod_less_divisor [of 8 k] by linarith
  moreover show "k = 8 * (k div 8) + k mod 8"
    by simp
  ultimately show "63 - k = 8 * (7 - k div 8) + (7 - k mod 8)"
    by linarith
qed

lemma bit_beUint64:
  assumes "i + 8 \<le> length d" "k < 64"
  shows "bit (beUint64 d i) k = bitAt d (8 * i + (63 - k))"
proof -
  obtain q r q' r' where s: "q + q' = 7" "r + r' = 7" "k = 8 * q + r" "63 - k = 8 * q' + r'"
    using split63 [OF assms(2)] .
  have e: "7 - q = q'" "7 - r' = r" "r < 8" "r' < 8" using s by simp_all
  have l: "length (take 8 (drop i d)) = 8" using assms(1) by simp
  have "bit (beUint64 d i) k = bit (take 8 (drop i d) ! q') r"
    using assms(2) e s(3) by (simp add: beUint64_def bit_beWord l del: length_take)
  also have "\<dots> = bit (d ! (i + q')) r"
    using s(1) assms(1) by simp
  also have "\<dots> = bitAt d (8 * (i + q') + r')"
    using bitAt_byte [OF e(4), of d "i + q'"] e(2) by (simp only:)
  finally show ?thesis
    unfolding s(4) by (simp add: algebra_simps)
qed

lemma length_beBytesN [simp]: "length (beBytesN n w) = n"
  by (simp add: beBytesN_def)

lemma length_putBytes [simp]: "i + length bs \<le> length d \<Longrightarrow> length (putBytes d i bs) = length d"
  by (simp add: putBytes_def)

lemma putBytes_nth:
  "i + length bs \<le> length d \<Longrightarrow> k < length d \<Longrightarrow>
   putBytes d i bs ! k = (if i \<le> k \<and> k < i + length bs then bs ! (k - i) else d ! k)"
  by (auto simp: putBytes_def nth_append)

lemma bitAt_putBytes:
  assumes "i + length bs \<le> length d" "k < 8 * length d"
  shows "bitAt (putBytes d i bs) k =
    (if 8 * i \<le> k \<and> k < 8 * (i + length bs) then bitAt bs (k - 8 * i) else bitAt d k)"
proof -
  have "8 * i \<le> k \<Longrightarrow> (k - 8 * i) div 8 = k div 8 - i \<and> (k - 8 * i) mod 8 = k mod 8"
    by (auto simp: le_iff_add)
  moreover have "i \<le> k div 8 \<and> k div 8 < i + length bs \<longleftrightarrow> 8 * i \<le> k \<and> k < 8 * (i + length bs)"
    by (simp add: div_less_iff_less_mult less_eq_div_iff_mult_less_eq mult.commute)
  ultimately show ?thesis
    using assms by (auto simp: bitAt_def putBytes_nth less_mult_imp_div_less mult.commute)
qed

lemma bitAt_beBytesN:
  assumes "k < 8 * n" shows "bitAt (beBytesN n w) k = bit w (8 * n - 1 - k)"
proof -
  have d: "k div 8 < n" "k mod 8 < 8" "k = 8 * (k div 8) + k mod 8"
    using assms by (simp_all add: less_mult_imp_div_less)
  then have "8 * (n - 1 - k div 8) + (7 - k mod 8) = 8 * n - 1 - k"
    by linarith
  moreover have "7 - k mod 8 < 8" by simp
  ultimately show ?thesis
    using d(1) by (simp add: bitAt_def beBytesN_def bit_simps)
qed

lemma length_be_bytes [simp]: "length (be_bytes n v) = n"
  by (simp add: be_bytes_def)

lemma bitAt_be_bytes:
  assumes "k < 8 * n" shows "bitAt (be_bytes n v) k = bit v (8 * n - 1 - k)"
proof -
  have d: "k div 8 < n" "k mod 8 < 8" "k = 8 * (k div 8) + k mod 8"
    using assms by (simp_all add: less_mult_imp_div_less)
  then have "8 * (n - 1 - k div 8) + (7 - k mod 8) = 8 * n - 1 - k"
    by linarith
  moreover have "7 - k mod 8 < 8" by simp
  moreover have "v div 256 ^ m = drop_bit (8 * m) v" for m
    by (simp add: drop_bit_eq_div power_mult)
  ultimately show ?thesis
    using d(1) by (simp add: bitAt_def be_bytes_def bit_simps)
qed

lemma bitAt_putUint64:
  assumes "i + 8 \<le> length d" "k < 8 * length d"
  shows "bitAt (putBytes d i (beBytes64 w)) k =
    (if 8 * i \<le> k \<and> k < 8 * i + 64 then bit w (63 - (k - 8 * i)) else bitAt d k)"
  using assms by (auto simp: bitAt_putBytes bitAt_beBytesN)

lemma bit_maskTail: "0 < rem \<Longrightarrow> rem < 8 \<Longrightarrow> j < 8 \<Longrightarrow> bit (maskTail rem) (7 - j) \<longleftrightarrow> j < rem"
proof -
  have "(0xFF :: byte) = - 1" by simp
  then show "0 < rem \<Longrightarrow> rem < 8 \<Longrightarrow> j < 8 \<Longrightarrow> ?thesis"
    unfolding maskTail_def by (simp only:) (auto simp: bit_simps)
qed

end
