(* ===== verification/Sha256.thy ===== *)
theory Sha256
  imports Cell_Bits
begin

section \<open>SHA-256\<close>

text \<open>
  The hash \<open>sha256.Sum256\<close> of Go's standard library, which cell hashing calls
  (\<^verbatim>\<open>src/tvm/cell/proof.go\<close>), as an executable function on byte lists: padding to 64-byte blocks,
  the message schedule and the compression rounds over 32-bit words.
\<close>

text \<open>
  The round constants are the first 32 bits of the fractional parts of the cube roots of the first 64
  primes, the initial state those of the square roots of the first eight; the lemmas \<open>sha_K_roots\<close> and
  \<open>sha_H0_roots\<close> at the end of the theory check both tables against that description.
\<close>

definition sha_primes :: "int list" where
  "sha_primes = [
    2, 3, 5, 7, 11, 13, 17, 19, 23, 29, 31, 37, 41, 43, 47, 53,
    59, 61, 67, 71, 73, 79, 83, 89, 97, 101, 103, 107, 109, 113, 127, 131,
    137, 139, 149, 151, 157, 163, 167, 173, 179, 181, 191, 193, 197, 199, 211, 223,
    227, 229, 233, 239, 241, 251, 257, 263, 269, 271, 277, 281, 283, 293, 307, 311]"

definition sha_K :: "32 word list" where
  "sha_K = [
    1116352408, 1899447441, 3049323471, 3921009573, 961987163, 1508970993,
    2453635748, 2870763221, 3624381080, 310598401, 607225278, 1426881987,
    1925078388, 2162078206, 2614888103, 3248222580, 3835390401, 4022224774,
    264347078, 604807628, 770255983, 1249150122, 1555081692, 1996064986,
    2554220882, 2821834349, 2952996808, 3210313671, 3336571891, 3584528711,
    113926993, 338241895, 666307205, 773529912, 1294757372, 1396182291,
    1695183700, 1986661051, 2177026350, 2456956037, 2730485921, 2820302411,
    3259730800, 3345764771, 3516065817, 3600352804, 4094571909, 275423344,
    430227734, 506948616, 659060556, 883997877, 958139571, 1322822218,
    1537002063, 1747873779, 1955562222, 2024104815, 2227730452, 2361852424,
    2428436474, 2756734187, 3204031479, 3329325298]"

definition sha_H0 :: "32 word list" where
  "sha_H0 = [
    1779033703, 3144134277, 1013904242, 2773480762, 1359893119, 2600822924,
    528734635, 1541459225]"

definition rotr32 :: "nat \<Rightarrow> 32 word \<Rightarrow> 32 word" where
  "rotr32 n x = drop_bit n x OR push_bit (32 - n) x"

definition word32_of_bytes :: "byte list \<Rightarrow> 32 word" where
  "word32_of_bytes bs = foldl (\<lambda>acc b. push_bit 8 acc OR ucast b) 0 bs"

fun chunks :: "nat \<Rightarrow> nat \<Rightarrow> 'a list \<Rightarrow> 'a list list" where
  "chunks 0 k xs = []"
| "chunks (Suc n) k xs = take k xs # chunks n k (drop k xs)"

definition sha_pad :: "byte list \<Rightarrow> byte list" where
  "sha_pad m =
     (let l = length m; z = (119 - l mod 64) mod 64 in
      m @ [0x80] @ replicate z 0 @ be_bytes 8 (8 * int l))"

fun sha_schedule :: "nat \<Rightarrow> 32 word list \<Rightarrow> 32 word list" where
  "sha_schedule 0 w = w"
| "sha_schedule (Suc n) w =
     (let i = length w;
          w15 = w ! (i - 15); w2 = w ! (i - 2);
          s0 = rotr32 7 w15 XOR rotr32 18 w15 XOR drop_bit 3 w15;
          s1 = rotr32 17 w2 XOR rotr32 19 w2 XOR drop_bit 10 w2
      in sha_schedule n (w @ [w ! (i - 16) + s0 + w ! (i - 7) + s1]))"

fun sha_round :: "32 word list \<Rightarrow> 32 word \<times> 32 word \<Rightarrow> 32 word list" where
  "sha_round [a, b, c, d, e, f, g, h] (k, w) =
     (let s1 = rotr32 6 e XOR rotr32 11 e XOR rotr32 25 e;
          ch = (e AND f) XOR (NOT e AND g);
          t1 = h + s1 + ch + k + w;
          s0 = rotr32 2 a XOR rotr32 13 a XOR rotr32 22 a;
          maj = (a AND b) XOR (a AND c) XOR (b AND c);
          t2 = s0 + maj
      in [t1 + t2, a, b, c, d + t1, e, f, g])"
| "sha_round st _ = st"

definition sha_block :: "32 word list \<Rightarrow> byte list \<Rightarrow> 32 word list" where
  "sha_block h blk =
     (let w = sha_schedule 48 (map word32_of_bytes (chunks 16 4 blk))
      in map2 (+) h (foldl sha_round h (zip sha_K w)))"

definition sha256 :: "byte list \<Rightarrow> byte list" where
  "sha256 m =
     (let p = sha_pad m
      in concat (map (\<lambda>w. be_bytes 4 (uint w))
           (foldl sha_block sha_H0 (chunks (length p div 64) 64 p))))"

lemma length_sha_round: "length (sha_round h kw) = length h"
  by (induction h kw rule: sha_round.induct) (auto simp: Let_def)

lemma length_foldl_sha_round: "length (foldl sha_round h kws) = length h"
  by (induction kws arbitrary: h) (auto simp: length_sha_round)

lemma length_sha_block: "length (sha_block h b) = length h"
  by (simp add: sha_block_def Let_def length_foldl_sha_round)

lemma length_foldl_sha_block: "length (foldl sha_block h bs) = length h"
  by (induction bs arbitrary: h) (auto simp: length_sha_block)

lemma length_concat_const: "(\<And>x. x \<in> set xs \<Longrightarrow> length (f x) = k) \<Longrightarrow> length (concat (map f xs)) = k * length xs"
  by (induction xs) auto

lemma length_sha256 [simp]: "length (sha256 m) = 32"
  by (simp add: sha256_def Let_def length_concat_const [where k = 4] length_foldl_sha_block sha_H0_def)

text \<open>\<open>rootBits n p r k\<close>: the \<open>n\<close>-th root of \<open>p\<close> has integer part \<open>r\<close> and the 32 bits \<open>k\<close> after the point.\<close>

definition rootBits :: "nat \<Rightarrow> int \<Rightarrow> int \<Rightarrow> 32 word \<Rightarrow> bool" where
  "rootBits n p r k \<longleftrightarrow>
     (r * 2 ^ 32 + uint k) ^ n \<le> p * 2 ^ (32 * n) \<and> p * 2 ^ (32 * n) < (r * 2 ^ 32 + uint k + 1) ^ n"

definition sha_K_int :: "int list" where
  "sha_K_int = replicate 4 1 @ replicate 5 2 @ replicate 9 3 @ replicate 12 4 @ replicate 17 5 @ replicate 17 6"

lemma sha_K_roots: "list_all2 (\<lambda>(p, r) k. rootBits 3 p r k) (zip sha_primes sha_K_int) sha_K"
  by code_simp

lemma sha_H0_roots:
  "list_all2 (\<lambda>(p, r) k. rootBits 2 p r k) (zip sha_primes [1, 1, 2, 2, 3, 3, 4, 4]) sha_H0"
  by code_simp

end
