(* ===== verification/Cell_Hash.thy ===== *)
theory Cell_Hash
  imports Sha256
begin

section \<open>Level masks, cell types, representation hashes and depths\<close>

text \<open>
  \<^verbatim>\<open>src/tvm/cell/level.go\<close>, the type resolution of \<^verbatim>\<open>cell.go\<close>, the descriptors and body of
  \<^verbatim>\<open>serialize.go\<close> and \<^verbatim>\<open>serialize_options.go\<close>, and the hash and depth computation of
  \<^verbatim>\<open>proof.go\<close>.  The code stores the hashes and depths of a cell in the cell; here they are a
  record \<open>cell_info\<close> that \<open>cellInfo\<close> computes from the cell the way \<open>calculateHashes\<close> does,
  children first.  The digest function is an argument: \<open>sha256\<close> is the one the program
  uses, and because depths do not depend on it (\<open>cellInfo_depth_digest\<close>), \<open>Depth\<close> evaluates the
  same loop with a constant digest.
\<close>

subsection \<open>Level masks\<close>

definition len8 :: "byte \<Rightarrow> nat" where
  "len8 b = length (dropWhile Not (map (bit b) [7, 6, 5, 4, 3, 2, 1, 0]))"

definition onesCount8 :: "byte \<Rightarrow> nat" where
  "onesCount8 b = length (filter (bit b) [0, 1, 2, 3, 4, 5, 6, 7])"

definition DataCellMaxLevel :: int where
  "DataCellMaxLevel = 3"

definition GetLevel :: "byte \<Rightarrow> nat" where
  "GetLevel m = len8 m"

definition getHashIndex :: "byte \<Rightarrow> nat" where
  "getHashIndex m = onesCount8 m"

definition getHashesCount :: "byte \<Rightarrow> nat" where
  "getHashesCount m = getHashIndex m + 1"

definition Apply :: "byte \<Rightarrow> int \<Rightarrow> byte" where
  "Apply m level =
     (let level' = (if level < 0 then DataCellMaxLevel else level)
      in m AND (push_bit (nat level') 1 - 1))"

definition IsSignificant :: "byte \<Rightarrow> int \<Rightarrow> bool" where
  "IsSignificant m level =
     (let level' = (if level < 0 then DataCellMaxLevel else level)
      in level' = 0 \<or> drop_bit (nat (level' - 1)) m mod 2 \<noteq> 0)"

definition oneLevelMask :: "int \<Rightarrow> byte" where
  "oneLevelMask level = (if level = 0 then 0 else push_bit (nat (level - 1)) 1)"

definition setLevelMask :: "byte \<Rightarrow> byte" where
  "setLevelMask m = m AND 7"

subsection \<open>Cell types\<close>

datatype cell_type =
    OrdinaryCellType | PrunedCellType | LibraryCellType
  | MerkleProofCellType | MerkleUpdateCellType | UnknownCellType

definition typeByte :: "cell_type \<Rightarrow> byte" where
  "typeByte t = (case t of OrdinaryCellType \<Rightarrow> 0 | PrunedCellType \<Rightarrow> 1 | LibraryCellType \<Rightarrow> 2
     | MerkleProofCellType \<Rightarrow> 3 | MerkleUpdateCellType \<Rightarrow> 4 | UnknownCellType \<Rightarrow> 255)"

definition computeType :: "cell \<Rightarrow> cell_type" where
  "computeType c =
     (if \<not> cell_special c then OrdinaryCellType
      else if cell_bitsSz c < 8 then UnknownCellType
      else let t = cell_data c ! 0; n = cell_bitsSz c; refs = length (cell_refs c) in
        if t = typeByte PrunedCellType \<and> n \<ge> 288 \<and>
           (let msk = cell_data c ! 1; lvl = GetLevel msk
            in lvl > 0 \<and> lvl \<le> 3 \<and>
               n \<ge> 16 + (256 + 16) * (getHashIndex (Apply msk (int lvl - 1)) + 1))
        then PrunedCellType
        else if t = typeByte MerkleProofCellType \<and> refs = 1 \<and> n = 280 then MerkleProofCellType
        else if t = typeByte MerkleUpdateCellType \<and> refs = 2 \<and> n = 552 then MerkleUpdateCellType
        else if t = typeByte LibraryCellType \<and> n = 8 + 256 then LibraryCellType
        else UnknownCellType)"

subsection \<open>Descriptors and serialised body\<close>

definition descriptors :: "cell \<Rightarrow> byte \<Rightarrow> byte \<times> byte" where
  "descriptors c lvl =
     (let ln = (cell_bitsSz c div 8) * 2 + (if cell_bitsSz c mod 8 \<noteq> 0 then 1 else 0);
          specBit = (if cell_special c then 8 else 0)
      in (word_of_nat (length (cell_refs c)) + specBit + lvl * 32, word_of_nat ln))"

definition SerializedBOCBodySize :: "cell \<Rightarrow> nat" where
  "SerializedBOCBodySize c = (cell_bitsSz c + 7) div 8"

definition SerializeBOCBodyTo :: "cell \<Rightarrow> byte list" where
  "SerializeBOCBodyTo c =
     (let bodySize = SerializedBOCBodySize c; tailBits = cell_bitsSz c mod 8;
          dst = take bodySize (cell_data c)
      in if bodySize = 0 then []
         else if tailBits \<noteq> 0
         then dst[bodySize - 1 := (dst ! (bodySize - 1)) OR push_bit (7 - tailBits) 1]
         else dst)"

definition bigEndianUint16 :: "byte list \<Rightarrow> nat" where
  "bigEndianUint16 bs = 256 * unat (bs ! 0) + unat (bs ! 1)"

subsection \<open>Hashes and depths\<close>

record cell_info =
  ci_hashes :: "byte list list"
  ci_depths :: "nat list"

type_synonym digest = "byte list \<Rightarrow> byte list"

definition hashAt :: "cell_info \<Rightarrow> nat \<Rightarrow> byte list" where
  "hashAt i n =
     (if n < length (ci_hashes i) then ci_hashes i ! n
      else if length (ci_hashes i) \<le> 1 then [] else replicate 32 0)"

definition depthAt :: "cell_info \<Rightarrow> nat \<Rightarrow> nat" where
  "depthAt i n = (if n < length (ci_depths i) then ci_depths i ! n else 0)"

definition getHash :: "cell \<Rightarrow> cell_info \<Rightarrow> int \<Rightarrow> byte list" where
  "getHash c i level =
     (let levelMask = cell_levelMask c; hashIndex = getHashIndex (Apply levelMask level);
          prunedHashIndex = getHashIndex levelMask
      in if levelMask = 0 then hashAt i 0
         else if computeType c = PrunedCellType
         then (if hashIndex \<noteq> prunedHashIndex
               then take 32 (drop (2 + hashIndex * 32) (cell_data c))
               else hashAt i 0)
         else hashAt i hashIndex)"

definition getDepth :: "cell \<Rightarrow> cell_info \<Rightarrow> int \<Rightarrow> nat" where
  "getDepth c i level =
     (let levelMask = cell_levelMask c; hashIndex = getHashIndex (Apply levelMask level);
          prunedHashIndex = getHashIndex levelMask
      in if levelMask = 0 then depthAt i 0
         else if computeType c = PrunedCellType
         then (if hashIndex \<noteq> prunedHashIndex
               then bigEndianUint16 (take 2 (drop (2 + 32 * prunedHashIndex + hashIndex * 2) (cell_data c)))
               else depthAt i 0)
         else depthAt i hashIndex)"

definition childrenDepth :: "(cell \<times> cell_info) list \<Rightarrow> int \<Rightarrow> go_error + nat" where
  "childrenDepth kids level =
     (let depth = foldl (\<lambda>d k. let cd = getDepth (fst k) (snd k) level in if cd > d then cd else d) 0 kids
      in if kids = [] then Inr depth
         else let depth' = (depth + 1) mod 65536
              in if depth' > maxDepth then Inl (CellError ErrCellDepthLimit) else Inr depth')"

definition hashInput :: "cell \<Rightarrow> (cell \<times> cell_info) list \<Rightarrow> byte \<Rightarrow> byte list \<Rightarrow> int \<Rightarrow> byte list" where
  "hashInput c kids lvlMask content childLevel =
     (let d = descriptors c lvlMask in
      [fst d, snd d] @ content @
      concat (map (\<lambda>k. be_bytes 2 (int (getDepth (fst k) (snd k) childLevel))) kids) @
      concat (map (\<lambda>k. getHash (fst k) (snd k) childLevel) kids))"

definition isMerkle :: "cell_type \<Rightarrow> bool" where
  "isMerkle typ = (typ = MerkleProofCellType \<or> typ = MerkleUpdateCellType)"

definition levelContent :: "cell \<Rightarrow> nat \<Rightarrow> nat \<Rightarrow> int \<Rightarrow> cell_info \<Rightarrow> go_error + byte list" where
  "levelContent c hashIndexOffset hashIndex levelIndex info =
     (let typ = computeType c in
      if hashIndex = hashIndexOffset
      then (if levelIndex \<noteq> 0 \<and> typ \<noteq> PrunedCellType
            then Inl (OtherError ''invalid hash level state'') else Inr (SerializeBOCBodyTo c))
      else (if levelIndex = 0 \<or> typ = PrunedCellType
            then Inl (OtherError ''invalid hash level state'')
            else Inr (hashAt info (hashIndex - hashIndexOffset - 1))))"

fun hashLevels :: "digest \<Rightarrow> cell \<Rightarrow> (cell \<times> cell_info) list \<Rightarrow> nat \<Rightarrow> int list \<Rightarrow> nat \<Rightarrow>
    cell_info \<Rightarrow> go_error + cell_info" where
  "hashLevels sha c kids hashIndexOffset [] hashIndex info = Inr info"
| "hashLevels sha c kids hashIndexOffset (levelIndex # ls) hashIndex info =
     (let levelMask = cell_levelMask c in
      if \<not> IsSignificant levelMask levelIndex
      then hashLevels sha c kids hashIndexOffset ls hashIndex info
      else if hashIndex < hashIndexOffset
      then hashLevels sha c kids hashIndexOffset ls (hashIndex + 1) info
      else case levelContent c hashIndexOffset hashIndex levelIndex info of
          Inl e \<Rightarrow> Inl e
        | Inr content \<Rightarrow>
            let childLevelIndex = (if isMerkle (computeType c) then levelIndex + 1 else levelIndex) in
            (case childrenDepth kids childLevelIndex of
               Inl e \<Rightarrow> Inl e
             | Inr depth \<Rightarrow>
                 hashLevels sha c kids hashIndexOffset ls (hashIndex + 1)
                   \<lparr>ci_hashes = ci_hashes info @
                      [sha (hashInput c kids (Apply levelMask levelIndex) content childLevelIndex)],
                    ci_depths = ci_depths info @ [depth]\<rparr>))"

definition emptyInfo :: cell_info where
  "emptyInfo = \<lparr>ci_hashes = [], ci_depths = []\<rparr>"

text \<open>
  The fast path has its own copy of the two loops over the references: the first writes the depths to
  the buffer and keeps the largest, the second writes the hashes.
\<close>

fun ordinaryDepths :: "(cell \<times> cell_info) list \<Rightarrow> byte list \<Rightarrow> nat \<Rightarrow> byte list \<times> nat" where
  "ordinaryDepths [] hashBuf depth = (hashBuf, depth)"
| "ordinaryDepths (ref # refs) hashBuf depth =
     (let childDepth = getDepth (fst ref) (snd ref) 0;
          hashBuf' = hashBuf @ [word_of_nat (childDepth div 256), word_of_nat childDepth]
      in ordinaryDepths refs hashBuf' (if childDepth > depth then childDepth else depth))"

fun ordinaryHashes :: "(cell \<times> cell_info) list \<Rightarrow> byte list \<Rightarrow> byte list" where
  "ordinaryHashes [] hashBuf = hashBuf"
| "ordinaryHashes (ref # refs) hashBuf = ordinaryHashes refs (hashBuf @ getHash (fst ref) (snd ref) 0)"

definition calculateHashesOrdinary :: "digest \<Rightarrow> cell \<Rightarrow> (cell \<times> cell_info) list \<Rightarrow> go_error + cell_info" where
  "calculateHashesOrdinary sha c kids =
     (let (dsc1, dsc2) = descriptors c 0;
          (hashBuf, depth) = ordinaryDepths kids (dsc1 # dsc2 # SerializeBOCBodyTo c) 0;
          refCnt = length kids;
          depth0 = (if refCnt > 0 then (depth + 1) mod 65536 else depth)
      in if refCnt > 0 \<and> depth0 > maxDepth then Inl (CellError ErrCellDepthLimit)
         else Inr \<lparr>ci_hashes = [sha (ordinaryHashes kids hashBuf)], ci_depths = [depth0]\<rparr>)"

definition calculateHashesLoop :: "digest \<Rightarrow> cell \<Rightarrow> (cell \<times> cell_info) list \<Rightarrow> go_error + cell_info" where
  "calculateHashesLoop sha c kids =
     (let levelMask = cell_levelMask c;
          totalHashCount = getHashIndex levelMask + 1;
          hashCount = (if computeType c = PrunedCellType then 1 else totalHashCount)
      in hashLevels sha c kids (totalHashCount - hashCount)
           (map int [0..<Suc (GetLevel levelMask)]) 0 emptyInfo)"

definition calculateHashes :: "digest \<Rightarrow> cell \<Rightarrow> (cell \<times> cell_info) list \<Rightarrow> go_error + cell_info" where
  "calculateHashes sha c kids =
     (if cell_levelMask c = 0 \<and> computeType c = OrdinaryCellType
      then calculateHashesOrdinary sha c kids
      else calculateHashesLoop sha c kids)"

fun sequence :: "('e + 'a) list \<Rightarrow> 'e + 'a list" where
  "sequence [] = Inr []"
| "sequence (Inl e # xs) = Inl e"
| "sequence (Inr x # xs) = (case sequence xs of Inl e \<Rightarrow> Inl e | Inr ys \<Rightarrow> Inr (x # ys))"

fun cellInfo :: "digest \<Rightarrow> cell \<Rightarrow> go_error + cell_info" where
  "cellInfo sha (Cell d n sp m refs) =
     (case sequence (map (cellInfo sha) refs) of
        Inl e \<Rightarrow> Inl e
      | Inr infos \<Rightarrow> calculateHashes sha (Cell d n sp m refs) (zip refs infos))"

definition infoOf :: "digest \<Rightarrow> cell \<Rightarrow> cell_info" where
  "infoOf sha c = (case cellInfo sha c of Inr i \<Rightarrow> i | Inl _ \<Rightarrow> emptyInfo)"

definition HashKeyAt :: "digest \<Rightarrow> cell \<Rightarrow> int \<Rightarrow> byte list" where
  "HashKeyAt sha c level = getHash c (infoOf sha c) (if level < 0 then DataCellMaxLevel else level)"

definition Hash :: "cell \<Rightarrow> byte list" where
  "Hash c = HashKeyAt sha256 c DataCellMaxLevel"

definition DepthAt :: "cell \<Rightarrow> int \<Rightarrow> nat" where
  "DepthAt c level =
     getDepth c (infoOf (\<lambda>_. []) c) (if level < 0 then DataCellMaxLevel else level)"

definition Depth :: "cell \<Rightarrow> nat" where
  "Depth c = DepthAt c DataCellMaxLevel"

definition Level :: "cell \<Rightarrow> nat" where
  "Level c = GetLevel (cell_levelMask c)"

subsection \<open>Facts about level masks\<close>

lemma len8_0 [simp]: "len8 0 = 0"
  by (simp add: len8_def)

lemma onesCount8_0 [simp]: "onesCount8 0 = 0"
  by (simp add: onesCount8_def)

lemma Apply_0 [simp]: "Apply 0 l = 0"
  by (simp add: Apply_def Let_def)

lemma bit_Apply: "0 \<le> l \<Longrightarrow> bit (Apply m l) n \<longleftrightarrow> bit m n \<and> n < nat l"
  by (auto simp: Apply_def Let_def bit_simps simp flip: mask_eq_exp_minus_1 dest: bit_imp_le_length)

lemma IsSignificant_iff: "0 \<le> l \<Longrightarrow> IsSignificant m l \<longleftrightarrow> l = 0 \<or> bit m (nat (l - 1))"
  by (auto simp: IsSignificant_def Let_def bit_iff_odd_drop_bit even_iff_mod_2_eq_zero)

subsection \<open>The fast path agrees with the loop\<close>

lemma be_bytes_2: "be_bytes 2 (int d) = [word_of_nat (d div 256), word_of_nat d]"
proof -
  have "[0..<2] = [0, 1 :: nat]" by (simp add: upt_rec)
  moreover have "word_of_int (int d div 256) = (word_of_nat (d div 256) :: byte)" by (metis of_int_of_nat_eq of_nat_numeral zdiv_int)
  ultimately show ?thesis by (simp add: be_bytes_def)
qed

lemma ordinaryDepths_eq:
  "ordinaryDepths kids buf d =
     (buf @ concat (map (\<lambda>k. be_bytes 2 (int (getDepth (fst k) (snd k) 0))) kids),
      foldl (\<lambda>d k. let cd = getDepth (fst k) (snd k) 0 in if cd > d then cd else d) d kids)"
  by (induction kids arbitrary: buf d) (simp_all add: Let_def be_bytes_2)

lemma ordinaryHashes_eq: "ordinaryHashes kids buf = buf @ concat (map (\<lambda>k. getHash (fst k) (snd k) 0) kids)"
  by (induction kids arbitrary: buf) simp_all

text \<open>What the fast path computes, in the terms of the general loop.\<close>

lemma calculateHashesOrdinary_eq:
  "calculateHashesOrdinary sha c kids =
     (case childrenDepth kids 0 of
        Inl e \<Rightarrow> Inl e
      | Inr depth \<Rightarrow> Inr \<lparr>ci_hashes = [sha (hashInput c kids 0 (SerializeBOCBodyTo c) 0)], ci_depths = [depth]\<rparr>)"
  by (cases kids) (simp_all add: calculateHashesOrdinary_def childrenDepth_def hashInput_def ordinaryDepths_eq ordinaryHashes_eq
      case_prod_beta Let_def be_bytes_2)

lemma hashLevels_single:
  assumes "cell_levelMask c = 0" "computeType c = OrdinaryCellType"
  shows "calculateHashesLoop sha c kids = calculateHashesOrdinary sha c kids"
  using assms
  by (simp add: calculateHashesLoop_def calculateHashesOrdinary_eq Let_def getHashIndex_def GetLevel_def
      IsSignificant_def levelContent_def isMerkle_def emptyInfo_def split: sum.splits)

subsection \<open>Depths do not depend on the digest\<close>

definition same_depths :: "cell_info \<Rightarrow> cell_info \<Rightarrow> bool" where
  "same_depths i j \<longleftrightarrow> ci_depths i = ci_depths j"

abbreviation same_depths_res :: "go_error + cell_info \<Rightarrow> go_error + cell_info \<Rightarrow> bool" where
  "same_depths_res \<equiv> rel_sum (=) same_depths"

abbreviation same_kids :: "(cell \<times> cell_info) list \<Rightarrow> (cell \<times> cell_info) list \<Rightarrow> bool" where
  "same_kids \<equiv> list_all2 (\<lambda>k k'. fst k = fst k' \<and> same_depths (snd k) (snd k'))"

lemma same_depths_refl: "same_depths i i"
  by (simp add: same_depths_def)

lemma getDepth_same: "same_depths i j \<Longrightarrow> getDepth c i l = getDepth c j l"
  by (simp add: getDepth_def same_depths_def depthAt_def Let_def)

lemma foldl_same_kids:
  assumes "same_kids kids kids'" and "\<And>d k k'. fst k = fst k' \<Longrightarrow> same_depths (snd k) (snd k') \<Longrightarrow> f d k = f d k'"
  shows "foldl f d kids = foldl f d kids'"
  using assms(1) by (induction arbitrary: d rule: list_all2_induct) (auto simp: assms(2))

lemma childrenDepth_same:
  assumes "same_kids kids kids'"
  shows "childrenDepth kids l = childrenDepth kids' l"
proof -
  have "foldl (\<lambda>d k. let cd = getDepth (fst k) (snd k) l in if cd > d then cd else d) 0 kids =
        foldl (\<lambda>d k. let cd = getDepth (fst k) (snd k) l in if cd > d then cd else d) 0 kids'"
    using assms by (rule foldl_same_kids) (metis getDepth_same)
  moreover have "kids = [] \<longleftrightarrow> kids' = []"
    using assms by auto
  ultimately show ?thesis by (simp add: childrenDepth_def)
qed

lemma hashLevels_same:
  assumes "same_kids kids kids'" "same_depths i j"
  shows "same_depths_res (hashLevels sha c kids off ls hi i) (hashLevels sha' c kids' off ls hi j)"
  using assms(2)
proof (induction ls arbitrary: hi i j)
  case (Cons l ls)
  then show ?case
    by (auto simp: Let_def levelContent_def childrenDepth_same [OF assms(1)] same_depths_def
        split: sum.splits)
qed simp

lemma calculateHashes_same:
  assumes "same_kids kids kids'"
  shows "same_depths_res (calculateHashes sha c kids) (calculateHashes sha' c kids')"
  using hashLevels_same [OF assms, of emptyInfo emptyInfo] childrenDepth_same [OF assms]
  by (auto simp: calculateHashes_def calculateHashesLoop_def calculateHashesOrdinary_eq Let_def
      same_depths_def split: sum.splits)

lemma sequence_rel:
  "list_all2 (rel_sum (=) R) xs ys \<Longrightarrow> rel_sum (=) (list_all2 R) (sequence xs) (sequence ys)"
  by (induction rule: list_all2_induct) (auto elim!: rel_sum.cases split: sum.splits)

lemma same_kids_zip:
  "list_all2 same_depths is js \<Longrightarrow> same_kids (zip rs is) (zip rs js)"
  by (auto simp: list_all2_conv_all_nth)

lemma cellInfo_depth_digest:
  "same_depths_res (cellInfo sha c) (cellInfo sha' c)"
proof (induction c)
  case (Cell d n sp m refs)
  then have "list_all2 same_depths_res (map (cellInfo sha) refs) (map (cellInfo sha') refs)"
    by (simp add: list_all2_map1 list_all2_map2 list.rel_refl_strong)
  from sequence_rel [OF this] show ?case
    by (auto elim!: rel_sum.cases split: sum.splits intro!: calculateHashes_same same_kids_zip)
qed

lemma same_depths_infoOf: "same_depths (infoOf sha c) (infoOf sha' c)"
  using cellInfo_depth_digest [of sha c sha']
  by (cases "cellInfo sha c"; cases "cellInfo sha' c") (simp_all add: infoOf_def same_depths_refl)

lemma getDepth_infoOf: "getDepth c (infoOf sha c) l = getDepth c (infoOf sha' c) l"
  by (rule getDepth_same [OF same_depths_infoOf])

end
