(* ===== verification/Vm_State.thy ===== *)
theory Vm_State
  imports Vm_Stack Vm_Gas Vm_Tuple Cell_Hash
begin

section \<open>The machine state\<close>

text \<open>
  \<^verbatim>\<open>src/tvm/vm/state.go\<close>, the set of loaded cells of \<^verbatim>\<open>cell_manager.go\<close> and \<^verbatim>\<open>historical.go\<close>.  The record
  \<open>vm_state\<close> has the fields of \<open>State\<close> that influence results; left out are the trace hooks, the library
  collections and their load limits, the child runner and the two ownership flags that only save
  allocations.
\<close>

subsection \<open>The set of loaded cells\<close>

type_synonym hash_key = "byte list"

text \<open>
  \<open>cellLoadSet\<close>: up to eight keys inline, afterwards a map that also holds the inline keys.  The
  \<open>count\<close> of the source is the length of the inline list.
\<close>

record cell_load_set =
  cls_inline :: "hash_key list"
  cls_spill :: "hash_key set option"

definition cellLoadInlineCapacity :: nat where
  "cellLoadInlineCapacity = 8"

definition emptyLoadSet :: cell_load_set where
  "emptyLoadSet = \<lparr>cls_inline = [], cls_spill = None\<rparr>"

definition cls_add :: "hash_key \<Rightarrow> cell_load_set \<Rightarrow> bool \<times> cell_load_set" where
  "cls_add key s =
     (case cls_spill s of
        Some m \<Rightarrow> if key \<in> m then (False, s) else (True, s\<lparr>cls_spill := Some (insert key m)\<rparr>)
      | None \<Rightarrow>
          if key \<in> set (cls_inline s) then (False, s)
          else if length (cls_inline s) < cellLoadInlineCapacity
          then (True, s\<lparr>cls_inline := cls_inline s @ [key]\<rparr>)
          else (True, s\<lparr>cls_spill := Some (insert key (set (cls_inline s)))\<rparr>))"

definition cls_contains :: "cell_load_set \<Rightarrow> hash_key \<Rightarrow> bool" where
  "cls_contains s key =
     (case cls_spill s of Some m \<Rightarrow> key \<in> m | None \<Rightarrow> key \<in> set (cls_inline s))"

text \<open>
  What gas charging relies on: the answer of \<open>add\<close> is whether the key is new, and afterwards
  exactly the key and the earlier keys are members.
\<close>

locale load_set =
  fixes add :: "'k \<Rightarrow> 's \<Rightarrow> bool \<times> 's" and contains :: "'s \<Rightarrow> 'k \<Rightarrow> bool"
  assumes add_new: "fst (add k s) \<longleftrightarrow> \<not> contains s k"
    and contains_add: "contains (snd (add k s)) k' \<longleftrightarrow> k' = k \<or> contains s k'"
begin

definition add_all :: "'k list \<Rightarrow> 's \<Rightarrow> 's" where
  "add_all ks s = foldl (\<lambda>s k. snd (add k s)) s ks"

lemma contains_add_all: "contains (add_all ks s) k \<longleftrightarrow> k \<in> set ks \<or> contains s k"
  by (induction ks arbitrary: s) (auto simp: add_all_def contains_add)

lemma add_again: "k \<in> set ks \<Longrightarrow> \<not> fst (add k (add_all ks s))"
  by (simp add: add_new contains_add_all)

lemma add_fresh: "k \<notin> set ks \<Longrightarrow> \<not> contains s k \<Longrightarrow> fst (add k (add_all ks s))"
  by (simp add: add_new contains_add_all)

end

interpretation lset: load_set cls_add cls_contains
  by unfold_locales (auto simp: cls_add_def cls_contains_def split: option.splits)

subsection \<open>Historical rules, committed state, state\<close>

text \<open>A gas schedule is a \<open>uint8\<close>; only the three named values are valid.\<close>

type_synonym gas_schedule = "8 word"

definition GasScheduleModern :: gas_schedule where
  "GasScheduleModern = 0"

definition GasSchedule2019 :: gas_schedule where
  "GasSchedule2019 = 1"

definition GasScheduleEarly2020 :: gas_schedule where
  "GasScheduleEarly2020 = 2"

record historical_config =
  h_GasSchedule :: gas_schedule
  h_PopC3Cell :: bool
  h_NoPRNG :: bool
  h_NoBLKDROP2 :: bool
  h_NaNComparison :: bool

definition Historical_Validate :: "historical_config \<Rightarrow> int \<Rightarrow> go_error + unit" where
  "Historical_Validate h globalVersion =
     (if h_GasSchedule h > GasScheduleEarly2020
      then Inl (OtherError ''unknown historical gas schedule'')
      else if globalVersion \<noteq> 0 \<and> (h_GasSchedule h \<noteq> GasScheduleModern \<or> h_PopC3Cell h \<or> h_NoPRNG h \<or> h_NoBLKDROP2 h)
      then Inl (OtherError ''historical configuration requires global version 0'')
      else if h_NaNComparison h \<and> (globalVersion < 0 \<or> globalVersion > 3)
      then Inl (OtherError ''historical NaN comparison requires global version 0 through 3'')
      else Inr ())"

record committed_state =
  cm_Data :: "cell option"
  cm_Actions :: "cell option"
  cm_Committed :: bool

record vm_state =
  st_GlobalVersion :: int
  st_CP :: int
  st_CurrentCode :: slice
  st_Reg :: register
  st_Gas :: gas
  st_loaded :: cell_load_set
  st_pendingErr :: "go_error option"
  st_Stack :: stack
  st_Steps :: nat
  st_SignatureCheckCounter :: nat
  st_GetExtraBalanceCounter :: nat
  st_Committed :: committed_state
  st_maxDataDepth :: nat
  st_Historical :: historical_config
  st_StopOnAccept :: bool

type_synonym 'a vm = "(vm_state, 'a) action"

definition ControlDataAllArgs :: int where
  "ControlDataAllArgs = -1"

definition CPany :: int where
  "CPany = -1"

definition MaxDataDepth :: nat where
  "MaxDataDepth = 512"

definition IsSuccessExitCode :: "int \<Rightarrow> bool" where
  "IsSuccessExitCode code \<longleftrightarrow> code = 0 \<or> code = 1"

definition modernRules :: historical_config where
  "modernRules = \<lparr>h_GasSchedule = GasScheduleModern, h_PopC3Cell = False, h_NoPRNG = False,
     h_NoBLKDROP2 = False, h_NaNComparison = False\<rparr>"

definition NewExecutionState ::
    "int \<Rightarrow> gas \<Rightarrow> cell option \<Rightarrow> tuple \<Rightarrow> stack \<Rightarrow> slice \<Rightarrow> vm_state" where
  "NewExecutionState globalVersion g data c7 stk code =
     (let data' = (case data of None \<Rightarrow> emptyCell | Some d \<Rightarrow> d);
          c7' = (case c7 of None \<Rightarrow> NewTupleValue [] | Some t \<Rightarrow> Some t)
      in \<lparr>st_GlobalVersion = globalVersion, st_CP = 0, st_CurrentCode = code,
          st_Reg = Register
            [Some (QuitCont 0), Some (QuitCont 1), Some ExcQuitCont, Some (QuitCont CodeUnknown)]
            [Some data', Some emptyCell] c7',
          st_Gas = g, st_loaded = emptyLoadSet, st_pendingErr = None, st_Stack = stk, st_Steps = 0,
          st_SignatureCheckCounter = 0, st_GetExtraBalanceCounter = 0,
          st_Committed = \<lparr>cm_Data = None, cm_Actions = None, cm_Committed = False\<rparr>,
          st_maxDataDepth = MaxDataDepth, st_Historical = modernRules, st_StopOnAccept = False\<rparr>)"

abbreviation onStack :: "'a stack_action \<Rightarrow> 'a vm" where
  "onStack \<equiv> lift_field st_Stack st_Stack_update"

abbreviation onGas :: "(gas, 'a) action \<Rightarrow> 'a vm" where
  "onGas \<equiv> lift_field st_Gas st_Gas_update"

subsection \<open>Control registers\<close>

definition regC :: "register \<Rightarrow> nat \<Rightarrow> continuation option" where
  "regC r i = reg_C r ! i"

definition setC :: "nat \<Rightarrow> continuation option \<Rightarrow> register \<Rightarrow> register" where
  "setC i c r = Register ((reg_C r)[i := c]) (reg_D r) (reg_C7 r)"

definition setD :: "nat \<Rightarrow> cell option \<Rightarrow> register \<Rightarrow> register" where
  "setD i d r = Register (reg_C r) ((reg_D r)[i := d]) (reg_C7 r)"

definition setC7 :: "tuple \<Rightarrow> register \<Rightarrow> register" where
  "setC7 t r = Register (reg_C r) (reg_D r) t"

definition AdjustWith :: "register \<Rightarrow> register \<Rightarrow> register" where
  "AdjustWith r r2 = Register
     (map2 (\<lambda>c c2. if IsNullContinuation c2 then c else c2) (reg_C r) (reg_C r2))
     (map2 (\<lambda>d d2. if d2 = None then d else d2) (reg_D r) (reg_D r2))
     (case reg_C7 r2 of None \<Rightarrow> reg_C7 r | Some t \<Rightarrow> Some t)"

definition preclearWith :: "register \<Rightarrow> register \<Rightarrow> register" where
  "preclearWith r save = Register
     (map2 (\<lambda>c c2. if \<not> IsNullContinuation c2 then None else c) (reg_C r) (reg_C save))
     (map2 (\<lambda>d d2. if d2 \<noteq> None then None else d) (reg_D r) (reg_D save))
     (case reg_C7 save of None \<Rightarrow> reg_C7 r | Some t \<Rightarrow> None)"

definition Register_Get :: "register \<Rightarrow> int \<Rightarrow> tvm_value" where
  "Register_Get r i =
     (if 0 \<le> i \<and> i < 4
      then (if IsNullContinuation (regC r (nat i)) then VCont NullCont
            else VCont (the (regC r (nat i))))
      else if i \<ge> 4 \<and> i < 6 then VCell (reg_D r ! nat (i - 4))
      else if i = 7 then VTuple (reg_C7 r)
      else VNull)"

definition Register_Set :: "register \<Rightarrow> int \<Rightarrow> tvm_value \<Rightarrow> bool \<times> register" where
  "Register_Set r i val =
     (if i < 0 then (False, r)
      else if i < 4 then
        (case val of
           VCont c \<Rightarrow> if IsNullContinuation (Some c) then (False, r)
                      else (True, setC (nat i) (Some c) r)
         | _ \<Rightarrow> (False, r))
      else if i < 6 then
        (case val of VCell (Some c) \<Rightarrow> (True, setD (nat (i - 4)) (Some c) r) | _ \<Rightarrow> (False, r))
      else if i = 7 then
        (case val of VTuple (Some t) \<Rightarrow> (True, setC7 (Some t) r) | _ \<Rightarrow> (False, r))
      else (False, r))"

definition Register_Define :: "register \<Rightarrow> int \<Rightarrow> tvm_value \<Rightarrow> bool \<times> register" where
  "Register_Define r i val =
     (if i < 0 then (False, r)
      else if i < 4 then
        (case val of
           VCont c \<Rightarrow>
             if IsNullContinuation (Some c) then (False, r)
             else if \<not> IsNullContinuation (regC r (nat i)) then (False, r)
             else (True, setC (nat i) (Some c) r)
         | _ \<Rightarrow> (False, r))
      else if i < 6 then
        (if reg_D r ! nat (i - 4) \<noteq> None then (False, r) else Register_Set r i val)
      else if i = 7 then
        (case val of
           VTuple (Some t) \<Rightarrow> if reg_C7 r = None then (True, setC7 (Some t) r) else (True, r)
         | _ \<Rightarrow> (False, r))
      else (False, r))"

subsection \<open>Gas at the level of the state\<close>

definition checkGasOnConsume :: "vm_state \<Rightarrow> bool" where
  "checkGasOnConsume s \<longleftrightarrow> st_GlobalVersion s \<ge> 4"

definition ConsumeGas :: "int \<Rightarrow> unit vm" where
  "ConsumeGas amount = bnd getS (\<lambda>s.
     if \<not> checkGasOnConsume s
     then (if amount < 0 then raise (VMError CodeRangeCheck)
           else modifyS (\<lambda>s. s\<lparr>st_Gas := (st_Gas s)\<lparr>g_Remaining := wrap64 (g_Remaining (st_Gas s) - amount)\<rparr>\<rparr>))
     else onGas (Consume amount))"

definition consumeGasChecked :: "int \<Rightarrow> unit vm" where
  "consumeGasChecked amount = onGas (Consume amount)"

definition CheckGas :: "unit vm" where
  "CheckGas = bnd getS (\<lambda>s.
     case st_pendingErr s of Some e \<Rightarrow> raise e | None \<Rightarrow> onGas Check)"

definition ConsumeFreeGas :: "int \<Rightarrow> unit vm" where
  "ConsumeFreeGas amount = modifyS (\<lambda>s. s\<lparr>st_Gas := ConsumeFree amount (st_Gas s)\<rparr>)"

definition FlushFreeGas :: "unit vm" where
  "FlushFreeGas = onGas FlushFree"

definition RegisterSignatureCheckCall :: "unit vm" where
  "RegisterSignatureCheckCall = bnd getS (\<lambda>s.
     if \<not> checkGasOnConsume s then ret ()
     else let n = (st_SignatureCheckCounter s + 1) mod 2 ^ 64 in
       seq (modifyS (\<lambda>s. s\<lparr>st_SignatureCheckCounter := n\<rparr>))
         (if n > SignatureCheckFreeCount then ConsumeGas SignatureCheckGasPrice
          else ConsumeFreeGas SignatureCheckGasPrice))"

definition RegisterGetExtraBalanceCall :: "bool vm" where
  "RegisterGetExtraBalanceCall = bnd getS (\<lambda>s.
     let n = (st_GetExtraBalanceCounter s + 1) mod 2 ^ 64 in
     seq (modifyS (\<lambda>s. s\<lparr>st_GetExtraBalanceCounter := n\<rparr>)) (ret (n \<le> GetExtraBalanceCheapCount)))"

definition RegisterCellLoadKey :: "hash_key \<Rightarrow> unit vm" where
  "RegisterCellLoadKey key = bnd getS (\<lambda>s.
     let (isNew, ld) = cls_add key (st_loaded s) in
     seq (modifyS (\<lambda>s. s\<lparr>st_loaded := ld\<rparr>))
       (if isNew \<or> (st_GlobalVersion s = 0 \<and> h_GasSchedule (st_Historical s) = GasSchedule2019)
        then ConsumeGas CellLoadGasPrice else ConsumeGas CellReloadGasPrice))"

definition RegisterCellLoad :: "cell \<Rightarrow> unit vm" where
  "RegisterCellLoad cl = bnd getS (\<lambda>s.
     let (isNew, ld) = cls_add (Hash cl) (st_loaded s) in
     seq (modifyS (\<lambda>s. s\<lparr>st_loaded := ld\<rparr>))
       (if \<not> isNew
        then (if st_GlobalVersion s = 0 \<and> h_GasSchedule (st_Historical s) = GasSchedule2019
              then ConsumeGas CellLoadGasPrice else ConsumeGas CellReloadGasPrice)
        else ConsumeGas CellLoadGasPrice))"

definition RegisterCellCreate :: "unit vm" where
  "RegisterCellCreate = ConsumeGas CellCreateGasPrice"

definition ConsumeStackGasLen :: "int \<Rightarrow> unit vm" where
  "ConsumeStackGasLen depth =
     (let amt = (if wrap64 depth < FreeStackDepth then FreeStackDepth else wrap64 depth)
      in ConsumeGas ((amt - FreeStackDepth) * StackEntryGasPrice))"

definition ConsumeStackGas :: "stack \<Rightarrow> unit vm" where
  "ConsumeStackGas stk = ConsumeStackGasLen (slen stk)"

definition ConsumeTupleGasLen :: "int \<Rightarrow> unit vm" where
  "ConsumeTupleGasLen len =
     (if len < 0 then raise (VMError CodeRangeCheck) else ConsumeGas (wrap64 len * TupleEntryGasPrice))"

definition PushTupleCharged :: "tuple \<Rightarrow> unit vm" where
  "PushTupleCharged t = seq (ConsumeTupleGasLen (int (tuple_Len t))) (onStack (PushTuple t))"

definition SetGasLimit :: "int \<Rightarrow> unit vm" where
  "SetGasLimit limit = bnd getS (\<lambda>s.
     if limit < Used (st_Gas s) then raise (VMError CodeOutOfGas)
     else seq (modifyS (\<lambda>s. s\<lparr>st_Gas := ChangeLimit limit (st_Gas s)\<rparr>))
       (if st_StopOnAccept s then raise ErrStopOnAccept else ret ()))"

definition HandleOutOfGas :: "unit vm" where
  "HandleOutOfGas = seq (onStack Clear) (bnd getS (\<lambda>s. onStack (PushSmallInt (Used (st_Gas s)))))"

subsection \<open>The context tuple c7 and committing\<close>

definition SetC7 :: "tuple \<Rightarrow> unit vm" where
  "SetC7 t =
     (case t of None \<Rightarrow> raise (VMError CodeTypeCheck)
      | Some vs \<Rightarrow> modifyS (\<lambda>s. s\<lparr>st_Reg := setC7 (Some vs) (st_Reg s)\<rparr>))"

definition GetParam :: "int \<Rightarrow> tvm_value vm" where
  "GetParam idx = bnd getS (\<lambda>s.
     bnd (lift_sum (tuple_Index (reg_C7 (st_Reg s)) 0)) (\<lambda>params.
       case params of
         VTuple (Some p) \<Rightarrow>
           if length p > 255 then raise (VMError CodeTypeCheck)
           else lift_sum (tuple_Index (Some p) idx)
       | _ \<Rightarrow> raise (VMError CodeTypeCheck)))"

definition GetUnpackedConfigTuple :: "tvm_value list vm" where
  "GetUnpackedConfigTuple = bnd (GetParam 14) (\<lambda>v.
     case v of
       VTuple (Some t) \<Rightarrow> if length t > 255 then raise (VMError CodeTypeCheck) else ret t
     | _ \<Rightarrow> raise (VMError CodeTypeCheck))"

definition GetGlobal :: "int \<Rightarrow> tvm_value vm" where
  "GetGlobal idx = bnd getS (\<lambda>s.
     if idx < 0 \<or> idx \<ge> 255 then raise (VMError CodeRangeCheck)
     else if idx \<ge> int (tuple_Len (reg_C7 (st_Reg s))) then ret VNull
     else lift_sum (tuple_Index (reg_C7 (st_Reg s)) idx))"

definition SetGlobal :: "int \<Rightarrow> tvm_value \<Rightarrow> unit vm" where
  "SetGlobal idx val = bnd getS (\<lambda>s.
     let t0 = reg_C7 (st_Reg s);
         grow = (idx \<ge> int (tuple_Len t0));
         tup = (if grow then tuple_Resize t0 (idx + 1) else t0)
     in if idx < 0 \<or> idx \<ge> 255 then raise (VMError CodeRangeCheck)
        else if grow \<and> val = VNull then ret ()
        else (\<lambda>st. case ConsumeTupleGasLen (int (tuple_Len tup)) st of
                (Inl e, st1) \<Rightarrow> (Inl e, snd (SetC7 (NewTupleValue []) st1))
              | (Inr _, st1) \<Rightarrow> bnd (lift_sum (tuple_Set tup idx val)) SetC7 st1))"

definition TryCommitCurrent :: "bool vm" where
  "TryCommitCurrent = bnd getS (\<lambda>s.
     case (reg_D (st_Reg s) ! 0, reg_D (st_Reg s) ! 1) of
       (Some d0, Some d1) \<Rightarrow>
         if Depth d0 > st_maxDataDepth s \<or> Depth d1 > st_maxDataDepth s then ret False
         else if Level d0 \<noteq> 0 \<or> Level d1 \<noteq> 0 then ret False
         else seq (modifyS (\<lambda>s. s\<lparr>st_Committed :=
                \<lparr>cm_Data = Some d0, cm_Actions = Some d1, cm_Committed = True\<rparr>\<rparr>)) (ret True)
     | _ \<Rightarrow> ret False)"

definition ForceCommitCurrent :: "unit vm" where
  "ForceCommitCurrent =
     bnd TryCommitCurrent (\<lambda>ok. if ok then ret () else raise (VMError CodeCellOverflow))"

subsection \<open>Well-formed states\<close>

definition state_ok :: "vm_state \<Rightarrow> bool" where
  "state_ok s \<longleftrightarrow> stack_ok (st_Stack s) \<and> reg_ok (st_Reg s)"

abbreviation Vk :: "'a vm \<Rightarrow> ('a \<Rightarrow> bool) \<Rightarrow> bool" where
  "Vk \<equiv> keeps state_ok"

named_theorems vm_keeps \<open>operations of the machine keep well-formedness\<close>

lemma state_ok_upd [simp]:
  "state_ok (s\<lparr>st_Gas := g\<rparr>) = state_ok s"
  "state_ok (s\<lparr>st_loaded := l\<rparr>) = state_ok s"
  "state_ok (s\<lparr>st_pendingErr := p\<rparr>) = state_ok s"
  "state_ok (s\<lparr>st_CP := cp\<rparr>) = state_ok s"
  "state_ok (s\<lparr>st_CurrentCode := code\<rparr>) = state_ok s"
  "state_ok (s\<lparr>st_Steps := n\<rparr>) = state_ok s"
  "state_ok (s\<lparr>st_SignatureCheckCounter := n\<rparr>) = state_ok s"
  "state_ok (s\<lparr>st_GetExtraBalanceCounter := n\<rparr>) = state_ok s"
  "state_ok (s\<lparr>st_Committed := cm\<rparr>) = state_ok s"
  "state_ok (s\<lparr>st_Stack := stk\<rparr>) = (stack_ok stk \<and> reg_ok (st_Reg s))"
  "state_ok (s\<lparr>st_Reg := r\<rparr>) = (stack_ok (st_Stack s) \<and> reg_ok r)"
  by (simp_all add: state_ok_def)

lemma state_ok_stack: "state_ok s \<Longrightarrow> stack_ok (st_Stack s)"
  and state_ok_reg: "state_ok s \<Longrightarrow> reg_ok (st_Reg s)"
  by (simp_all add: state_ok_def)

lemma Vk_onStack [vm_keeps]: "Sk m Q \<Longrightarrow> Vk (onStack m) Q"
  by (auto simp: keeps_def lift_field_apply state_ok_def split: prod.splits)

lemma Vk_onGas [vm_keeps]: "Vk (onGas m) (\<lambda>_. True)"
  by (auto simp: keeps_def lift_field_apply state_ok_def split: prod.splits)

lemma Vk_ConsumeGas [vm_keeps]: "Vk (ConsumeGas n) (\<lambda>_. True)"
  unfolding ConsumeGas_def by (auto intro!: keeps_intros vm_keeps)

lemma Vk_consumeGasChecked [vm_keeps]: "Vk (consumeGasChecked n) (\<lambda>_. True)"
  unfolding consumeGasChecked_def by (auto intro!: vm_keeps)

lemma Vk_CheckGas [vm_keeps]: "Vk CheckGas (\<lambda>_. True)"
  unfolding CheckGas_def by (auto intro!: keeps_intros vm_keeps)

lemma Vk_FlushFreeGas [vm_keeps]: "Vk FlushFreeGas (\<lambda>_. True)"
  unfolding FlushFreeGas_def by (auto intro!: vm_keeps)

lemma Vk_ConsumeStackGas [vm_keeps]: "Vk (ConsumeStackGas stk) (\<lambda>_. True)"
  unfolding ConsumeStackGas_def ConsumeStackGasLen_def Let_def by (rule vm_keeps)

lemma Vk_ConsumeTupleGasLen [vm_keeps]: "Vk (ConsumeTupleGasLen n) (\<lambda>_. True)"
  unfolding ConsumeTupleGasLen_def by (auto intro!: keeps_intros vm_keeps)

lemma Vk_PushTupleCharged [vm_keeps]: "tuple_ok t \<Longrightarrow> Vk (PushTupleCharged t) (\<lambda>_. True)"
  unfolding PushTupleCharged_def by (intro keeps_intros vm_keeps stack_keeps)

lemma Vk_RegisterCellLoad [vm_keeps]: "Vk (RegisterCellLoad c) (\<lambda>_. True)"
  unfolding RegisterCellLoad_def by (auto intro!: keeps_intros vm_keeps simp: Let_def split: prod.splits)

lemma Vk_SetGasLimit [vm_keeps]: "Vk (SetGasLimit n) (\<lambda>_. True)"
  unfolding SetGasLimit_def by (auto intro!: keeps_intros)

lemma Vk_HandleOutOfGas [vm_keeps]: "Vk HandleOutOfGas (\<lambda>_. True)"
  unfolding HandleOutOfGas_def
  by (intro keeps_seq keeps_getS_bnd vm_keeps stack_keeps)

lemma reg_ok_setC:
  "reg_ok r \<Longrightarrow> (\<And>k. c = Some k \<Longrightarrow> cont_ok k) \<Longrightarrow> reg_ok (setC i c r)"
  by (cases r; cases c) (auto simp: setC_def intro!: list_all_update)

lemma reg_ok_setC7: "reg_ok r \<Longrightarrow> tuple_ok t \<Longrightarrow> reg_ok (setC7 t r)"
  by (cases r) (auto simp: setC7_def)

lemma reg_ok_C7: "reg_ok r \<Longrightarrow> tuple_ok (reg_C7 r)"
  by (cases r) auto

lemma reg_ok_regC: "reg_ok r \<Longrightarrow> i < 4 \<Longrightarrow> regC r i = Some k \<Longrightarrow> cont_ok k"
  by (cases r) (force simp: regC_def list_all_length)

lemma Vk_SetC7 [vm_keeps]: "tuple_ok t \<Longrightarrow> Vk (SetC7 t) (\<lambda>_. True)"
  unfolding SetC7_def
  by (auto intro!: keeps_intros reg_ok_setC7 simp: state_ok_def split: option.splits)

end
