(* ===== verification/Vm_Exec.thy ===== *)
theory Vm_Exec
  imports Vm_State
begin

section \<open>Continuations: jumping, calling and returning\<close>

text \<open>
  The \<open>Jump\<close> methods of \<^verbatim>\<open>src/tvm/vm/continuation.go\<close>, all of \<^verbatim>\<open>src/tvm/vm/exec.go\<close> and
  \<open>ThrowException\<close>, \<open>ForceControlData\<close> of \<^verbatim>\<open>src/tvm/vm/state.go\<close>.  The loop of \<open>JumpTo\<close> is a function with a
  termination proof: the continuation a \<open>Jump\<close> method hands back is always a proper part of the
  one jumped to.  Calling a method of a nil interface is the outcome \<open>GoPanic\<close>.
\<close>

subsection \<open>One jump step\<close>

fun GetControlData :: "continuation \<Rightarrow> control_data option" where
  "GetControlData (OrdinaryCont d _) = Some d"
| "GetControlData (ArgExtCont d _) = Some d"
| "GetControlData _ = None"

definition hasC0 :: "continuation \<Rightarrow> bool" where
  "hasC0 c \<longleftrightarrow> (case GetControlData c of
     None \<Rightarrow> False | Some cd \<Rightarrow> \<not> IsNullContinuation (regC (cd_Save cd) 0))"

definition setStateC :: "nat \<Rightarrow> continuation option \<Rightarrow> unit vm" where
  "setStateC i c = modifyS (\<lambda>s. s\<lparr>st_Reg := setC i c (st_Reg s)\<rparr>)"

definition forceContinuationCodepage :: "int \<Rightarrow> unit vm" where
  "forceContinuationCodepage cp = bnd getS (\<lambda>s.
     if cp = st_CP s then ret ()
     else if cp \<noteq> 0 then raise (VMError CodeInvalidOpcode)
     else modifyS (\<lambda>s. s\<lparr>st_CP := cp\<rparr>))"

definition applyContinuationCodepage :: "int \<Rightarrow> unit vm" where
  "applyContinuationCodepage cp = (if cp = CPany then ret () else forceContinuationCodepage cp)"

definition adoptCurrentCode :: "slice \<Rightarrow> unit vm" where
  "adoptCurrentCode code = modifyS (\<lambda>s. s\<lparr>st_CurrentCode := code\<rparr>)"

definition adjustRegs :: "register \<Rightarrow> unit vm" where
  "adjustRegs r2 = modifyS (\<lambda>s. s\<lparr>st_Reg := AdjustWith (st_Reg s) r2\<rparr>)"

definition excQuitJump :: "continuation option vm" where
  "excQuitJump = (\<lambda>s. case onStack (PopIntRange 0 0xffff) s of
     (Inl e, s1) \<Rightarrow>
       (Inl (handledError (case ErrorCode e of Some code \<Rightarrow> code | None \<Rightarrow> CodeFatal)), s1)
   | (Inr v, s1) \<Rightarrow> (Inl (handledError v), s1))"

definition quitJump :: "int \<Rightarrow> continuation option vm" where
  "quitJump exitCode = raise (handledError exitCode)"

definition ordinaryJump :: "control_data \<Rightarrow> slice \<Rightarrow> continuation option vm" where
  "ordinaryJump d code =
     seq (adjustRegs (cd_Save d)) (seq (adoptCurrentCode code)
       (seq (forceContinuationCodepage (cd_CP d)) (ret None)))"

definition argExtJump :: "control_data \<Rightarrow> continuation \<Rightarrow> continuation option vm" where
  "argExtJump d ext =
     seq (adjustRegs (cd_Save d)) (seq (applyContinuationCodepage (cd_CP d)) (ret (Some ext)))"

definition pushIntJump :: "int \<Rightarrow> continuation \<Rightarrow> continuation option vm" where
  "pushIntJump i next = seq (onStack (PushSmallInt i)) (ret (Some next))"

definition repeatJump :: "int \<Rightarrow> continuation \<Rightarrow> continuation \<Rightarrow> continuation option vm" where
  "repeatJump cnt body after =
     (if cnt \<le> 0 then ret (Some after)
      else if hasC0 body then ret (Some body)
      else seq (setStateC 0 (Some (RepeatCont (wrap64 (cnt - 1)) body after))) (ret (Some body)))"

definition againJump :: "continuation \<Rightarrow> continuation option vm" where
  "againJump body =
     seq (if hasC0 body then ret () else setStateC 0 (Some (AgainCont body))) (ret (Some body))"

definition whileJump ::
    "bool \<Rightarrow> continuation \<Rightarrow> continuation \<Rightarrow> continuation \<Rightarrow> continuation option vm" where
  "whileJump checkCond body cond after =
     (let flipped = WhileCont (\<not> checkCond) body cond after in
      if checkCond then
        bnd (onStack PopBool) (\<lambda>more.
          if \<not> more then ret (Some after)
          else seq (if hasC0 body then ret () else setStateC 0 (Some flipped)) (ret (Some body)))
      else seq (if hasC0 cond then ret () else setStateC 0 (Some flipped)) (ret (Some cond)))"

definition untilJump :: "continuation \<Rightarrow> continuation \<Rightarrow> continuation option vm" where
  "untilJump body after =
     bnd (onStack PopBool) (\<lambda>end.
       if end then ret (Some after)
       else seq (if hasC0 body then ret () else setStateC 0 (Some (UntilCont body after)))
              (ret (Some body)))"

lemmas jump_defs = quitJump_def ordinaryJump_def argExtJump_def pushIntJump_def repeatJump_def
  againJump_def whileJump_def untilJump_def Let_def

text \<open>The method call \<open>c.Jump(state)\<close>, dispatched on the dynamic type of the continuation.\<close>

fun cont_Jump :: "continuation \<Rightarrow> continuation option vm" where
  "cont_Jump NullCont = raise (VMError CodeTypeCheck)"
| "cont_Jump (QuitCont exitCode) = quitJump exitCode"
| "cont_Jump ExcQuitCont = excQuitJump"
| "cont_Jump (OrdinaryCont d code) = ordinaryJump d code"
| "cont_Jump (ArgExtCont d ext) = argExtJump d ext"
| "cont_Jump (PushIntCont i next) = pushIntJump i next"
| "cont_Jump (RepeatCont cnt body after) = repeatJump cnt body after"
| "cont_Jump (AgainCont body) = againJump body"
| "cont_Jump (WhileCont checkCond body cond after) = whileJump checkCond body cond after"
| "cont_Jump (UntilCont body after) = untilJump body after"

subsection \<open>Moving the stack into a continuation\<close>

record stack_plan =
  pl_data :: "control_data option"
  pl_passArgs :: int
  pl_cp :: int
  pl_skip :: int

definition planContinuationStack ::
    "stack \<Rightarrow> control_data option \<Rightarrow> int \<Rightarrow> go_error + stack_plan" where
  "planContinuationStack current data passArgs =
     (let depth = slen current;
          plan = \<lparr>pl_data = data, pl_passArgs = passArgs, pl_cp = -1, pl_skip = 0\<rparr> in
      case data of
        Some d \<Rightarrow>
          if passArgs > depth \<or> cd_NumArgs d > depth then Inl (VMError CodeStackUnderflow)
          else if cd_NumArgs d > passArgs \<and> passArgs \<ge> 0 then Inl (VMError CodeStackUnderflow)
          else Inr (if passArgs \<ge> 0
                    then (if cd_NumArgs d \<ge> 0
                          then plan\<lparr>pl_cp := cd_NumArgs d, pl_skip := passArgs - cd_NumArgs d\<rparr>
                          else plan\<lparr>pl_cp := passArgs\<rparr>)
                    else plan\<lparr>pl_cp := cd_NumArgs d\<rparr>)
      | None \<Rightarrow>
          if passArgs > depth then Inl (VMError CodeStackUnderflow)
          else Inr (if passArgs \<ge> 0 then plan\<lparr>pl_cp := passArgs\<rparr> else plan))"

definition capturedStack :: "stack_plan \<Rightarrow> stack option" where
  "capturedStack p =
     (case pl_data p of
        None \<Rightarrow> None
      | Some d \<Rightarrow> (case cd_Stack d of None \<Rightarrow> None | Some stk \<Rightarrow> if stk = [] then None else Some stk))"

text \<open>Append the top \<open>n\<close> entries of the current stack to \<open>base\<close> (\<open>newStack.MoveFrom(s.Stack, n)\<close>).\<close>

definition moveTopOnto :: "stack \<Rightarrow> int \<Rightarrow> stack vm" where
  "moveTopOnto base n =
     (if n > 0
      then bnd getS (\<lambda>s. case MoveFrom base (st_Stack s) n of
             Inl e \<Rightarrow> raise e
           | Inr (new, rest) \<Rightarrow> seq (modifyS (\<lambda>s. s\<lparr>st_Stack := rest\<rparr>)) (ret new))
      else ret base)"

text \<open>
  The new stack and what is left of the old one; \<open>None\<close> for the latter when the whole stack was
  moved (\<open>s.Stack = nil\<close>).
\<close>

definition splitCallStack :: "int \<Rightarrow> int \<Rightarrow> (stack \<times> stack option) vm" where
  "splitCallStack cp skip =
     (if cp \<ge> 0
      then bnd (onStack (SplitTop cp skip)) (\<lambda>newStack.
             seq (ConsumeStackGas newStack) (bnd getS (\<lambda>s. ret (newStack, Some (st_Stack s)))))
      else bnd getS (\<lambda>s. ret (st_Stack s, None)))"

definition buildCallStack :: "stack_plan \<Rightarrow> (stack \<times> stack option) vm" where
  "buildCallStack p =
     (case pl_data p of
        Some d \<Rightarrow>
          (case capturedStack p of
             Some captured \<Rightarrow> bnd getS (\<lambda>s.
               let copyCount = (if pl_cp p < 0 then slen (st_Stack s) else pl_cp p) in
               bnd (moveTopOnto captured copyCount) (\<lambda>newStack.
                 seq (if pl_skip p > 0 then onStack (Drop (pl_skip p)) else ret ())
                   (seq (ConsumeStackGas newStack)
                     (bnd getS (\<lambda>s. ret (newStack, Some (st_Stack s)))))))
           | None \<Rightarrow> splitCallStack (pl_cp p) (pl_skip p))
      | None \<Rightarrow> splitCallStack (pl_cp p) 0)"

definition keepTopCharged :: "int \<Rightarrow> unit vm" where
  "keepTopCharged n = bnd getS (\<lambda>s.
     if n \<ge> 0 \<and> n < slen (st_Stack s)
     then seq (onStack (DropAfter n)) (bnd getS (\<lambda>s. ConsumeStackGas (st_Stack s)))
     else ret ())"

definition applyJumpStack :: "stack_plan \<Rightarrow> unit vm" where
  "applyJumpStack p =
     (case pl_data p of
        Some d \<Rightarrow>
          (case capturedStack p of
             Some captured \<Rightarrow> bnd getS (\<lambda>s.
               let copyCount = (if pl_cp p < 0 then slen (st_Stack s) else pl_cp p) in
               bnd (moveTopOnto captured copyCount) (\<lambda>newStack.
                 seq (ConsumeStackGas newStack)
                   (modifyS (\<lambda>s. s\<lparr>st_Stack := newStack\<rparr>))))
           | None \<Rightarrow> keepTopCharged (pl_cp p))
      | None \<Rightarrow> keepTopCharged (pl_passArgs p))"

definition preclear :: "register \<Rightarrow> vm_state \<Rightarrow> vm_state" where
  "preclear save s = s\<lparr>st_Reg := preclearWith (st_Reg s) save\<rparr>"

definition adjustJumpCont :: "continuation \<Rightarrow> int \<Rightarrow> unit vm" where
  "adjustJumpCont c passArgs = bnd getS (\<lambda>s.
     bnd (lift_sum (planContinuationStack (st_Stack s) (GetControlData c) passArgs)) (\<lambda>plan.
       (\<lambda>st. case applyJumpStack plan st of
          (Inl e, st1) \<Rightarrow>
            (Inl e, case pl_data plan of None \<Rightarrow> st1 | Some d \<Rightarrow> preclear (cd_Save d) st1)
        | (Inr _, st1) \<Rightarrow> (Inr (), st1))))"

subsection \<open>The jump loop\<close>

definition notSimple :: "continuation \<Rightarrow> bool" where
  "notSimple c \<longleftrightarrow> (case GetControlData c of
     None \<Rightarrow> False | Some d \<Rightarrow> cd_Stack d \<noteq> None \<or> cd_NumArgs d \<ge> 0)"

definition nestedJumpCharge :: "nat \<Rightarrow> unit vm" where
  "nestedJumpCharge iter = bnd getS (\<lambda>s.
     if st_GlobalVersion s \<ge> 9 \<and> iter > FreeNestedContJump then ConsumeGas 1 else ret ())"

definition adjustNext :: "continuation \<Rightarrow> unit vm" where
  "adjustNext c = bnd getS (\<lambda>s.
     if st_GlobalVersion s \<ge> 9 \<and> notSimple c then adjustJumpCont c (-1) else ret ())"

lemma cont_Jump_size: "cont_Jump c s = (Inr (Some c'), s') \<Longrightarrow> size c' < size c"
  by (cases c)
    (auto simp: act_simps excQuitJump_def jump_defs split: if_splits prod.splits sum.splits)

function JumpTo_loop :: "nat \<Rightarrow> continuation \<Rightarrow> vm_state \<Rightarrow> (go_error + unit) \<times> vm_state" where
  "JumpTo_loop iter c s =
     (case cont_Jump c s of
        (Inl e, s1) \<Rightarrow>
          if \<not> IsHandledException e then (Inl e, s1)
          else seq (nestedJumpCharge (iter + 1)) (raise e) s1
      | (Inr next, s1) \<Rightarrow>
          (case nestedJumpCharge (iter + 1) s1 of
             (Inl e, s2) \<Rightarrow> (Inl e, s2)
           | (Inr _, s2) \<Rightarrow>
               (case next of
                  None \<Rightarrow> (Inr (), s2)
                | Some c' \<Rightarrow>
                    (case adjustNext c' s2 of
                       (Inl e, s3) \<Rightarrow> (Inl e, s3)
                     | (Inr _, s3) \<Rightarrow> JumpTo_loop (iter + 1) c' s3))))"
  by pat_completeness auto
termination
  by (relation "measure (\<lambda>(iter, c, s). size c)") (auto dest: cont_Jump_size [OF sym])

declare JumpTo_loop.simps [simp del]

definition JumpTo :: "continuation \<Rightarrow> unit vm" where
  "JumpTo c = JumpTo_loop 0 c"

definition JumpArgs :: "continuation \<Rightarrow> int \<Rightarrow> unit vm" where
  "JumpArgs c passArgs = seq (adjustJumpCont c passArgs) (JumpTo c)"

definition Jump :: "continuation \<Rightarrow> unit vm" where
  "Jump c = (if notSimple c then JumpArgs c (-1) else JumpTo c)"

definition JumpToCode :: "slice \<Rightarrow> int \<Rightarrow> unit vm" where
  "JumpToCode code cp = seq (adoptCurrentCode code) (applyContinuationCodepage cp)"

subsection \<open>Calls, returns, exceptions\<close>

definition saveOnlyC0 :: "continuation option \<Rightarrow> register" where
  "saveOnlyC0 c0 = setC 0 c0 emptyRegister"

definition CallArgs :: "continuation \<Rightarrow> int \<Rightarrow> int \<Rightarrow> unit vm" where
  "CallArgs c passArgs retArgs =
     (if hasC0 c then JumpArgs c passArgs
      else bnd getS (\<lambda>s.
        bnd (lift_sum (planContinuationStack (st_Stack s) (GetControlData c) passArgs)) (\<lambda>plan.
          (\<lambda>st. case buildCallStack plan st of
             (Inl e, st1) \<Rightarrow>
               (Inl e, case GetControlData c of
                  None \<Rightarrow> st1
                | Some d \<Rightarrow> preclear (cd_Save d) (st1\<lparr>st_Reg := setC 0 None (st_Reg st1)\<rparr>))
           | (Inr (newStack, left), st1) \<Rightarrow>
               JumpTo c
                 (st1\<lparr>st_Stack := newStack,
                      st_Reg := setC 0 (Some (OrdinaryCont
                        (ControlData (saveOnlyC0 (regC (st_Reg s) 0)) left retArgs (st_CP st1))
                        (st_CurrentCode st1))) (st_Reg st1)\<rparr>)))))"

definition Call :: "continuation \<Rightarrow> unit vm" where
  "Call c =
     (if hasC0 c then Jump c
      else if notSimple c then CallArgs c (-1) (-1)
      else bnd getS (\<lambda>s.
        seq (setStateC 0 (Some (OrdinaryCont
               (ControlData (saveOnlyC0 (regC (st_Reg s) 0)) None ControlDataAllArgs (st_CP s))
               (st_CurrentCode s))))
          (JumpTo c)))"

definition jumpOpt :: "(continuation \<Rightarrow> unit vm) \<Rightarrow> continuation option \<Rightarrow> unit vm" where
  "jumpOpt f c = (case c of None \<Rightarrow> raise GoPanic | Some k \<Rightarrow> f k)"

definition returnTo :: "nat \<Rightarrow> int \<Rightarrow> int option \<Rightarrow> unit vm" where
  "returnTo regIdx exitCode args = bnd getS (\<lambda>s.
     let cont = regC (st_Reg s) regIdx in
     seq (setStateC regIdx (Some (QuitCont exitCode)))
       (case args of Some n \<Rightarrow> jumpOpt (\<lambda>k. JumpArgs k n) cont | None \<Rightarrow> jumpOpt Jump cont))"

definition Return :: "int option \<Rightarrow> unit vm" where
  "Return args = returnTo 0 0 args"

definition ReturnAlt :: "int option \<Rightarrow> unit vm" where
  "ReturnAlt args = returnTo 1 1 args"

definition saveBit :: "int \<Rightarrow> int \<Rightarrow> bool" where
  "saveBit saveCR m \<longleftrightarrow> saveCR AND m \<noteq> 0"

text \<open>The \<open>saveCR\<close> part of the extraction: the saved register file and what stays in the state.\<close>

definition captureReg :: "int \<Rightarrow> int \<Rightarrow> nat \<Rightarrow> continuation option \<Rightarrow> register \<times> register \<Rightarrow> register \<times> register" where
  "captureReg saveCR m i q p =
     (if saveBit saveCR m then (setC i (regC (snd p) i) (fst p), setC i q (snd p)) else p)"

definition captureRegs :: "int \<Rightarrow> register \<Rightarrow> register \<times> register" where
  "captureRegs saveCR r =
     captureReg saveCR 4 2 None
       (captureReg saveCR 2 1 (Some (QuitCont 1))
         (captureReg saveCR 1 0 (Some (QuitCont 0)) (emptyRegister, r)))"

definition ExtractCurrentContinuation :: "int \<Rightarrow> int \<Rightarrow> int \<Rightarrow> continuation vm" where
  "ExtractCurrentContinuation saveCR stackCopy ccArgs = bnd getS (\<lambda>s0.
     bnd (if stackCopy < 0 \<or> stackCopy = slen (st_Stack s0) then ret (st_Stack s0, None)
          else if stackCopy > 0
          then bnd (onStack (SplitTop stackCopy 0)) (\<lambda>newStack.
                 seq (ConsumeStackGas newStack)
                   (bnd getS (\<lambda>s. ret (newStack, Some (st_Stack s)))))
          else ret ([], Some (st_Stack s0)))
       (\<lambda>(newStack, captured). bnd getS (\<lambda>s.
          let (sv, rg) = captureRegs saveCR (st_Reg s)
          in seq (modifyS (\<lambda>s. s\<lparr>st_Stack := newStack, st_Reg := rg\<rparr>))
               (ret (OrdinaryCont (ControlData sv captured ccArgs (st_CP s)) (st_CurrentCode s))))))"

definition ForceControlData :: "continuation \<Rightarrow> continuation" where
  "ForceControlData c =
     (if GetControlData c = None
      then ArgExtCont (ControlData emptyRegister None ControlDataAllArgs CPany) c else c)"

definition ThrowException :: "int \<Rightarrow> tvm_value list \<Rightarrow> unit vm" where
  "ThrowException code args =
     seq (onStack Clear)
      (seq (case args of
              [v] \<Rightarrow> onStack (PushAny v)
            | [] \<Rightarrow> onStack (PushSmallInt 0)
            | _ \<Rightarrow> raise (OtherError ''too many arguments''))
        (seq (onStack (PushInt code))
          (seq (modifyS (\<lambda>s. s\<lparr>st_CurrentCode := newSliceFromCell emptyCell\<rparr>))
            (seq (consumeGasChecked ExceptionGasPrice)
              (bnd getS (\<lambda>s. jumpOpt Jump (regC (st_Reg s) 2)))))))"

subsection \<open>Well-formedness is preserved\<close>

lemma list_all_map2:
  assumes "length xs = length ys" "list_all P xs" "list_all R ys" "\<And>x y. P x \<Longrightarrow> R y \<Longrightarrow> P (f x y)"
  shows "list_all P (map2 f xs ys)"
  using assms by (auto simp: list_all_length)

lemma reg_ok_AdjustWith: "reg_ok r \<Longrightarrow> reg_ok r2 \<Longrightarrow> reg_ok (AdjustWith r r2)"
  by (cases r; cases r2)
    (auto simp: AdjustWith_def intro!: list_all_map2 split: option.splits)

lemma reg_ok_preclearWith: "reg_ok r \<Longrightarrow> reg_ok r2 \<Longrightarrow> reg_ok (preclearWith r r2)"
  by (cases r; cases r2)
    (auto simp: preclearWith_def intro!: list_all_map2 split: option.splits)

lemma reg_ok_emptyRegister [simp]: "reg_ok emptyRegister"
  by (simp add: emptyRegister_def)

lemma cdata_ok_Save: "cdata_ok d \<Longrightarrow> reg_ok (cd_Save d)"
  by (cases d) auto

lemma cdata_ok_Stack: "cdata_ok d \<Longrightarrow> cd_Stack d = Some stk \<Longrightarrow> stack_ok stk"
  by (cases d) auto

lemma cont_ok_GetControlData: "cont_ok c \<Longrightarrow> GetControlData c = Some d \<Longrightarrow> cdata_ok d"
  by (cases c) auto

lemma Vk_setStateC [vm_keeps]:
  "(\<And>k. c = Some k \<Longrightarrow> cont_ok k) \<Longrightarrow> Vk (setStateC i c) (\<lambda>_. True)"
  unfolding setStateC_def by (rule keeps_modifyS) (auto simp: state_ok_def intro!: reg_ok_setC)

lemma Vk_forceContinuationCodepage [vm_keeps]: "Vk (forceContinuationCodepage cp) (\<lambda>_. True)"
  unfolding forceContinuationCodepage_def by (auto intro!: keeps_intros)

lemma Vk_applyContinuationCodepage [vm_keeps]: "Vk (applyContinuationCodepage cp) (\<lambda>_. True)"
  unfolding applyContinuationCodepage_def by (auto intro!: keeps_intros vm_keeps)

lemma Vk_adoptCurrentCode [vm_keeps]: "Vk (adoptCurrentCode code) (\<lambda>_. True)"
  unfolding adoptCurrentCode_def by (auto intro!: keeps_intros)

lemma Vk_adjustRegs [vm_keeps]: "reg_ok r \<Longrightarrow> Vk (adjustRegs r) (\<lambda>_. True)"
  unfolding adjustRegs_def by (auto intro!: keeps_intros reg_ok_AdjustWith simp: state_ok_def)

lemma Vk_excQuitJump [vm_keeps]: "Vk excQuitJump Q"
proof (rule keepsI)
  fix s assume "state_ok s"
  then have "state_ok (snd (onStack (PopIntRange 0 0xffff) s))"
    using keepsD1 [OF Vk_onStack [OF Sk_PopIntRange]] by blast
  then show "state_ok (snd (excQuitJump s))"
    by (auto simp: excQuitJump_def split: prod.splits sum.splits)
qed (auto simp: excQuitJump_def split: prod.splits sum.splits)

abbreviation next_ok :: "continuation option \<Rightarrow> bool" where
  "next_ok c \<equiv> (case c of None \<Rightarrow> True | Some k \<Rightarrow> cont_ok k)"

lemma wrap64_pred_ok [simp]: "is_int64 (wrap64 x)"
  by (rule wrap64_range)

lemma Vk_cont_Jump:
  assumes "cont_ok c" shows "Vk (cont_Jump c) next_ok"
proof -
  have pop: "Vk (onStack PopBool) (\<lambda>_. True)"
    by (rule Vk_onStack [OF Sk_PopBool])
  show ?thesis
    using assms
    by (cases c) (auto simp: jump_defs intro!: keeps_ret keeps_raise keeps_seq keeps_if vm_keeps stack_keeps
        cdata_ok_Save keeps_bnd [OF pop])
qed

lemma planContinuationStack_data:
  "planContinuationStack stk d n = Inr p \<Longrightarrow> pl_data p = d"
  by (auto simp: planContinuationStack_def Let_def split: option.splits if_splits)

lemma capturedStack_ok:
  "pl_data p = Some d \<Longrightarrow> cdata_ok d \<Longrightarrow> capturedStack p = Some stk \<Longrightarrow> stack_ok stk"
  by (auto simp: capturedStack_def dest: cdata_ok_Stack split: option.splits if_splits)

lemma Vk_moveTopOnto [vm_keeps]: "stack_ok b \<Longrightarrow> Vk (moveTopOnto b n) stack_ok"
  unfolding moveTopOnto_def
  by (auto intro!: keepsI simp: act_simps MoveFrom_def Let_def state_ok_def list_all_takeI list_all_dropI
      split: if_splits prod.splits)

lemma Vk_withRest: "stack_ok new \<Longrightarrow>
    Vk (bnd getS (\<lambda>s. ret (new, Some (st_Stack s))))
      (\<lambda>(new, left). stack_ok new \<and> (case left of None \<Rightarrow> True | Some l \<Rightarrow> stack_ok l))"
  by (rule keeps_getS_bnd, rule keeps_ret) (simp add: state_ok_def)

lemma Vk_splitCallStack [vm_keeps]:
  "Vk (splitCallStack cp skip)
     (\<lambda>(new, left). stack_ok new \<and> (case left of None \<Rightarrow> True | Some l \<Rightarrow> stack_ok l))"
  unfolding splitCallStack_def
  by (intro keeps_if keeps_bnd [OF Vk_onStack [OF Sk_SplitTop]] keeps_seq vm_keeps Vk_withRest
      keeps_getS_bnd keeps_ret) (simp_all add: state_ok_def)

lemma Vk_buildCallStack:
  assumes "\<And>d. pl_data p = Some d \<Longrightarrow> cdata_ok d"
  shows "Vk (buildCallStack p)
    (\<lambda>(new, left). stack_ok new \<and> (case left of None \<Rightarrow> True | Some l \<Rightarrow> stack_ok l))"
  unfolding buildCallStack_def Let_def
  by (intro keeps_option_case vm_keeps keeps_getS_bnd keeps_bnd [OF Vk_moveTopOnto] keeps_seq keeps_if
      Vk_withRest stack_keeps keeps_ret) (auto intro: capturedStack_ok [OF _ assms])

lemma Vk_keepTopCharged [vm_keeps]: "Vk (keepTopCharged n) (\<lambda>_. True)"
  unfolding keepTopCharged_def by (intro keeps_getS_bnd keeps_if keeps_seq vm_keeps stack_keeps keeps_ret) simp

lemma Vk_applyJumpStack:
  assumes "\<And>d. pl_data p = Some d \<Longrightarrow> cdata_ok d"
  shows "Vk (applyJumpStack p) (\<lambda>_. True)"
  unfolding applyJumpStack_def Let_def
  by (intro keeps_option_case vm_keeps keeps_getS_bnd keeps_bnd [OF Vk_moveTopOnto] keeps_seq keeps_modifyS)
    (auto intro: capturedStack_ok [OF _ assms] simp: state_ok_def)

lemma state_ok_preclear: "state_ok s \<Longrightarrow> reg_ok r \<Longrightarrow> state_ok (preclear r s)"
  by (simp add: preclear_def state_ok_def reg_ok_preclearWith)

lemma Vk_adjustJumpCont [vm_keeps]:
  assumes "cont_ok c" shows "Vk (adjustJumpCont c n) (\<lambda>_. True)"
proof -
  have "Vk (\<lambda>st. case applyJumpStack p st of
          (Inl e, st1) \<Rightarrow> (Inl e, case pl_data p of None \<Rightarrow> st1 | Some d \<Rightarrow> preclear (cd_Save d) st1)
        | (Inr _, st1) \<Rightarrow> (Inr (), st1)) (\<lambda>_. True)"
    if "pl_data p = GetControlData c" for p
  proof (rule keepsI)
    fix s assume s: "state_ok s"
    have d: "\<And>d. pl_data p = Some d \<Longrightarrow> cdata_ok d"
      using that assms by (auto dest: cont_ok_GetControlData)
    have "state_ok (snd (applyJumpStack p s))"
      using keepsD1 [OF Vk_applyJumpStack s] d by blast
    then show "state_ok (snd (case applyJumpStack p s of
          (Inl e, st1) \<Rightarrow> (Inl e, case pl_data p of None \<Rightarrow> st1 | Some d \<Rightarrow> preclear (cd_Save d) st1)
        | (Inr _, st1) \<Rightarrow> (Inr (), st1)))"
      using d by (auto intro!: state_ok_preclear cdata_ok_Save split: prod.splits sum.splits option.splits)
  qed simp
  then show ?thesis
    unfolding adjustJumpCont_def
    by (intro keeps_getS_bnd keeps_bnd [where R = "\<lambda>p. pl_data p = GetControlData c"] keeps_lift_sum)
      (auto dest: planContinuationStack_data)
qed

lemma Vk_nestedJumpCharge [vm_keeps]: "Vk (nestedJumpCharge n) (\<lambda>_. True)"
  unfolding nestedJumpCharge_def by (intro keeps_getS_bnd keeps_if vm_keeps keeps_ret) simp

lemma Vk_adjustNext [vm_keeps]: "cont_ok c \<Longrightarrow> Vk (adjustNext c) (\<lambda>_. True)"
  unfolding adjustNext_def by (intro keeps_getS_bnd keeps_if vm_keeps keeps_ret) simp_all

lemma JumpTo_loop_ok: "state_ok s \<Longrightarrow> cont_ok c \<Longrightarrow> state_ok (snd (JumpTo_loop iter c s))"
proof (induction iter c s rule: JumpTo_loop.induct)
  case (1 iter c s)
  note jump = keepsD1 [OF Vk_cont_Jump [OF 1(3)] 1(2)] keepsD2 [OF Vk_cont_Jump [OF 1(3)] 1(2)]
  note charge = keepsD1 [OF Vk_nestedJumpCharge]
  show ?case
  proof (cases "cont_Jump c s")
    case (Pair r s1)
    show ?thesis
    proof (cases r)
      case (Inl e)
      then show ?thesis
        using jump(1) charge [of s1 "iter + 1"] Pair
        by (auto simp: JumpTo_loop.simps [of iter c s] seq_apply split: prod.splits sum.splits)
    next
      case (Inr nxt)
      obtain r2 s2 where c2: "nestedJumpCharge (iter + 1) s1 = (r2, s2)" by force
      have s2: "state_ok s2"
        using charge [of s1 "iter + 1"] jump(1) Pair c2 by simp
      show ?thesis
      proof (cases nxt)
        case None
        then show ?thesis
          using Inr Pair c2 s2 by (simp add: JumpTo_loop.simps [of iter c s] split: sum.splits)
      next
        case (Some c')
        have c': "cont_ok c'" using jump(2) [of nxt] Pair Inr Some by simp
        obtain r3 s3 where a3: "adjustNext c' s2 = (r3, s3)" by force
        have "state_ok s3" using keepsD1 [OF Vk_adjustNext [OF c'] s2] a3 by simp
        then show ?thesis
          using 1(1) [OF Pair [symmetric] Inr c2 [symmetric] _ Some a3 [symmetric]]
            Pair Inr Some c2 a3 c' s2
          by (auto simp: JumpTo_loop.simps [of iter c s] split: sum.splits)
      qed
    qed
  qed
qed

lemma Vk_JumpTo [vm_keeps]: "cont_ok c \<Longrightarrow> Vk (JumpTo c) (\<lambda>_. True)"
  by (rule keepsI) (simp_all add: JumpTo_def JumpTo_loop_ok)

lemma Vk_JumpArgs [vm_keeps]: "cont_ok c \<Longrightarrow> Vk (JumpArgs c n) (\<lambda>_. True)"
  unfolding JumpArgs_def by (intro keeps_seq vm_keeps)

lemma Vk_Jump [vm_keeps]: "cont_ok c \<Longrightarrow> Vk (Jump c) (\<lambda>_. True)"
  unfolding Jump_def by (intro keeps_if vm_keeps)

lemma reg_ok_saveOnlyC0:
  "(\<And>k. c = Some k \<Longrightarrow> cont_ok k) \<Longrightarrow> reg_ok (saveOnlyC0 c)"
  by (simp add: saveOnlyC0_def reg_ok_setC)

lemma state_ok_regC: "state_ok s \<Longrightarrow> regC (st_Reg s) i = Some k \<Longrightarrow> i < 4 \<Longrightarrow> cont_ok k"
  using state_ok_reg reg_ok_regC by blast

lemma cont_ok_return:
  assumes "state_ok s" "\<And>l. left = Some l \<Longrightarrow> stack_ok l"
  shows "cont_ok (OrdinaryCont (ControlData (saveOnlyC0 (regC (st_Reg s) 0)) left n cp) code)"
  using assms by (auto intro!: reg_ok_saveOnlyC0 intro: state_ok_regC split: option.splits)

lemma Vk_CallArgs [vm_keeps]:
  assumes c: "cont_ok c" shows "Vk (CallArgs c n m) (\<lambda>_. True)"
proof (rule keepsI)
  fix s assume s: "state_ok s"
  show "state_ok (snd (CallArgs c n m s))"
  proof (cases "hasC0 c")
    case True
    then show ?thesis using keepsD1 [OF Vk_JumpArgs [OF c] s] by (simp add: CallArgs_def)
  next
    case False
    show ?thesis
    proof (cases "planContinuationStack (st_Stack s) (GetControlData c) n")
      case (Inl e)
      then show ?thesis using False s by (simp add: CallArgs_def bnd_apply)
    next
      case (Inr p)
      have d: "pl_data p = Some d \<Longrightarrow> cdata_ok d" for d
        using planContinuationStack_data [OF Inr] c by (auto dest: cont_ok_GetControlData)
      note b = keepsD1 [OF Vk_buildCallStack s] keepsD2 [OF Vk_buildCallStack s]
      obtain r t where bt: "buildCallStack p s = (r, t)" by force
      have t: "state_ok t" using b(1) [of p] d bt by simp
      show ?thesis
      proof (cases r)
        case (Inl e)
        then show ?thesis
          using False Inr bt t c
          by (auto simp: CallArgs_def bnd_apply intro!: state_ok_preclear cdata_ok_Save reg_ok_setC
              dest: cont_ok_GetControlData state_ok_reg state_ok_stack split: option.splits)
      next
        case (Inr x)
        obtain new left where x: "x = (new, left)" by force
        have nl: "stack_ok new" "\<And>l. left = Some l \<Longrightarrow> stack_ok l"
          using b(2) [of p x] d bt Inr x by auto
        have "state_ok (t\<lparr>st_Stack := new, st_Reg := setC 0 (Some (OrdinaryCont (ControlData
                (saveOnlyC0 (regC (st_Reg s) 0)) left m (st_CP t)) (st_CurrentCode t))) (st_Reg t)\<rparr>)"
          using nl t cont_ok_return [OF s nl(2)] by (auto intro!: reg_ok_setC dest: state_ok_reg)
        then show ?thesis
          using False \<open>planContinuationStack _ _ _ = _\<close> bt Inr x keepsD1 [OF Vk_JumpTo [OF c]]
          by (simp add: CallArgs_def bnd_apply)
      qed
    qed
  qed
qed simp

lemma Vk_Call [vm_keeps]:
  assumes "cont_ok c" shows "Vk (Call c) (\<lambda>_. True)"
proof -
  have "cont_ok (OrdinaryCont (ControlData (saveOnlyC0 (regC (st_Reg s) 0)) None n cp) code)"
    if "state_ok s" for s n cp code
    using that by (intro cont_ok_return) auto
  then show ?thesis
    unfolding Call_def using assms by (intro keeps_if keeps_getS_bnd keeps_seq vm_keeps) auto
qed

lemma Vk_jumpOpt [vm_keeps]:
  assumes "\<And>k. c = Some k \<Longrightarrow> Vk (f k) (\<lambda>_. True)" shows "Vk (jumpOpt f c) (\<lambda>_. True)"
  using assms by (auto simp: jumpOpt_def intro!: keeps_intros split: option.splits)

lemma Vk_returnTo [vm_keeps]: "i < 4 \<Longrightarrow> Vk (returnTo i code args) (\<lambda>_. True)"
  unfolding returnTo_def Let_def
  by (auto intro!: keeps_getS_bnd keeps_seq vm_keeps keeps_option_case intro: state_ok_regC)

lemma Vk_ThrowException [vm_keeps]: "stack_ok args \<Longrightarrow> Vk (ThrowException code args) (\<lambda>_. True)"
proof -
  assume a: "stack_ok args"
  have "Vk (case args of [v] \<Rightarrow> onStack (PushAny v) | [] \<Rightarrow> onStack (PushSmallInt 0)
      | _ \<Rightarrow> raise (OtherError ''too many arguments'')) (\<lambda>_. True)"
    using a by (auto intro!: vm_keeps stack_keeps keeps_raise split: list.splits)
  then show ?thesis
    unfolding ThrowException_def
    by (intro keeps_seq vm_keeps stack_keeps keeps_modifyS keeps_getS_bnd)
      (auto intro!: vm_keeps intro: state_ok_regC)
qed

lemma captureReg_ok:
  "reg_ok (fst p) \<and> reg_ok (snd p) \<Longrightarrow> i < 4 \<Longrightarrow> (\<And>k. q = Some k \<Longrightarrow> cont_ok k) \<Longrightarrow>
   reg_ok (fst (captureReg saveCR m i q p)) \<and> reg_ok (snd (captureReg saveCR m i q p))"
  by (auto simp: captureReg_def intro!: reg_ok_setC intro: reg_ok_regC)

lemma captureRegs_ok:
  "reg_ok r \<Longrightarrow> captureRegs saveCR r = (sv, rg) \<Longrightarrow> reg_ok sv \<and> reg_ok rg"
  using captureReg_ok [of "captureReg saveCR 2 1 (Some (QuitCont 1))
         (captureReg saveCR 1 0 (Some (QuitCont 0)) (emptyRegister, r))" 2 None saveCR 4]
    captureReg_ok [of "captureReg saveCR 1 0 (Some (QuitCont 0)) (emptyRegister, r)" 1
      "Some (QuitCont 1)" saveCR 2]
    captureReg_ok [of "(emptyRegister, r)" 0 "Some (QuitCont 0)" saveCR 1]
  by (simp add: captureRegs_def)

lemma Vk_ExtractCurrentContinuation [vm_keeps]:
  "Vk (ExtractCurrentContinuation saveCR stackCopy ccArgs) cont_ok"
proof -
  have 1: "Vk (if stackCopy < 0 \<or> stackCopy = slen (st_Stack s0) then ret (st_Stack s0, None)
          else if stackCopy > 0
          then bnd (onStack (SplitTop stackCopy 0)) (\<lambda>newStack.
                 seq (ConsumeStackGas newStack)
                   (bnd getS (\<lambda>s. ret (newStack, Some (st_Stack s)))))
          else ret ([], Some (st_Stack s0)))
     (\<lambda>(new, left). stack_ok new \<and> (case left of None \<Rightarrow> True | Some l \<Rightarrow> stack_ok l))"
    if "state_ok s0" for s0
    using that
    by (intro keeps_if keeps_bnd [OF Vk_onStack [OF Sk_SplitTop]] keeps_seq vm_keeps Vk_withRest
        keeps_ret) (auto simp: state_ok_def)
  have 2: "Vk (case captureRegs saveCR (st_Reg s) of (sv, rg) \<Rightarrow>
         seq (modifyS (\<lambda>s. s\<lparr>st_Stack := new, st_Reg := rg\<rparr>))
           (ret (OrdinaryCont (ControlData sv left ccArgs (st_CP s)) (st_CurrentCode s)))) cont_ok"
    if "state_ok s" "stack_ok new" "case left of None \<Rightarrow> True | Some l \<Rightarrow> stack_ok l" for s new left
    using that captureRegs_ok [OF state_ok_reg [OF that(1)]]
    by (cases "captureRegs saveCR (st_Reg s)") (auto intro!: keeps_seq keeps_modifyS keeps_ret split: option.splits)
  show ?thesis
    unfolding ExtractCurrentContinuation_def Let_def
    by (intro keeps_getS_bnd keeps_bnd [OF 1]) (auto intro!: keeps_getS_bnd 2)
qed

subsection \<open>Calling and returning\<close>

text \<open>The continuation a plain call leaves in c0, and what jumping to it does.\<close>

abbreviation return_cont :: "vm_state \<Rightarrow> continuation" where
  "return_cont s \<equiv> OrdinaryCont (ControlData (saveOnlyC0 (regC (st_Reg s) 0)) None ControlDataAllArgs (st_CP s))
     (st_CurrentCode s)"

lemma JumpTo_ordinary:
  "cd_CP d = st_CP s \<Longrightarrow>
   JumpTo (OrdinaryCont d code) s =
     (Inr (), s\<lparr>st_Reg := AdjustWith (st_Reg s) (cd_Save d), st_CurrentCode := code\<rparr>)"
  by (simp add: JumpTo_def JumpTo_loop.simps ordinaryJump_def adjustRegs_def adoptCurrentCode_def
      forceContinuationCodepage_def nestedJumpCharge_def act_simps gas_price_defs)

lemma Jump_ordinary:
  "cd_CP d = st_CP s \<Longrightarrow> cd_Stack d = None \<Longrightarrow> cd_NumArgs d < 0 \<Longrightarrow>
   Jump (OrdinaryCont d code) s =
     (Inr (), s\<lparr>st_Reg := AdjustWith (st_Reg s) (cd_Save d), st_CurrentCode := code\<rparr>)"
  by (simp add: Jump_def notSimple_def JumpTo_ordinary)

lemma length4_cases: "length xs = 4 \<Longrightarrow> \<exists>a b c d. xs = [a, b, c, d]"
  by (auto simp: numeral_eq_Suc length_Suc_conv)

lemma length2_cases: "length xs = 2 \<Longrightarrow> \<exists>a b. xs = [a, b]"
  by (auto simp: numeral_eq_Suc length_Suc_conv)

lemma reg_ok_cases:
  assumes "reg_ok r" obtains a b c d e f t where "r = Register [a, b, c, d] [e, f] t"
  using assms length4_cases length2_cases by (cases r) (auto, blast)

lemma AdjustWith_empty: "reg_ok r \<Longrightarrow> AdjustWith r emptyRegister = r"
  by (auto elim!: reg_ok_cases simp: AdjustWith_def emptyRegister_def)

lemma AdjustWith_saveOnlyC0:
  "reg_ok r \<Longrightarrow> AdjustWith r (saveOnlyC0 c) = (if IsNullContinuation c then r else setC 0 c r)"
  by (auto elim!: reg_ok_cases simp: AdjustWith_def emptyRegister_def saveOnlyC0_def setC_def)

lemma setC_setC [simp]: "setC i c (setC i c' r) = setC i c r"
  by (simp add: setC_def)

lemma setC_regC [simp]: "setC i (regC r i) r = r"
  by (cases r) (simp add: setC_def regC_def)

lemma regC_setC [simp]: "reg_ok r \<Longrightarrow> i < 4 \<Longrightarrow> regC (setC i c r) i = c"
  by (cases r) (simp add: setC_def regC_def)

lemma IsNull_saveOnlyC0: "regC (saveOnlyC0 c) 0 = c"
  by (simp add: saveOnlyC0_def)

lemma Call_simple:
  assumes "state_ok s" "d = ControlData emptyRegister None n (st_CP s)" "n < 0"
  shows "Call (OrdinaryCont d code) s =
    (Inr (), s\<lparr>st_Reg := setC 0 (Some (return_cont s)) (st_Reg s), st_CurrentCode := code\<rparr>)"
proof -
  have r: "reg_ok (setC 0 (Some (return_cont s)) (st_Reg s))"
    using assms(1) by (intro reg_ok_setC cont_ok_return) (auto dest: state_ok_reg cont_ok_return)
  show ?thesis
    using assms AdjustWith_empty [OF r]
    by (simp add: Call_def hasC0_def notSimple_def emptyRegister_def regC_def setStateC_def act_simps
        JumpTo_ordinary)
qed

lemma Return_plain:
  assumes "state_ok t" "regC (st_Reg t) 0 = Some (return_cont s)" "st_CP t = st_CP s"
    and "\<not> IsNullContinuation (regC (st_Reg s) 0)"
  shows "Return None t =
    (Inr (), t\<lparr>st_Reg := setC 0 (regC (st_Reg s) 0) (st_Reg t), st_CurrentCode := st_CurrentCode s\<rparr>)"
proof -
  have "reg_ok (setC 0 (Some (QuitCont 0)) (st_Reg t))"
    using assms(1) by (intro reg_ok_setC) (auto dest: state_ok_reg)
  then show ?thesis
    using assms
    by (simp add: Return_def returnTo_def setStateC_def act_simps jumpOpt_def Jump_ordinary
        ControlDataAllArgs_def AdjustWith_saveOnlyC0)
qed

end
