(* ===== verification/Vm_Props.thy ===== *)
theory Vm_Props
  imports Vm_Exec
begin

section \<open>Properties of the machine core\<close>

text \<open>
  The properties of package \<open>vm\<close>: the stack, the gas counters, tuples and the context tuple,
  the set of loaded cells, and the control flow primitives of \<open>exec.go\<close>.
\<close>

text \<open>A small machine for the witnesses: one cell as code, the default registers, 1000 units of gas.\<close>

definition demoState :: "int \<Rightarrow> stack \<Rightarrow> vm_state" where
  "demoState gv stk = NewExecutionState gv (GasWithLimit 1000 None) None None stk (newSliceFromCell emptyCell)"

lemma demoState_ok: "stack_ok stk \<Longrightarrow> state_ok (demoState gv stk)"
  by (simp add: demoState_def NewExecutionState_def state_ok_def NewTupleValue_def)

lemma demoState_sel [simp]:
  "st_CP (demoState gv stk) = 0" "st_Stack (demoState gv stk) = stk" "st_GlobalVersion (demoState gv stk) = gv"
  "st_Gas (demoState gv stk) = GasWithLimit 1000 None" "st_loaded (demoState gv stk) = emptyLoadSet"
  "st_Historical (demoState gv stk) = modernRules"
  "regC (st_Reg (demoState gv stk)) 0 = Some (QuitCont 0)" "reg_C7 (st_Reg (demoState gv stk)) = Some []"
  by (simp_all add: demoState_def NewExecutionState_def regC_def NewTupleValue_def)

lemma gas_inv_demo: "gas_inv (GasWithLimit 1000 None)" "g_Remaining (GasWithLimit 1000 None) = 1000"
  "g_Base (GasWithLimit 1000 None) = 1000"
  by (simp_all add: gas_inv_def GasWithLimit_def GasInfinite_def Let_def)

lemma Used_demo: "Used (GasWithLimit 1000 None) = 0"
  by (simp add: Used_exact gas_inv_demo)

text \<open>Charging at the level of the state, in the range without wrap-around.\<close>

lemma ConsumeGas_apply:
  assumes "gas_inv (st_Gas s)" "0 \<le> amount" "Used (st_Gas s) + amount < 2 ^ 63"
  shows "ConsumeGas amount s =
    (if st_GlobalVersion s < 4 \<or> amount \<le> g_Remaining (st_Gas s) then Inr () else Inl (VMError CodeOutOfGas),
     s\<lparr>st_Gas := (st_Gas s)\<lparr>g_Remaining := g_Remaining (st_Gas s) - amount\<rparr>\<rparr>)"
proof -
  have "wrap64 (g_Remaining (st_Gas s) - amount) = g_Remaining (st_Gas s) - amount"
    using assms gas_invD [OF assms(1)] by (intro wrap64_id) (simp add: is_int64_def Used_exact)
  then show ?thesis
    using Consume_apply [OF assms] assms(2)
    by (simp add: ConsumeGas_def checkGasOnConsume_def act_simps not_less)
qed

text \<open>C7: calling a simple continuation keeps the stack and enters its code; returning later, from any
  well-formed state in which c0 and the code page are those right after the call, resumes the caller's code with the caller's c0 and changes nothing
  else.\<close>

theorem Call_Return:
  assumes "state_ok s" "\<not> IsNullContinuation (regC (st_Reg s) 0)"
    and "d = ControlData emptyRegister None (-1) (st_CP s)"
  shows "\<exists>s1. Call (OrdinaryCont d code) s = (Inr (), s1) \<and> st_CurrentCode s1 = code \<and> st_Stack s1 = st_Stack s \<and>
    (\<forall>t. state_ok t \<and> regC (st_Reg t) 0 = regC (st_Reg s1) 0 \<and> st_CP t = st_CP s \<longrightarrow>
       Return None t = (Inr (), t\<lparr>st_Reg := setC 0 (regC (st_Reg s) 0) (st_Reg t), st_CurrentCode := st_CurrentCode s\<rparr>))"
proof -
  let ?s1 = "s\<lparr>st_Reg := setC 0 (Some (return_cont s)) (st_Reg s), st_CurrentCode := code\<rparr>"
  have "regC (st_Reg ?s1) 0 = Some (return_cont s)" using state_ok_reg [OF assms(1)] by simp
  with Return_plain [OF _ _ _ assms(2)] show ?thesis
    using Call_simple [OF assms(1,3)] by simp
qed

theorem Call_Return_witness:
  "fst (seq (Call (OrdinaryCont (ControlData emptyRegister None (-1) 0) (newSliceFromCell emptyCell))) (Return None)
     (demoState 9 [VInt 1])) = Inr ()"
proof -
  let ?d = "ControlData emptyRegister None (-1) 0"
  have ok: "state_ok (demoState 9 [VInt 1])" by (simp add: demoState_ok fitsTVMInt_iff)
  obtain s1 where s1: "Call (OrdinaryCont ?d (newSliceFromCell emptyCell)) (demoState 9 [VInt 1]) = (Inr (), s1)"
      "\<forall>t. state_ok t \<and> regC (st_Reg t) 0 = regC (st_Reg s1) 0 \<and> st_CP t = 0 \<longrightarrow> fst (Return None t) = Inr ()"
    using Call_Return [of "demoState 9 [VInt 1]" ?d "newSliceFromCell emptyCell"] ok by auto
  have "state_ok s1" "st_CP s1 = 0"
    using keepsD1 [OF Vk_Call ok, of "OrdinaryCont ?d (newSliceFromCell emptyCell)"] s1(1)
      Call_simple [OF ok, of ?d "-1" "newSliceFromCell emptyCell"] by auto
  with s1 show ?thesis by (simp add: act_simps)
qed

subsection \<open>Call frames\<close>

text \<open>The price of a copied stack, and the continuation that a call with arguments leaves in c0.\<close>

abbreviation stackPrice :: "int \<Rightarrow> int" where
  "stackPrice n \<equiv> max 0 (n - 32)"

lemma ConsumeStackGas_apply:
  assumes "gas_inv (st_Gas s)" "Used (st_Gas s) + slen stk < 2 ^ 63" "stackPrice (slen stk) \<le> g_Remaining (st_Gas s)"
  shows "ConsumeStackGas stk s =
    (Inr (), s\<lparr>st_Gas := (st_Gas s)\<lparr>g_Remaining := g_Remaining (st_Gas s) - stackPrice (slen stk)\<rparr>\<rparr>)"
proof -
  have u: "0 \<le> Used (st_Gas s)" by (rule Used_nonneg [OF assms(1)])
  then have "wrap64 (slen stk) = slen stk" using assms(2) by (intro wrap64_id) (simp add: is_int64_def)
  then have "ConsumeStackGas stk s = ConsumeGas (stackPrice (slen stk)) s"
    by (simp add: ConsumeStackGas_def ConsumeStackGasLen_def Let_def gas_price_defs max_def)
  moreover have "Used (st_Gas s) + stackPrice (slen stk) < 2 ^ 63" using assms(1,2,3) gas_invD(2,5) [OF assms(1)] u by linarith
  ultimately show ?thesis using ConsumeGas_apply [OF assms(1), of "stackPrice (slen stk)"] assms(3) by simp
qed

abbreviation frame_cont :: "vm_state \<Rightarrow> stack \<Rightarrow> int \<Rightarrow> continuation" where
  "frame_cont s base r \<equiv> OrdinaryCont (ControlData (saveOnlyC0 (regC (st_Reg s) 0)) (Some base) r (st_CP s)) (st_CurrentCode s)"

lemma SplitTop_args: "SplitTop (slen args) 0 (base @ args) = (Inr args, base)"
  by (cases "args = []") (auto simp: SplitTop_def MoveFrom_def act_simps Let_def)

lemma CallArgs_frame:
  assumes "state_ok s" "d = ControlData emptyRegister None (-1) (st_CP s)" "st_Stack s = base @ args"
    and "gas_inv (st_Gas s)" "Used (st_Gas s) + slen args < 2 ^ 63" "stackPrice (slen args) \<le> g_Remaining (st_Gas s)"
  shows "CallArgs (OrdinaryCont d code) (slen args) r s =
    (Inr (), s\<lparr>st_Stack := args, st_CurrentCode := code, st_Reg := setC 0 (Some (frame_cont s base r)) (st_Reg s),
       st_Gas := (st_Gas s)\<lparr>g_Remaining := g_Remaining (st_Gas s) - stackPrice (slen args)\<rparr>\<rparr>)"
proof -
  have "stack_ok base" using state_ok_stack [OF assms(1)] assms(3) by simp
  then have rg: "reg_ok (setC 0 (Some (frame_cont s base r)) (st_Reg s))"
    using assms(1) by (intro reg_ok_setC) (auto dest: state_ok_reg intro!: cont_ok_return)
  have "onStack (SplitTop (slen args) 0) s = (Inr args, s\<lparr>st_Stack := base\<rparr>)"
    by (simp add: lift_field_apply assms(3) SplitTop_args)
  moreover have "ConsumeStackGas args (s\<lparr>st_Stack := base\<rparr>) = (Inr (), s\<lparr>st_Stack := base,
      st_Gas := (st_Gas s)\<lparr>g_Remaining := g_Remaining (st_Gas s) - stackPrice (slen args)\<rparr>\<rparr>)"
    using ConsumeStackGas_apply [of "s\<lparr>st_Stack := base\<rparr>" args] assms(4-6) by simp
  ultimately show ?thesis
    using AdjustWith_empty [OF rg] assms(2,3)
    by (simp add: CallArgs_def hasC0_def emptyRegister_def regC_def bnd_apply seq_apply planContinuationStack_def Let_def buildCallStack_def
        capturedStack_def splitCallStack_def JumpTo_ordinary)
qed

text \<open>Returning through such a continuation keeps the results asked for and puts the saved stack below them.\<close>

lemma MoveFrom_results: "MoveFrom base (junk @ results) (slen results) = Inr (base @ results, junk)"
  by (simp add: MoveFrom_def Let_def)

abbreviation returnPrice :: "stack \<Rightarrow> stack \<Rightarrow> stack \<Rightarrow> int" where
  "returnPrice base junk results \<equiv> (if base = [] \<and> junk = [] then 0 else stackPrice (slen (base @ results)))"

lemma keepTopCharged_results:
  assumes "st_Stack t = junk @ results" "slen results = r \<or> r = -1 \<and> junk = []"
    and "gas_inv (st_Gas t)" "Used (st_Gas t) + slen results < 2 ^ 63" "returnPrice [] junk results \<le> g_Remaining (st_Gas t)"
  shows "keepTopCharged r t = (Inr (), t\<lparr>st_Stack := results,
    st_Gas := (st_Gas t)\<lparr>g_Remaining := g_Remaining (st_Gas t) - returnPrice [] junk results\<rparr>\<rparr>)"
proof (cases "junk = []")
  case True
  then show ?thesis using assms(1,2) by (auto simp: keepTopCharged_def act_simps)
next
  case False
  then have "onStack (DropAfter r) t = (Inr (), t\<lparr>st_Stack := results\<rparr>)" "r \<ge> 0" "r < slen (st_Stack t)"
    using assms(1,2) by (auto simp: lift_field_apply DropAfter_def act_simps)
  then show ?thesis using False ConsumeStackGas_apply [of "t\<lparr>st_Stack := results\<rparr>" results] assms(3-5)
    by (simp add: keepTopCharged_def bnd_apply seq_apply)
qed

lemma adjustJumpCont_frame:
  assumes "st_Stack t = junk @ results" "slen results = r \<or> r = -1 \<and> junk = []"
    and "gas_inv (st_Gas t)" "Used (st_Gas t) + slen (base @ results) < 2 ^ 63" "returnPrice base junk results \<le> g_Remaining (st_Gas t)"
  shows "adjustJumpCont (frame_cont s base r) (-1) t = (Inr (), t\<lparr>st_Stack := base @ results,
    st_Gas := (st_Gas t)\<lparr>g_Remaining := g_Remaining (st_Gas t) - returnPrice base junk results\<rparr>\<rparr>)"
proof (cases "base = []")
  case True
  then show ?thesis
    using keepTopCharged_results [OF assms(1-3), of] assms(1,2,4,5)
    by (auto simp: adjustJumpCont_def bnd_apply planContinuationStack_def Let_def applyJumpStack_def capturedStack_def)
next
  case False
  have "moveTopOnto base (if r < 0 then slen (st_Stack t) else r) t = (Inr (base @ results), if results = [] then t else t\<lparr>st_Stack := junk\<rparr>)"
    using assms(1,2) MoveFrom_results [of base junk results] by (auto simp: moveTopOnto_def act_simps)
  moreover have "ConsumeStackGas (base @ results) (if results = [] then t else t\<lparr>st_Stack := junk\<rparr>) =
      (Inr (), (if results = [] then t else t\<lparr>st_Stack := junk\<rparr>)\<lparr>st_Gas := (st_Gas t)\<lparr>g_Remaining := g_Remaining (st_Gas t) - stackPrice (slen (base @ results))\<rparr>\<rparr>)"
    using False ConsumeStackGas_apply [of "if results = [] then t else t\<lparr>st_Stack := junk\<rparr>" "base @ results"] assms(3-5) by simp
  ultimately show ?thesis
    using False assms(1,2)
    by (auto simp: adjustJumpCont_def bnd_apply seq_apply planContinuationStack_def Let_def applyJumpStack_def capturedStack_def)
qed

lemma Return_frame:
  assumes "state_ok t" "regC (st_Reg t) 0 = Some (frame_cont s base r)" "st_CP t = st_CP s" "\<not> IsNullContinuation (regC (st_Reg s) 0)"
    and "st_Stack t = junk @ results" "slen results = r \<or> r = -1 \<and> junk = []"
    and "gas_inv (st_Gas t)" "Used (st_Gas t) + slen (base @ results) < 2 ^ 63" "returnPrice base junk results \<le> g_Remaining (st_Gas t)"
  shows "Return None t = (Inr (), t\<lparr>st_Stack := base @ results, st_CurrentCode := st_CurrentCode s,
    st_Reg := setC 0 (regC (st_Reg s) 0) (st_Reg t),
    st_Gas := (st_Gas t)\<lparr>g_Remaining := g_Remaining (st_Gas t) - returnPrice base junk results\<rparr>\<rparr>)"
proof -
  let ?t = "t\<lparr>st_Reg := setC 0 (Some (QuitCont 0)) (st_Reg t)\<rparr>"
  have "reg_ok (setC 0 (Some (QuitCont 0)) (st_Reg t))" using assms(1) by (intro reg_ok_setC) (auto dest: state_ok_reg)
  moreover have "adjustJumpCont (frame_cont s base r) (-1) ?t = (Inr (), ?t\<lparr>st_Stack := base @ results,
      st_Gas := (st_Gas t)\<lparr>g_Remaining := g_Remaining (st_Gas t) - returnPrice base junk results\<rparr>\<rparr>)"
    using adjustJumpCont_frame [of ?t junk results r base s] assms(5-9) by simp
  moreover have "Return None t = seq (adjustJumpCont (frame_cont s base r) (-1)) (JumpTo (frame_cont s base r)) ?t"
    using assms(2) by (simp add: Return_def returnTo_def setStateC_def bnd_apply seq_apply jumpOpt_def Jump_def notSimple_def JumpArgs_def)
  ultimately show ?thesis using assms(3,4) by (simp add: seq_apply JumpTo_ordinary AdjustWith_saveOnlyC0)
qed

lemma Return_frame_short:
  assumes "regC (st_Reg t) 0 = Some (frame_cont s base r)" "slen (st_Stack t) < r"
  shows "fst (Return None t) = Inl errStackUnderflow"
  using assms
  by (simp add: Return_def returnTo_def setStateC_def act_simps jumpOpt_def Jump_def notSimple_def JumpArgs_def adjustJumpCont_def planContinuationStack_def Let_def)

text \<open>C24: a call that passes the top \<open>p\<close> entries to an ordinary continuation without saved data of its own, and asks for \<open>r\<close> results (or all,
  for \<open>-1\<close>), enters its code with exactly these entries on the stack.  When the callee returns later, in any well-formed state where c0 and the code page are those right after the
  call, the caller's stack comes back with exactly the top \<open>r\<close> entries of the callee's stack on it, whatever lies below them, and the caller's code and c0 are restored, other registers as the
  callee left them; with fewer than \<open>r\<close> entries the return is a stack underflow.  Both ways cost one unit per entry of the stack built beyond 32, and
  the charge has to be covered; only a return of the whole stack to an empty one is free.\<close>

theorem call_frame:
  assumes "state_ok s" "\<not> IsNullContinuation (regC (st_Reg s) 0)" "d = ControlData emptyRegister None (-1) (st_CP s)"
    and "st_Stack s = base @ args" "gas_inv (st_Gas s)" "Used (st_Gas s) + int (length args) < 2 ^ 63"
    and "max 0 (int (length args) - 32) \<le> g_Remaining (st_Gas s)"
  shows "\<exists>s1. CallArgs (OrdinaryCont d code) (int (length args)) r s = (Inr (), s1) \<and> st_CurrentCode s1 = code \<and> st_Stack s1 = args \<and>
    g_Remaining (st_Gas s1) = g_Remaining (st_Gas s) - max 0 (int (length args) - 32) \<and>
    (\<forall>t junk results price. state_ok t \<and> regC (st_Reg t) 0 = regC (st_Reg s1) 0 \<and> st_CP t = st_CP s \<and>
       st_Stack t = junk @ results \<and> (int (length results) = r \<or> r = -1 \<and> junk = []) \<and>
       price = (if base = [] \<and> junk = [] then 0 else max 0 (int (length (base @ results)) - 32)) \<and>
       gas_inv (st_Gas t) \<and> Used (st_Gas t) + int (length (base @ results)) < 2 ^ 63 \<and> price \<le> g_Remaining (st_Gas t) \<longrightarrow>
       Return None t = (Inr (), t\<lparr>st_Stack := base @ results, st_CurrentCode := st_CurrentCode s,
         st_Reg := setC 0 (regC (st_Reg s) 0) (st_Reg t),
         st_Gas := (st_Gas t)\<lparr>g_Remaining := g_Remaining (st_Gas t) - price\<rparr>\<rparr>)) \<and>
    (\<forall>t. regC (st_Reg t) 0 = regC (st_Reg s1) 0 \<and> int (length (st_Stack t)) < r \<longrightarrow> fst (Return None t) = Inl errStackUnderflow)"
proof -
  let ?s1 = "s\<lparr>st_Stack := args, st_CurrentCode := code, st_Reg := setC 0 (Some (frame_cont s base r)) (st_Reg s),
     st_Gas := (st_Gas s)\<lparr>g_Remaining := g_Remaining (st_Gas s) - stackPrice (slen args)\<rparr>\<rparr>"
  have call: "CallArgs (OrdinaryCont d code) (slen args) r s = (Inr (), ?s1)" by (rule CallArgs_frame [OF assms(1,3-7)])
  have c0: "regC (st_Reg ?s1) 0 = Some (frame_cont s base r)" using state_ok_reg [OF assms(1)] by simp
  have resume: "Return None t = (Inr (), t\<lparr>st_Stack := base @ results, st_CurrentCode := st_CurrentCode s,
         st_Reg := setC 0 (regC (st_Reg s) 0) (st_Reg t), st_Gas := (st_Gas t)\<lparr>g_Remaining := g_Remaining (st_Gas t) - price\<rparr>\<rparr>)"
    if "state_ok t \<and> regC (st_Reg t) 0 = regC (st_Reg ?s1) 0 \<and> st_CP t = st_CP s \<and> st_Stack t = junk @ results \<and>
       (slen results = r \<or> r = -1 \<and> junk = []) \<and> price = returnPrice base junk results \<and> gas_inv (st_Gas t) \<and>
       Used (st_Gas t) + slen (base @ results) < 2 ^ 63 \<and> price \<le> g_Remaining (st_Gas t)" for t junk results price
  proof -
    have c: "state_ok t" "regC (st_Reg t) 0 = Some (frame_cont s base r)" "st_CP t = st_CP s" "st_Stack t = junk @ results"
        "slen results = r \<or> r = -1 \<and> junk = []" "gas_inv (st_Gas t)" "Used (st_Gas t) + slen (base @ results) < 2 ^ 63"
        "returnPrice base junk results \<le> g_Remaining (st_Gas t)" and p: "price = returnPrice base junk results"
      using that unfolding c0 by blast+
    show ?thesis unfolding p by (rule Return_frame [OF c(1-3) assms(2) c(4-8)])
  qed
  have short: "fst (Return None t) = Inl errStackUnderflow" if "regC (st_Reg t) 0 = regC (st_Reg ?s1) 0 \<and> slen (st_Stack t) < r" for t
    by (rule Return_frame_short [of t s base r]) (use that in \<open>simp_all only: c0\<close>)
  show ?thesis by (intro exI [of _ ?s1] conjI allI impI call; (erule resume short)?) simp_all
qed

theorem call_frame_witness:
  "\<exists>s1. CallArgs (OrdinaryCont (ControlData emptyRegister None (-1) 0) (newSliceFromCell emptyCell)) 1 1 (demoState 9 [VInt 5, VInt 6]) = (Inr (), s1) \<and>
    st_Stack s1 = [VInt 6] \<and> (\<exists>t. Return None (s1\<lparr>st_Stack := [VInt 1, VInt 2, VInt 3]\<rparr>) = (Inr (), t) \<and> st_Stack t = [VInt 5, VInt 3])"
proof -
  let ?c = "OrdinaryCont (ControlData emptyRegister None (-1) 0) (newSliceFromCell emptyCell)" and ?s = "demoState 9 [VInt 5, VInt 6]"
  have ok: "state_ok ?s" by (simp add: demoState_ok fitsTVMInt_iff)
  have s1: "CallArgs ?c 1 1 ?s = (Inr (), ?s\<lparr>st_Stack := [VInt 6], st_CurrentCode := newSliceFromCell emptyCell,
      st_Reg := setC 0 (Some (frame_cont ?s [VInt 5] 1)) (st_Reg ?s), st_Gas := GasWithLimit 1000 None\<rparr>)"
    using CallArgs_frame [OF ok, of "ControlData emptyRegister None (-1) 0" "[VInt 5]" "[VInt 6]" "newSliceFromCell emptyCell" 1]
    by (simp add: gas_inv_demo Used_demo)
  have k: "state_ok (snd (CallArgs ?c 1 1 ?s))" by (rule keepsD1 [OF Vk_CallArgs ok]) simp
  have p: "\<not> IsNullContinuation (regC (st_Reg ?s) 0)" "ControlData emptyRegister None (-1) 0 = ControlData emptyRegister None (-1) (st_CP ?s)"
      "st_Stack ?s = [VInt 5] @ [VInt 6]" "gas_inv (st_Gas ?s)" "Used (st_Gas ?s) + int (length [VInt 6]) < 2 ^ 63"
      "max 0 (int (length [VInt 6]) - 32) \<le> g_Remaining (st_Gas ?s)"
    by (simp_all add: gas_inv_demo Used_demo)
  show ?thesis using call_frame [OF ok p, of "newSliceFromCell emptyCell" 1]
  proof (elim exE conjE, goal_cases)
    case (1 s1)
    have "state_ok (s1\<lparr>st_Stack := [VInt 1, VInt 2, VInt 3]\<rparr>)" "st_CP s1 = 0" "st_Gas s1 = GasWithLimit 1000 None"
      using k s1 1(1) by (auto simp: state_ok_def fitsTVMInt_iff)
    then show ?thesis
      using 1(1,3) 1(5) [rule_format, of "s1\<lparr>st_Stack := [VInt 1, VInt 2, VInt 3]\<rparr>" "[VInt 1, VInt 2]" "[VInt 3]" 0]
      by (simp add: gas_inv_demo Used_demo)
  qed
qed

subsection \<open>Charges\<close>

text \<open>A run of charges, unchecked before version 4 and checked one by one from then on.\<close>

abbreviation spend :: "int \<Rightarrow> vm_state \<Rightarrow> vm_state" where
  "spend n s \<equiv> s\<lparr>st_Gas := (st_Gas s)\<lparr>g_Remaining := g_Remaining (st_Gas s) - n\<rparr>\<rparr>"

lemma gas_inv_spend:
  assumes "gas_inv (st_Gas s)" "0 \<le> n" "Used (st_Gas s) + n < 2 ^ 63"
  shows "gas_inv (st_Gas (spend n s))" "Used (st_Gas (spend n s)) = Used (st_Gas s) + n"
proof -
  show "gas_inv (st_Gas (spend n s))" using assms by (auto simp: gas_inv_def Used_exact)
  then show "Used (st_Gas (spend n s)) = Used (st_Gas s) + n" using Used_exact assms(1) by fastforce
qed

lemma unchecked_charges:
  assumes "st_GlobalVersion s < 4" "gas_inv (st_Gas s)" "\<forall>a\<in>set amounts. 0 \<le> a" "Used (st_Gas s) + sum_list amounts < 2 ^ 63"
  shows "for_each amounts ConsumeGas s = (Inr (), spend (sum_list amounts) s)"
  using assms
proof (induction amounts arbitrary: s)
  case (Cons a as)
  have pos: "0 \<le> sum_list as" using Cons.prems(3) by (auto intro: sum_list_nonneg)
  have a: "0 \<le> a" "Used (st_Gas s) + a < 2 ^ 63" using Cons.prems(3,4) pos by auto
  note g = gas_inv_spend [OF Cons.prems(2) a]
  have "for_each as ConsumeGas (spend a s) = (Inr (), spend (sum_list as) (spend a s))"
    by (rule Cons.IH) (use Cons.prems g in \<open>auto simp: algebra_simps\<close>)
  moreover have "ConsumeGas a s = (Inr (), spend a s)" using ConsumeGas_apply [OF Cons.prems(2) a] Cons.prems(1) by simp
  ultimately show ?case by (simp add: seq_apply algebra_simps)
qed simp

lemma checked_charges:
  assumes "4 \<le> st_GlobalVersion s" "gas_inv (st_Gas s)" "\<forall>a\<in>set amounts. 0 \<le> a" "Used (st_Gas s) + sum_list amounts < 2 ^ 63"
    and "0 \<le> g_Remaining (st_Gas s)"
  shows "\<exists>n\<le>length amounts. for_each amounts ConsumeGas s =
      (if sum_list amounts \<le> g_Remaining (st_Gas s) then Inr () else Inl errOutOfGas, spend (sum_list (take n amounts)) s) \<and>
    (if sum_list amounts \<le> g_Remaining (st_Gas s) then n = length amounts
     else sum_list (take (n - 1) amounts) \<le> g_Remaining (st_Gas s) \<and> g_Remaining (st_Gas s) < sum_list (take n amounts))"
  using assms
proof (induction amounts arbitrary: s)
  case (Cons a as)
  have pos: "0 \<le> sum_list as" using Cons.prems(3) by (auto intro: sum_list_nonneg)
  have a: "0 \<le> a" "Used (st_Gas s) + a < 2 ^ 63" using Cons.prems(3,4) pos by auto
  note g = gas_inv_spend [OF Cons.prems(2) a] and c = ConsumeGas_apply [OF Cons.prems(2) a]
  show ?case
  proof (cases "a \<le> g_Remaining (st_Gas s)")
    case False
    then show ?thesis using c pos Cons.prems(1,5) by (intro exI [of _ 1]) (simp add: seq_apply)
  next
    case True
    have "\<exists>n\<le>length as. for_each as ConsumeGas (spend a s) =
        (if sum_list as \<le> g_Remaining (st_Gas (spend a s)) then Inr () else Inl errOutOfGas, spend (sum_list (take n as)) (spend a s)) \<and>
      (if sum_list as \<le> g_Remaining (st_Gas (spend a s)) then n = length as
       else sum_list (take (n - 1) as) \<le> g_Remaining (st_Gas (spend a s)) \<and> g_Remaining (st_Gas (spend a s)) < sum_list (take n as))"
      by (rule Cons.IH) (use Cons.prems g True in \<open>auto simp: algebra_simps\<close>)
    then obtain n where n: "n \<le> length as" "for_each as ConsumeGas (spend a s) =
        (if a + sum_list as \<le> g_Remaining (st_Gas s) then Inr () else Inl errOutOfGas, spend (a + sum_list (take n as)) s)"
        "if a + sum_list as \<le> g_Remaining (st_Gas s) then n = length as
         else a + sum_list (take (n - 1) as) \<le> g_Remaining (st_Gas s) \<and> g_Remaining (st_Gas s) < a + sum_list (take n as)"
      by (auto simp: algebra_simps split: if_splits)
    have "for_each (a # as) ConsumeGas s = for_each as ConsumeGas (spend a s)" using c True by (simp add: seq_apply)
    then show ?thesis using n True by (intro exI [of _ "Suc n"]) (cases n; auto split: if_splits)
  qed
qed simp

text \<open>C30: a sequence of non-negative charges followed by the gas check, from a balance that is not negative and without a pending error, runs out of gas exactly when the
  sum of the charges exceeds the balance, in every version.  When it does not, or before version 4, where charges are not checked one by one, the balance drops by exactly
  that sum; from version 4 on the machine stops at the first charge the balance does not cover, with the charges up to and including
  that one deducted.  Limit, maximum, credit and the rest of the state stay as they are.  The total has to stay below \<open>2^63\<close>, the range of the counters.\<close>

theorem charges_exact:
  assumes "gas_inv (st_Gas s)" "0 \<le> g_Remaining (st_Gas s)" "st_pendingErr s = None"
    and "\<forall>a\<in>set amounts. 0 \<le> a" "Used (st_Gas s) + sum_list amounts < 2 ^ 63"
  shows "\<exists>n\<le>length amounts. seq (for_each amounts ConsumeGas) CheckGas s =
      (if sum_list amounts \<le> g_Remaining (st_Gas s) then Inr () else Inl errOutOfGas,
       s\<lparr>st_Gas := (st_Gas s)\<lparr>g_Remaining := g_Remaining (st_Gas s) - sum_list (take n amounts)\<rparr>\<rparr>) \<and>
    (if sum_list amounts \<le> g_Remaining (st_Gas s) \<or> st_GlobalVersion s < 4 then n = length amounts
     else sum_list (take (n - 1) amounts) \<le> g_Remaining (st_Gas s) \<and> g_Remaining (st_Gas s) < sum_list (take n amounts))"
proof (cases "st_GlobalVersion s < 4")
  case True
  then show ?thesis using unchecked_charges [OF True assms(1,4,5)] assms(3)
    by (intro exI [of _ "length amounts"]) (simp add: seq_apply CheckGas_def bnd_apply lift_field_apply Check_def act_simps)
next
  case False
  then obtain n where n: "n \<le> length amounts" "for_each amounts ConsumeGas s =
      (if sum_list amounts \<le> g_Remaining (st_Gas s) then Inr () else Inl errOutOfGas, spend (sum_list (take n amounts)) s)"
    "if sum_list amounts \<le> g_Remaining (st_Gas s) then n = length amounts
     else sum_list (take (n - 1) amounts) \<le> g_Remaining (st_Gas s) \<and> g_Remaining (st_Gas s) < sum_list (take n amounts)"
    using checked_charges [of s amounts] assms by auto
  then show ?thesis using False assms(3)
    by (intro exI [of _ n]) (simp add: seq_apply CheckGas_def bnd_apply lift_field_apply Check_def act_simps split: if_splits)
qed

theorem charges_exact_witness:
  "fst (seq (for_each [400, 500, 200, 7] ConsumeGas) CheckGas (demoState 9 [])) = Inl errOutOfGas \<and>
   fst (seq (for_each [400, 500, 100] ConsumeGas) CheckGas (demoState 2 [])) = Inr ()"
proof -
  have "st_pendingErr (demoState v stk) = None" for v stk by (simp add: demoState_def NewExecutionState_def)
  then show ?thesis
    using charges_exact [of "demoState 9 []" "[400, 500, 200, 7]"] charges_exact [of "demoState 2 []" "[400, 500, 100]"]
    by (auto simp: gas_inv_demo Used_demo)
qed

text \<open>C31: accepting a message with a new limit not below the gas already used keeps the gas used, drops the credit,
  and never lets the limit exceed the maximum.\<close>

theorem ChangeLimit_keeps_used:
  assumes "gas_inv g" "Used g \<le> limit"
  shows "gas_inv (ChangeLimit limit g) \<and> Used (ChangeLimit limit g) = Used g \<and>
    g_Credit (ChangeLimit limit g) = 0 \<and> g_Limit (ChangeLimit limit g) = min limit (g_Max g)"
  using ChangeLimit_gas_inv [OF assms] ChangeLimit_apply [OF assms] by simp

theorem ChangeLimit_keeps_used_witness:
  "Used (ChangeLimit 500 (GasWithLimit 1000 None)) = 0"
  using ChangeLimit_keeps_used [of "GasWithLimit 1000 None" 500] by (simp add: gas_inv_demo Used_demo)

text \<open>The price of loading a cell: the schedule of 2019, at version 0, has no discount for a cell loaded before.\<close>

abbreviation loadPrice :: "vm_state \<Rightarrow> bool \<Rightarrow> int" where
  "loadPrice s seen \<equiv> (if seen \<and> \<not> (st_GlobalVersion s = 0 \<and> h_GasSchedule (st_Historical s) = GasSchedule2019) then 25 else 100)"

lemma RegisterCellLoad_apply:
  assumes "gas_inv (st_Gas s)" "Used (st_Gas s) + 100 < 2 ^ 63"
  shows "RegisterCellLoad c s =
    (let price = loadPrice s (cls_contains (st_loaded s) (Hash c)) in
     (if st_GlobalVersion s < 4 \<or> price \<le> g_Remaining (st_Gas s) then Inr () else Inl (VMError CodeOutOfGas),
      s\<lparr>st_loaded := snd (cls_add (Hash c) (st_loaded s)),
        st_Gas := (st_Gas s)\<lparr>g_Remaining := g_Remaining (st_Gas s) - price\<rparr>\<rparr>))"
  using assms lset.add_new [of "Hash c" "st_loaded s"]
  by (auto simp: RegisterCellLoad_def ConsumeGas_apply act_simps gas_price_defs Let_def split: prod.splits)

text \<open>C25: after any sequence of loads, loading a cell costs 100 units of gas when none of them was of a cell with its hash and 25 otherwise (also after the inline buffer of
  the load set has spilled); under the gas schedule of 2019, at global version 0, it always costs 100.  The load fails exactly when the charge is checked, from version 4 on, and the balance does not
  cover it, and it is recorded in either case.\<close>

theorem cell_load_charges:
  assumes "gas_inv (st_Gas s)" "Used (st_Gas s) + 100 < 2 ^ 63"
    and "st_loaded s = lset.add_all ks emptyLoadSet"
    and "price = (if Hash c \<in> set ks \<and> \<not> (st_GlobalVersion s = 0 \<and> h_GasSchedule (st_Historical s) = GasSchedule2019) then 25 else 100)"
  shows "RegisterCellLoad c s =
    (if st_GlobalVersion s < 4 \<or> price \<le> g_Remaining (st_Gas s) then Inr () else Inl errOutOfGas,
     s\<lparr>st_loaded := lset.add_all (ks @ [Hash c]) emptyLoadSet,
       st_Gas := (st_Gas s)\<lparr>g_Remaining := g_Remaining (st_Gas s) - price\<rparr>\<rparr>)"
proof -
  have "cls_contains (st_loaded s) (Hash c) \<longleftrightarrow> Hash c \<in> set ks"
    using assms(3) lset.contains_add_all [of ks emptyLoadSet] by (simp add: cls_contains_def emptyLoadSet_def)
  then show ?thesis
    using RegisterCellLoad_apply [OF assms(1,2), of c] assms(3,4) by (simp add: Let_def lset.add_all_def)
qed

theorem cell_load_charges_witness:
  "g_Remaining (st_Gas (snd (RegisterCellLoad emptyCell (demoState 9 [])))) = 900"
  using cell_load_charges [of "demoState 9 []" "[]" 100 emptyCell]
  by (simp add: gas_inv_demo Used_demo lset.add_all_def)







text \<open>C33: three calls of \<open>Reverse\<close>, whose loop swaps entries in place, exchange two adjacent blocks of the stack and leave what is
  below untouched.\<close>

theorem block_swap:
  assumes "length xs = n" "length ys = m"
  shows "seq (Reverse (int n + int m) (int m)) (seq (Reverse (int m) 0) (Reverse (int n + int m) 0))
           (base @ xs @ ys) = (Inr (), base @ ys @ xs)"
  by (rule three_reversals [OF assms])

theorem block_swap_witness:
  "seq (Reverse 3 2) (seq (Reverse 2 0) (Reverse 3 0)) [VInt 0, VInt 1, VInt 2, VInt 3] =
     (Inr (), [VInt 0, VInt 2, VInt 3, VInt 1])"
  using block_swap [of "[VInt 1]" 1 "[VInt 2, VInt 3]" 2 "[VInt 0]"] by simp


end
