(* ===== verification/Cell_Builder.thy ===== *)
theory Cell_Builder
  imports Cell_Hash
begin

section \<open>Builders\<close>

text \<open>
  \<^verbatim>\<open>src/tvm/cell/builder.go\<close> and \<^verbatim>\<open>builder_ops.go\<close>: the stores, with their word-at-a-time paths.  A builder is
  a 128-byte buffer, a bit count and up to four references; \<open>builder_ok\<close> is the invariant the code
  states in comments: at most 1023 bits, and every bit past the count is zero, which is what lets a
  store extend a partially written byte with an OR.  For each store the lemmas give the
  bits of the builder after it.
\<close>

type_synonym 'a bld = "(builder, 'a) action"

abbreviation cellErr :: "cell_error \<Rightarrow> ('s, 'a) action" where
  "cellErr e \<equiv> raise (CellError e)"

text \<open>\<open>big.Int.BitLen\<close> and \<open>bits.Len64\<close> on non-negative numbers.\<close>

function bitLen :: "int \<Rightarrow> nat" where
  "bitLen v = (if v \<le> 0 then 0 else Suc (bitLen (v div 2)))"
  by pat_completeness auto
termination
  by (relation "measure nat") auto

declare bitLen.simps [simp del]

definition usedBytes :: "builder \<Rightarrow> nat" where
  "usedBytes b = (b_bitsSz b + 7) div 8"

definition dataSlice :: "builder \<Rightarrow> byte list" where
  "dataSlice b = take (usedBytes b) (b_data b)"

subsection \<open>Storing bytes\<close>

text \<open>
  The two loops of \<open>StoreSlice\<close> for a destination that is not byte aligned: eight source bytes per
  step while they fit, then single bytes.
\<close>

function storeSliceWords ::
    "nat \<Rightarrow> nat \<Rightarrow> nat \<Rightarrow> nat \<Rightarrow> byte list \<Rightarrow> nat \<Rightarrow> byte list \<Rightarrow> nat \<times> byte list" where
  "storeSliceWords shift dstByte bytesNeeded sz src i d =
     (let invShift = 8 - shift in
      if i + 8 \<le> bytesNeeded \<and> (i + 7) * 8 + invShift < sz \<and> dstByte + i + 9 \<le> length d
      then let v = beUint64 src i;
               d1 = d[dstByte + i := d ! (dstByte + i) OR ucast (drop_bit (56 + shift) v)];
               d2 = putBytes d1 (dstByte + i + 1) (beBytes64 (push_bit invShift v))
           in storeSliceWords shift dstByte bytesNeeded sz src (i + 8) d2
      else (i, d))"
  by pat_completeness auto
termination
  by (relation "measure (\<lambda>(shift, dstByte, bytesNeeded, sz, src, i, d). bytesNeeded - i)")
    (auto simp: Let_def)

function storeSliceTail ::
    "nat \<Rightarrow> nat \<Rightarrow> nat \<Rightarrow> nat \<Rightarrow> byte list \<Rightarrow> nat \<Rightarrow> byte list \<Rightarrow> byte list" where
  "storeSliceTail shift dstByte bytesNeeded sz src i d =
     (let invShift = 8 - shift in
      if i < bytesNeeded
      then let d1 = d[dstByte + i := d ! (dstByte + i) OR drop_bit shift (src ! i)];
               d2 = (if sz > i * 8 + invShift then d1[dstByte + i + 1 := push_bit invShift (src ! i)] else d1)
           in storeSliceTail shift dstByte bytesNeeded sz src (i + 1) d2
      else d)"
  by pat_completeness auto
termination
  by (relation "measure (\<lambda>(shift, dstByte, bytesNeeded, sz, src, i, d). bytesNeeded - i)")
    (auto simp: Let_def)

declare storeSliceWords.simps [simp del] storeSliceTail.simps [simp del]

definition clearTail :: "nat \<Rightarrow> byte list \<Rightarrow> byte list" where
  "clearTail n d =
     (let rem = n mod 8 in if rem \<noteq> 0 then d[n div 8 := d ! (n div 8) AND maskTail rem] else d)"

definition storeSliceData :: "byte list \<Rightarrow> nat \<Rightarrow> nat \<Rightarrow> byte list \<Rightarrow> byte list" where
  "storeSliceData src sz bitsSz d =
     (let bytesNeeded = (sz + 7) div 8; dstByte = bitsSz div 8; dstBitOffset = bitsSz mod 8 in
      clearTail (bitsSz + sz)
       (if dstBitOffset = 0 then putBytes d dstByte (take bytesNeeded src)
        else let (i, d1) = storeSliceWords dstBitOffset dstByte bytesNeeded sz src 0 d
             in storeSliceTail dstBitOffset dstByte bytesNeeded sz src i d1))"

definition StoreSlice :: "byte list \<Rightarrow> nat \<Rightarrow> unit bld" where
  "StoreSlice src sz = bnd getS (\<lambda>b.
     if sz = 0 then ret ()
     else if b_bitsSz b + sz \<ge> 1024 then cellErr ErrNotFit1023
     else if length src * 8 < sz then cellErr ErrSmallSlice
     else modifyS (\<lambda>b. b\<lparr>b_data := storeSliceData src sz (b_bitsSz b) (b_data b),
                          b_bitsSz := b_bitsSz b + sz\<rparr>))"

subsection \<open>Storing integers\<close>

definition StoreBoolBit :: "bool \<Rightarrow> unit bld" where
  "StoreBoolBit value = bnd getS (\<lambda>b.
     if b_bitsSz b + 1 \<ge> 1024 then cellErr ErrNotFit1023
     else modifyS (\<lambda>b.
       let k = b_bitsSz b div 8; m = push_bit (7 - b_bitsSz b mod 8) 1; x = b_data b ! k
       in b\<lparr>b_data := (b_data b)[k := (if value then x OR m else x AND NOT m)],
            b_bitsSz := b_bitsSz b + 1\<rparr>))"

text \<open>The loop of \<open>storeBig\<close> that aligns the number to the left, from the last byte to the first.\<close>

fun alignLeft :: "nat \<Rightarrow> byte \<Rightarrow> byte list \<Rightarrow> byte list" where
  "alignLeft offset add [] = []"
| "alignLeft offset add (x # xs) =
     (push_bit (8 - offset) x + add) # alignLeft offset (drop_bit offset (x AND push_bit offset 0xFF)) xs"

definition storeBig :: "int \<Rightarrow> nat \<Rightarrow> unit bld" where
  "storeBig value sz =
     (let bytesToUse = (sz + 7) div 8; bytes = be_bytes bytesToUse value; offset = sz mod 8
      in StoreSlice (if offset > 0 then rev (alignLeft offset 0 (rev bytes)) else bytes) sz)"

definition StoreBigUInt :: "int \<Rightarrow> nat \<Rightarrow> unit bld" where
  "StoreBigUInt value sz =
     (if value < 0 then cellErr ErrNegative
      else if sz > 256 then cellErr ErrTooBigSize
      else if sz = 0 then (if value \<noteq> 0 then cellErr ErrTooBigValue else ret ())
      else if bitLen value > sz then cellErr ErrTooBigValue
      else storeBig value sz)"

definition storeUIntAligned :: "64 word \<Rightarrow> nat \<Rightarrow> byte list" where
  "storeUIntAligned value sz =
     (if sz = 8 then [ucast value]
      else if sz = 16 then beBytesN 2 value
      else if sz = 32 then beBytesN 4 value
      else if sz = 64 then beBytesN 8 value
      else take (sz div 8) (beBytes64 (push_bit (64 - sz) value)))"

definition storeUIntWord :: "64 word \<Rightarrow> nat \<Rightarrow> nat \<Rightarrow> byte list \<Rightarrow> byte list" where
  "storeUIntWord value sz bitsSz d =
     (let idx = bitsSz div 8; off = bitsSz mod 8; v = push_bit (64 - sz) value;
          d1 = putBytes d idx (beBytes64 (beUint64 d idx OR drop_bit off v))
      in if off + sz > 64 then d1[idx + 8 := ucast (drop_bit 56 (push_bit (64 - off) v))] else d1)"

definition StoreUInt :: "64 word \<Rightarrow> nat \<Rightarrow> unit bld" where
  "StoreUInt value sz =
     (if sz = 0 then (if value \<noteq> 0 then cellErr ErrTooBigValue else ret ())
      else if sz > 64 then StoreBigUInt (uint value) sz
      else if sz < 64 \<and> drop_bit sz value \<noteq> 0 then cellErr ErrTooBigValue
      else if sz = 1 then StoreBoolBit (value = 1)
      else bnd getS (\<lambda>b.
        if b_bitsSz b + sz \<ge> 1024 then cellErr ErrNotFit1023
        else if b_bitsSz b mod 8 = 0 \<and> sz mod 8 = 0
        then modifyS (\<lambda>b. b\<lparr>b_data := putBytes (b_data b) (b_bitsSz b div 8) (storeUIntAligned value sz),
                             b_bitsSz := b_bitsSz b + sz\<rparr>)
        else if b_bitsSz b div 8 + 8 > length (b_data b)
        then StoreSlice (beBytes64 (push_bit (64 - sz) value)) sz
        else modifyS (\<lambda>b. b\<lparr>b_data := storeUIntWord value sz (b_bitsSz b) (b_data b),
                             b_bitsSz := b_bitsSz b + sz\<rparr>)))"

definition fitsSignedInt64 :: "int \<Rightarrow> nat \<Rightarrow> bool" where
  "fitsSignedInt64 value sz =
     (if sz = 0 then value = 0
      else if sz \<ge> 64 then True
      else value \<ge> - (2 ^ (sz - 1)) \<and> value \<le> 2 ^ (sz - 1) - 1)"

definition fitsNegativeBigInt :: "int \<Rightarrow> nat \<Rightarrow> bool" where
  "fitsNegativeBigInt value sz =
     (if sz = 0 then value = 0
      else if value \<ge> 0 then False
      else bitLen (- value - 1) \<le> sz - 1)"

definition StoreBigInt :: "int \<Rightarrow> nat \<Rightarrow> unit bld" where
  "StoreBigInt value sz =
     (if sz > 257 then cellErr ErrTooBigSize
      else if sz = 0 then (if value \<noteq> 0 then cellErr ErrTooBigValue else ret ())
      else if value \<ge> 0
      then (if bitLen value > sz - 1 then cellErr ErrTooBigValue else storeBig value sz)
      else if \<not> fitsNegativeBigInt value sz then cellErr ErrTooBigValue
      else storeBig (2 ^ sz + value) sz)"

definition StoreInt :: "int \<Rightarrow> nat \<Rightarrow> unit bld" where
  "StoreInt value sz =
     (if sz > 257 then cellErr ErrTooBigSize
      else if sz = 0 then (if value \<noteq> 0 then cellErr ErrTooBigValue else ret ())
      else if sz \<le> 64
      then (if \<not> fitsSignedInt64 value sz then cellErr ErrTooBigValue
            else if value \<ge> 0 then StoreUInt (word_of_int value) sz
            else StoreUInt (if sz < 64 then word_of_int value AND (push_bit sz 1 - 1)
                            else word_of_int value) sz)
      else StoreBigInt value sz)"

definition storeBigIntWrap :: "int \<Rightarrow> nat \<Rightarrow> unit bld" where
  "storeBigIntWrap value sz =
     (if sz > 257 then cellErr ErrTooBigSize
      else if sz = 0 then (if value \<noteq> 0 then cellErr ErrTooBigValue else ret ())
      else if value \<ge> 0
      then (if bitLen value > sz then cellErr ErrTooBigValue else storeBig value sz)
      else if \<not> fitsNegativeBigInt value sz then cellErr ErrTooBigValue
      else storeBig (2 ^ sz + value) sz)"

definition StoreVarUInt :: "64 word \<Rightarrow> nat \<Rightarrow> unit bld" where
  "StoreVarUInt val sz =
     (let ln = (bitLen (uint val) + 7) div 8; szLen = bitLen (int sz - 1) in
      if sz = 0 then cellErr ErrInvalidSize
      else if ln \<ge> sz then cellErr ErrTooBigValue
      else bnd getS (\<lambda>b.
        if b_bitsSz b + szLen + ln * 8 \<ge> 1024 then cellErr ErrNotFit1023
        else seq (StoreUInt (word_of_nat ln) szLen) (StoreUInt val (ln * 8))))"

definition StoreBigVarUInt :: "int \<Rightarrow> nat \<Rightarrow> unit bld" where
  "StoreBigVarUInt val sz =
     (let ln = (bitLen val + 7) div 8; szLen = bitLen (int sz - 1) in
      if sz = 0 then cellErr ErrInvalidSize
      else if val < 0 then cellErr ErrNegative
      else if ln \<ge> sz then cellErr ErrTooBigValue
      else bnd getS (\<lambda>b.
        if b_bitsSz b + szLen + ln * 8 \<ge> 1024 then cellErr ErrNotFit1023
        else seq (StoreUInt (word_of_nat ln) szLen) (StoreBigUInt val (ln * 8))))"

definition varIntBytes :: "int \<Rightarrow> nat" where
  "varIntBytes val =
     (if val = 0 then 0
      else if val > 0 then (bitLen val + 8) div 8
      else (bitLen (- val - 1) + 8) div 8)"

definition StoreBigVarInt :: "int \<Rightarrow> nat \<Rightarrow> unit bld" where
  "StoreBigVarInt val sz =
     (let ln = varIntBytes val; szLen = bitLen (int sz - 1) in
      if sz = 0 then cellErr ErrInvalidSize
      else if ln \<ge> sz then cellErr ErrTooBigValue
      else if ln > 32 then cellErr ErrTooBigSize
      else bnd getS (\<lambda>b.
        if b_bitsSz b + szLen + ln * 8 \<ge> 1024 then cellErr ErrNotFit1023
        else seq (StoreUInt (word_of_nat ln) szLen) (StoreBigInt val (ln * 8))))"

definition StoreVarInt :: "int \<Rightarrow> nat \<Rightarrow> unit bld" where
  "StoreVarInt val sz = StoreBigVarInt val sz"

definition StoreCoins :: "64 word \<Rightarrow> unit bld" where
  "StoreCoins value = StoreVarUInt value 16"

definition StoreBigCoins :: "int \<Rightarrow> unit bld" where
  "StoreBigCoins value = StoreBigVarUInt value 16"

subsection \<open>Same bits, roll-back\<close>

definition CanExtendBy :: "builder \<Rightarrow> nat \<Rightarrow> nat \<Rightarrow> bool" where
  "CanExtendBy b bits refs \<longleftrightarrow>
     b_bitsSz b < 1024 \<and> length (b_refs b) \<le> 4 \<and> bits < 1024 - b_bitsSz b \<and> refs \<le> 4 - length (b_refs b)"

definition setOrClear :: "bool \<Rightarrow> nat \<Rightarrow> byte \<Rightarrow> byte list \<Rightarrow> byte list" where
  "setOrClear bt k m d = d[k := (if bt then d ! k OR m else d ! k AND NOT m)]"

definition sameBitData :: "bool \<Rightarrow> nat \<Rightarrow> nat \<Rightarrow> byte list \<Rightarrow> byte list" where
  "sameBitData bt bits start d =
     (let byteIdx = start div 8; bitOffset = start mod 8;
          n = (if bitOffset \<noteq> 0 then min bits (8 - bitOffset) else 0);
          d1 = (if bitOffset \<noteq> 0
                then setOrClear bt byteIdx (push_bit (8 - bitOffset - n) (push_bit n 1 - 1)) d else d);
          left = bits - n;
          byteIdx1 = (if bitOffset \<noteq> 0 then byteIdx + 1 else byteIdx);
          fullBytes = left div 8;
          d2 = putBytes d1 byteIdx1 (replicate fullBytes (if bt then 0xFF else 0));
          left2 = left mod 8;
          d3 = (if left2 \<noteq> 0 then setOrClear bt (byteIdx1 + fullBytes) (maskTail left2) d2 else d2)
      in clearTail (start + bits) d3)"

definition StoreSameBit :: "bool \<Rightarrow> nat \<Rightarrow> unit bld" where
  "StoreSameBit bt bits = bnd getS (\<lambda>b.
     if \<not> CanExtendBy b bits 0 then cellErr ErrNotFit1023
     else if bits = 0 then ret ()
     else modifyS (\<lambda>b. b\<lparr>b_data := sameBitData bt bits (b_bitsSz b) (b_data b),
                          b_bitsSz := b_bitsSz b + bits\<rparr>))"

definition truncateBits :: "nat \<Rightarrow> builder \<Rightarrow> builder" where
  "truncateBits sz b =
     (if sz \<ge> b_bitsSz b then b
      else let d1 = clearTail sz (b_data b);
               from = (if sz mod 8 \<noteq> 0 then sz div 8 + 1 else sz div 8);
               to = (b_bitsSz b + 7) div 8
           in b\<lparr>b_data := (if from < to then putBytes d1 from (replicate (to - from) 0) else d1),
                b_bitsSz := sz\<rparr>)"

subsection \<open>Storing a window of another cell\<close>

function appendWords :: "nat \<Rightarrow> nat \<Rightarrow> byte list \<Rightarrow> nat \<Rightarrow> nat \<Rightarrow> nat \<Rightarrow> byte list \<Rightarrow> nat \<times> nat \<times> nat \<times> byte list" where
  "appendWords srcShift dstShift src srcByte dstByte left d =
     (if left \<ge> 64
      then let value = (if srcShift = 0 then beUint64 src srcByte
                        else push_bit srcShift (beUint64 src srcByte) OR ucast (drop_bit (8 - srcShift) (src ! (srcByte + 8))));
               d' = (if dstShift = 0 then putBytes d dstByte (beBytes64 value)
                     else putBytes (d[dstByte := d ! dstByte OR ucast (drop_bit (56 + dstShift) value)])
                            (dstByte + 1) (beBytes64 (push_bit (8 - dstShift) value)))
           in appendWords srcShift dstShift src (srcByte + 8) (dstByte + 8) (left - 64) d'
      else (srcByte, dstByte, left, d))"
  by pat_completeness auto
termination
  by (relation "measure (\<lambda>(srcShift, dstShift, src, srcByte, dstByte, left, d). left)") auto

function appendTail :: "nat \<Rightarrow> nat \<Rightarrow> byte list \<Rightarrow> nat \<Rightarrow> nat \<Rightarrow> nat \<Rightarrow> byte list \<Rightarrow> byte list" where
  "appendTail srcShift dstShift src srcByte dstByte left d =
     (if left > 0
      then let v0 = push_bit srcShift (src ! srcByte);
               value = (if srcShift \<noteq> 0 \<and> srcByte + 1 < length src
                        then v0 OR drop_bit (8 - srcShift) (src ! (srcByte + 1)) else v0);
               d' = (if dstShift = 0 then d[dstByte := value]
                     else let d1 = d[dstByte := d ! dstByte OR drop_bit dstShift value]
                          in if left > 8 - dstShift then d1[dstByte + 1 := push_bit (8 - dstShift) value] else d1)
           in if left \<le> 8 then d'
              else appendTail srcShift dstShift src (srcByte + 1) (dstByte + 1) (left - 8) d'
      else d)"
  by pat_completeness auto
termination
  by (relation "measure (\<lambda>(srcShift, dstShift, src, srcByte, dstByte, left, d). left)") auto

declare appendWords.simps [simp del] appendTail.simps [simp del]

definition appendBitRange :: "byte list \<Rightarrow> nat \<Rightarrow> byte list \<Rightarrow> nat \<Rightarrow> nat \<Rightarrow> byte list" where
  "appendBitRange d dstBitOffset src bitOffset sz =
     (let srcByte = bitOffset div 8; srcShift = bitOffset mod 8;
          dstByte = dstBitOffset div 8; dstShift = dstBitOffset mod 8 in
      clearTail (dstBitOffset + sz)
        (if srcShift = 0 \<and> dstShift = 0
         then putBytes d dstByte (take ((sz + 7) div 8) (drop srcByte src))
         else let (sb, db, left, d1) = appendWords srcShift dstShift src srcByte dstByte sz d
              in appendTail srcShift dstShift src sb db left d1))"

definition storeBitRange :: "byte list \<Rightarrow> nat \<Rightarrow> nat \<Rightarrow> unit bld" where
  "storeBitRange src bitOffset sz = bnd getS (\<lambda>b.
     if sz = 0 then ret ()
     else if b_bitsSz b + sz \<ge> 1024 then cellErr ErrNotFit1023
     else if bitOffset + sz > length src * 8 then cellErr ErrSmallSlice
     else modifyS (\<lambda>b. b\<lparr>b_data := appendBitRange (b_data b) (b_bitsSz b) src bitOffset sz,
                          b_bitsSz := b_bitsSz b + sz\<rparr>))"

subsection \<open>References\<close>

definition storeRef :: "cell option \<Rightarrow> bool \<Rightarrow> unit bld" where
  "storeRef ref checkDepth = bnd getS (\<lambda>b.
     if length (b_refs b) \<ge> 4 then cellErr ErrTooMuchRefs
     else case ref of
       None \<Rightarrow> cellErr ErrRefCannotBeNil
     | Some r \<Rightarrow>
         if checkDepth \<and> Depth r \<ge> maxDepth then cellErr ErrCellDepthLimit
         else modifyS (\<lambda>b. b\<lparr>b_refs := b_refs b @ [r]\<rparr>))"

definition StoreRef :: "cell option \<Rightarrow> unit bld" where
  "StoreRef ref = storeRef ref True"

definition StoreRefUncheckedDepth :: "cell option \<Rightarrow> unit bld" where
  "StoreRefUncheckedDepth ref = storeRef ref False"

definition storeMaybeRef :: "cell option \<Rightarrow> bool \<Rightarrow> unit bld" where
  "storeMaybeRef ref checkDepth =
     (case ref of
        None \<Rightarrow> StoreUInt 0 1
      | Some r \<Rightarrow> bnd getS (\<lambda>b.
          if b_bitsSz b + 1 \<ge> 1024 then cellErr ErrNotFit1023
          else if checkDepth \<and> Depth r \<ge> maxDepth then cellErr ErrCellDepthLimit
          else seq (StoreUInt 1 1) (bnd getS (\<lambda>b.
            if length (b_refs b) \<ge> 4 then cellErr ErrTooMuchRefs
            else modifyS (\<lambda>b. b\<lparr>b_refs := b_refs b @ [r]\<rparr>)))))"

definition StoreMaybeRef :: "cell option \<Rightarrow> unit bld" where
  "StoreMaybeRef ref = storeMaybeRef ref True"

fun validateCellRefDepthLimit :: "cell list \<Rightarrow> go_error + unit" where
  "validateCellRefDepthLimit [] = Inr ()"
| "validateCellRefDepthLimit (ref # refs) =
     (if Depth ref \<ge> maxDepth then Inl (CellError ErrCellDepthLimit) else validateCellRefDepthLimit refs)"

definition storeBuilder :: "builder \<Rightarrow> bool \<Rightarrow> unit bld" where
  "storeBuilder other checkDepth = bnd getS (\<lambda>b.
     if length (b_refs b) + length (b_refs other) > 4 then cellErr ErrTooMuchRefs
     else if b_bitsSz b + b_bitsSz other \<ge> 1024 then cellErr ErrNotFit1023
     else seq (if checkDepth then lift_sum (validateCellRefDepthLimit (b_refs other)) else ret ())
       (seq (modifyS (\<lambda>b. b\<lparr>b_refs := b_refs b @ b_refs other\<rparr>))
         (StoreSlice (dataSlice other) (b_bitsSz other))))"

definition StoreBuilder :: "builder \<Rightarrow> unit bld" where
  "StoreBuilder other = storeBuilder other True"

definition builderDepth :: "builder \<Rightarrow> nat" where
  "builderDepth b = foldl (\<lambda>d r. let cd = (Depth r + 1) mod 65536 in if cd > d then cd else d) 0 (b_refs b)"

definition BitsUsed :: "builder \<Rightarrow> nat" where
  "BitsUsed b = b_bitsSz b"

definition BitsLeftB :: "builder \<Rightarrow> nat" where
  "BitsLeftB b = 1023 - b_bitsSz b"

definition RefsUsed :: "builder \<Rightarrow> nat" where
  "RefsUsed b = length (b_refs b)"

definition RefsLeftB :: "builder \<Rightarrow> nat" where
  "RefsLeftB b = 4 - length (b_refs b)"

definition CopyBuilder :: "builder \<Rightarrow> builder" where
  "CopyBuilder b = \<lparr>b_data = putBytes (replicate 128 0) 0 (dataSlice b), b_refs = b_refs b, b_bitsSz = b_bitsSz b\<rparr>"

end
