(* ===== verification/Cell_Builder_Bits.thy ===== *)
theory Cell_Builder_Bits
  imports Cell_Builder
begin

section \<open>What the stores of a builder write\<close>

text \<open>
  Every store appends exactly the bits it is asked to and keeps the builder invariant: the
  optimised byte and word loops of \<^verbatim>\<open>builder.go\<close> are equivalent to appending to a bit list.
\<close>

definition builder_ok :: "builder \<Rightarrow> bool" where
  "builder_ok b \<longleftrightarrow> length (b_data b) = 128 \<and> b_bitsSz b < 1024 \<and> length (b_refs b) \<le> 4 \<and>
     (\<forall>k\<in>{b_bitsSz b..<1024}. \<not> bitAt (b_data b) k)"

definition builderBits :: "builder \<Rightarrow> bool list" where
  "builderBits b = bitsOf (b_data b) 0 (b_bitsSz b)"

lemma length_builderBits [simp]: "length (builderBits b) = b_bitsSz b"
  by (simp add: builderBits_def)

lemma builder_ok_BeginCell [simp]: "builder_ok BeginCell"
  by (auto simp: builder_ok_def BeginCell_def bitAt_def less_mult_imp_div_less)

lemma builderBits_BeginCell [simp]: "builderBits BeginCell = []"
  by (simp add: builderBits_def bitsOf_def BeginCell_def)

text \<open>
  \<open>appended d B n f d'\<close>: the 128-byte buffer \<open>d'\<close> has the bits of \<open>d\<close> before \<open>B\<close>, then the \<open>n\<close> bits
  \<open>f 0, f 1, ...\<close>, then zeros.
\<close>

definition appended :: "byte list \<Rightarrow> nat \<Rightarrow> nat \<Rightarrow> (nat \<Rightarrow> bool) \<Rightarrow> byte list \<Rightarrow> bool" where
  "appended d B n f d' \<longleftrightarrow> length d' = 128 \<and>
     (\<forall>k<1024. bitAt d' k = (if k < B then bitAt d k else k < B + n \<and> f (k - B)))"

lemma appendedD:
  "appended d B n f d' \<Longrightarrow> k < 1024 \<Longrightarrow>
     bitAt d' k = (if k < B then bitAt d k else k < B + n \<and> f (k - B))"
  by (simp add: appended_def)

lemma appended_length: "appended d B n f d' \<Longrightarrow> length d' = 128"
  by (simp add: appended_def)

lemma builder_ok_appended0:
  "builder_ok b \<Longrightarrow> appended (b_data b) (b_bitsSz b) 0 f (b_data b)"
  by (auto simp: builder_ok_def appended_def)

lemma appended_builder:
  assumes "builder_ok b" "b_bitsSz b + n < 1024" "appended (b_data b) (b_bitsSz b) n f d'"
  shows "builder_ok (b\<lparr>b_data := d', b_bitsSz := b_bitsSz b + n\<rparr>) \<and>
         builderBits (b\<lparr>b_data := d', b_bitsSz := b_bitsSz b + n\<rparr>) = builderBits b @ map f [0..<n]"
proof
  show "builder_ok (b\<lparr>b_data := d', b_bitsSz := b_bitsSz b + n\<rparr>)"
    using assms by (auto simp: builder_ok_def appended_def)
  show "builderBits (b\<lparr>b_data := d', b_bitsSz := b_bitsSz b + n\<rparr>) = builderBits b @ map f [0..<n]"
    using assms(2,3)
    by (intro nth_equalityI) (auto simp: builderBits_def nth_append appended_def)
qed

lemma div8E:
  fixes n :: nat
  obtains q r where "n = 8 * q + r" "r < 8" "n div 8 = q" "n mod 8 = r"
  using that [of "n div 8" "n mod 8"] by simp

lemma ceil8: "0 < r \<Longrightarrow> r < 8 \<Longrightarrow> (8 * q + r + 7) div 8 = Suc (q :: nat)"
  by (rule div_nat_eqI) simp_all

lemma appended_clearTail:
  assumes "appended d B m f d'" "n \<le> m" "B + m \<le> 8 * ((B + n + 7) div 8)" "B + n < 1024"
  shows "appended d B n f (clearTail (B + n) d')"
proof -
  obtain q r where e: "B + n = 8 * q + r" "r < 8" "(B + n) div 8 = q" "(B + n) mod 8 = r"
    by (rule div8E)
  have ct: "clearTail (B + n) d' = (if r \<noteq> 0 then d'[q := d' ! q AND maskTail r] else d')"
    by (simp add: clearTail_def Let_def e(3,4))
  show ?thesis
  proof (cases "r = 0")
    case True
    then have "n = m" using assms(2,3) e(1) by simp
    then show ?thesis using assms(1) True ct by simp
  next
    case False
    then have up: "B + m \<le> 8 * q + 8" using assms(3) ceil8 [of r q] e(2) by (simp add: e(1))
    have q: "q < 128" using assms(4) e(1) by linarith
    have "bitAt (clearTail (B + n) d') k = (if k < B then bitAt d k else k < B + n \<and> f (k - B))"
      if k: "k < 1024" for k
    proof -
      obtain kq kr where ke: "k = 8 * kq + kr" "kr < 8" "k div 8 = kq" "k mod 8 = kr"
        by (rule div8E)
      consider "kq = q" | "kq + 1 \<le> q" | "q + 1 \<le> kq" by linarith
      then have "bitAt (clearTail (B + n) d') k \<longleftrightarrow> bitAt d' k \<and> k < B + n"
      proof cases
        case 1
        moreover have "kr < r \<longleftrightarrow> k < B + n" using 1 e(1) ke(1) by linarith
        ultimately show ?thesis
          using False q bit_maskTail [of r kr] e(2) ke assms(1)
          by (simp add: ct bitAt_update appended_length bit_and_iff bitAt_def)
      next
        case 2
        then have "k < B + n" using ke(1,2) e(1) by linarith
        then show ?thesis using 2 ke q assms(1) by (simp add: ct bitAt_update appended_length)
      next
        case 3
        then have "B + m \<le> k" using ke(1,2) up by linarith
        then have "\<not> bitAt d' k" "\<not> k < B + n"
          using appendedD [OF assms(1) k] assms(2) by simp_all
        then show ?thesis using 3 ke q assms(1) by (simp add: ct bitAt_update appended_length)
      qed
      then show ?thesis using appendedD [OF assms(1) k] assms(2) by auto
    qed
    then show ?thesis
      using appended_length [OF assms(1)] by (simp add: appended_def ct)
  qed
qed

subsection \<open>\<open>StoreSlice\<close>\<close>

lemma bit8_high [simp]: "8 \<le> n \<Longrightarrow> \<not> bit (x :: byte) n"
  by (auto dest: bit_imp_le_length)

lemma bit64_high [simp]: "64 \<le> n \<Longrightarrow> \<not> bit (x :: 64 word) n"
  by (auto dest: bit_imp_le_length)

lemma seven_minus [simp]: "7 - (k :: nat) < 8"
  by simp

lemma orByte:
  assumes "appended d B (8 * i) (bitAt src) d1" "B = 8 * q + shift" "0 < shift" "shift < 8" "q + i < 128"
  shows "appended d B (8 * i + (8 - shift)) (bitAt src)
           (d1[q + i := d1 ! (q + i) OR drop_bit shift (src ! i)])" (is "appended _ _ _ _ ?d2")
proof -
  have "bitAt ?d2 k = (if k < B then bitAt d k else k < B + (8 * i + (8 - shift)) \<and> bitAt src (k - B))"
    if k: "k < 1024" for k
  proof -
    obtain kq kr where ke: "k = 8 * kq + kr" "kr < 8" "k div 8 = kq" "k mod 8 = kr"
      by (rule div8E)
    note old = appendedD [OF assms(1) k]
    consider "kq = q + i" "kr < shift" | "kq = q + i" "shift \<le> kr" | "kq \<noteq> q + i" by linarith
    then show ?thesis
    proof cases
      case 1
      then have "k < B + 8 * i" using ke(1) assms(2) by simp
      moreover have "\<not> bit (drop_bit shift (src ! i)) (7 - kr)"
        using 1 assms(4) by (simp add: bit_drop_bit_eq)
      ultimately show ?thesis
        using old 1 ke assms(5) appended_length [OF assms(1)]
        by (auto simp: bitAt_update bit_or_iff) (auto simp: bitAt_def)
    next
      case 2
      have kB: "k - B = 8 * i + (kr - shift)" "B + 8 * i \<le> k" "k < B + (8 * i + (8 - shift))"
        using 2 ke(1,2) assms(2,4) by simp_all
      have "bitAt src (k - B) = bit (src ! i) (7 - (kr - shift))"
        unfolding kB(1) using ke(2) by (intro bitAt_byte) simp
      moreover have "shift + (7 - kr) = 7 - (kr - shift)" using 2 ke(2) by simp
      ultimately show ?thesis
        using old 2 ke assms(5) appended_length [OF assms(1)] kB
        by (auto simp: bitAt_update bit_or_iff bit_drop_bit_eq) (auto simp: bitAt_def)
    next
      case 3
      then have "k < B + 8 * i \<or> B + (8 * i + (8 - shift)) \<le> k"
        using ke(1,2) assms(2,4) by (cases kq "q + i" rule: linorder_cases) simp_all
      then show ?thesis
        using old 3 ke assms(5) appended_length [OF assms(1)] by (auto simp: bitAt_update)
    qed
  qed
  then show ?thesis using appended_length [OF assms(1)] by (simp add: appended_def)
qed

lemma nextByte:
  assumes "appended d B (8 * i + (8 - shift)) (bitAt src) d1" "B = 8 * q + shift" "0 < shift" "shift < 8"
    "q + i + 1 < 128"
  shows "appended d B (8 * (i + 1)) (bitAt src) (d1[q + i + 1 := push_bit (8 - shift) (src ! i)])"
    (is "appended _ _ _ _ ?d2")
proof -
  have "bitAt ?d2 k = (if k < B then bitAt d k else k < B + 8 * (i + 1) \<and> bitAt src (k - B))"
    if k: "k < 1024" for k
  proof -
    obtain kq kr where ke: "k = 8 * kq + kr" "kr < 8" "k div 8 = kq" "k mod 8 = kr"
      by (rule div8E)
    note old = appendedD [OF assms(1) k]
    have new: "kq = q + i + 1 \<Longrightarrow> bitAt ?d2 k = bit (push_bit (8 - shift) (src ! i)) (7 - kr)"
      using ke assms(5) appended_length [OF assms(1)] by (simp add: bitAt_update)
    consider "kq = q + i + 1" "shift \<le> kr" | "kq = q + i + 1" "kr < shift" | "kq \<noteq> q + i + 1" by linarith
    then show ?thesis
    proof cases
      case 1
      then have "B + 8 * (i + 1) \<le> k" "\<not> 8 - shift \<le> 7 - kr" using ke(1,2) assms(2) by simp_all
      then show ?thesis using new 1 assms(2) by (simp add: bit_push_bit_iff)
    next
      case 2
      have kB: "k - B = 8 * i + (8 - shift + kr)" "\<not> k < B" "k < B + 8 * (i + 1)" "8 - shift + kr < 8"
        "7 - kr - (8 - shift) = 7 - (8 - shift + kr)" "8 - shift \<le> 7 - kr"
        using 2 ke(1,2) assms(2,4) by simp_all
      have "bitAt src (k - B) = bit (src ! i) (7 - (8 - shift + kr))"
        unfolding kB(1) using kB(4) by (rule bitAt_byte)
      then show ?thesis
        using new 2(1) kB by (simp add: bit_push_bit_iff)
    next
      case 3
      then have "k < B + (8 * i + (8 - shift)) \<or> B + 8 * (i + 1) \<le> k"
        using ke(1,2) assms(2,4) by (cases kq "q + i + 1" rule: linorder_cases) simp_all
      then show ?thesis
        using old 3 ke assms(3,5) appended_length [OF assms(1)] by (auto simp: bitAt_update)
    qed
  qed
  then show ?thesis using appended_length [OF assms(1)] by (simp add: appended_def)
qed

lemma le_ceil8: "x \<le> 8 * m \<Longrightarrow> 8 * m \<le> y \<Longrightarrow> x \<le> 8 * (y div (8 :: nat))"
  by (rule order_trans [of _ "8 * m"]) (simp_all add: less_eq_div_iff_mult_less_eq mult.commute)

lemma storeSliceTail_step:
  "i < n \<Longrightarrow> storeSliceTail shift q n sz src i d = storeSliceTail shift q n sz src (i + 1)
     (let d1 = d[q + i := d ! (q + i) OR drop_bit shift (src ! i)]
      in if sz > i * 8 + (8 - shift) then d1[q + i + 1 := push_bit (8 - shift) (src ! i)] else d1)"
  by (simp add: storeSliceTail.simps [of shift q n sz src i d] Let_def)

lemma storeSliceTail_done: "\<not> i < n \<Longrightarrow> storeSliceTail shift q n sz src i d = d"
  by (simp add: storeSliceTail.simps [of shift q n sz src i d] Let_def)

lemma storeSliceTail_last:
  "n = i + 1 \<Longrightarrow> storeSliceTail shift q n sz src i d =
     (let d1 = d[q + i := d ! (q + i) OR drop_bit shift (src ! i)]
      in if sz > i * 8 + (8 - shift) then d1[q + i + 1 := push_bit (8 - shift) (src ! i)] else d1)"
  by (subst storeSliceTail_step) (simp_all add: storeSliceTail_done)

lemma storeSliceTail_spec:
  assumes "appended d B (8 * i) (bitAt src) d1" "B = 8 * q + shift" "0 < shift" "shift < 8"
    "B + sz < 1024" "8 * i < sz" "sz + 7 = 8 * n + sr" "sr < 8"
  shows "\<exists>m. appended d B m (bitAt src) (storeSliceTail shift q n sz src i d1) \<and> sz \<le> m \<and>
           B + m \<le> 8 * ((B + sz + 7) div 8)"
  using assms(1,6)
proof (induction "n - i" arbitrary: i d1 rule: less_induct)
  case less
  have n: "i < n" using less.prems(2) assms(7,8) by linarith
  have qi: "q + i < 128" using less.prems(2) assms(2,5) by linarith
  have or: "appended d B (8 * i + (8 - shift)) (bitAt src)
      (d1[q + i := d1 ! (q + i) OR drop_bit shift (src ! i)])"
    using orByte [OF less.prems(1) assms(2-4) qi] .
  show ?case
  proof (cases "sz > i * 8 + (8 - shift)")
    case gt: True
    have qi1: "q + i + 1 < 128" using gt assms(2,4,5) by linarith
    note nx = nextByte [OF or assms(2-4) qi1]
    show ?thesis
    proof (cases "8 * (i + 1) < sz")
      case True
      from less.hyps [OF _ nx True] n show ?thesis
        unfolding storeSliceTail_step [OF n] Let_def if_P [OF gt] by simp
    next
      case False
      then have "sz \<le> 8 * i + 8" by simp
      then have "n < i + 2" using assms(7) by linarith
      then have last: "n = i + 1" using n by linarith
      have "B + 8 * (i + 1) \<le> 8 * ((B + sz + 7) div 8)"
        using gt assms(2,4) by (intro le_ceil8 [of _ "q + i + 2"]) auto
      moreover have "sz \<le> 8 * (i + 1)" using False by simp
      ultimately show ?thesis
        using nx unfolding storeSliceTail_last [OF last] Let_def if_P [OF gt] by blast
    qed
  next
    case le: False
    then have "sz \<le> 8 * i + 7" using assms(3) by simp
    then have "n < i + 2" using assms(7) by linarith
    then have last: "n = i + 1" using n by linarith
    have "B + (8 * i + (8 - shift)) \<le> 8 * ((B + sz + 7) div 8)"
      using less.prems(2) assms(2-4) by (intro le_ceil8 [of _ "q + i + 1"]) auto
    moreover have "sz \<le> 8 * i + (8 - shift)" using le by simp
    ultimately show ?thesis
      using or unfolding storeSliceTail_last [OF last] Let_def if_not_P [OF le] by blast
  qed
qed

lemma divmod8: "r < 8 \<Longrightarrow> (8 * q + r) div 8 = q \<and> (8 * q + r) mod 8 = (r :: nat)"
  by simp

lemma orWord_same:
  assumes "length d1 = 128" "0 < shift" "q + i < 128"
    "k < 8 * (q + i) + shift \<or> 8 * (q + i) + 8 \<le> k"
  shows "bitAt (d1[q + i := d1 ! (q + i) OR ucast (drop_bit (56 + shift) (v :: 64 word))]) k = bitAt d1 k"
proof -
  obtain kq kr where ke: "k = 8 * kq + kr" "kr < 8" "k div 8 = kq" "k mod 8 = kr"
    by (rule div8E)
  show ?thesis
  proof (cases "kq = q + i")
    case True
    then have "kr < shift" using assms(4) ke(1,2) by auto
    then have "\<not> bit (ucast (drop_bit (56 + shift) v) :: byte) (7 - kr)"
      by (simp add: bit_simps)
    then show ?thesis
      using True ke assms(1,3) by (auto simp: bitAt_update bit_or_iff) (auto simp: bitAt_def)
  qed (use ke assms(1,3) in \<open>simp add: bitAt_update\<close>)
qed

lemma orWord:
  assumes "appended d B (8 * i) (bitAt src) d1" "B = 8 * q + shift" "0 < shift" "shift + ish = 8"
    "q + i + 9 \<le> 128" "i + 8 \<le> length src"
  defines "v \<equiv> beUint64 src i"
  shows "appended d B (8 * (i + 8)) (bitAt src)
           (putBytes (d1[q + i := d1 ! (q + i) OR ucast (drop_bit (56 + shift) v)])
              (q + i + 1) (beBytes64 (push_bit ish v)))" (is "appended _ _ _ _ (putBytes ?d2 _ ?w)")
proof -
  have l: "length ?d2 = 128" "length d1 = 128" using appended_length [OF assms(1)] by simp_all
  have v: "j < 64 \<Longrightarrow> bit v j = bitAt src (8 * i + (63 - j))" for j
    unfolding v_def using assms(6) by (rule bit_beUint64)
  have "bitAt (putBytes ?d2 (q + i + 1) ?w) k =
      (if k < B then bitAt d k else k < B + 8 * (i + 8) \<and> bitAt src (k - B))" if k: "k < 1024" for k
  proof -
    note old = appendedD [OF assms(1) k]
    have qi: "q + i < 128" using assms(5) by simp
    note same = orWord_same [OF l(2) assms(3) qi, of k v]
    have put: "bitAt (putBytes ?d2 (q + i + 1) ?w) k =
        (if 8 * (q + i) + 8 \<le> k \<and> k < 8 * (q + i) + 72
         then bit (push_bit ish v) (63 - (k - (8 * (q + i) + 8))) else bitAt ?d2 k)"
      using bitAt_putUint64 [of "q + i + 1" ?d2 k] l assms(5) k by simp
    consider (A) "k < B + 8 * i" | (B) p where "k = B + 8 * i + p" "p < ish"
      | (C) t where "k = 8 * (q + i) + 8 + t" "t < 64" | (D) "8 * (q + i) + 72 \<le> k"
    proof (cases "k < B + 8 * i")
      case True then show thesis using A by blast
    next
      case False
      then obtain p where p: "k = B + 8 * i + p" by (metis le_Suc_ex not_less)
      show thesis
      proof (cases "p < ish")
        case True then show thesis using B p by blast
      next
        case False
        then obtain t where t: "p = ish + t" by (metis le_Suc_ex not_less)
        have "k = 8 * (q + i) + 8 + t" using p t assms(2,4) by simp
        then show thesis using C D by (cases "t < 64") simp_all
      qed
    qed
    then show ?thesis
    proof cases
      case A
      then show ?thesis using put same old assms(2,4) by auto
    next
      case (B p)
      have "k = 8 * (q + i) + (shift + p)" "shift + p < 8" using B assms(2,4) by simp_all
      then have kk: "k div 8 = q + i" "k mod 8 = shift + p" "shift + p < 8"
        using divmod8 [of "shift + p" "q + i"] by simp_all
      have "bit (ucast (drop_bit (56 + shift) v) :: byte) (7 - (shift + p)) = bit v (63 - p)"
        using kk(3) by (simp add: bit_simps)
      also have "\<dots> = bitAt src (8 * i + p)" using v [of "63 - p"] kk(3) by simp
      finally show ?thesis
        using put old B kk l qi assms(2,4)
        by (auto simp: bitAt_update bit_or_iff) (auto simp: bitAt_def)
    next
      case (C t)
      have "k - B = 8 * i + (ish + t)" "\<not> k < B" using C assms(2,4) by simp_all
      moreover have "bit (push_bit ish v) (63 - t) \<longleftrightarrow> ish + t < 64 \<and> bitAt src (8 * i + (ish + t))"
        using v [of "63 - (ish + t)"] C(2) by (auto simp: bit_push_bit_iff ac_simps)
      moreover have "k < B + 8 * (i + 8) \<longleftrightarrow> ish + t < 64" using C assms(2,4) by auto
      ultimately show ?thesis using put C by simp
    next
      case D
      then show ?thesis using put same old assms(2,4) by auto
    qed
  qed
  then show ?thesis using l assms(5) by (simp add: appended_def)
qed

lemma storeSliceWords_stop:
  "\<not> (i + 8 \<le> n \<and> (i + 7) * 8 + (8 - shift) < sz \<and> q + i + 9 \<le> length d) \<Longrightarrow>
   storeSliceWords shift q n sz src i d = (i, d)"
  by (subst storeSliceWords.simps) (simp only: Let_def if_False)

lemma storeSliceWords_go:
  "i + 8 \<le> n \<and> (i + 7) * 8 + (8 - shift) < sz \<and> q + i + 9 \<le> length d \<Longrightarrow>
   storeSliceWords shift q n sz src i d = storeSliceWords shift q n sz src (i + 8)
     (putBytes (d[q + i := d ! (q + i) OR ucast (drop_bit (56 + shift) (beUint64 src i))])
           (q + i + 1) (beBytes64 (push_bit (8 - shift) (beUint64 src i))))"
  by (subst storeSliceWords.simps) (simp only: Let_def simp_thms if_True)

lemma storeSliceWords_spec:
  assumes "appended d B (8 * i) (bitAt src) d1" "B = 8 * q + shift" "0 < shift" "shift < 8"
    "n \<le> length src" "8 * i < sz" "sz + 7 = 8 * n + sr" "sr < 8"
    "storeSliceWords shift q n sz src i d1 = (j, d2)"
  shows "appended d B (8 * j) (bitAt src) d2 \<and>
    (8 * j < sz \<or> (j = n \<and> sz \<le> 8 * j \<and> B + 8 * j \<le> 8 * ((B + sz + 7) div 8)))"
  using assms(1,6,9)
proof (induction "n - i" arbitrary: i d1 rule: less_induct)
  case less
  show ?case
  proof (cases "i + 8 \<le> n \<and> (i + 7) * 8 + (8 - shift) < sz \<and> q + i + 9 \<le> length d1")
    case go: True
    let ?d = "putBytes (d1[q + i := d1 ! (q + i) OR ucast (drop_bit (56 + shift) (beUint64 src i))])
           (q + i + 1) (beBytes64 (push_bit (8 - shift) (beUint64 src i)))"
    have step: "appended d B (8 * (i + 8)) (bitAt src) ?d"
      using go assms(2-5) appended_length [OF less.prems(1)]
      by (intro orWord [OF less.prems(1)]) simp_all
    have res: "storeSliceWords shift q n sz src (i + 8) ?d = (j, d2)"
      using less.prems(3) storeSliceWords_go [OF go] by simp
    show ?thesis
    proof (cases "8 * (i + 8) < sz")
      case True
      have "n - (i + 8) < n - i" using go by linarith
      from less.hyps [OF this step True res] show ?thesis .
    next
      case False
      then have "sz \<le> 8 * i + 64" by simp
      then have "n < i + 9" using assms(7) by linarith
      then have n: "n = i + 8" using go by linarith
      have "j = i + 8 \<and> d2 = ?d"
        using res storeSliceWords_stop [of "i + 8" n shift sz q ?d src] n by simp
      moreover have "B + 8 * (i + 8) \<le> 8 * ((B + sz + 7) div 8)"
        using go assms(2,4) by (intro le_ceil8 [of _ "q + i + 9"]) auto
      ultimately show ?thesis using step n \<open>sz \<le> 8 * i + 64\<close> by auto
    qed
  next
    case False
    then show ?thesis
      using less.prems storeSliceWords_stop [OF False] by simp
  qed
qed

lemma storeSliceData_spec:
  assumes "builder_ok b" "B = b_bitsSz b" "d = b_data b" "0 < sz" "B + sz < 1024" "sz \<le> 8 * length src"
  shows "appended d B sz (bitAt src) (storeSliceData src sz B d)"
proof -
  obtain q shift where B: "B = 8 * q + shift" "shift < 8" "B div 8 = q" "B mod 8 = shift" by (rule div8E)
  obtain n sr where n: "sz + 7 = 8 * n + sr" "sr < 8" "(sz + 7) div 8 = n" by (rule div8E)
  have nl: "n \<le> length src" using n(1) assms(6) by linarith
  have start: "appended d B (8 * 0) (bitAt src) d"
    using builder_ok_appended0 [OF assms(1)] assms(2,3) by simp
  show ?thesis
  proof (cases "shift = 0")
    case True
    have qn: "q + n \<le> 128" using True B(1) n(1) assms(5) by linarith
    have ld: "length d = 128" using appended_length [OF start] .
    have "appended d B (8 * n) (bitAt src) (putBytes d q (take n src))"
      unfolding appended_def
    proof (intro conjI allI impI)
      fix k :: nat assume k: "k < 1024"
      have "k < 8 * n + 8 * q \<Longrightarrow> 8 * q \<le> k \<Longrightarrow> bitAt (take n src) (k - 8 * q) = bitAt src (k - 8 * q)"
        by (simp add: bitAt_def less_mult_imp_div_less)
      then show "bitAt (putBytes d q (take n src)) k = (if k < B then bitAt d k else k < B + 8 * n \<and> bitAt src (k - B))"
        using bitAt_putBytes [of q "take n src" d k] k ld qn nl appendedD [OF start k] True B(1)
        by (auto simp: min_def)
    qed (use ld qn nl in simp)
    moreover have "sz \<le> 8 * n" using n(1,2) by linarith
    moreover have "B + 8 * n \<le> 8 * ((B + sz + 7) div 8)"
      using True B(1) n(1) by (intro le_ceil8 [of _ "q + n"]) simp_all
    ultimately show ?thesis
      using appended_clearTail [OF _ _ _ assms(5)] True
      by (simp add: storeSliceData_def Let_def B(3,4) n(3))
  next
    case False
    obtain j d1 where w: "storeSliceWords shift q n sz src 0 d = (j, d1)" by force
    have j: "appended d B (8 * j) (bitAt src) d1"
        "8 * j < sz \<or> (j = n \<and> sz \<le> 8 * j \<and> B + 8 * j \<le> 8 * ((B + sz + 7) div 8))"
      using storeSliceWords_spec [OF start B(1) _ B(2) nl _ n(1,2) w] False assms(4) by simp_all
    have "\<exists>m. appended d B m (bitAt src) (storeSliceTail shift q n sz src j d1) \<and> sz \<le> m \<and>
           B + m \<le> 8 * ((B + sz + 7) div 8)"
      using j(2)
    proof
      assume "8 * j < sz"
      from storeSliceTail_spec [OF j(1) B(1) _ B(2) assms(5) this n(1,2)] show ?thesis using False by simp
    next
      assume "j = n \<and> sz \<le> 8 * j \<and> B + 8 * j \<le> 8 * ((B + sz + 7) div 8)"
      then show ?thesis using j(1) storeSliceTail_done [of j n shift q sz src d1] by auto
    qed
    then obtain m where m: "appended d B m (bitAt src) (storeSliceTail shift q n sz src j d1)"
        "sz \<le> m" "B + m \<le> 8 * ((B + sz + 7) div 8)" by blast
    have "storeSliceData src sz B d = clearTail (B + sz) (storeSliceTail shift q n sz src j d1)"
      using False by (simp add: storeSliceData_def Let_def B(3,4) n(3) w)
    then show ?thesis using appended_clearTail [OF m assms(5)] by simp
  qed
qed

lemma StoreSlice_ok:
  assumes "builder_ok b" "b_bitsSz b + sz < 1024" "sz \<le> 8 * length src"
  shows "\<exists>b'. StoreSlice src sz b = (Inr (), b') \<and> builder_ok b' \<and> b_refs b' = b_refs b \<and>
    builderBits b' = builderBits b @ bitsOf src 0 sz"
proof (cases "sz = 0")
  case True
  then show ?thesis using assms(1) by (simp add: StoreSlice_def act_simps bitsOf_def)
next
  case False
  then have "appended (b_data b) (b_bitsSz b) sz (bitAt src) (storeSliceData src sz (b_bitsSz b) (b_data b))"
    using assms by (intro storeSliceData_spec) auto
  from appended_builder [OF assms(1,2) this] show ?thesis
    using False assms(2,3) by (simp add: StoreSlice_def act_simps bitsOf_def)
qed

subsection \<open>\<open>StoreBoolBit\<close> and \<open>StoreUInt\<close>\<close>

lemma builder_ok_zero: "builder_ok b \<Longrightarrow> b_bitsSz b \<le> k \<Longrightarrow> k < 1024 \<Longrightarrow> \<not> bitAt (b_data b) k"
  by (simp add: builder_ok_def)

lemma StoreBoolBit_ok:
  assumes "builder_ok b" "b_bitsSz b + 1 < 1024"
  shows "\<exists>b'. StoreBoolBit v b = (Inr (), b') \<and> builder_ok b' \<and> b_refs b' = b_refs b \<and>
    builderBits b' = builderBits b @ [v]"
proof -
  let ?B = "b_bitsSz b" and ?d = "b_data b"
  obtain q r where B: "?B = 8 * q + r" "r < 8" "?B div 8 = q" "?B mod 8 = r" by (rule div8E)
  let ?m = "push_bit (7 - r) 1 :: byte"
  let ?d' = "?d[q := (if v then ?d ! q OR ?m else ?d ! q AND NOT ?m)]"
  note start = builder_ok_appended0 [OF assms(1), of "\<lambda>_. v"]
  have q: "q < 128" using assms(2) B(1) by linarith
  have m: "kr < 8 \<Longrightarrow> bit ?m (7 - kr) \<longleftrightarrow> kr = r" for kr
    using B(2) by (auto simp: bit_simps)
  have "appended ?d ?B 1 (\<lambda>_. v) ?d'"
    unfolding appended_def
  proof (intro conjI allI impI)
    fix k :: nat assume k: "k < 1024"
    obtain kq kr where ke: "k = 8 * kq + kr" "kr < 8" "k div 8 = kq" "k mod 8 = kr"
      by (rule div8E)
    show "bitAt ?d' k = (if k < ?B then bitAt ?d k else k < ?B + 1 \<and> v)"
    proof (cases "kq = q")
      case True
      have "bitAt ?d' k = (if kr = r then v else bitAt ?d k)"
        using True ke q appended_length [OF start] m [OF ke(2)]
        by (auto simp: bitAt_update bit_or_iff bit_and_iff bit_not_iff) (auto simp: bitAt_def)
      moreover have "kr = r \<longleftrightarrow> k = ?B" using True ke(1) B(1) by simp
      ultimately show ?thesis
        using builder_ok_zero [OF assms(1) _ k] by (cases k ?B rule: linorder_cases) simp_all
    next
      case False
      then have "k \<noteq> ?B" using ke(3) B(3) by metis
      moreover have "bitAt ?d' k = bitAt ?d k"
        using False ke(3) q appended_length [OF start] by (simp add: bitAt_update)
      ultimately show ?thesis
        using builder_ok_zero [OF assms(1) _ k] by (cases "k < ?B") simp_all
    qed
  qed (use appended_length [OF start] in simp)
  from appended_builder [OF assms this] show ?thesis
    using assms(2) by (cases v) (simp_all add: StoreBoolBit_def act_simps Let_def B(3,4))
qed

lemma storeUIntWord_spec:
  assumes ok: "builder_ok b" and "B = b_bitsSz b" "d = b_data b" "0 < sz" "sz \<le> 64" "B + sz < 1024"
    "B div 8 + 8 \<le> 128"
  shows "appended d B sz (\<lambda>i. bit value (sz - 1 - i)) (storeUIntWord value sz B d)"
proof -
  obtain q r where B: "B = 8 * q + r" "r < 8" "B div 8 = q" "B mod 8 = r" by (rule div8E)
  define v where "v = push_bit (64 - sz) value"
  define d1 where "d1 = putBytes d q (beBytes64 (beUint64 d q OR drop_bit r v))"
  have start: "appended d B 0 f d" for f
    using builder_ok_appended0 [OF ok] assms(2,3) by simp
  have ld: "length d = 128" using appended_length [OF start] .
  have q8: "q + 8 \<le> 128" using assms(7) B(3) by simp
  have v: "bit v j \<longleftrightarrow> 64 - sz \<le> j \<and> j < 64 \<and> bit value (j - (64 - sz))" for j
    by (auto simp: v_def bit_push_bit_iff dest: bit_imp_le_length)
  have d1: "bitAt d1 k = (if k < B then bitAt d k else k < B + sz \<and> k < 8 * q + 64 \<and> bit value (sz - 1 - (k - B)))"
    if k: "k < 1024" for k
  proof -
    have put: "bitAt d1 k = (if 8 * q \<le> k \<and> k < 8 * q + 64
        then bit (beUint64 d q OR drop_bit r v) (63 - (k - 8 * q)) else bitAt d k)"
      unfolding d1_def using bitAt_putUint64 [of q d k] k ld q8 by simp
    show ?thesis
    proof (cases "8 * q \<le> k \<and> k < 8 * q + 64")
      case True
      then obtain t where t: "k = 8 * q + t" "t < 64" by (metis le_Suc_ex nat_add_left_cancel_less)
      have "bit (beUint64 d q) (63 - t) = bitAt d k"
        using bit_beUint64 [of q d "63 - t"] ld q8 t by simp
      moreover have "bit (drop_bit r v) (63 - t) \<longleftrightarrow> r \<le> t \<and> t - r < sz \<and> bit value (sz - 1 - (t - r))"
      proof (cases "r \<le> t")
        case True
        then obtain p where p: "t = r + p" by (metis le_Suc_ex)
        have "r + (63 - t) = 63 - p" using p t(2) by simp
        then show ?thesis
          using p t(2) assms(4,5) v [of "63 - p"] by (auto simp: bit_drop_bit_eq)
      next
        case False
        then have "64 \<le> r + (63 - t)" using t(2) by simp
        then show ?thesis using False v by (simp add: bit_drop_bit_eq)
      qed
      ultimately show ?thesis
        using put t B(1) appendedD [OF start k] by (auto simp: bit_or_iff)
    next
      case False
      then show ?thesis using put B(1,2) appendedD [OF start k] by auto
    qed
  qed
  have l1: "length d1 = 128" using ld q8 by (simp add: d1_def)
  show ?thesis
  proof (cases "r + sz > 64")
    case False
    have "storeUIntWord value sz B d = d1"
      using False by (simp add: storeUIntWord_def Let_def B(3,4) d1_def v_def)
    moreover have "k < B + sz \<Longrightarrow> k < 8 * q + 64" for k using False B(1) by simp
    ultimately show ?thesis using d1 l1 by (auto simp: appended_def)
  next
    case True
    define x where "x = (ucast (drop_bit 56 (push_bit (64 - r) v)) :: byte)"
    have st: "storeUIntWord value sz B d = d1[q + 8 := x]"
      using True by (simp add: storeUIntWord_def Let_def B(3,4) d1_def v_def x_def)
    have q9: "q + 8 < 128" using True assms(6) B(1) by linarith
    have x: "bit x (7 - kr) \<longleftrightarrow> kr + 64 < r + sz \<and> bit value (sz + r - 65 - kr)" if "kr < 8" for kr
    proof -
      have "bit x (7 - kr) \<longleftrightarrow> kr < r \<and> bit v (r - 1 - kr)"
        using that B(2) by (auto simp: x_def bit_simps)
      moreover have "r - 1 - kr - (64 - sz) = sz + r - 65 - kr" using assms(5) by simp
      moreover have "kr < r \<and> 64 - sz \<le> r - 1 - kr \<longleftrightarrow> kr + 64 < r + sz" using assms(5) by auto
      ultimately show ?thesis using v [of "r - 1 - kr"] B(2) by auto
    qed
    have "bitAt (d1[q + 8 := x]) k = (if k < B then bitAt d k else k < B + sz \<and> bit value (sz - 1 - (k - B)))"
      if k: "k < 1024" for k
    proof -
      obtain kq kr where ke: "k = 8 * kq + kr" "kr < 8" "k div 8 = kq" "k mod 8 = kr" by (rule div8E)
      show ?thesis
      proof (cases "kq = q + 8")
        case True
        have "bitAt (d1[q + 8 := x]) k = bit x (7 - kr)"
          using True ke l1 q9 by (simp add: bitAt_update)
        moreover have "\<not> k < B" "k < B + sz \<longleftrightarrow> kr + 64 < r + sz" "sz - 1 - (k - B) = sz + r - 65 - kr"
          using True ke(1,2) B(1,2) by auto
        ultimately show ?thesis using x [OF ke(2)] by simp
      next
        case False
        have "bitAt (d1[q + 8 := x]) k = bitAt d1 k"
          using False ke l1 q9 by (simp add: bitAt_update)
        moreover have "k < B + sz \<Longrightarrow> k < 8 * q + 64"
          using False ke(1,2) B(1,2) assms(5) by (cases kq "q + 8" rule: linorder_cases) auto
        ultimately show ?thesis using d1 [OF k] by auto
      qed
    qed
    then show ?thesis using l1 st by (simp add: appended_def)
  qed
qed

end
