(* ===== verification/Cell_Builder_Ints.thy ===== *)
theory Cell_Builder_Ints
  imports Cell_Builder_Bits
begin

section \<open>What the integer stores of a builder write\<close>

text \<open>
  \<open>StoreUInt\<close>, \<open>StoreBigUInt\<close>, \<open>StoreInt\<close> and \<open>StoreBigInt\<close> of \<^verbatim>\<open>builder.go\<close> append exactly the
  two's-complement bits of their argument, whatever path (aligned bytes, one 64-bit word, byte
  slices) the code takes for the current bit offset.
\<close>

subsection \<open>Words of at most 64 bits\<close>

lemma bitAt_storeUIntAligned:
  assumes "0 < sz" "sz \<le> 64" "sz mod 8 = 0"
  shows "length (storeUIntAligned value sz) = sz div 8 \<and>
    (\<forall>k. k < sz \<longrightarrow> bitAt (storeUIntAligned value sz) k = bit value (sz - 1 - k))"
proof -
  have one: "[ucast value] = beBytesN 1 value"
    by (simp add: beBytesN_def)
  have nd: "8 * (sz div 8) = sz" using assms(3) by (simp add: mult.commute dvd_eq_mod_eq_0 [symmetric])
  have gen: "bitAt (take (sz div 8) (beBytes64 (push_bit (64 - sz) value))) k = bit value (sz - 1 - k)" if "k < sz" for k
  proof -
    have "bitAt (take (sz div 8) (beBytes64 (push_bit (64 - sz) value))) k =
        bitAt (beBytes64 (push_bit (64 - sz) value)) k"
      using that nd by (simp add: bitAt_def less_mult_imp_div_less mult.commute)
    also have "\<dots> = bit value (sz - 1 - k)"
      using that assms(2) by (auto simp: bitAt_beBytesN bit_push_bit_iff)
    finally show ?thesis .
  qed
  show ?thesis
    using gen nd assms(2) unfolding storeUIntAligned_def one
    by (auto simp: bitAt_beBytesN)
qed

lemma drop_bit_small:
  fixes w :: "'a::len word"
  assumes "uint w < 2 ^ n"
  shows "drop_bit n w = 0"
proof (rule bit_eqI)
  fix k
  have "take_bit n (uint w) = uint w" using assms by (simp add: take_bit_int_eq_self)
  then have "\<not> bit (uint w) (n + k)" by (metis bit_take_bit_iff not_add_less1)
  then show "bit (drop_bit n w) k = bit 0 k" by (auto simp: bit_drop_bit_eq bit_uint_iff dest: bit_imp_le_length)
qed

lemma storeUIntAligned_spec:
  assumes "builder_ok b" "b_bitsSz b + sz < 1024" "0 < sz" "sz \<le> 64" "b_bitsSz b mod 8 = 0" "sz mod 8 = 0"
  shows "appended (b_data b) (b_bitsSz b) sz (\<lambda>i. bit value (sz - 1 - i))
    (putBytes (b_data b) (b_bitsSz b div 8) (storeUIntAligned value sz))"
proof -
  have ld: "length (b_data b) = 128" using assms(1) by (simp add: builder_ok_def)
  define d' where "d' = putBytes (b_data b) (b_bitsSz b div 8) (storeUIntAligned value sz)"
  note al = bitAt_storeUIntAligned [of sz "value"]
  obtain q where q: "b_bitsSz b = 8 * q" "b_bitsSz b div 8 = q" using assms(5) by auto
  obtain n where n: "sz = 8 * n" "sz div 8 = n" using assms(6) by auto
  have ln: "length (storeUIntAligned value sz) = n" using al assms n by simp
  show ?thesis
    unfolding d'_def [symmetric]
    unfolding appended_def
  proof (intro conjI allI impI)
    fix k :: nat assume k: "k < 1024"
    have "bitAt d' k = (if 8 * q \<le> k \<and> k < 8 * (q + n) then bitAt (storeUIntAligned value sz) (k - 8 * q)
        else bitAt (b_data b) k)"
      unfolding d'_def q(2) using bitAt_putBytes [of q "storeUIntAligned value sz" "b_data b" k] ln ld k assms(2) q n
      by simp
    moreover have "8 * q \<le> k \<Longrightarrow> k < 8 * (q + n) \<Longrightarrow> k - 8 * q < sz" using n by simp
    ultimately show "bitAt d' k = (if k < b_bitsSz b then bitAt (b_data b) k
        else k < b_bitsSz b + sz \<and> bit value (sz - 1 - (k - b_bitsSz b)))"
      using al assms q n builder_ok_zero [OF assms(1) _ k] by auto
  qed (use ln ld q n assms(2) in \<open>simp add: d'_def\<close>)
qed

lemma StoreUInt_ok:
  assumes "builder_ok b" "b_bitsSz b + sz < 1024" "sz \<le> 64" "uint value < 2 ^ sz"
  shows "\<exists>b'. StoreUInt value sz b = (Inr (), b') \<and> builder_ok b' \<and> b_refs b' = b_refs b \<and>
    builderBits b' = builderBits b @ map (\<lambda>i. bit value (sz - 1 - i)) [0..<sz]"
proof -
  have fits: "drop_bit sz value = 0"
    using assms(4) by (rule drop_bit_small)
  have ld: "length (b_data b) = 128" using assms(1) by (simp add: builder_ok_def)
  consider "sz = 0" | "sz = 1" | "1 < sz" "b_bitsSz b mod 8 = 0" "sz mod 8 = 0"
    | "1 < sz" "\<not> (b_bitsSz b mod 8 = 0 \<and> sz mod 8 = 0)" "b_bitsSz b div 8 + 8 > 128"
    | "1 < sz" "\<not> (b_bitsSz b mod 8 = 0 \<and> sz mod 8 = 0)" "b_bitsSz b div 8 + 8 \<le> 128"
    by linarith
  then show ?thesis
  proof cases
    case 1
    then have "uint value < 1" using assms(4) by simp
    then have "uint value = 0" using uint_ge_0 [of "value"] by linarith
    then have "value = 0" by (simp add: word_uint_eq_iff)
    then show ?thesis using 1 assms(1) by (simp add: StoreUInt_def)
  next
    case 2
    then have "uint value < 2" using assms(4) by simp
    then have "uint value = 0 \<or> uint value = 1" using uint_ge_0 [of "value"] by linarith
    then have "value = 0 \<or> value = 1" by (simp add: word_uint_eq_iff)
    then have "bit value 0 = (value = 1)" by auto
    then show ?thesis
      using 2 StoreBoolBit_ok [OF assms(1), of "value = 1"] assms(2) fits by (simp add: StoreUInt_def)
  next
    case 3
    have "appended (b_data b) (b_bitsSz b) sz (\<lambda>i. bit value (sz - 1 - i))
        (putBytes (b_data b) (b_bitsSz b div 8) (storeUIntAligned value sz))"
      using 3 assms by (intro storeUIntAligned_spec) auto
    from appended_builder [OF assms(1,2) this] show ?thesis
      using 3 assms(2,3) fits by (simp add: StoreUInt_def act_simps)
  next
    case 4
    have "bitsOf (beBytes64 (push_bit (64 - sz) value)) 0 sz = map (\<lambda>i. bit value (sz - 1 - i)) [0..<sz]"
      using assms(3) by (auto simp: bitsOf_def bitAt_beBytesN bit_push_bit_iff)
    then show ?thesis
      using 4 StoreSlice_ok [OF assms(1,2), of "beBytes64 (push_bit (64 - sz) value)"] assms(2,3) fits ld
      by (auto simp: StoreUInt_def act_simps)
  next
    case 5
    have "appended (b_data b) (b_bitsSz b) sz (\<lambda>i. bit value (sz - 1 - i)) (storeUIntWord value sz (b_bitsSz b) (b_data b))"
      using 5 assms by (intro storeUIntWord_spec) auto
    from appended_builder [OF assms(1,2) this] show ?thesis
      using 5 assms(2,3) fits ld by (auto simp: StoreUInt_def act_simps)
  qed
qed

subsection \<open>Big integers\<close>

lemma length_alignLeft [simp]: "length (alignLeft off add xs) = length xs"
  by (induction off add xs rule: alignLeft.induct) auto

lemma bit_alignLeft:
  assumes "0 < off" "off < 8" "\<And>j. 8 - off \<le> j \<Longrightarrow> \<not> bit add j" "k < length xs" "j < 8"
  shows "bit (alignLeft off add xs ! k) j =
    (if 8 - off \<le> j then bit (xs ! k) (j - (8 - off))
     else if k = 0 then bit add j else bit (xs ! (k - 1)) (j + off))"
  using assms
proof (induction off add xs arbitrary: k rule: alignLeft.induct)
  case (2 offset add x xs)
  have eq: "push_bit (8 - offset) x + add = push_bit (8 - offset) x OR add"
    using "2.prems"(1-3) by (intro disjunctive_add) (auto simp: bit_push_bit_iff not_le)
  define A where "A = drop_bit offset (x AND push_bit offset 255)"
  have mask: "bit (255 :: byte) i \<longleftrightarrow> i < 8" for i
  proof -
    have "(255 :: byte) = mask 8" by (simp add: mask_eq_exp_minus_1)
    then show ?thesis by (simp only: bit_mask_iff) simp
  qed
  have a: "bit A i \<longleftrightarrow> i + offset < 8 \<and> bit x (i + offset)" for i
    using bit_imp_le_length [of x "i + offset"]
    unfolding A_def bit_drop_bit_eq comp_def bit_and_iff bit_push_bit_iff mask by (auto simp: add.commute)
  show ?case
  proof (cases k)
    case 0
    then show ?thesis using "2.prems" by (auto simp: eq bit_or_iff bit_push_bit_iff)
  next
    case (Suc m)
    have "bit (alignLeft offset A xs ! m) j = (if 8 - offset \<le> j then bit (xs ! m) (j - (8 - offset))
        else if m = 0 then bit A j else bit (xs ! (m - 1)) (j + offset))"
      by (rule "2.IH" [folded A_def]) (use Suc "2.prems" a in auto)
    then show ?thesis using Suc "2.prems" by (auto simp: a nth_Cons' A_def [symmetric] simp del: drop_bit_and)
  qed
qed simp

lemma bit_be_byte: "i < n \<Longrightarrow> j < 8 \<Longrightarrow> bit (be_bytes n v ! (n - 1 - i)) j = bit v (8 * i + j)"
  using bitAt_be_bytes [of "8 * (n - 1 - i) + (7 - j)" n v] bitAt_byte [of "7 - j" "be_bytes n v" "n - 1 - i"]
  by (simp add: diff_mult_distrib2)

lemma bitAt_alignLeft:
  assumes "0 < off" "off < 8" "i < 8 * n + off"
  shows "bitAt (rev (alignLeft off 0 (rev (be_bytes (n + 1) v)))) i = bit v (8 * n + off - 1 - i)"
proof -
  obtain q r where i: "i = 8 * q + r" "r < 8" by (rule div8E)
  then have q: "q \<le> n" using assms by linarith
  define bs where "bs = rev (be_bytes (n + 1) v)"
  have len: "length bs = n + 1" by (simp add: bs_def be_bytes_def)
  have byte: "bit (bs ! m) j = bit v (8 * m + j)" if "m \<le> n" "j < 8" for m j
    using that bit_be_byte [of m "n + 1" j v] len by (simp add: bs_def rev_nth)
  have "bitAt (rev (alignLeft off 0 bs)) i = bit (alignLeft off 0 bs ! (n - q)) (7 - r)"
    unfolding i(1) using q len i(2) by (simp add: bitAt_byte rev_nth)
  also have "\<dots> = bit v (8 * n + off - 1 - i)"
  proof (cases "8 - off \<le> 7 - r")
    case True
    have "8 * (n - q) + (7 - r - (8 - off)) = 8 * n + off - 1 - i"
      using True i q assms by (simp add: diff_mult_distrib2)
    then show ?thesis using True i q assms len
      by (subst bit_alignLeft) (auto simp: byte)
  next
    case False
    then have "q < n" using i assms by linarith
    then have "8 * (n - q - 1) + (7 - r + off) = 8 * n + off - 1 - i"
      using False i q assms by (simp add: diff_mult_distrib2)
    then show ?thesis using False i \<open>q < n\<close> assms len
      by (subst bit_alignLeft) (auto simp: byte)
  qed
  finally show ?thesis by (simp only: bs_def)
qed

lemma bitLen_le: "0 \<le> v \<Longrightarrow> bitLen v \<le> n \<longleftrightarrow> v < 2 ^ n"
proof (induction v arbitrary: n rule: bitLen.induct)
  case (1 v)
  show ?case
  proof (cases "v = 0")
    case False
    show ?thesis
    proof (cases n)
      case 0
      then show ?thesis using False 1 by (subst bitLen.simps) simp
    next
      case (Suc m)
      have "v div 2 < 2 ^ m \<longleftrightarrow> v < 2 * 2 ^ m" by linarith
      then show ?thesis using False 1 Suc by (subst bitLen.simps) simp
    qed
  qed (simp add: bitLen.simps)
qed

lemma storeBig_ok:
  assumes "builder_ok b" "b_bitsSz b + sz < 1024"
  shows "\<exists>b'. storeBig v sz b = (Inr (), b') \<and> builder_ok b' \<and> b_refs b' = b_refs b \<and>
    builderBits b' = builderBits b @ bitsInt sz v"
proof -
  define src where "src = (let bs = be_bytes ((sz + 7) div 8) v in
    if sz mod 8 > 0 then rev (alignLeft (sz mod 8) 0 (rev bs)) else bs)"
  obtain q r where s: "sz = 8 * q + r" "r < 8" "sz mod 8 = r" by (rule div8E)
  have c: "(sz + 7) div 8 = (if r = 0 then q else q + 1)"
    using s by (simp add: ceil8)
  have len: "length src = (sz + 7) div 8" by (simp add: src_def Let_def be_bytes_def)
  have "bitsOf src 0 sz = bitsInt sz v"
  proof (rule nth_equalityI)
    fix i assume "i < length (bitsOf src 0 sz)"
    then have i: "i < sz" by simp
    show "bitsOf src 0 sz ! i = bitsInt sz v ! i"
    proof (cases "r = 0")
      case True
      then show ?thesis using i s c bitAt_be_bytes [of i q v] by (simp add: src_def)
    next
      case False
      then show ?thesis using i s c bitAt_alignLeft [of r i q v] by (simp add: src_def)
    qed
  qed simp
  moreover have "storeBig v sz = StoreSlice src sz" by (simp add: storeBig_def src_def Let_def)
  ultimately show ?thesis
    using StoreSlice_ok [OF assms, of src] len by simp
qed

lemma StoreUInt_bits:
  assumes "builder_ok b" "b_bitsSz b + sz < 1024" "sz \<le> 64" "uint value < 2 ^ sz"
  shows "\<exists>b'. StoreUInt value sz b = (Inr (), b') \<and> builder_ok b' \<and> b_refs b' = b_refs b \<and>
    builderBits b' = builderBits b @ bitsInt sz (uint value)"
proof -
  have "bitsInt sz (uint value) = map (\<lambda>i. bit value (sz - 1 - i)) [0..<sz]"
    using assms(3) by (auto simp: bitsInt_def bit_uint_iff)
  then show ?thesis using StoreUInt_ok [OF assms] by simp
qed

lemma StoreBigUInt_ok:
  assumes "builder_ok b" "b_bitsSz b + sz < 1024" "sz \<le> 256" "0 \<le> v" "v < 2 ^ sz"
  shows "\<exists>b'. StoreBigUInt v sz b = (Inr (), b') \<and> builder_ok b' \<and> b_refs b' = b_refs b \<and>
    builderBits b' = builderBits b @ bitsInt sz v"
proof (cases "sz = 0")
  case True
  then show ?thesis using assms by (simp add: StoreBigUInt_def act_simps bitsInt_def)
next
  case False
  have "\<not> sz < bitLen v" using assms(4,5) by (simp add: bitLen_le not_less)
  then have "StoreBigUInt v sz = storeBig v sz"
    using False assms(3,4) by (simp add: StoreBigUInt_def)
  then show ?thesis using storeBig_ok [OF assms(1,2), of v] by simp
qed

lemma fitsNegativeBigInt_iff:
  "0 < sz \<Longrightarrow> v < 0 \<Longrightarrow> fitsNegativeBigInt v sz \<longleftrightarrow> - (2 ^ (sz - 1)) \<le> v"
  using bitLen_le [of "- v - 1" "sz - 1"] by (auto simp: fitsNegativeBigInt_def)

lemma bitsInt_add_power: "bitsInt sz (2 ^ sz + v) = bitsInt sz v"
  using bitsInt_mod [of sz "2 ^ sz + v"] bitsInt_mod [of sz v] by simp

lemma StoreBigInt_ok:
  assumes "builder_ok b" "b_bitsSz b + sz < 1024" "0 < sz" "sz \<le> 257"
    "- (2 ^ (sz - 1)) \<le> v" "v < 2 ^ (sz - 1)"
  shows "\<exists>b'. StoreBigInt v sz b = (Inr (), b') \<and> builder_ok b' \<and> b_refs b' = b_refs b \<and>
    builderBits b' = builderBits b @ bitsInt sz v"
proof (cases "0 \<le> v")
  case True
  then have "\<not> sz - 1 < bitLen v" using assms(6) by (simp add: bitLen_le not_less)
  then have "StoreBigInt v sz = storeBig v sz"
    using True assms(3,4) by (simp add: StoreBigInt_def)
  then show ?thesis using storeBig_ok [OF assms(1,2), of v] by simp
next
  case False
  then have "StoreBigInt v sz = storeBig (2 ^ sz + v) sz"
    using assms(3-5) by (simp add: StoreBigInt_def fitsNegativeBigInt_iff)
  then show ?thesis using storeBig_ok [OF assms(1,2), of "2 ^ sz + v"] by (simp add: bitsInt_add_power)
qed

lemma StoreInt_ok:
  assumes "builder_ok b" "b_bitsSz b + sz < 1024" "0 < sz" "sz \<le> 257"
    "- (2 ^ (sz - 1)) \<le> v" "v < 2 ^ (sz - 1)"
  shows "\<exists>b'. StoreInt v sz b = (Inr (), b') \<and> builder_ok b' \<and> b_refs b' = b_refs b \<and>
    builderBits b' = builderBits b @ bitsInt sz v"
proof (cases "sz \<le> 64")
  case True
  define w :: "64 word" where "w = (if 0 \<le> v \<or> sz = 64 then word_of_int v else word_of_int v AND (push_bit sz 1 - 1))"
  have two: "(2 :: int) ^ sz = 2 * 2 ^ (sz - 1)" using assms(3) by (simp flip: power_Suc)
  have le: "(2 :: int) ^ sz \<le> 2 ^ 64" by (rule power_increasing) (use True in auto)
  have pos: "uint w = v" if "0 \<le> v"
    using that assms(6) two le by (simp add: w_def uint_word_of_int_eq take_bit_int_eq_self)
  have "uint w = take_bit sz v" if "v < 0"
  proof -
    have "w = take_bit sz (word_of_int v)"
    proof (cases "sz = 64")
      case False
      then show ?thesis using that by (simp add: w_def take_bit_eq_mask mask_eq_exp_minus_1)
    qed (simp add: w_def take_bit_word_eq_self)
    then show ?thesis using True by (simp add: unsigned_take_bit_eq uint_word_of_int_eq min_def)
  qed
  then have eq: "uint w = v mod 2 ^ sz"
    using pos assms(6) two by (cases "v < 0") (auto simp: take_bit_eq_mod mod_pos_pos_trivial)
  have "fitsSignedInt64 v sz" using assms(3,5,6) by (auto simp: fitsSignedInt64_def)
  then have "StoreInt v sz = StoreUInt w sz"
    using True assms(3,4) by (auto simp: StoreInt_def w_def)
  then show ?thesis
    using StoreUInt_bits [OF assms(1,2) True, of w] eq by (simp add: bitsInt_mod)
next
  case False
  then have "StoreInt v sz = StoreBigInt v sz" using assms(4) by (simp add: StoreInt_def)
  then show ?thesis using StoreBigInt_ok [OF assms] by simp
qed

end
