(* ===== verification/Cell_Slice.thy ===== *)
theory Cell_Slice
  imports Cell_Builder
begin

section \<open>Reading from slices\<close>

text \<open>
  The reads of \<^verbatim>\<open>src/tvm/cell/slice.go\<close>.  A slice is a window into the payload of a cell; a load
  returns bits and moves the start of the window, a preload leaves it.  The cursors are \<open>uint16\<close>
  and \<open>uint8\<close> in the code; the window of a slice lies inside a cell (\<open>slice_ok\<close> in theory
  Cell_Slice_Bits), so their arithmetic does not wrap and natural numbers are used.  The
  code reads whole bytes and 64-bit words and shifts them into place, and so does the model.
\<close>

type_synonym 'a sl = "(slice, 'a) action"

abbreviation slErr :: "cell_error \<Rightarrow> 'a sl" where
  "slErr e \<equiv> raise (CellError e)"

definition BitsLeft :: "slice \<Rightarrow> nat" where
  "BitsLeft c = sl_bitEnd c - sl_bitStart c"

definition RefsNum :: "slice \<Rightarrow> nat" where
  "RefsNum c = sl_refEnd c - sl_refStart c"

definition advance :: "nat \<Rightarrow> unit sl" where
  "advance n = modifyS (\<lambda>c. c\<lparr>sl_bitStart := sl_bitStart c + n\<rparr>)"

definition advanceRef :: "nat \<Rightarrow> unit sl" where
  "advanceRef n = modifyS (\<lambda>c. c\<lparr>sl_refStart := sl_refStart c + n\<rparr>)"

subsection \<open>References\<close>

definition refAndTraceAt :: "nat \<Rightarrow> cell sl" where
  "refAndTraceAt i = bnd getS (\<lambda>c.
     if i \<ge> RefsNum c then slErr ErrNoMoreRefs else ret (cell_refs (sl_cell c) ! (sl_refStart c + i)))"

definition loadRefCell :: "bool \<Rightarrow> cell sl" where
  "loadRefCell adv = bnd (refAndTraceAt 0) (\<lambda>ref. seq (if adv then advanceRef 1 else ret ()) (ret ref))"

definition loadRefInto :: "bool \<Rightarrow> slice sl" where
  "loadRefInto adv = bnd (loadRefCell adv) (\<lambda>ref. ret (newSliceFromCell ref))"

definition LoadRefCell :: "cell sl" where
  "LoadRefCell = loadRefCell True"

definition PreloadRefCell :: "cell sl" where
  "PreloadRefCell = loadRefCell False"

definition LoadRef :: "slice sl" where
  "LoadRef = loadRefInto True"

definition PreloadRef :: "slice sl" where
  "PreloadRef = loadRefInto False"

subsection \<open>Skipping and sub-windows\<close>

definition BitAt :: "nat \<Rightarrow> byte sl" where
  "BitAt offset = bnd getS (\<lambda>c.
     if offset \<ge> BitsLeft c then slErr ErrNotEnoughData
     else let bitPos = sl_bitStart c + offset
          in ret (drop_bit (7 - bitPos mod 8) (cell_data (sl_cell c) ! (bitPos div 8)) AND 1))"

definition SkipBits :: "nat \<Rightarrow> unit sl" where
  "SkipBits bits = bnd getS (\<lambda>c. if BitsLeft c < bits then slErr ErrNotEnoughData else advance bits)"

definition SkipBitsAndRefs :: "nat \<Rightarrow> nat \<Rightarrow> unit sl" where
  "SkipBitsAndRefs bits refs = bnd getS (\<lambda>c.
     if RefsNum c < refs then slErr ErrNoMoreRefs
     else if BitsLeft c < bits then slErr ErrNotEnoughData
     else seq (advance bits) (advanceRef refs))"

definition PreloadSubslice :: "nat \<Rightarrow> nat \<Rightarrow> slice sl" where
  "PreloadSubslice bits refs = bnd getS (\<lambda>c.
     if RefsNum c < refs then slErr ErrNoMoreRefs
     else if BitsLeft c < bits then slErr ErrNotEnoughData
     else ret (c\<lparr>sl_bitEnd := sl_bitStart c + bits, sl_refEnd := sl_refStart c + refs\<rparr>))"

definition FetchSubslice :: "nat \<Rightarrow> nat \<Rightarrow> slice sl" where
  "FetchSubslice bits refs = bnd (PreloadSubslice bits refs) (\<lambda>dst.
     seq (modifyS (\<lambda>c. c\<lparr>sl_bitStart := sl_bitEnd dst, sl_refStart := sl_refEnd dst\<rparr>)) (ret dst))"

subsection \<open>Words of at most 64 bits\<close>

definition uintAligned :: "nat \<Rightarrow> byte list \<Rightarrow> 64 word" where
  "uintAligned sz data =
     (if sz = 8 then ucast (data ! 0)
      else if sz = 16 then beWord (take 2 data)
      else if sz = 32 then beWord (take 4 data)
      else if sz = 64 then beWord (take 8 data)
      else beWord data)"

definition uintWindow :: "nat \<Rightarrow> nat \<Rightarrow> byte list \<Rightarrow> 64 word" where
  "uintWindow sz startBitOffset data =
     (let bytesNeeded = (startBitOffset + sz + 7) div 8 in
      if startBitOffset = 0 \<and> sz mod 8 = 0 then uintAligned sz data
      else if bytesNeeded \<le> 8
      then let v = drop_bit (bytesNeeded * 8 - startBitOffset - sz) (beWord data)
           in if sz < 64 then v AND (push_bit sz 1 - 1) else v
      else let v = push_bit startBitOffset (beWord (take 8 data)) OR ucast (drop_bit (8 - startBitOffset) (data ! 8))
           in if sz < 64 then drop_bit (64 - sz) v else v)"

definition loadUintFast :: "nat \<Rightarrow> bool \<Rightarrow> 64 word sl" where
  "loadUintFast sz preload = bnd getS (\<lambda>c.
     if BitsLeft c < sz then slErr ErrNotEnoughData
     else if sz = 0 then ret 0
     else let startBit = sl_bitStart c; d = cell_data (sl_cell c);
              bytesNeeded = (startBit mod 8 + sz + 7) div 8
          in seq (if preload then ret () else advance sz)
               (ret (if sz = 1 then ucast (drop_bit (7 - startBit mod 8) (d ! (startBit div 8)) AND 1)
                     else uintWindow sz (startBit mod 8) (take bytesNeeded (drop (startBit div 8) d)))))"

definition loadIntFast :: "nat \<Rightarrow> int sl" where
  "loadIntFast sz = bnd (loadUintFast sz False) (\<lambda>u.
     ret (if sz = 0 then 0
          else if sz = 64 then sint u
          else sint (if u AND push_bit (sz - 1) 1 \<noteq> 0 then u OR NOT (push_bit sz 1 - 1) else u)))"

definition LoadBoolBit :: "bool sl" where
  "LoadBoolBit = bnd getS (\<lambda>c.
     if sl_bitStart c \<ge> sl_bitEnd c then slErr ErrNotEnoughData
     else let bitPos = sl_bitStart c
          in seq (advance 1) (ret (drop_bit (7 - bitPos mod 8) (cell_data (sl_cell c) ! (bitPos div 8)) AND 1 = 1)))"

subsection \<open>Byte slices\<close>

function loadWords :: "nat \<Rightarrow> byte list \<Rightarrow> nat \<Rightarrow> nat \<Rightarrow> nat \<Rightarrow> byte list \<Rightarrow> nat \<times> byte list" where
  "loadWords shift data outLen sourceBytesNeeded i out =
     (if i + 8 \<le> outLen \<and> i + 9 \<le> sourceBytesNeeded
      then let v = push_bit shift (beUint64 data i) OR drop_bit (8 - shift) (ucast (data ! (i + 8)))
           in loadWords shift data outLen sourceBytesNeeded (i + 8) (putBytes out i (beBytes64 v))
      else (i, out))"
  by pat_completeness auto
termination
  by (relation "measure (\<lambda>(shift, data, outLen, sourceBytesNeeded, i, out). outLen - i)") auto

function loadBytes :: "nat \<Rightarrow> byte list \<Rightarrow> nat \<Rightarrow> nat \<Rightarrow> byte list \<Rightarrow> nat \<times> byte list" where
  "loadBytes shift data lastIdx i out =
     (if i < lastIdx
      then loadBytes shift data lastIdx (i + 1)
             (out[i := push_bit shift (data ! i) OR drop_bit (8 - shift) (data ! (i + 1))])
      else (i, out))"
  by pat_completeness auto
termination
  by (relation "measure (\<lambda>(shift, data, lastIdx, i, out). lastIdx - i)") auto

declare loadWords.simps [simp del] loadBytes.simps [simp del]

definition loadSliceData :: "byte list \<Rightarrow> nat \<Rightarrow> nat \<Rightarrow> byte list" where
  "loadSliceData cellData startBit sz =
     (let outLen = (sz + 7) div 8; shift = startBit mod 8; data = drop (startBit div 8) cellData;
          out = (if shift = 0 then take outLen data
                 else let lastIdx = outLen - 1; need = (shift + sz + 7) div 8;
                          (i, o1) = loadWords shift data outLen need 0 (replicate outLen 0);
                          (j, o2) = loadBytes shift data lastIdx i o1
                      in if j = lastIdx
                         then o2[lastIdx := (if need > outLen
                                          then push_bit shift (data ! lastIdx) OR drop_bit (8 - shift) (data ! (lastIdx + 1))
                                          else push_bit shift (data ! lastIdx))]
                         else o2)
      in if sz mod 8 \<noteq> 0 then out[outLen - 1 := out ! (outLen - 1) AND maskTail (sz mod 8)] else out)"

text \<open>\<open>dstLen\<close> is the length of the buffer the caller passes; the result is the part that is written.\<close>

definition loadSliceInto :: "nat \<Rightarrow> nat \<Rightarrow> bool \<Rightarrow> byte list sl" where
  "loadSliceInto dstLen sz preload = bnd getS (\<lambda>c.
     if BitsLeft c < sz then slErr ErrNotEnoughData
     else if dstLen < (sz + 7) div 8 then slErr ErrShortBuffer
     else if sz = 0 then ret []
     else seq (if preload then ret () else advance sz)
            (ret (loadSliceData (cell_data (sl_cell c)) (sl_bitStart c) sz)))"

definition loadSlice :: "nat \<Rightarrow> bool \<Rightarrow> byte list sl" where
  "loadSlice sz preload = (if sz = 0 then ret [] else loadSliceInto ((sz + 7) div 8) sz preload)"

definition LoadSlice :: "nat \<Rightarrow> byte list sl" where
  "LoadSlice sz = loadSlice sz False"

definition PreloadSlice :: "nat \<Rightarrow> byte list sl" where
  "PreloadSlice sz = loadSlice sz True"

definition RestBits :: "(nat \<times> byte list) sl" where
  "RestBits = bnd getS (\<lambda>c. bnd (LoadSlice (BitsLeft c)) (\<lambda>d. ret (BitsLeft c, d)))"

subsection \<open>Big integers\<close>

text \<open>The loop that shifts a partial byte down runs from the last byte to the first.\<close>

fun alignRight :: "nat \<Rightarrow> byte list \<Rightarrow> byte list" where
  "alignRight offset [] = []"
| "alignRight offset [x] = [drop_bit (8 - offset) x]"
| "alignRight offset (x # y # xs) = (drop_bit (8 - offset) x + push_bit offset y) # alignRight offset (y # xs)"

definition SetBytes :: "byte list \<Rightarrow> int" where
  "SetBytes bs = foldl (\<lambda>v b. v * 256 + uint b) 0 bs"

definition readBigNumber :: "nat \<Rightarrow> bool \<Rightarrow> int sl" where
  "readBigNumber sz preload =
     (if sz = 0 then ret 0
      else bnd (loadSliceInto ((sz + 7) div 8) sz preload) (\<lambda>b.
        ret (SetBytes (if sz mod 8 > 0 then rev (alignRight (sz mod 8) (rev b)) else b))))"

definition LoadBigUInt :: "nat \<Rightarrow> int sl" where
  "LoadBigUInt sz = (if sz > 256 then slErr ErrTooBigSize else readBigNumber sz False)"

definition PreloadBigUInt :: "nat \<Rightarrow> int sl" where
  "PreloadBigUInt sz = (if sz > 256 then slErr ErrTooBigSize else readBigNumber sz True)"

definition LoadBigInt :: "nat \<Rightarrow> int sl" where
  "LoadBigInt sz =
     (if sz > 257 then slErr ErrTooBigSize
      else if sz = 0 then ret 0
      else bnd (readBigNumber sz False) (\<lambda>u. ret (if bit u (sz - 1) then u - 2 ^ sz else u)))"

text \<open>Loads on a copy of the slice: the cursor is written back only on success.\<close>

definition onCopy :: "'a sl \<Rightarrow> 'a sl" where
  "onCopy m = (\<lambda>c. case m c of (Inl e, _) \<Rightarrow> (Inl e, c) | (Inr x, c') \<Rightarrow> (Inr x, c'))"

definition PreloadBigInt :: "nat \<Rightarrow> int sl" where
  "PreloadBigInt sz = (\<lambda>c. (if sz > 257 then Inl (CellError ErrTooBigSize) else fst (LoadBigInt sz c), c))"

definition LoadUInt :: "nat \<Rightarrow> 64 word sl" where
  "LoadUInt sz =
     (if sz \<le> 64 then loadUintFast sz False
      else onCopy (bnd (LoadBigUInt sz) (\<lambda>res.
        if res < 2 ^ 64 then ret (word_of_int res) else slErr ErrTooBigValue)))"

definition PreloadUInt :: "nat \<Rightarrow> 64 word sl" where
  "PreloadUInt sz =
     (if sz \<le> 64 then loadUintFast sz True
      else bnd (PreloadBigUInt sz) (\<lambda>res.
        if res < 2 ^ 64 then ret (word_of_int res) else slErr ErrTooBigValue))"

definition LoadInt :: "nat \<Rightarrow> int sl" where
  "LoadInt sz =
     (if sz \<le> 64 then loadIntFast sz
      else onCopy (bnd (LoadBigInt sz) (\<lambda>res.
        if - (2 ^ 63) \<le> res \<and> res < 2 ^ 63 then ret res else slErr ErrTooBigValue)))"

definition LoadVarUInt :: "nat \<Rightarrow> int sl" where
  "LoadVarUInt sz =
     (if sz = 0 then slErr ErrInvalidSize
      else bnd (LoadUInt (bitLen (int sz - 1))) (\<lambda>ln.
        if unat ln \<ge> sz then slErr ErrTooBigValue else LoadBigUInt (unat ln * 8)))"

definition LoadVarInt :: "nat \<Rightarrow> int sl" where
  "LoadVarInt sz =
     (if sz = 0 then slErr ErrInvalidSize
      else bnd (LoadUInt (bitLen (int sz - 1))) (\<lambda>ln.
        if unat ln \<ge> sz then slErr ErrTooBigValue else LoadBigInt (unat ln * 8)))"

definition LoadCoins :: "64 word sl" where
  "LoadCoins = onCopy (bnd (LoadUInt 4) (\<lambda>ln.
     if unat ln \<ge> 16 then slErr ErrTooBigValue
     else if unat ln \<le> 8 then LoadUInt (unat ln * 8)
     else bnd (LoadBigUInt (unat ln * 8)) (\<lambda>v.
       if v < 2 ^ 64 then ret (word_of_int v) else slErr ErrTooBigValue)))"

definition LoadBigCoins :: "int sl" where
  "LoadBigCoins = LoadVarUInt 16"

definition loadBigCoinsInto :: "int sl" where
  "loadBigCoinsInto = bnd (LoadUInt 4) (\<lambda>ln.
     if unat ln \<ge> 16 then slErr ErrTooBigValue else LoadBigUInt (unat ln * 8))"

definition LoadMaybeRef :: "slice option sl" where
  "LoadMaybeRef = bnd getS (\<lambda>c0. bnd LoadBoolBit (\<lambda>hasRef.
     if \<not> hasRef then ret None
     else (\<lambda>c. case PreloadRef c of
            (Inl e, c') \<Rightarrow> (Inl e, c'\<lparr>sl_bitStart := sl_bitStart c0, sl_refStart := sl_refStart c0\<rparr>)
          | (Inr ref, c') \<Rightarrow> seq (advanceRef 1) (ret (Some ref)) c')))"

subsection \<open>Back to a builder\<close>

definition ToBuilder :: "slice \<Rightarrow> builder" where
  "ToBuilder c =
     \<lparr>b_data = (case loadSliceInto 128 (BitsLeft c) True c of
                  (Inr d, _) \<Rightarrow> putBytes (replicate 128 0) 0 d
                | (Inl e, _) \<Rightarrow> replicate 128 0),
      b_refs = take (RefsNum c) (drop (sl_refStart c) (cell_refs (sl_cell c))),
      b_bitsSz = BitsLeft c\<rparr>"

text \<open>A builder stores the rest of a slice: \<open>storeSliceFromSlice\<close> and \<open>storeSliceView\<close>.\<close>

definition storeSliceFromSlice :: "nat \<Rightarrow> (builder \<times> slice, unit) action" where
  "storeSliceFromSlice sz = (\<lambda>(b, s).
     if BitsLeft s < sz then (Inl (CellError ErrNotEnoughData), (b, s))
     else let (r, b') = storeBitRange (cell_data (sl_cell s)) (sl_bitStart s) sz b
          in (r, (b', s\<lparr>sl_bitStart := sl_bitStart s + sz\<rparr>)))"

definition sliceRefs :: "slice \<Rightarrow> cell list" where
  "sliceRefs s = take (RefsNum s) (drop (sl_refStart s) (cell_refs (sl_cell s)))"

definition storeSliceView :: "slice \<Rightarrow> bool \<Rightarrow> unit bld" where
  "storeSliceView s checkDepth = bnd getS (\<lambda>b.
     if length (b_refs b) + RefsNum s > 4 then cellErr ErrTooMuchRefs
     else if b_bitsSz b + BitsLeft s \<ge> 1024 then cellErr ErrNotFit1023
     else seq (if checkDepth then lift_sum (validateCellRefDepthLimit (sliceRefs s)) else ret ())
       (seq (\<lambda>b. let (r, (b', view)) = storeSliceFromSlice (BitsLeft s) (b, s) in (r, b'))
         (modifyS (\<lambda>b. b\<lparr>b_refs := b_refs b @ sliceRefs s\<rparr>))))"

definition StoreSliceFrom :: "slice \<Rightarrow> unit bld" where
  "StoreSliceFrom s = storeSliceView s True"

end
