(* ===== verification/Cell_Slice_Bits.thy ===== *)
theory Cell_Slice_Bits
  imports Cell_Builder_Ints Cell_Slice
begin

section \<open>What the reads of a slice return\<close>

text \<open>
  Every load of \<^verbatim>\<open>slice.go\<close> returns exactly the leading bits of the window and moves the window by
  that many bits: the byte and word loops (\<open>loadUintFast\<close>, \<open>loadSliceInto\<close>), the shift of a partial byte in
  \<open>readBigNumberInto\<close> and the sign extension in \<open>loadIntFast\<close> are equivalent to reading a bit list.
\<close>

definition slice_ok :: "slice \<Rightarrow> bool" where
  "slice_ok c \<longleftrightarrow> sl_bitStart c \<le> sl_bitEnd c \<and> sl_bitEnd c \<le> cell_bitsSz (sl_cell c) \<and>
     cell_bitsSz (sl_cell c) < 1024 \<and> cell_bitsSz (sl_cell c) \<le> 8 * length (cell_data (sl_cell c)) \<and>
     sl_refStart c \<le> sl_refEnd c \<and> sl_refEnd c \<le> length (cell_refs (sl_cell c))"

definition sliceBits :: "slice \<Rightarrow> bool list" where
  "sliceBits c = bitsOf (cell_data (sl_cell c)) (sl_bitStart c) (sl_bitEnd c)"

lemma length_sliceBits [simp]: "length (sliceBits c) = BitsLeft c"
  by (simp add: sliceBits_def BitsLeft_def)

lemma bit_beWord_at:
  "bit (beWord bs) k \<longleftrightarrow> k < 64 \<and> k < 8 * length bs \<and> bitAt bs (8 * length bs - 1 - k)"
proof (cases "k < 8 * length bs")
  case True
  obtain q r where k: "k = 8 * q + r" "r < 8" "k div 8 = q" "k mod 8 = r" by (rule div8E)
  have "q < length bs" using True k by linarith
  then obtain t where t: "length bs = q + 1 + t" by (metis Suc_eq_plus1 add_Suc less_iff_Suc_add)
  have "8 * length bs - 1 - k = 8 * t + (7 - r)" using k t by simp
  moreover have "length bs - 1 - q = t" using t by simp
  ultimately show ?thesis using True k bitAt_byte [of "7 - r" bs t]
    by (simp add: bit_beWord k(3,4))
qed (simp add: bit_beWord)

lemma bitAt_window:
  assumes "j < 8 * n" "s + n \<le> length d"
  shows "bitAt (take n (drop s d)) j = bitAt d (8 * s + j)"
proof -
  obtain q r where j: "j = 8 * q + r" "r < 8" "j div 8 = q" "j mod 8 = r" by (rule div8E)
  have "bitAt (take n (drop s d)) j = bit (d ! (s + q)) (7 - r)"
    using assms j by (simp add: bitAt_byte)
  also have "\<dots> = bitAt d (8 * (s + q) + r)" using j by (simp only: bitAt_byte)
  finally show ?thesis using j by (simp add: algebra_simps)
qed

lemma bit_shiftWord:
  fixes w x :: "64 word"
  assumes "off < 8" "m < 64"
    and w: "\<And>m. m < 64 \<Longrightarrow> bit w m = f (63 - m)"
    and x: "\<And>m. m < off \<Longrightarrow> bit x m = f (63 + off - m)" "\<And>m. off \<le> m \<Longrightarrow> \<not> bit x m"
  shows "bit (push_bit off w OR x) m = f (63 + off - m)"
  using assms by (cases "m < off") (auto simp: bit_or_iff bit_push_bit_iff)

lemma bit_nextByteBits:
  fixes b :: byte
  assumes "off < 8"
  shows "bit (drop_bit (8 - off) b) m \<longleftrightarrow> m < off \<and> bit b (8 - off + m)"
  using assms bit_imp_le_length [of b "8 - off + m"] by (auto simp: bit_drop_bit_eq)

lemma uintAligned_beWord: "8 * length data = sz \<Longrightarrow> 0 < sz \<Longrightarrow> uintAligned sz data = beWord data"
proof -
  assume "8 * length data = sz" "0 < sz"
  moreover have "length data = 1 \<Longrightarrow> beWord data = ucast (data ! 0)"
    by (cases data) (auto simp: beWord_def)
  ultimately show ?thesis by (auto simp: uintAligned_def)
qed

lemma bit_uintWindow:
  assumes "off < 8" "0 < sz" "sz \<le> 64" "length data = (off + sz + 7) div 8"
  shows "bit (uintWindow sz off data) k \<longleftrightarrow> k < sz \<and> bitAt data (off + sz - 1 - k)"
proof -
  obtain n where n: "length data = n" "(off + sz + 7) div 8 = n" using assms(4) by simp
  have n1: "off + sz \<le> 8 * n" "8 * n < off + sz + 8" using n(2) by linarith+
  consider "off = 0 \<and> sz mod 8 = 0" | "\<not> (off = 0 \<and> sz mod 8 = 0)" "n \<le> 8"
    | "\<not> (off = 0 \<and> sz mod 8 = 0)" "n = 9"
    using n1 assms(1,3) by linarith
  then show ?thesis
  proof cases
    case 1
    then obtain q where "sz = 8 * q" by auto
    then have "8 * length data = sz" using n1 n 1 by simp
    then show ?thesis using 1 assms by (auto simp: uintWindow_def uintAligned_beWord bit_beWord_at)
  next
    case 2
    have "sz < 64"
    proof (rule ccontr)
      assume "\<not> sz < 64"
      then have "sz = 64" "off = 0" using n1 2 assms(3) by linarith+
      then show False using 2 by simp
    qed
    moreover have "8 * n - 1 - (8 * n - off - sz + k) = off + sz - 1 - k" using n1 by linarith
    moreover have "k < sz \<Longrightarrow> 8 * n - off - sz + k < 8 * n \<and> 8 * n - off - sz + k < 64"
      using n1 2 by linarith
    moreover have "(push_bit sz 1 - 1 :: 64 word) = mask sz" by (simp add: mask_eq_exp_minus_1)
    ultimately show ?thesis using 2
      unfolding uintWindow_def n(2) Let_def
      by (auto simp: bit_and_iff bit_mask_iff bit_drop_bit_eq bit_beWord_at n(1) mult.commute simp del: push_bit_of_1)
  next
    case 3
    let ?v = "push_bit off (beWord (take 8 data)) OR ucast (drop_bit (8 - off) (data ! 8)) :: 64 word"
    have v: "bit ?v m = bitAt data (63 + off - m)" if "m < 64" for m
    proof (rule bit_shiftWord [OF assms(1) that])
      show "bit (beWord (take 8 data)) m = bitAt data (63 - m)" if "m < 64" for m
        using that 3 n bitAt_window [of "63 - m" 8 0 data] by (simp add: bit_beWord_at)
      show "bit (ucast (drop_bit (8 - off) (data ! 8)) :: 64 word) m = bitAt data (63 + off - m)" if "m < off" for m
        using that assms(1) bitAt_byte [of "off - 1 - m" data 8]
        by (simp add: bit_ucast_iff bit_nextByteBits algebra_simps)
      show "\<not> bit (ucast (drop_bit (8 - off) (data ! 8)) :: 64 word) m" if "off \<le> m" for m
        using that assms(1) by (simp add: bit_ucast_iff bit_nextByteBits)
    qed
    have "uintWindow sz off data = drop_bit (64 - sz) ?v"
      using 3 assms(3) unfolding uintWindow_def n(2) Let_def by auto
    then have "bit (uintWindow sz off data) k = bit ?v (64 - sz + k)"
      by (simp only: bit_drop_bit_eq comp_def)
    also have "\<dots> \<longleftrightarrow> k < sz \<and> bitAt data (off + sz - 1 - k)"
    proof (cases "k < sz")
      case True
      then have "63 + off - (64 - sz + k) = off + sz - 1 - k" using assms(3) by linarith
      then show ?thesis using True assms(3) v [of "64 - sz + k"] by simp
    next
      case False
      then have "64 \<le> 64 - sz + k" using assms(3) by linarith
      then show ?thesis using False bit_imp_le_length [of ?v "64 - sz + k"] by auto
    qed
    finally show ?thesis .
  qed
qed

lemma slice_ok_window:
  assumes "slice_ok c" "sz \<le> BitsLeft c" "0 < sz"
  shows "(sl_bitStart c + sz + 7) div 8 \<le> length (cell_data (sl_cell c))" "sl_bitStart c + sz < 1024"
  using assms unfolding slice_ok_def BitsLeft_def by linarith+

lemma nth_sliceBits:
  "i < BitsLeft c \<Longrightarrow> sliceBits c ! i = bitAt (cell_data (sl_cell c)) (sl_bitStart c + i)"
  by (simp add: sliceBits_def BitsLeft_def)

lemma word_bitsI:
  fixes w :: "64 word"
  assumes "length bs \<le> 64" "\<And>k. bit w k \<longleftrightarrow> k < length bs \<and> bs ! (length bs - 1 - k)"
  shows "w = word_of_nat (uintOf bs)"
  by (rule bit_eqI) (use assms in \<open>auto simp: bit_of_nat_iff bit_uintOf\<close>)

lemma loadUintFast_ok:
  assumes "slice_ok c" "sz \<le> 64" "sz \<le> BitsLeft c"
  shows "loadUintFast sz preload c =
    (Inr (word_of_nat (uintOf (take sz (sliceBits c)))),
     if preload then c else c\<lparr>sl_bitStart := sl_bitStart c + sz\<rparr>)"
proof (cases "sz = 0")
  case True
  then show ?thesis using assms by (simp add: loadUintFast_def act_simps)
next
  case False
  define d where "d = cell_data (sl_cell c)"
  define w where "w = (if sz = 1 then ucast (drop_bit (7 - sl_bitStart c mod 8) (d ! (sl_bitStart c div 8)) AND 1)
    else uintWindow sz (sl_bitStart c mod 8) (take ((sl_bitStart c mod 8 + sz + 7) div 8) (drop (sl_bitStart c div 8) d)))"
  have "w = word_of_nat (uintOf (take sz (sliceBits c)))"
  proof (rule word_bitsI)
    show "length (take sz (sliceBits c)) \<le> 64" using assms by simp
    fix k
    have len: "length (take sz (sliceBits c)) = sz" using assms(3) by simp
    obtain q r where s: "sl_bitStart c = 8 * q + r" "r < 8" "sl_bitStart c div 8 = q" "sl_bitStart c mod 8 = r"
      by (rule div8E)
    define n where "n = (r + sz + 7) div 8"
    have "q + n \<le> length d"
      using slice_ok_window [OF assms(1,3)] False s unfolding d_def n_def by linarith
    moreover have "r + sz \<le> 8 * n" unfolding n_def by linarith
    ultimately have win: "bitAt (take n (drop q d)) j = bitAt d (8 * q + j)" if "j < r + sz" for j
      using that by (intro bitAt_window) auto
    have "bit w k \<longleftrightarrow> k < sz \<and> bitAt d (8 * q + (r + sz - 1 - k))"
    proof (cases "sz = 1")
      case True
      have "bit w k \<longleftrightarrow> k = 0 \<and> bit (d ! q) (7 - r)"
        unfolding w_def s(3,4) using True by (auto simp: bit_ucast_iff bit_and_iff bit_drop_bit_eq bit_1_iff)
      then show ?thesis using True bitAt_byte [OF s(2), of d q] by auto
    next
      case False
      have "bit w k \<longleftrightarrow> k < sz \<and> bitAt (take n (drop q d)) (r + sz - 1 - k)"
        unfolding w_def s(3,4) using False \<open>sz \<noteq> 0\<close> assms(2) s(2) \<open>q + n \<le> length d\<close>
        by (simp add: bit_uintWindow flip: n_def)
      then show ?thesis using win \<open>sz \<noteq> 0\<close> by auto
    qed
    moreover have "k < sz \<Longrightarrow> 8 * q + (r + sz - 1 - k) = sl_bitStart c + (sz - 1 - k)" using s by linarith
    ultimately show "bit w k \<longleftrightarrow> k < length (take sz (sliceBits c)) \<and>
        take sz (sliceBits c) ! (length (take sz (sliceBits c)) - 1 - k)"
      unfolding len using assms(3) by (auto simp: nth_sliceBits d_def)
  qed
  moreover have "loadUintFast sz preload c =
      (Inr w, if preload then c else c\<lparr>sl_bitStart := sl_bitStart c + sz\<rparr>)"
    unfolding w_def d_def using False assms(3)
    by (simp add: loadUintFast_def act_simps Let_def advance_def)
  ultimately show ?thesis by simp
qed

lemma LoadBoolBit_ok:
  assumes "slice_ok c" "0 < BitsLeft c"
  shows "LoadBoolBit c = (Inr (hd (sliceBits c)), c\<lparr>sl_bitStart := sl_bitStart c + 1\<rparr>)"
proof -
  have "(drop_bit m x AND 1 = 1) = bit x m" for x :: byte and m
    by (simp add: bit_iff_odd_drop_bit odd_iff_mod_2_eq_one and_one_eq)
  moreover have "hd (sliceBits c) = bitAt (cell_data (sl_cell c)) (sl_bitStart c)"
    using assms(2) by (simp add: sliceBits_def bitsOf_def BitsLeft_def upt_conv_Cons)
  ultimately show ?thesis
    using assms(2) by (simp add: LoadBoolBit_def act_simps Let_def advance_def BitsLeft_def bitAt_def)
qed

lemma load_too_much:
  "BitsLeft c < sz \<Longrightarrow> loadUintFast sz p c = (Inl (CellError ErrNotEnoughData), c)"
  "BitsLeft c < sz \<Longrightarrow> loadSliceInto n sz p c = (Inl (CellError ErrNotEnoughData), c)"
  by (simp_all add: loadUintFast_def loadSliceInto_def act_simps)

subsection \<open>Byte slices\<close>

lemma bit_shiftedWord:
  assumes "0 < shift" "shift < 8" "i + 8 < length data" "j < 64"
  shows "bit (push_bit shift (beUint64 data i) OR drop_bit (8 - shift) (ucast (data ! (i + 8)))) (63 - j) =
    bitAt data (8 * i + shift + j)"
proof -
  have eq: "drop_bit (8 - shift) (ucast (data ! (i + 8)) :: 64 word) = ucast (drop_bit (8 - shift) (data ! (i + 8)))"
    by (rule bit_eqI) (auto simp: bit_drop_bit_eq bit_ucast_iff dest: bit_imp_le_length)
  have "bit (push_bit shift (beUint64 data i) OR ucast (drop_bit (8 - shift) (data ! (i + 8)))) (63 - j) =
      bitAt data (8 * i + (63 + shift - (63 - j)))"
  proof (rule bit_shiftWord [where f = "\<lambda>m. bitAt data (8 * i + m)", OF assms(2)])
    show "bit (beUint64 data i) m = bitAt data (8 * i + (63 - m))" if "m < 64" for m
      using that assms(3) by (simp add: bit_beUint64)
    show "bit (ucast (drop_bit (8 - shift) (data ! (i + 8))) :: 64 word) m = bitAt data (8 * i + (63 + shift - m))"
      if "m < shift" for m
    proof -
      have "8 * i + (63 + shift - m) = 8 * (i + 8) + (shift - 1 - m)" using that by simp
      then show ?thesis
        using that assms(2) bitAt_byte [of "shift - 1 - m" data "i + 8"]
        by (simp add: bit_ucast_iff bit_nextByteBits algebra_simps)
    qed
    show "\<not> bit (ucast (drop_bit (8 - shift) (data ! (i + 8))) :: 64 word) m" if "shift \<le> m" for m
      using that assms(2) by (simp add: bit_ucast_iff bit_nextByteBits)
  qed (use assms in simp)
  then show ?thesis using assms(4) by (simp add: eq add.assoc)
qed

lemma bit_shiftedByte:
  assumes "0 < shift" "shift < 8" "j < 8"
  shows "bit (push_bit shift (data ! i) OR drop_bit (8 - shift) (data ! (i + 1))) (7 - j) =
    bitAt data (8 * i + shift + j)"
proof (cases "shift + j < 8")
  case True
  then show ?thesis using assms bitAt_byte [of "shift + j" data i]
    by (auto simp: bit_or_iff bit_push_bit_iff bit_nextByteBits add.assoc add.commute)
next
  case False
  have "8 * i + shift + j = 8 * (i + 1) + (shift + j - 8)" "shift + j - 8 < 8" using False assms by simp_all
  then have "bitAt data (8 * i + shift + j) = bit (data ! (i + 1)) (15 - (shift + j))"
    using bitAt_byte [of "shift + j - 8" data "i + 1"] False by (simp add: add.assoc)
  moreover have "\<not> shift \<le> 7 - j" "8 - shift + (7 - j) = 15 - (shift + j)" "7 - j < shift"
    using False assms by simp_all
  ultimately show ?thesis using assms by (simp add: bit_or_iff bit_push_bit_iff bit_nextByteBits)
qed

lemma loadWords_stop:
  "\<not> (i + 8 \<le> outLen \<and> i + 9 \<le> need) \<Longrightarrow> loadWords shift data outLen need i out = (i, out)"
  by (subst loadWords.simps) auto

lemma loadWords_go:
  "i + 8 \<le> outLen \<Longrightarrow> i + 9 \<le> need \<Longrightarrow> loadWords shift data outLen need i out =
     loadWords shift data outLen need (i + 8) (putBytes out i (beBytes64
       (push_bit shift (beUint64 data i) OR drop_bit (8 - shift) (ucast (data ! (i + 8))))))"
  by (subst loadWords.simps) (simp add: Let_def)

lemma loadWords_spec:
  assumes "0 < shift" "shift < 8" "need \<le> length data" "length out = outLen" "i \<le> outLen"
    "\<And>k. k < 8 * i \<Longrightarrow> bitAt out k = bitAt data (shift + k)"
  obtains i' out' where "loadWords shift data outLen need i out = (i', out')" "length out' = outLen" "i' \<le> outLen"
    "\<And>k. k < 8 * i' \<Longrightarrow> bitAt out' k = bitAt data (shift + k)"
  using assms
proof (induction shift data outLen need i out arbitrary: thesis rule: loadWords.induct)
  case (1 shift data outLen need i out)
  show ?case
  proof (cases "i + 8 \<le> outLen \<and> i + 9 \<le> need")
    case False
    show ?thesis by (rule "1.prems"(1) [OF loadWords_stop [OF False]]) (use "1.prems" in auto)
  next
    case True
    define v where "v = push_bit shift (beUint64 data i) OR drop_bit (8 - shift) (ucast (data ! (i + 8)))"
    have bits: "bitAt (putBytes out i (beBytes64 v)) k = bitAt data (shift + k)" if k: "k < 8 * (i + 8)" for k
    proof (cases "k < 8 * i")
      case True
      then show ?thesis using k \<open>i + 8 \<le> outLen \<and> i + 9 \<le> need\<close> "1.prems"(5,7)
        by (subst bitAt_putUint64) auto
    next
      case False
      then have "bitAt (putBytes out i (beBytes64 v)) k = bit v (63 - (k - 8 * i))"
        using k True "1.prems"(5) by (subst bitAt_putUint64) auto
      also have "\<dots> = bitAt data (8 * i + shift + (k - 8 * i))"
        unfolding v_def by (rule bit_shiftedWord) (use k False True "1.prems" in auto)
      also have "8 * i + shift + (k - 8 * i) = shift + k" using False by simp
      finally show ?thesis .
    qed
    show ?thesis
    proof (rule "1.IH" [OF True refl])
      show "loadWords shift data outLen need (i + 8) (putBytes out i (beBytes64
          (push_bit shift (beUint64 data i) OR drop_bit (8 - shift) (ucast (data ! (i + 8)))))) = (i', out') \<Longrightarrow>
          length out' = outLen \<Longrightarrow> i' \<le> outLen \<Longrightarrow>
          (\<And>k. k < 8 * i' \<Longrightarrow> bitAt out' k = bitAt data (shift + k)) \<Longrightarrow> thesis" for i' out'
        using True by (intro "1.prems"(1)) (auto simp: loadWords_go)
    qed (use "1.prems" True bits in \<open>auto simp: v_def\<close>)
  qed
qed

lemma loadBytes_spec:
  assumes "0 < shift" "shift < 8" "i \<le> lst" "lst < length out"
    "\<And>k. k < 8 * i \<Longrightarrow> bitAt out k = bitAt data (shift + k)"
  obtains out' where "loadBytes shift data lst i out = (lst, out')" "length out' = length out"
    "\<And>k. k < 8 * lst \<Longrightarrow> bitAt out' k = bitAt data (shift + k)"
  using assms
proof (induction shift data lst i out arbitrary: thesis rule: loadBytes.induct)
  case (1 shift data lst i out)
  show ?case
  proof (cases "i < lst")
    case False
    then have "loadBytes shift data lst i out = (lst, out)" using "1.prems"(4) by (subst loadBytes.simps) simp
    then show ?thesis by (rule "1.prems"(1)) (use "1.prems" False in auto)
  next
    case True
    define v where "v = push_bit shift (data ! i) OR drop_bit (8 - shift) (data ! (i + 1))"
    have bits: "bitAt (out[i := v]) k = bitAt data (shift + k)" if k: "k < 8 * (i + 1)" for k
    proof (cases "k < 8 * i")
      case True
      then show ?thesis using "1.prems"(6) by (auto simp: bitAt_def less_mult_imp_div_less mult.commute)
    next
      case False
      then obtain j where j: "k = 8 * i + j" "j < 8" using k by (metis add_diff_inverse_nat distrib_left mult.right_neutral nat_add_left_cancel_less)
      then have "bitAt (out[i := v]) k = bit v (7 - j)"
        using True "1.prems"(5) bitAt_byte [of j "out[i := v]" i] by simp
      also have "\<dots> = bitAt data (8 * i + shift + j)" unfolding v_def by (rule bit_shiftedByte) (use j "1.prems" in auto)
      finally show ?thesis using j by (simp add: algebra_simps)
    qed
    have go: "loadBytes shift data lst i out = loadBytes shift data lst (i + 1) (out[i := v])"
      using True unfolding v_def by (subst loadBytes.simps) simp
    show ?thesis
      by (rule "1.IH" [OF True, folded v_def]) (use "1.prems" True bits go in auto)
  qed
qed

lemma loadSliceData_raw:
  assumes "0 < shift" "shift < 8" "0 < sz" "(shift + sz + 7) div 8 \<le> length data"
    and o: "out = (let outLen = (sz + 7) div 8; lastIdx = outLen - 1; need = (shift + sz + 7) div 8;
                          (i, o1) = loadWords shift data outLen need 0 (replicate outLen 0);
                          (j, o2) = loadBytes shift data lastIdx i o1
                      in if j = lastIdx
                         then o2[lastIdx := (if need > outLen
                                          then push_bit shift (data ! lastIdx) OR drop_bit (8 - shift) (data ! (lastIdx + 1))
                                          else push_bit shift (data ! lastIdx))]
                         else o2)"
  shows "length out = (sz + 7) div 8 \<and> (\<forall>k < sz. bitAt out k = bitAt data (shift + k))"
proof -
  define n where "n = (sz + 7) div 8"
  define need where "need = (shift + sz + 7) div 8"
  have n: "0 < n" "sz \<le> 8 * n" "8 * n < sz + 8" using assms(3) unfolding n_def by linarith+
  obtain i o1 where w: "loadWords shift data n need 0 (replicate n 0) = (i, o1)" "length o1 = n" "i \<le> n"
      "\<And>k. k < 8 * i \<Longrightarrow> bitAt o1 k = bitAt data (shift + k)"
    by (rule loadWords_spec [of shift need data "replicate n 0" n 0]) (use assms in \<open>auto simp: need_def\<close>)
  show ?thesis
  proof (cases "i = n")
    case True
    then have "loadBytes shift data (n - 1) i o1 = (n, o1)" by (subst loadBytes.simps) auto
    then have "out = o1" using w(1) n(1) unfolding o n_def [symmetric] need_def [symmetric] by (auto simp: Let_def)
    then show ?thesis using w True n by (auto simp: n_def [symmetric])
  next
    case False
    then have "i \<le> n - 1" "n - 1 < length o1" using w n by auto
    from loadBytes_spec [OF assms(1,2) this w(4)]
    obtain o2 where b: "loadBytes shift data (n - 1) i o1 = (n - 1, o2)" "length o2 = n"
        "\<And>k. k < 8 * (n - 1) \<Longrightarrow> bitAt o2 k = bitAt data (shift + k)"
      using w(2) by metis
    define v where "v = (if need > n then push_bit shift (data ! (n - 1)) OR drop_bit (8 - shift) (data ! (n - 1 + 1))
                         else push_bit shift (data ! (n - 1)))"
    have out: "out = o2[n - 1 := v]"
      using w(1) b(1) unfolding o v_def n_def [symmetric] need_def [symmetric] by (simp add: Let_def)
    have "bitAt out k = bitAt data (shift + k)" if k: "k < sz" for k
    proof (cases "k < 8 * (n - 1)")
      case True
      then have "k div 8 \<noteq> n - 1" by (simp add: less_mult_imp_div_less mult.commute)
      then show ?thesis using True b(3) by (simp add: out bitAt_def)
    next
      case False
      define j where "j = k - 8 * (n - 1)"
      have "8 * n = 8 * (n - 1) + 8" using n(1) by (simp add: algebra_simps)
      then have j: "k = 8 * (n - 1) + j" "j < 8" using False k n unfolding j_def by linarith+
      have "bitAt out k = bit v (7 - j)" using j n b(2) bitAt_byte [of j out "n - 1"] by (simp add: out)
      also have "\<dots> = bitAt data (8 * (n - 1) + shift + j)"
      proof (cases "need > n")
        case True
        then show ?thesis unfolding v_def using bit_shiftedByte [OF assms(1,2) j(2), of data "n - 1"] by simp
      next
        case False
        then have "shift + sz \<le> 8 * n" unfolding need_def by linarith
        then have "shift + j < 8" using j k n by linarith
        then show ?thesis using False j assms bitAt_byte [of "shift + j" data "n - 1"] unfolding v_def
          by (auto simp: bit_push_bit_iff add.assoc add.commute)
      qed
      finally show ?thesis using j by (simp add: algebra_simps)
    qed
    then show ?thesis using b(2) n by (simp add: out n_def)
  qed
qed

lemma loadSliceData_spec:
  assumes "0 < sz" "(start + sz + 7) div 8 \<le> length d"
  shows "length (loadSliceData d start sz) = (sz + 7) div 8"
    "\<And>k. k < 8 * ((sz + 7) div 8) \<Longrightarrow> bitAt (loadSliceData d start sz) k \<longleftrightarrow> k < sz \<and> bitAt d (start + k)"
proof -
  define n where "n = (sz + 7) div 8"
  obtain q r where s: "start = 8 * q + r" "r < 8" "start div 8 = q" "start mod 8 = r" by (rule div8E)
  define data where "data = drop q d"
  define out where "out = (if r = 0 then take n data
                 else let outLen = n; lastIdx = outLen - 1; need = (r + sz + 7) div 8;
                          (i, o1) = loadWords r data outLen need 0 (replicate outLen 0);
                          (j, o2) = loadBytes r data lastIdx i o1
                      in if j = lastIdx
                         then o2[lastIdx := (if need > outLen
                                          then push_bit r (data ! lastIdx) OR drop_bit (8 - r) (data ! (lastIdx + 1))
                                          else push_bit r (data ! lastIdx))]
                         else o2)"
  have n: "0 < n" "sz \<le> 8 * n" "8 * n < sz + 8" using assms(1) unfolding n_def by linarith+
  have need: "q + (r + sz + 7) div 8 \<le> length d" using assms(2) s by linarith
  have at: "bitAt data k = bitAt d (8 * q + k)" if "k < r + sz" for k
    using that bitAt_window [of k "length d - q" q d] need unfolding data_def by simp
  have raw: "length out = n \<and> (\<forall>k < sz. bitAt out k = bitAt data (r + k))"
  proof (cases "r = 0")
    case True
    have "n \<le> length data" using need True unfolding data_def n_def by simp
    then show ?thesis using True n bitAt_window [of _ n 0 data] by (auto simp: out_def)
  next
    case False
    show ?thesis unfolding n_def
      by (rule loadSliceData_raw [where data = data]) (use False s need assms(1) in \<open>auto simp: out_def n_def data_def\<close>)
  qed
  have res: "loadSliceData d start sz =
      (if sz mod 8 \<noteq> 0 then out[n - 1 := out ! (n - 1) AND maskTail (sz mod 8)] else out)"
    unfolding loadSliceData_def s(3,4) n_def [symmetric] data_def [symmetric] out_def [symmetric]
    unfolding Let_def out_def by (simp only: Let_def n_def data_def)
  show len: "length (loadSliceData d start sz) = (sz + 7) div 8" using raw res n_def by simp
  fix k assume k: "k < 8 * ((sz + 7) div 8)"
  have body: "k < sz \<Longrightarrow> bitAt out k = bitAt d (start + k)"
    using raw at [of "r + k"] s by (simp add: algebra_simps)
  obtain m t where z: "sz = 8 * m + t" "t < 8" "sz div 8 = m" "sz mod 8 = t" by (rule div8E)
  show "bitAt (loadSliceData d start sz) k \<longleftrightarrow> k < sz \<and> bitAt d (start + k)"
  proof (cases "t = 0")
    case True
    then have "n < m + 1" using n z(1) by linarith
    then have "k < sz" using k True z(1) unfolding n_def [symmetric] by simp
    then show ?thesis using True z res body by simp
  next
    case False
    then have nm: "n = m + 1" using n z by linarith
    show ?thesis
    proof (cases "k < 8 * m")
      case True
      then have "k div 8 \<noteq> n - 1" by (simp add: nm less_mult_imp_div_less mult.commute)
      then show ?thesis using True res z body by (simp add: bitAt_def)
    next
      case below: False
      define j where "j = k - 8 * m"
      have j: "k = 8 * m + j" "j < 8" using below k nm unfolding n_def [symmetric] j_def by linarith+
      have "bitAt (loadSliceData d start sz) k \<longleftrightarrow> bit (out ! m AND maskTail t) (7 - j)"
        using False raw nm res z(4) j bitAt_byte [of j "loadSliceData d start sz" m] by simp
      also have "\<dots> \<longleftrightarrow> j < t \<and> bitAt out k"
        using bit_maskTail [of t j] False z(2) j bitAt_byte [of j out m] by (auto simp: bit_and_iff)
      finally show ?thesis using body j z by auto
    qed
  qed
qed

subsection \<open>Big integers\<close>

lemma bit_SetBytes: "bit (SetBytes bs) k \<longleftrightarrow> k < 8 * length bs \<and> bitAt bs (8 * length bs - 1 - k)"
proof (induction bs arbitrary: k rule: rev_induct)
  case Nil
  then show ?case by (simp add: SetBytes_def)
next
  case (snoc b bs)
  have "SetBytes (bs @ [b]) = push_bit 8 (SetBytes bs) + uint b"
    by (simp add: SetBytes_def push_bit_eq_mult)
  also have "\<dots> = push_bit 8 (SetBytes bs) OR uint b"
    by (rule disjunctive_add) (auto simp: bit_push_bit_iff bit_uint_iff)
  finally have eq: "SetBytes (bs @ [b]) = push_bit 8 (SetBytes bs) OR uint b" .
  show ?case
  proof (cases "k < 8")
    case True
    have "8 * length (bs @ [b]) - 1 - k = 8 * length bs + (7 - k)" using True by simp
    then show ?thesis using True bitAt_byte [of "7 - k" "bs @ [b]" "length bs"]
      by (simp add: eq bit_or_iff bit_push_bit_iff bit_uint_iff)
  next
    case False
    have "bitAt (bs @ [b]) i = bitAt bs i" if "i < 8 * length bs" for i
      using that by (simp add: bitAt_def nth_append less_mult_imp_div_less mult.commute)
    moreover have "8 * length (bs @ [b]) - 1 - k = 8 * length bs - 1 - (k - 8)" using False by simp
    moreover have "k < 8 * length (bs @ [b]) \<Longrightarrow> 8 * length bs - 1 - (k - 8) < 8 * length bs" using False by simp
    moreover have "k - 8 < 8 * length bs \<longleftrightarrow> k < 8 * length (bs @ [b])" using False by auto
    ultimately show ?thesis using False
      by (auto simp: eq bit_or_iff bit_push_bit_iff bit_uint_iff snoc.IH)
  qed
qed

lemma int_bitsI:
  assumes "\<And>k. bit (v :: int) k \<longleftrightarrow> k < length bs \<and> bs ! (length bs - 1 - k)"
  shows "v = int (uintOf bs)"
  by (rule bit_eqI) (use assms in \<open>auto simp: bit_of_nat_iff bit_uintOf\<close>)

lemma length_alignRight [simp]: "length (alignRight off xs) = length xs"
  by (induction off xs rule: alignRight.induct) auto

lemma bit_alignRight:
  assumes "0 < off" "off < 8" "k < length xs" "j < 8"
  shows "bit (alignRight off xs ! k) j =
    (if j < off then bit (xs ! k) (8 - off + j) else k + 1 < length xs \<and> bit (xs ! (k + 1)) (j - off))"
  using assms
proof (induction off xs arbitrary: k rule: alignRight.induct)
  case (2 off x)
  then show ?case by (simp add: bit_nextByteBits)
next
  case (3 off x y xs)
  have "drop_bit (8 - off) x + push_bit off y = drop_bit (8 - off) x OR push_bit off y"
    using "3.prems" by (intro disjunctive_add) (auto simp: bit_nextByteBits bit_push_bit_iff)
  then show ?case using 3 by (cases k) (auto simp: bit_or_iff bit_push_bit_iff bit_nextByteBits)
qed simp

lemma bitAt_alignRight:
  assumes "0 < off" "off < 8" "length b = n + 1" "k < 8 * (n + 1)"
  shows "bitAt (rev (alignRight off (rev b))) (8 * (n + 1) - 1 - k) \<longleftrightarrow>
    k < 8 * n + off \<and> bitAt b (8 * n + off - 1 - k)"
proof -
  obtain q r where k: "k = 8 * q + r" "r < 8" "k div 8 = q" "k mod 8 = r" by (rule div8E)
  then have "8 * q < 8 * (n + 1)" using assms(4) by linarith
  then have "q \<le> n" by simp
  then obtain t where t: "n = q + t" using le_Suc_ex by blast
  have "8 * (n + 1) - 1 - k = 8 * t + (7 - r)" using t k by simp
  then have "bitAt (rev (alignRight off (rev b))) (8 * (n + 1) - 1 - k) = bit (alignRight off (rev b) ! q) r"
    using k t assms(3) bitAt_byte [of "7 - r" "rev (alignRight off (rev b))" t] by (simp add: rev_nth)
  also have "\<dots> \<longleftrightarrow> (if r < off then bit (b ! t) (8 - off + r) else 0 < t \<and> bit (b ! (t - 1)) (r - off))"
    using k t assms by (subst bit_alignRight) (auto simp: rev_nth)
  also have "\<dots> \<longleftrightarrow> k < 8 * n + off \<and> bitAt b (8 * n + off - 1 - k)"
  proof (cases "r < off")
    case True
    then have "8 * n + off - 1 - k = 8 * t + (off - 1 - r)" using t k by simp
    then show ?thesis using True t k assms(2) bitAt_byte [of "off - 1 - r" b t] by simp
  next
    case False
    show ?thesis
    proof (cases t)
      case 0
      then show ?thesis using False t k by simp
    next
      case (Suc u)
      then have "8 * n + off - 1 - k = 8 * u + (7 - (r - off))" using False t k assms by simp
      then show ?thesis using False Suc t k assms bitAt_byte [of "7 - (r - off)" b u] by simp
    qed
  qed
  finally show ?thesis .
qed

lemma loadSliceInto_ok:
  assumes "slice_ok c" "sz \<le> BitsLeft c" "(sz + 7) div 8 \<le> n"
  obtains d where "loadSliceInto n sz preload c =
      (Inr d, if preload then c else c\<lparr>sl_bitStart := sl_bitStart c + sz\<rparr>)"
    "length d = (sz + 7) div 8" "bitsOf d 0 sz = take sz (sliceBits c)"
    "\<And>k. sz \<le> k \<Longrightarrow> k < 8 * length d \<Longrightarrow> \<not> bitAt d k"
proof (cases "sz = 0")
  case True
  then show ?thesis using assms by (intro that [of "[]"]) (auto simp: loadSliceInto_def act_simps bitsOf_def)
next
  case False
  define d where "d = loadSliceData (cell_data (sl_cell c)) (sl_bitStart c) sz"
  note w = slice_ok_window [OF assms(1,2)]
  note sp = loadSliceData_spec [OF _ w(1), folded d_def]
  have z: "0 < sz" using False by simp
  have "sz \<le> 8 * ((sz + 7) div 8)" by linarith
  then have "bitsOf d 0 sz = take sz (sliceBits c)"
    using sp [OF z z] assms(2) by (intro nth_equalityI) (auto simp: nth_sliceBits)
  then show ?thesis
    using sp [OF z z] False assms by (intro that [of d]) (auto simp: loadSliceInto_def act_simps advance_def d_def)
qed

lemma readBigNumber_ok:
  assumes "slice_ok c" "sz \<le> BitsLeft c"
  shows "readBigNumber sz preload c = (Inr (int (uintOf (take sz (sliceBits c)))),
    if preload then c else c\<lparr>sl_bitStart := sl_bitStart c + sz\<rparr>)"
proof (cases "sz = 0")
  case True
  then show ?thesis by (simp add: readBigNumber_def)
next
  case False
  obtain d where d: "loadSliceInto ((sz + 7) div 8) sz preload c =
      (Inr d, if preload then c else c\<lparr>sl_bitStart := sl_bitStart c + sz\<rparr>)"
    "length d = (sz + 7) div 8" "bitsOf d 0 sz = take sz (sliceBits c)"
    "\<And>k. sz \<le> k \<Longrightarrow> k < 8 * length d \<Longrightarrow> \<not> bitAt d k"
    by (rule loadSliceInto_ok [OF assms order_refl, where preload = preload]) blast
  define e where "e = (if sz mod 8 > 0 then rev (alignRight (sz mod 8) (rev d)) else d)"
  obtain q r where s: "sz = 8 * q + r" "r < 8" "sz div 8 = q" "sz mod 8 = r" by (rule div8E)
  have at: "bitAt d i = take sz (sliceBits c) ! i" if "i < sz" for i
    using that arg_cong [OF d(3), of "\<lambda>l. l ! i"] by simp
  have "SetBytes e = int (uintOf (take sz (sliceBits c)))"
  proof (rule int_bitsI)
    fix k
    have len: "length (take sz (sliceBits c)) = sz" using assms(2) by simp
    have "bit (SetBytes e) k \<longleftrightarrow> k < sz \<and> bitAt d (sz - 1 - k)"
    proof (cases "r = 0")
      case True
      then have "length d = q" using d(2) s(1) by simp
      then show ?thesis using True s by (simp add: e_def bit_SetBytes)
    next
      case False
      then have l: "length d = q + 1" using d(2) s(1,2) ceil8 [of r q] by simp
      then show ?thesis using False s bitAt_alignRight [of r d q k]
        by (auto simp: e_def bit_SetBytes)
    qed
    then show "bit (SetBytes e) k \<longleftrightarrow> k < length (take sz (sliceBits c)) \<and>
        take sz (sliceBits c) ! (length (take sz (sliceBits c)) - 1 - k)"
      unfolding len using at [of "sz - 1 - k"] by auto
  qed
  then show ?thesis using False d(1) by (simp add: readBigNumber_def act_simps e_def)
qed

lemma LoadBigUInt_ok:
  assumes "slice_ok c" "sz \<le> BitsLeft c" "sz \<le> 256"
  shows "LoadBigUInt sz c = (Inr (int (uintOf (take sz (sliceBits c)))), c\<lparr>sl_bitStart := sl_bitStart c + sz\<rparr>)"
    "PreloadBigUInt sz c = (Inr (int (uintOf (take sz (sliceBits c)))), c)"
  using readBigNumber_ok [OF assms(1,2)] assms(3) by (simp_all add: LoadBigUInt_def PreloadBigUInt_def)

lemma sintOf_alt:
  "bs \<noteq> [] \<Longrightarrow> sintOf bs = (if bit (int (uintOf bs)) (length bs - 1) then int (uintOf bs) - 2 ^ length bs else int (uintOf bs))"
  by (simp add: sintOf_def bit_of_nat_iff bit_uintOf hd_conv_nth)

lemma LoadBigInt_ok:
  assumes "slice_ok c" "sz \<le> BitsLeft c" "0 < sz" "sz \<le> 257"
  shows "LoadBigInt sz c = (Inr (sintOf (take sz (sliceBits c))), c\<lparr>sl_bitStart := sl_bitStart c + sz\<rparr>)"
proof -
  have len: "length (take sz (sliceBits c)) = sz" using assms(2) by simp
  then have "take sz (sliceBits c) \<noteq> []" using assms(3) by (metis list.size(3) less_irrefl)
  from sintOf_alt [OF this] len show ?thesis
    using readBigNumber_ok [OF assms(1,2), of False] assms(3,4) by (simp add: LoadBigInt_def act_simps)
qed

lemma LoadUInt_ok:
  assumes "slice_ok c" "sz \<le> 64" "sz \<le> BitsLeft c"
  shows "LoadUInt sz c = (Inr (word_of_nat (uintOf (take sz (sliceBits c)))), c\<lparr>sl_bitStart := sl_bitStart c + sz\<rparr>)"
    "PreloadUInt sz c = (Inr (word_of_nat (uintOf (take sz (sliceBits c)))), c)"
  using assms by (simp_all add: LoadUInt_def PreloadUInt_def loadUintFast_ok)

lemma sint_word_small: "- (2 ^ 63) \<le> v \<Longrightarrow> v < 2 ^ 63 \<Longrightarrow> sint (word_of_int v :: 64 word) = v"
  by (simp add: signed_of_int signed_take_bit_int_eq_self)

lemma sint_word_large:
  assumes "2 ^ 63 \<le> n" "n < 2 ^ 64"
  shows "sint (word_of_nat n :: 64 word) = int n - 2 ^ 64"
proof -
  have "(int n + 2 ^ 63) mod 2 ^ 64 = (int n + 2 ^ 63 - 2 ^ 64) mod 2 ^ 64"
    by (rule minus_mod_self2 [symmetric])
  also have "\<dots> = int n + 2 ^ 63 - 2 ^ 64"
    by (rule mod_pos_pos_trivial) (use assms in auto)
  finally have m: "(int n + 2 ^ 63) mod 2 ^ 64 = int n + 2 ^ 63 - 2 ^ 64" .
  have "sint (word_of_nat n :: 64 word) = signed_take_bit 63 (int n)"
    using signed_of_int [of "int n", where ?'b = 64 and ?'a = int] by simp
  also have "\<dots> = (int n + 2 ^ 63) mod 2 ^ 64 - 2 ^ 63"
    by (simp add: signed_take_bit_eq_take_bit_shift take_bit_eq_mod)
  finally show ?thesis unfolding m by simp
qed

lemma signExtend:
  assumes "n < 2 ^ sz" "0 < sz" "sz < 64"
  shows "sint (if (word_of_nat n :: 64 word) AND push_bit (sz - 1) 1 \<noteq> 0
               then (word_of_nat n :: 64 word) OR NOT (push_bit sz 1 - 1) else word_of_nat n) =
    (if bit n (sz - 1) then int n - 2 ^ sz else int n)"
proof -
  let ?w = "word_of_nat n :: 64 word"
  have sign: "?w AND push_bit (sz - 1) 1 \<noteq> 0 \<longleftrightarrow> bit n (sz - 1)"
    using assms(2,3) by (auto simp: bit_eq_iff [of _ 0] bit_and_iff bit_exp_iff bit_of_nat_iff)
  have le: "(2 :: int) ^ sz \<le> 2 ^ 63" using assms(3) by (intro power_increasing) auto
  have nlt: "int n < 2 ^ sz" using assms(1) by (metis of_nat_less_iff of_nat_numeral of_nat_power)
  show ?thesis
  proof (cases "bit n (sz - 1)")
    case True
    have "?w OR NOT (push_bit sz 1 - 1) = ?w + NOT (mask sz)"
    proof -
      have "\<not> bit n k" if "sz \<le> k" for k
      proof -
        have "take_bit sz n = n" using assms(1) by (simp add: take_bit_nat_eq_self)
        then show ?thesis using that by (metis bit_take_bit_iff not_less)
      qed
      then have "?w + NOT (mask sz) = ?w OR NOT (mask sz)"
        by (intro disjunctive_add) (auto simp: bit_simps not_less)
      then show ?thesis by (simp add: mask_eq_exp_minus_1)
    qed
    also have "\<dots> = word_of_int (int n - 2 ^ sz)"
      by (simp add: mask_eq_exp_minus_1 not_eq_complement)
    finally have "sint (?w OR NOT (push_bit sz 1 - 1)) = sint (word_of_int (int n - 2 ^ sz) :: 64 word)"
      by (rule arg_cong)
    also have "\<dots> = int n - 2 ^ sz" by (rule sint_word_small; use nlt le in linarith)
    finally show ?thesis using True sign by simp
  next
    case False
    have "int n < 2 ^ 63" using nlt le by linarith
    then show ?thesis using False sign sint_word_small [of "int n"] by simp
  qed
qed

lemma loadIntFast_ok:
  assumes "slice_ok c" "0 < sz" "sz \<le> 64" "sz \<le> BitsLeft c"
  shows "LoadInt sz c = (Inr (sintOf (take sz (sliceBits c))), c\<lparr>sl_bitStart := sl_bitStart c + sz\<rparr>)"
proof -
  let ?bs = "take sz (sliceBits c)"
  have len: "length ?bs = sz" using assms(4) by simp
  then have ne: "?bs \<noteq> []" using assms(2) by (metis list.size(3) less_irrefl)
  have lt: "uintOf ?bs < 2 ^ sz" using uintOf_less [of ?bs] len by simp
  have "sint (word_of_nat (uintOf ?bs) :: 64 word) = sintOf ?bs" if "sz = 64"
  proof -
    have "bit (uintOf ?bs) 63 \<longleftrightarrow> 2 ^ 63 \<le> uintOf ?bs"
    proof -
      have "uintOf ?bs div 2 ^ 63 < 2" using lt that by (simp add: less_mult_imp_div_less)
      then have "odd (uintOf ?bs div 2 ^ 63) \<longleftrightarrow> uintOf ?bs div 2 ^ 63 = 1" by (auto simp: less_2_cases_iff)
      also have "\<dots> \<longleftrightarrow> 2 ^ 63 \<le> uintOf ?bs" using lt that by (auto intro!: div_nat_eqI dest: div_less_dividend simp: not_le)
      finally show ?thesis by (simp only: bit_iff_odd)
    qed
    then show ?thesis using that lt sintOf_alt [OF ne] len sint_word_small [of "int (uintOf ?bs)"]
        sint_word_large [of "uintOf ?bs"] by (auto simp: bit_of_nat_iff)
  qed
  moreover have "sint (if (word_of_nat (uintOf ?bs) :: 64 word) AND push_bit (sz - 1) 1 \<noteq> 0
      then (word_of_nat (uintOf ?bs) :: 64 word) OR NOT (push_bit sz 1 - 1) else word_of_nat (uintOf ?bs)) = sintOf ?bs" if "sz < 64"
    using signExtend [OF lt assms(2) that] sintOf_alt [OF ne] len by (simp add: bit_of_nat_iff)
  ultimately show ?thesis
    using assms by (auto simp: LoadInt_def loadIntFast_def act_simps loadUintFast_ok simp del: push_bit_of_1)
qed

end
