(* ===== verification/Cell_Finalize.thy ===== *)
theory Cell_Finalize
  imports Cell_Slice
begin

section \<open>From builders and slices to cells\<close>

text \<open>
  \<^verbatim>\<open>src/tvm/cell/finalize.go\<close>, \<^verbatim>\<open>validate.go\<close>, \<open>EndCell\<close>, the snake strings of \<^verbatim>\<open>builder.go\<close> and
  \<open>ToCell\<close>, \<open>LoadBinarySnake\<close> of \<^verbatim>\<open>slice.go\<close>.  The digest is an argument, as in theory Cell_Hash.  Cells
  are fully loaded, so the flag \<open>loadRefs\<close> of the source and the case of a lazy pruned cell do
  not occur; \<open>newCellWithData\<close> only chooses an allocation size.
\<close>

subsection \<open>Validation\<close>

definition ordinaryLevelMask :: "cell list \<Rightarrow> byte" where
  "ordinaryLevelMask refs = foldl (\<lambda>m ref. m OR cell_levelMask ref) 0 refs"

abbreviation otherErr :: "string \<Rightarrow> go_error + 'a" where
  "otherErr msg \<equiv> Inl (OtherError msg)"

definition specialCellRefs :: "cell \<Rightarrow> cell_type \<Rightarrow> go_error + cell list" where
  "specialCellRefs c typ =
     (let refCnt = length (cell_refs c) in
      case typ of
        PrunedCellType \<Rightarrow>
          if refCnt \<noteq> 0 then otherErr ''pruned branch special cell has a cell reference'' else Inr []
      | LibraryCellType \<Rightarrow>
          if refCnt \<noteq> 0 then otherErr ''library special cell has a cell reference'' else Inr []
      | MerkleProofCellType \<Rightarrow>
          if refCnt \<noteq> 1 then otherErr ''wrong references count for a merkle proof special cell''
          else Inr [cell_refs c ! 0]
      | MerkleUpdateCellType \<Rightarrow>
          if refCnt \<noteq> 2 then otherErr ''wrong references count for a merkle update special cell''
          else Inr [cell_refs c ! 0, cell_refs c ! 1]
      | _ \<Rightarrow> otherErr ''unknown special cell type'')"

text \<open>The four special types, one definition each; \<open>hsh\<close> and \<open>dep\<close> read a child's level-0 hash and depth.\<close>

definition validatePruned :: "cell \<Rightarrow> go_error + unit" where
  "validatePruned c =
     (case specialCellRefs c PrunedCellType of
        Inl e \<Rightarrow> Inl e
      | Inr _ \<Rightarrow>
          if length (cell_data c) < 2 then otherErr ''not enough data for a pruned branch special cell''
          else if cell_levelMask c \<noteq> cell_data c ! 1 then otherErr ''pruned branch level mask mismatch''
          else let level = GetLevel (cell_levelMask c) in
            if level > 3 \<or> level = 0 then otherErr ''pruned branch has an invalid level''
            else let storedHashes = getHashesCount (Apply (cell_levelMask c) (int level - 1)) in
              if cell_bitsSz c \<noteq> (2 + storedHashes * 34) * 8
              then otherErr ''not enough data for a pruned branch special cell''
              else if \<exists>i\<in>set [0..<storedHashes].
                        bigEndianUint16 (drop (2 + storedHashes * 32 + i * 2) (cell_data c)) > maxDepth
              then otherErr ''pruned branch depth exceeds maximum''
              else Inr ())"

definition validateLibrary :: "cell \<Rightarrow> go_error + unit" where
  "validateLibrary c =
     (case specialCellRefs c LibraryCellType of
        Inl e \<Rightarrow> Inl e
      | Inr _ \<Rightarrow>
          if cell_bitsSz c \<noteq> 8 + 256 then otherErr ''not enough data for a library special cell''
          else if cell_levelMask c \<noteq> 0 then otherErr ''library level mask mismatch''
          else Inr ())"

definition childHash :: "digest \<Rightarrow> cell \<Rightarrow> byte list" where
  "childHash sha ref = getHash ref (infoOf sha ref) 0"

definition childDepth :: "cell \<Rightarrow> nat" where
  "childDepth ref = getDepth ref (infoOf (\<lambda>_. []) ref) 0"

definition validateMerkleProof :: "digest \<Rightarrow> cell \<Rightarrow> go_error + unit" where
  "validateMerkleProof sha c =
     (if cell_bitsSz c \<noteq> 8 + (32 + 2) * 8 then otherErr ''not enough data for a merkle proof special cell''
      else case specialCellRefs c MerkleProofCellType of
        Inl e \<Rightarrow> Inl e
      | Inr refs \<Rightarrow>
          let ref = refs ! 0 in
          if take 32 (drop 1 (cell_data c)) \<noteq> childHash sha ref
          then otherErr ''hash mismatch in a merkle proof special cell''
          else if bigEndianUint16 (take 2 (drop 33 (cell_data c))) \<noteq> childDepth ref
          then otherErr ''depth mismatch in a merkle proof special cell''
          else if cell_levelMask c \<noteq> drop_bit 1 (cell_levelMask ref)
          then otherErr ''merkle proof level mask mismatch''
          else Inr ())"

definition validateMerkleUpdate :: "digest \<Rightarrow> cell \<Rightarrow> go_error + unit" where
  "validateMerkleUpdate sha c =
     (if cell_bitsSz c \<noteq> 8 + (32 + 2) * 8 * 2 then otherErr ''not enough data for a merkle update special cell''
      else case specialCellRefs c MerkleUpdateCellType of
        Inl e \<Rightarrow> Inl e
      | Inr refs \<Rightarrow>
          let left = refs ! 0; right = refs ! 1; d = cell_data c in
          if take 32 (drop 1 d) \<noteq> childHash sha left
          then otherErr ''first hash mismatch in a merkle update special cell''
          else if take 32 (drop 33 d) \<noteq> childHash sha right
          then otherErr ''second hash mismatch in a merkle update special cell''
          else if bigEndianUint16 (take 2 (drop 65 d)) \<noteq> childDepth left
          then otherErr ''first depth mismatch in a merkle update special cell''
          else if bigEndianUint16 (take 2 (drop 67 d)) \<noteq> childDepth right
          then otherErr ''second depth mismatch in a merkle update special cell''
          else if cell_levelMask c \<noteq> drop_bit 1 (cell_levelMask left OR cell_levelMask right)
          then otherErr ''merkle update level mask mismatch''
          else Inr ())"

definition validateCell :: "digest \<Rightarrow> cell \<Rightarrow> go_error + unit" where
  "validateCell sha c =
     (if \<not> cell_special c
      then (if cell_levelMask c \<noteq> ordinaryLevelMask (cell_refs c)
            then otherErr ''ordinary cell level mask mismatch'' else Inr ())
      else if cell_bitsSz c < 8 then otherErr ''not enough data for a special cell''
      else case computeType c of
        PrunedCellType \<Rightarrow> validatePruned c
      | LibraryCellType \<Rightarrow> validateLibrary c
      | MerkleProofCellType \<Rightarrow> validateMerkleProof sha c
      | MerkleUpdateCellType \<Rightarrow> validateMerkleUpdate sha c
      | _ \<Rightarrow> otherErr ''unknown special cell type'')"

definition refreshSpecialCellLevelMask :: "cell \<Rightarrow> go_error + byte" where
  "refreshSpecialCellLevelMask c =
     (if cell_bitsSz c < 8 then otherErr ''not enough data for a special cell''
      else let t = cell_data c ! 0 in
        if t = typeByte PrunedCellType
        then (case specialCellRefs c PrunedCellType of
                Inl e \<Rightarrow> Inl e
              | Inr _ \<Rightarrow> if cell_bitsSz c < 16 then otherErr ''not enough data for a pruned branch special cell''
                         else Inr (setLevelMask (cell_data c ! 1)))
        else if t = typeByte LibraryCellType
        then (case specialCellRefs c LibraryCellType of Inl e \<Rightarrow> Inl e | Inr _ \<Rightarrow> Inr (setLevelMask 0))
        else if t = typeByte MerkleProofCellType
        then (case specialCellRefs c MerkleProofCellType of
                Inl e \<Rightarrow> Inl e
              | Inr refs \<Rightarrow> Inr (setLevelMask (drop_bit 1 (cell_levelMask (refs ! 0)))))
        else if t = typeByte MerkleUpdateCellType
        then (case specialCellRefs c MerkleUpdateCellType of
                Inl e \<Rightarrow> Inl e
              | Inr refs \<Rightarrow> Inr (setLevelMask
                  (drop_bit 1 (cell_levelMask (refs ! 0) OR cell_levelMask (refs ! 1)))))
        else otherErr ''unknown special cell type'')"

subsection \<open>Finalisation\<close>

definition fillCellShell :: "digest \<Rightarrow> byte list \<Rightarrow> cell list \<Rightarrow> nat \<Rightarrow> bool \<Rightarrow> go_error + cell" where
  "fillCellShell sha data refs bitsSz special =
     (case validateCellRefDepthLimit refs of
        Inl e \<Rightarrow> Inl e
      | Inr _ \<Rightarrow>
          (case (if special then refreshSpecialCellLevelMask (Cell data bitsSz special 0 refs)
                 else Inr (setLevelMask (ordinaryLevelMask refs))) of
             Inl e \<Rightarrow> Inl e
           | Inr lmask \<Rightarrow>
               let c = Cell data bitsSz special lmask refs in
               (case validateCell sha c of Inl e \<Rightarrow> Inl e | Inr _ \<Rightarrow> Inr c)))"

definition buildCellShellFromBuilder :: "digest \<Rightarrow> builder \<Rightarrow> bool \<Rightarrow> go_error + cell" where
  "buildCellShellFromBuilder sha b special =
     fillCellShell sha (take (usedBytes b) (b_data b)) (b_refs b) (b_bitsSz b) special"

definition withHashes :: "digest \<Rightarrow> cell \<Rightarrow> go_error + cell" where
  "withHashes sha c = (case cellInfo sha c of Inl e \<Rightarrow> Inl e | Inr _ \<Rightarrow> Inr c)"

definition finalizeCellFromBuilder :: "digest \<Rightarrow> builder \<Rightarrow> bool \<Rightarrow> go_error + cell" where
  "finalizeCellFromBuilder sha b special =
     (case buildCellShellFromBuilder sha b special of Inl e \<Rightarrow> Inl e | Inr c \<Rightarrow> withHashes sha c)"

definition EndCellSpecial :: "digest \<Rightarrow> builder \<Rightarrow> bool \<Rightarrow> go_error + cell" where
  "EndCellSpecial sha b special = finalizeCellFromBuilder sha b special"

definition EndCell :: "digest \<Rightarrow> builder \<Rightarrow> go_error + cell" where
  "EndCell sha b = (case finalizeCellFromBuilder sha b False of Inl _ \<Rightarrow> Inl GoPanic | Inr c \<Rightarrow> Inr c)"

definition ToSlice :: "digest \<Rightarrow> builder \<Rightarrow> go_error + slice" where
  "ToSlice sha b = (case EndCell sha b of Inl e \<Rightarrow> Inl e | Inr c \<Rightarrow> Inr (newSliceFromCell c))"

definition isFullCell :: "slice \<Rightarrow> bool" where
  "isFullCell s \<longleftrightarrow> sl_bitStart s = 0 \<and> sl_bitEnd s = cell_bitsSz (sl_cell s) \<and>
     sl_refStart s = 0 \<and> sl_refEnd s = length (cell_refs (sl_cell s))"

text \<open>
  \<open>ToCell\<close> without a trace: a slice over a whole cell is that cell; any other window is copied
  into a new ordinary cell.
\<close>

definition ToCell :: "digest \<Rightarrow> slice \<Rightarrow> go_error + cell" where
  "ToCell sha s =
     (if isFullCell s then Inr (sl_cell s)
      else let left = BitsLeft s in
        case fst (PreloadSlice left s) of
          Inl e \<Rightarrow> Inl e
        | Inr data \<Rightarrow>
            let refs = sliceRefs s; c = Cell data left False (setLevelMask (ordinaryLevelMask refs)) refs in
            (case validateCellRefDepthLimit refs of
               Inl e \<Rightarrow> Inl e
             | Inr _ \<Rightarrow> (case validateCell sha c of Inl e \<Rightarrow> Inl e | Inr _ \<Rightarrow> withHashes sha c)))"

subsection \<open>Snake strings\<close>

text \<open>The loop of \<open>buildBinarySnakeTail\<close> cuts 127 bytes at a time off the end of the data.\<close>

function snakeTailLoop :: "digest \<Rightarrow> byte list \<Rightarrow> nat \<Rightarrow> cell option \<Rightarrow> go_error + cell option" where
  "snakeTailLoop sha data end child =
     (if end > 0
      then let start = end - 127 in
        case seq (StoreSlice (take (end - start) (drop start data)) ((end - start) * 8))
               (case child of None \<Rightarrow> ret () | Some c \<Rightarrow> StoreRef (Some c)) BeginCell of
          (Inl e, _) \<Rightarrow> Inl e
        | (Inr _, part) \<Rightarrow>
            (case EndCellSpecial sha part False of
               Inl e \<Rightarrow> Inl e
             | Inr c \<Rightarrow> snakeTailLoop sha data start (Some c))
      else Inr child)"
  by pat_completeness auto
termination
  by (relation "measure (\<lambda>(sha, data, end, child). end)") auto

declare snakeTailLoop.simps [simp del]

definition buildBinarySnakeTail :: "digest \<Rightarrow> byte list \<Rightarrow> go_error + cell option" where
  "buildBinarySnakeTail sha data = snakeTailLoop sha data (length data) None"

definition preflightSnake :: "builder \<Rightarrow> nat \<Rightarrow> go_error + unit" where
  "preflightSnake b tailBytes =
     (if tailBytes = 0 then Inr ()
      else if length (b_refs b) \<ge> 4 then Inl (CellError ErrTooMuchRefs)
      else if (tailBytes - 1) div 127 + 1 - 1 \<ge> maxDepth then Inl (CellError ErrCellDepthLimit)
      else Inr ())"

text \<open>All stores go to a copy of the builder, which replaces the receiver only on success.\<close>

definition StoreBinarySnake :: "digest \<Rightarrow> byte list \<Rightarrow> unit bld" where
  "StoreBinarySnake sha data = (\<lambda>b.
     let first = min (length data) (BitsLeftB b div 8) in
     case preflightSnake b (length data - first) of
       Inl e \<Rightarrow> (Inl e, b)
     | Inr _ \<Rightarrow>
         (case seq (StoreSlice (take first data) (first * 8))
                 (if first < length data
                  then bnd (lift_sum (buildBinarySnakeTail sha (drop first data))) StoreRef
                  else ret ()) b of
            (Inl e, _) \<Rightarrow> (Inl e, b)
          | (Inr _, tmp) \<Rightarrow> (Inr (), tmp)))"

lemma loadSliceInto_cell:
  "loadSliceInto n sz p s = (r, s') \<Longrightarrow> sl_cell s' = sl_cell s \<and> sl_refStart s' = sl_refStart s \<and> sl_refEnd s' = sl_refEnd s"
  by (auto simp: loadSliceInto_def act_simps advance_def split: if_splits)

lemma size_ref: "i < length (cell_refs c) \<Longrightarrow> size (cell_refs c ! i) < size c"
  by (cases c) (auto dest!: nth_mem size_list_estimation' [where f = size, OF _ order_refl])

text \<open>The chain is followed into the only reference of each cell.\<close>

function snakeLoad :: "byte list \<Rightarrow> slice \<Rightarrow> go_error + byte list" where
  "snakeLoad data ref =
     (case loadSliceInto ((BitsLeft ref + 7) div 8) (BitsLeft ref) False ref of
        (Inl e, _) \<Rightarrow> Inl e
      | (Inr d, ref1) \<Rightarrow>
          if RefsNum ref1 > 1 then otherErr ''more than one ref, it is not snake string''
          else if RefsNum ref1 = 0 then Inr (data @ d)
          else if \<not> sl_refStart ref1 < length (cell_refs (sl_cell ref1)) then Inl GoPanic
          else snakeLoad (data @ d) (newSliceFromCell (cell_refs (sl_cell ref1) ! sl_refStart ref1)))"
  by pat_completeness auto
termination
  by (relation "measure (\<lambda>(data, ref). size (sl_cell ref))")
    (auto simp: newSliceFromCell_def size_ref dest!: loadSliceInto_cell [OF sym])

declare snakeLoad.simps [simp del]

text \<open>The receiver is left behind its own bits and, when it has exactly one reference, behind that.\<close>

definition LoadBinarySnake :: "byte list sl" where
  "LoadBinarySnake = (\<lambda>c.
     (snakeLoad [] c,
      case loadSliceInto ((BitsLeft c + 7) div 8) (BitsLeft c) False c of
        (Inl e, c1) \<Rightarrow> c1
      | (Inr d, c1) \<Rightarrow> if RefsNum c1 = 1 then snd (loadRefInto True c1) else c1))"

end
