(* ===== verification/Cell_Roundtrip.thy ===== *)
theory Cell_Roundtrip
  imports Cell_Slice_Bits Cell_Finalize
begin

section \<open>Finalised cells and round trips\<close>

text \<open>
  Ordinary cells of level 0 always finalise when their references are not too deep, their depth is
  the height of the tree, and a slice over them reads back what was stored.
\<close>

lemma newSliceFromCell_sel [simp]:
  "sl_cell (newSliceFromCell c) = c" "sl_bitStart (newSliceFromCell c) = 0"
  "sl_bitEnd (newSliceFromCell c) = cell_bitsSz c" "sl_refStart (newSliceFromCell c) = 0"
  "sl_refEnd (newSliceFromCell c) = length (cell_refs c)"
  by (simp_all add: newSliceFromCell_def)

subsection \<open>Plain cells\<close>

fun plain :: "cell \<Rightarrow> bool" where
  "plain (Cell d n sp m refs) \<longleftrightarrow> \<not> sp \<and> m = 0 \<and> list_all plain refs"

fun treeDepth :: "cell \<Rightarrow> nat" where
  "treeDepth (Cell d n sp m refs) = (if refs = [] then 0 else Suc (Max (set (map treeDepth refs))))"

lemma plain_levelMask: "plain c \<Longrightarrow> cell_levelMask c = 0 \<and> \<not> cell_special c"
  by (cases c) simp

lemma ordinaryLevelMask_plain: "list_all plain refs \<Longrightarrow> ordinaryLevelMask refs = 0"
proof -
  have "list_all plain refs \<Longrightarrow> foldl (\<lambda>m ref. m OR cell_levelMask ref) m refs = m" for m
    by (induction refs arbitrary: m) (auto simp: plain_levelMask)
  then show "list_all plain refs \<Longrightarrow> ?thesis" by (simp add: ordinaryLevelMask_def)
qed

definition plainInfo :: "cell \<Rightarrow> cell_info \<Rightarrow> bool" where
  "plainInfo c i \<longleftrightarrow> ci_depths i = [treeDepth c] \<and> length (ci_hashes i) = 1"

lemma getDepth_plain: "plain c \<Longrightarrow> plainInfo c i \<Longrightarrow> getDepth c i l = treeDepth c"
  by (simp add: getDepth_def plain_levelMask plainInfo_def depthAt_def)

lemma foldl_max:
  fixes f :: "'a \<Rightarrow> nat"
  shows "foldl (\<lambda>d k. let cd = f k in if cd > d then cd else d) m ks = Max (insert m (f ` set ks))"
proof (induction ks arbitrary: m)
  case (Cons k ks)
  have "(if f k > m then f k else m) = max m (f k)" by auto
  then have "foldl (\<lambda>d k. let cd = f k in if cd > d then cd else d) m (k # ks) = Max (insert (max m (f k)) (f ` set ks))"
    using Cons [of "max m (f k)"] by (simp add: Let_def)
  also have "\<dots> = Max (insert m (f ` set (k # ks)))"
    by (cases "f ` set ks = {}") (auto simp: max.assoc)
  finally show ?case .
qed simp

lemma childrenDepth_plain:
  assumes "list_all2 plainInfo refs infos" "list_all plain refs" "\<forall>r\<in>set refs. treeDepth r < 1024"
  shows "childrenDepth (zip refs infos) 0 = Inr (if refs = [] then 0 else Suc (Max (treeDepth ` set refs)))"
proof (cases "refs = []")
  case False
  have kd: "getDepth (fst k) (snd k) 0 = treeDepth (fst k)" if "k \<in> set (zip refs infos)" for k
  proof (rule getDepth_plain)
    show "plain (fst k)" using that assms(2) by (metis list_all_iff prod.collapse set_zip_leftD)
    show "plainInfo (fst k) (snd k)" using that assms(1) by (auto simp: list_all2_iff)
  qed
  have img: "(\<lambda>k. getDepth (fst k) (snd k) 0) ` set (zip refs infos) = treeDepth ` set refs"
  proof -
    have "(\<lambda>k. getDepth (fst k) (snd k) 0) ` set (zip refs infos) = (\<lambda>k. treeDepth (fst k)) ` set (zip refs infos)"
      using kd by (rule image_cong [OF refl])
    also have "\<dots> = treeDepth ` set refs"
      using assms(1) by (metis image_image list_all2_lengthD map_fst_zip set_map)
    finally show ?thesis .
  qed
  obtain M where M: "Max (treeDepth ` set refs) = M" "M < 1024" using False assms(3) by simp
  moreover have "Max (insert 0 (treeDepth ` set refs)) = Max (treeDepth ` set refs)" using False by simp
  moreover have "zip refs infos \<noteq> []" using False assms(1) by (metis list_all2_lengthD map_fst_zip list.map_disc_iff)
  moreover have "foldl (\<lambda>d k. let cd = getDepth (fst k) (snd k) 0 in if cd > d then cd else d) 0 (zip refs infos) =
      Max (insert 0 (treeDepth ` set refs))"
    unfolding foldl_max img ..
  ultimately show ?thesis
    unfolding childrenDepth_def M using False by (simp add: Let_def maxDepth_def del: zip_eq_Nil_iff)
qed (simp add: childrenDepth_def)

lemma sequence_Inr: "list_all2 (\<lambda>x y. x = Inr y) xs ys \<Longrightarrow> sequence xs = Inr ys"
  by (induction rule: list_all2_induct) auto

lemma cellInfo_plain:
  "plain c \<Longrightarrow> treeDepth c \<le> 1024 \<Longrightarrow> \<exists>i. cellInfo sha c = Inr i \<and> plainInfo c i"
proof (induction c)
  case (Cell d n sp m refs)
  have dep: "\<forall>r\<in>set refs. treeDepth r < 1024"
  proof
    fix r assume r: "r \<in> set refs"
    then have "treeDepth r \<le> Max (treeDepth ` set refs)" by simp
    then show "treeDepth r < 1024" using Cell.prems(2) r by (auto split: if_splits)
  qed
  have "\<forall>r\<in>set refs. \<exists>i. cellInfo sha r = Inr i \<and> plainInfo r i"
    using Cell dep by (auto simp: list_all_iff less_imp_le)
  then obtain f where f: "\<And>r. r \<in> set refs \<Longrightarrow> cellInfo sha r = Inr (f r) \<and> plainInfo r (f r)" by metis
  have "sequence (map (cellInfo sha) refs) = Inr (map f refs)"
    by (rule sequence_Inr) (auto simp: list_all2_conv_all_nth f)
  moreover have "childrenDepth (zip refs (map f refs)) 0 =
      Inr (if refs = [] then 0 else Suc (Max (treeDepth ` set refs)))"
    by (rule childrenDepth_plain) (use Cell.prems dep f in \<open>auto simp: list_all2_conv_all_nth\<close>)
  ultimately show ?case
    using Cell.prems by (auto simp: calculateHashes_def calculateHashesOrdinary_eq computeType_def plainInfo_def)
qed

lemma Depth_plain: "plain c \<Longrightarrow> treeDepth c \<le> 1024 \<Longrightarrow> Depth c = treeDepth c"
  using cellInfo_plain [of c "\<lambda>_. []"]
  by (auto simp: Depth_def DepthAt_def infoOf_def getDepth_def Let_def plain_levelMask plainInfo_def depthAt_def
      DataCellMaxLevel_def)

lemma validateCellRefDepthLimit_plain:
  "list_all plain refs \<Longrightarrow> \<forall>r\<in>set refs. treeDepth r < 1024 \<Longrightarrow> validateCellRefDepthLimit refs = Inr ()"
  by (induction refs) (auto simp: Depth_plain maxDepth_def)

subsection \<open>Finalising a builder\<close>

definition plainBuilder :: "builder \<Rightarrow> bool" where
  "plainBuilder b \<longleftrightarrow> builder_ok b \<and> list_all plain (b_refs b) \<and> (\<forall>r\<in>set (b_refs b). treeDepth r < 1024)"

definition builtCell :: "builder \<Rightarrow> cell" where
  "builtCell b = Cell (take (usedBytes b) (b_data b)) (b_bitsSz b) False 0 (b_refs b)"

lemma plain_builtCell:
  assumes "plainBuilder b"
  shows "plain (builtCell b)" "treeDepth (builtCell b) \<le> 1024"
  using assms by (auto simp: plainBuilder_def builtCell_def Suc_le_eq)

lemma finalize_plain:
  assumes "plainBuilder b"
  shows "finalizeCellFromBuilder sha b False = Inr (builtCell b)" "EndCell sha b = Inr (builtCell b)"
proof -
  have "buildCellShellFromBuilder sha b False = Inr (builtCell b)"
    using assms by (simp add: buildCellShellFromBuilder_def fillCellShell_def plainBuilder_def builtCell_def
        validateCellRefDepthLimit_plain ordinaryLevelMask_plain setLevelMask_def validateCell_def Let_def)
  moreover have "withHashes sha (builtCell b) = Inr (builtCell b)"
    using cellInfo_plain [OF plain_builtCell [OF assms], of sha] by (auto simp: withHashes_def)
  ultimately show "finalizeCellFromBuilder sha b False = Inr (builtCell b)"
    by (simp add: finalizeCellFromBuilder_def)
  then show "EndCell sha b = Inr (builtCell b)" by (simp add: EndCell_def)
qed

lemma builtCell_slice:
  assumes "builder_ok b"
  shows "slice_ok (newSliceFromCell (builtCell b))" "sliceBits (newSliceFromCell (builtCell b)) = builderBits b"
proof -
  have len: "length (b_data b) = 128" "b_bitsSz b < 1024" using assms by (auto simp: builder_ok_def)
  have u: "usedBytes b \<le> 128" "b_bitsSz b \<le> 8 * usedBytes b" using len(2) unfolding usedBytes_def by linarith+
  show "slice_ok (newSliceFromCell (builtCell b))"
    using len u by (simp add: slice_ok_def newSliceFromCell_def builtCell_def)
  show "sliceBits (newSliceFromCell (builtCell b)) = builderBits b"
    unfolding sliceBits_def builderBits_def newSliceFromCell_def builtCell_def
    using bitAt_window [of _ "usedBytes b" 0 "b_data b"] len u by (auto intro!: bitsOf_cong)
qed

subsection \<open>Snake strings\<close>

text \<open>A chain of byte cells, its content and its depth.\<close>

inductive snake_chain :: "cell \<Rightarrow> byte list \<Rightarrow> nat \<Rightarrow> bool" where
  chain_end: "length d \<le> 127 \<Longrightarrow> snake_chain (Cell d (8 * length d) False 0 []) d 0"
| chain_link: "length d \<le> 127 \<Longrightarrow> snake_chain c bs k \<Longrightarrow>
    snake_chain (Cell d (8 * length d) False 0 [c]) (d @ bs) (Suc k)"

lemma snake_chain_plain: "snake_chain c bs k \<Longrightarrow> plain c \<and> treeDepth c = k"
  by (induction rule: snake_chain.induct) auto

lemma bitsOf_bytes_eq:
  assumes "length d = length e" "bitsOf d 0 (8 * length d) = bitsOf e 0 (8 * length d)"
  shows "d = e"
proof (rule nth_equalityI)
  fix i assume i: "i < length d"
  show "d ! i = e ! i"
  proof (rule bit_word_eqI)
    fix n assume "n < LENGTH(8)"
    then have n: "7 - n < 8" "n = 7 - (7 - n)" by simp_all
    have "bitAt d (8 * i + (7 - n)) = bitAt e (8 * i + (7 - n))"
      using arg_cong [OF assms(2), of "\<lambda>l. l ! (8 * i + (7 - n))"] i by simp
    then show "bit (d ! i) n = bit (e ! i) n" using n by (metis bitAt_byte)
  qed
qed (use assms in simp)

lemma load_whole_bytes:
  assumes "length d \<le> 127" and that: "s = newSliceFromCell (Cell d (8 * length d) sp m refs)"
  shows "loadSliceInto ((BitsLeft s + 7) div 8) (BitsLeft s) False s =
    (Inr d, s\<lparr>sl_bitStart := 8 * length d\<rparr>)"
proof -
  have ok: "slice_ok s" "BitsLeft s = 8 * length d" "sliceBits s = bitsOf d 0 (8 * length d)"
    using that assms by (simp_all add: slice_ok_def newSliceFromCell_def BitsLeft_def sliceBits_def)
  obtain e where e: "loadSliceInto ((BitsLeft s + 7) div 8) (BitsLeft s) False s =
      (Inr e, if False then s else s\<lparr>sl_bitStart := sl_bitStart s + BitsLeft s\<rparr>)"
    "length e = (BitsLeft s + 7) div 8" "bitsOf e 0 (BitsLeft s) = take (BitsLeft s) (sliceBits s)"
    by (rule loadSliceInto_ok [OF ok(1) order_refl order_refl, where preload = False]) blast
  have "length e = length d" using e(2) ok(2) by simp
  then have "e = d" using e(3) ok by (intro bitsOf_bytes_eq) auto
  then show ?thesis using e(1) that ok(2) by (simp add: newSliceFromCell_def)
qed

lemma snakeLoad_chain: "snake_chain c bs k \<Longrightarrow> snakeLoad acc (newSliceFromCell c) = Inr (acc @ bs)"
proof (induction arbitrary: acc rule: snake_chain.induct)
  case (chain_end d)
  show ?case
    by (subst snakeLoad.simps) (simp add: load_whole_bytes [OF chain_end refl] RefsNum_def)
next
  case (chain_link d c bs k)
  have "snakeLoad acc (newSliceFromCell (Cell d (8 * length d) False 0 [c])) =
      snakeLoad (acc @ d) (newSliceFromCell c)"
    by (subst snakeLoad.simps) (simp add: load_whole_bytes [OF chain_link(1) refl] RefsNum_def)
  then show ?case by (simp add: chain_link.IH)
qed

lemma stored_bytes:
  assumes "builder_ok b" "builderBits b = bitsOf d 0 (8 * length d)"
  shows "builtCell b = Cell d (8 * length d) False 0 (b_refs b)"
proof -
  have sz: "b_bitsSz b = 8 * length d" using arg_cong [OF assms(2), of length] by simp
  then have u: "usedBytes b = length d" by (simp add: usedBytes_def)
  have len: "length (b_data b) = 128" "b_bitsSz b < 1024" using assms(1) by (auto simp: builder_ok_def)
  have "take (length d) (b_data b) = d"
  proof (rule bitsOf_bytes_eq)
    show "length (take (length d) (b_data b)) = length d" using len sz by simp
    show "bitsOf (take (length d) (b_data b)) 0 (8 * length (take (length d) (b_data b))) =
        bitsOf d 0 (8 * length (take (length d) (b_data b)))"
      using assms(2) len sz bitAt_window [of _ "length d" 0 "b_data b"]
      by (auto simp: builderBits_def bitsOf_def)
  qed
  then show ?thesis by (simp add: builtCell_def u sz)
qed

lemma BeginCell_sel [simp]: "b_bitsSz BeginCell = 0" "b_refs BeginCell = []"
  by (simp_all add: BeginCell_def)

lemma snakeTailLoop_stop: "snakeTailLoop sha data 0 child = Inr child"
  by (subst snakeTailLoop.simps) simp

lemma snakePart:
  assumes "0 < length d" "length d \<le> 127"
    and "child = None \<and> rest = [] \<and> k = 0 \<or> (\<exists>c. child = Some c \<and> snake_chain c rest (k - 1) \<and> 0 < k \<and> k \<le> 1024)"
  shows "\<exists>b. seq (StoreSlice d (length d * 8)) (case child of None \<Rightarrow> ret () | Some c \<Rightarrow> StoreRef (Some c)) BeginCell =
      (Inr (), b) \<and> EndCellSpecial sha b False = Inr (builtCell b) \<and> snake_chain (builtCell b) (d @ rest) k"
proof -
  obtain b1 where b1: "StoreSlice d (length d * 8) BeginCell = (Inr (), b1)" "builder_ok b1"
      "b_refs b1 = []" "builderBits b1 = bitsOf d 0 (8 * length d)"
    using StoreSlice_ok [of BeginCell "length d * 8" d] assms(1,2) by (auto simp: mult.commute)
  from assms(3) show ?thesis
  proof (elim disjE exE conjE)
    assume "child = None" "rest = []" "k = 0"
    moreover have "plainBuilder b1" using b1 by (simp add: plainBuilder_def)
    ultimately show ?thesis using b1 assms(2) stored_bytes [OF b1(2,4)]
      by (auto simp: seq_apply EndCellSpecial_def finalize_plain intro: chain_end)
  next
    fix c assume c: "child = Some c" "snake_chain c rest (k - 1)" "0 < k" "k \<le> 1024"
    define b where "b = b1\<lparr>b_refs := [c]\<rparr>"
    have pc: "plain c" "treeDepth c = k - 1" using snake_chain_plain [OF c(2)] by auto
    have "StoreRef (Some c) b1 = (Inr (), b)"
      using b1(3) pc c(3,4) by (simp add: StoreRef_def storeRef_def act_simps Depth_plain maxDepth_def b_def)
    moreover have "builder_ok b" "builderBits b = bitsOf d 0 (8 * length d)"
      using b1 by (simp_all add: b_def builder_ok_def builderBits_def)
    moreover from this have "plainBuilder b" "builtCell b = Cell d (8 * length d) False 0 [c]"
      using stored_bytes [of b d] pc c(3,4) by (auto simp: plainBuilder_def b_def)
    moreover have "snake_chain (Cell d (8 * length d) False 0 [c]) (d @ rest) k"
      using chain_link [OF assms(2) c(2)] c(3) by simp
    ultimately show ?thesis using b1(1) c(1) by (auto simp: seq_apply EndCellSpecial_def finalize_plain)
  qed
qed

definition snake_suffix :: "nat \<Rightarrow> cell option \<Rightarrow> byte list \<Rightarrow> bool" where
  "snake_suffix k child rest \<longleftrightarrow> child = None \<and> rest = [] \<and> k = 0 \<or>
     (\<exists>c. child = Some c \<and> snake_chain c rest (k - 1) \<and> 0 < k \<and> k \<le> 1024)"

lemma snakeCells: "0 < e \<Longrightarrow> (e + 126) div 127 = Suc ((e - 127 + 126) div (127 :: nat))"
proof (cases "e \<le> 127")
  case True
  assume "0 < e"
  then have "(e + 126) div 127 = 1" using True by (intro div_nat_eqI) auto
  then show ?thesis using True by simp
next
  case False
  then obtain f where "e = 127 + f" by (metis le_iff_add nat_le_linear)
  then show ?thesis by simp
qed

lemma snakeTailLoop_ok:
  assumes "end \<le> length data" "snake_suffix k child (drop end data)" "k + (end + 126) div 127 \<le> 1024"
  shows "\<exists>r. snakeTailLoop sha data end child = Inr r \<and> snake_suffix (k + (end + 126) div 127) r data"
  using assms
proof (induction "end" arbitrary: k child rule: less_induct)
  case (less e)
  show ?case
  proof (cases "e = 0")
    case True
    then show ?thesis using less.prems by (simp add: snakeTailLoop_stop)
  next
    case False
    define d where "d = take (e - (e - 127)) (drop (e - 127) data)"
    have "length d = e - (e - 127)" using less.prems(1) by (simp add: d_def)
    moreover have "drop (e - (e - 127)) (drop (e - 127) data) = drop e data" by simp
    then have "d @ drop e data = drop (e - 127) data" unfolding d_def by (metis append_take_drop_id)
    ultimately have d: "length d = e - (e - 127)" "0 < length d" "length d \<le> 127" "d @ drop e data = drop (e - 127) data"
      using False by simp_all
    have cnt: "k + (e + 126) div 127 = Suc k + (e - 127 + 126) div 127" using False by (simp add: snakeCells)
    obtain b where b: "seq (StoreSlice d (length d * 8)) (case child of None \<Rightarrow> ret () | Some c \<Rightarrow> StoreRef (Some c)) BeginCell =
        (Inr (), b)" "EndCellSpecial sha b False = Inr (builtCell b)" "snake_chain (builtCell b) (d @ drop e data) k"
      using snakePart [OF d(2,3), of child "drop e data" k sha] less.prems(2) unfolding snake_suffix_def by auto
    have le: "e - 127 \<le> length data" using less.prems(1) by simp
    have "snake_suffix (Suc k) (Some (builtCell b)) (drop (e - 127) data)"
      using b(3) d(4) cnt less.prems(3) by (simp add: snake_suffix_def)
    from less.IH [OF _ le this] cnt False less.prems(1,3)
    obtain r where "snakeTailLoop sha data (e - 127) (Some (builtCell b)) = Inr r"
        "snake_suffix (k + (e + 126) div 127) r data" by auto
    moreover have "snakeTailLoop sha data e child = snakeTailLoop sha data (e - 127) (Some (builtCell b))"
      using False b(1,2) d(1) by (subst snakeTailLoop.simps) (simp add: Let_def d_def [symmetric])
    ultimately show ?thesis by auto
  qed
qed

lemma snake_short:
  assumes "length data \<le> 127"
  shows "\<exists>b. StoreBinarySnake sha data BeginCell = (Inr (), b) \<and> plainBuilder b \<and> snake_chain (builtCell b) data 0"
proof -
  have f: "min (length data) (BitsLeftB BeginCell div 8) = length data" using assms by (simp add: BitsLeftB_def)
  obtain b where b: "StoreSlice data (length data * 8) BeginCell = (Inr (), b)" "builder_ok b"
      "b_refs b = []" "builderBits b = bitsOf data 0 (8 * length data)"
    using StoreSlice_ok [of BeginCell "length data * 8" data] assms by (auto simp: mult.commute)
  have "StoreBinarySnake sha data BeginCell = (Inr (), b)"
    unfolding StoreBinarySnake_def f using b(1) by (simp add: Let_def preflightSnake_def seq_apply)
  then show ?thesis using b assms stored_bytes [OF b(2,4)] by (auto simp: plainBuilder_def intro: chain_end)
qed

lemma snake_long:
  assumes "127 < length data" "length data \<le> 127 * 1025"
  shows "\<exists>b k. StoreBinarySnake sha data BeginCell = (Inr (), b) \<and> plainBuilder b \<and> snake_chain (builtCell b) data k"
proof -
  have f: "min (length data) (BitsLeftB BeginCell div 8) = 127" using assms(1) by (simp add: BitsLeftB_def)
  define t where "t = drop 127 data"
  have t: "0 < length t" "length t \<le> 127 * 1024" using assms by (simp_all add: t_def)
  define k where "k = (length t + 126) div 127"
  have k: "0 < k" "k \<le> 1024" using t unfolding k_def by linarith+
  obtain c where c: "buildBinarySnakeTail sha t = Inr (Some c)" "snake_chain c t (k - 1)"
    using snakeTailLoop_ok [of "length t" t 0 None sha] k unfolding k_def [symmetric]
    by (auto simp: snake_suffix_def buildBinarySnakeTail_def)
  obtain b1 where b1: "StoreSlice (take 127 data) (127 * 8) BeginCell = (Inr (), b1)" "builder_ok b1"
      "b_refs b1 = []" "builderBits b1 = bitsOf (take 127 data) 0 (8 * length (take 127 data))"
    using StoreSlice_ok [of BeginCell "127 * 8" "take 127 data"] assms(1) by auto
  define b where "b = b1\<lparr>b_refs := [c]\<rparr>"
  have pc: "plain c" "treeDepth c = k - 1" using snake_chain_plain [OF c(2)] by auto
  have ref: "StoreRef (Some c) b1 = (Inr (), b)"
    using b1(3) pc k by (simp add: StoreRef_def storeRef_def act_simps Depth_plain maxDepth_def b_def)
  have "(length t - 1) div 127 < 1024" using t by linarith
  then have pf: "preflightSnake BeginCell (length data - 127) = Inr ()"
    by (simp add: preflightSnake_def maxDepth_def t_def)
  have "StoreBinarySnake sha data BeginCell = (Inr (), b)"
    unfolding StoreBinarySnake_def f using b1(1) c(1) ref pf assms(1)
    by (simp add: Let_def seq_apply bnd_apply t_def)
  moreover have ok: "builder_ok b" "builderBits b = bitsOf (take 127 data) 0 (8 * length (take 127 data))"
    using b1 by (simp_all add: b_def builder_ok_def builderBits_def)
  moreover have "plainBuilder b" using ok(1) pc k by (simp add: plainBuilder_def b_def)
  moreover have "snake_chain (builtCell b) data k"
    using chain_link [of "take 127 data" c t "k - 1"] c(2) k(1) stored_bytes [OF ok] by (simp add: b_def t_def)
  ultimately show ?thesis by blast
qed

end
