(* ===== verification/Cell_Codec.thy ===== *)
theory Cell_Codec
  imports Cell_Roundtrip
begin

section \<open>Stores and loads are inverse\<close>

text \<open>
  The contract a pair of a store and a load keeps, as a locale: the store appends an encoding, the
  load reads it back from the front of a window.  Every pair of \<^verbatim>\<open>builder.go\<close> and \<^verbatim>\<open>slice.go\<close> is an
  interpretation, and the round trip through \<open>EndCell\<close>, for one value and for a sequence of values, is
  proved once.
\<close>

subsection \<open>Moving a window\<close>

definition skipped :: "nat \<Rightarrow> slice \<Rightarrow> slice" where
  "skipped n c = c\<lparr>sl_bitStart := sl_bitStart c + n\<rparr>"

lemma skipped_ok:
  assumes "slice_ok c" "n \<le> BitsLeft c"
  shows "slice_ok (skipped n c)" "sliceBits (skipped n c) = drop n (sliceBits c)"
  using assms by (auto simp: skipped_def slice_ok_def BitsLeft_def sliceBits_def drop_bitsOf)

lemma skipped_skipped: "skipped m (skipped n c) = skipped (n + m) c"
  by (simp add: skipped_def)

lemma front_le: "sliceBits c = xs @ ys \<Longrightarrow> length xs \<le> BitsLeft c"
  by (metis length_append length_sliceBits le_add1)

subsection \<open>The contract\<close>

locale codec =
  fixes store :: "'v \<Rightarrow> unit bld" and load :: "'v sl" and valid :: "'v \<Rightarrow> bool" and enc :: "'v \<Rightarrow> bool list"
  assumes store_enc: "valid v \<Longrightarrow> builder_ok b \<Longrightarrow> b_bitsSz b + length (enc v) < 1024 \<Longrightarrow>
      \<exists>b'. store v b = (Inr (), b') \<and> builder_ok b' \<and> b_refs b' = b_refs b \<and> builderBits b' = builderBits b @ enc v"
    and load_enc: "valid v \<Longrightarrow> slice_ok c \<Longrightarrow> sliceBits c = enc v @ rest \<Longrightarrow>
      load c = (Inr v, skipped (length (enc v)) c)"
begin

fun loadN :: "nat \<Rightarrow> slice \<Rightarrow> (go_error + 'v list) \<times> slice" where
  "loadN 0 c = (Inr [], c)"
| "loadN (Suc n) c = (case load c of
     (Inl e, c1) \<Rightarrow> (Inl e, c1)
   | (Inr v, c1) \<Rightarrow> (case loadN n c1 of (Inl e, c2) \<Rightarrow> (Inl e, c2) | (Inr vs, c2) \<Rightarrow> (Inr (v # vs), c2)))"

lemma store_list:
  assumes "list_all valid vs" "builder_ok b" "b_bitsSz b + length (concat (map enc vs)) < 1024"
  shows "\<exists>b'. for_each vs store b = (Inr (), b') \<and> builder_ok b' \<and> b_refs b' = b_refs b \<and>
    builderBits b' = builderBits b @ concat (map enc vs)"
  using assms
proof (induction vs arbitrary: b)
  case (Cons v vs)
  obtain b1 where b1: "store v b = (Inr (), b1)" "builder_ok b1" "b_refs b1 = b_refs b" "builderBits b1 = builderBits b @ enc v"
    using store_enc [of v b] Cons.prems by auto
  have "b_bitsSz b1 = b_bitsSz b + length (enc v)" using arg_cong [OF b1(4), of length] by simp
  then show ?case using Cons.IH [of b1] Cons.prems b1 by (auto simp: seq_apply)
qed simp

lemma load_list:
  assumes "list_all valid vs" "slice_ok c" "sliceBits c = concat (map enc vs) @ rest"
  shows "loadN (length vs) c = (Inr vs, skipped (length (concat (map enc vs))) c)"
  using assms
proof (induction vs arbitrary: c)
  case (Cons v vs)
  have front: "sliceBits c = enc v @ (concat (map enc vs) @ rest)" using Cons.prems(3) by simp
  have "load c = (Inr v, skipped (length (enc v)) c)" using load_enc [OF _ Cons.prems(2) front] Cons.prems(1) by simp
  moreover have "loadN (length vs) (skipped (length (enc v)) c) =
      (Inr vs, skipped (length (concat (map enc vs))) (skipped (length (enc v)) c))"
    using Cons.prems front_le [OF front] by (intro Cons.IH) (simp_all add: skipped_ok)
  ultimately show ?case by (simp add: skipped_skipped)
qed (simp add: skipped_def)

text \<open>Store into a fresh position of a builder, finalise, skip what was there before, load.\<close>

lemma roundtrip_list:
  assumes "list_all valid vs" "plainBuilder b" "b_bitsSz b + length (concat (map enc vs)) < 1024"
  obtains b' where "for_each vs store b = (Inr (), b')" "EndCell sha b' = Inr (builtCell b')"
    "loadN (length vs) (skipped (b_bitsSz b) (newSliceFromCell (builtCell b'))) =
       (Inr vs, skipped (b_bitsSz b') (newSliceFromCell (builtCell b')))"
proof -
  obtain b' where b': "for_each vs store b = (Inr (), b')" "builder_ok b'" "b_refs b' = b_refs b"
      "builderBits b' = builderBits b @ concat (map enc vs)"
    using store_list [OF assms(1) _ assms(3)] assms(2) by (auto simp: plainBuilder_def)
  let ?c = "newSliceFromCell (builtCell b')"
  have c: "slice_ok ?c" "sliceBits ?c = builderBits b @ concat (map enc vs)"
    using builtCell_slice [OF b'(2)] b'(4) by auto
  have le: "b_bitsSz b \<le> BitsLeft ?c" using front_le [OF c(2)] by simp
  have sz: "b_bitsSz b' = b_bitsSz b + length (concat (map enc vs))" using arg_cong [OF b'(4), of length] by simp
  have "loadN (length vs) (skipped (b_bitsSz b) ?c) = (Inr vs, skipped (b_bitsSz b') ?c)"
    using load_list [OF assms(1), of "skipped (b_bitsSz b) ?c" "[]"] c le by (simp add: skipped_ok skipped_skipped sz)
  moreover have "plainBuilder b'" using assms(2) b'(2,3) by (simp add: plainBuilder_def)
  ultimately show ?thesis using b'(1) that by (simp add: finalize_plain)
qed

lemma roundtrip:
  assumes "valid v" "plainBuilder b" "b_bitsSz b + length (enc v) < 1024"
  obtains b' where "store v b = (Inr (), b')" "EndCell sha b' = Inr (builtCell b')"
    "load (skipped (b_bitsSz b) (newSliceFromCell (builtCell b'))) =
       (Inr v, skipped (b_bitsSz b') (newSliceFromCell (builtCell b')))"
proof -
  obtain b' where b': "for_each [v] store b = (Inr (), b')" "EndCell sha b' = Inr (builtCell b')"
    "loadN (length [v]) (skipped (b_bitsSz b) (newSliceFromCell (builtCell b'))) =
       (Inr [v], skipped (b_bitsSz b') (newSliceFromCell (builtCell b')))"
    by (rule roundtrip_list [of "[v]" b sha]) (use assms in auto)
  show ?thesis
    by (rule that [of b']) (use b' in \<open>auto simp: seq_apply split: prod.splits sum.splits\<close>)
qed

end

subsection \<open>The stores and loads of the code\<close>

lemma unat_bitsInt:
  assumes "uint (v :: 64 word) < 2 ^ sz"
  shows "uintOf (bitsInt sz (uint v)) = unat v"
proof -
  have "int (uintOf (bitsInt sz (uint v))) = uint v mod 2 ^ sz" by (rule uintOf_bitsInt)
  also have "\<dots> = int (unat v)" using assms by (simp add: mod_pos_pos_trivial)
  finally show ?thesis by (simp only: of_nat_eq_iff)
qed

interpretation uint_codec: codec "\<lambda>v. StoreUInt v sz" "LoadUInt sz"
  "\<lambda>v. sz \<le> 64 \<and> uint v < 2 ^ sz" "\<lambda>v. bitsInt sz (uint v)" for sz
proof
  fix v :: "64 word" and c rest
  assume v: "sz \<le> 64 \<and> uint v < 2 ^ sz" and c: "slice_ok c" "sliceBits c = bitsInt sz (uint v) @ rest"
  show "LoadUInt sz c = (Inr v, skipped (length (bitsInt sz (uint v))) c)"
    using LoadUInt_ok(1) [OF c(1), of sz] v c(2) front_le [OF c(2)] by (simp add: unat_bitsInt skipped_def)
qed (simp add: StoreUInt_bits)

interpretation biguint_codec: codec "\<lambda>v. StoreBigUInt v sz" "LoadBigUInt sz"
  "\<lambda>v. sz \<le> 256 \<and> 0 \<le> v \<and> v < 2 ^ sz" "bitsInt sz" for sz
proof
  fix v c rest
  assume v: "sz \<le> 256 \<and> 0 \<le> v \<and> v < 2 ^ sz" and c: "slice_ok c" "sliceBits c = bitsInt sz v @ rest"
  show "LoadBigUInt sz c = (Inr v, skipped (length (bitsInt sz v)) c)"
    using LoadBigUInt_ok(1) [OF c(1), of sz] v c(2) front_le [OF c(2)] by (simp add: uintOf_bitsInt mod_pos_pos_trivial skipped_def)
qed (simp add: StoreBigUInt_ok)

definition fitsSigned :: "nat \<Rightarrow> int \<Rightarrow> bool" where
  "fitsSigned sz v \<longleftrightarrow> 0 < sz \<and> - (2 ^ (sz - 1)) \<le> v \<and> v < 2 ^ (sz - 1)"

interpretation bigint_codec: codec "\<lambda>v. StoreBigInt v sz" "LoadBigInt sz"
  "\<lambda>v. sz \<le> 257 \<and> fitsSigned sz v" "bitsInt sz" for sz
proof
  fix v c rest
  assume v: "sz \<le> 257 \<and> fitsSigned sz v" and c: "slice_ok c" "sliceBits c = bitsInt sz v @ rest"
  show "LoadBigInt sz c = (Inr v, skipped (length (bitsInt sz v)) c)"
    using LoadBigInt_ok [OF c(1), of sz] v c(2) front_le [OF c(2)] by (simp add: fitsSigned_def sintOf_bitsInt skipped_def)
qed (simp add: fitsSigned_def StoreBigInt_ok)

interpretation int_codec: codec "\<lambda>v. StoreInt v sz" "LoadInt sz"
  "\<lambda>v. sz \<le> 64 \<and> fitsSigned sz v" "bitsInt sz" for sz
proof
  fix v c rest
  assume v: "sz \<le> 64 \<and> fitsSigned sz v" and c: "slice_ok c" "sliceBits c = bitsInt sz v @ rest"
  show "LoadInt sz c = (Inr v, skipped (length (bitsInt sz v)) c)"
    using loadIntFast_ok [OF c(1), of sz] v c(2) front_le [OF c(2)] by (simp add: fitsSigned_def sintOf_bitsInt skipped_def)
qed (simp add: fitsSigned_def StoreInt_ok)

interpretation bool_codec: codec StoreBoolBit LoadBoolBit "\<lambda>_. True" "\<lambda>v. [v]"
proof
  fix v c rest
  assume c: "slice_ok c" "sliceBits c = [v] @ rest"
  show "LoadBoolBit c = (Inr v, skipped (length [v]) c)"
    using LoadBoolBit_ok [OF c(1)] front_le [OF c(2)] c(2) by (simp add: skipped_def)
qed (simp add: StoreBoolBit_ok)

interpretation bytes_codec: codec "\<lambda>d. StoreSlice d (8 * n)" "LoadSlice (8 * n)"
  "\<lambda>d. length d = n" "\<lambda>d. bitsOf d 0 (8 * n)" for n
proof
  fix d :: "byte list" and c rest
  assume d: "length d = n" and c: "slice_ok c" "sliceBits c = bitsOf d 0 (8 * n) @ rest"
  have le: "8 * n \<le> BitsLeft c" using front_le [OF c(2)] by simp
  obtain e where e: "loadSliceInto ((8 * n + 7) div 8) (8 * n) False c =
      (Inr e, if False then c else c\<lparr>sl_bitStart := sl_bitStart c + 8 * n\<rparr>)"
    "length e = (8 * n + 7) div 8" "bitsOf e 0 (8 * n) = take (8 * n) (sliceBits c)"
    by (rule loadSliceInto_ok [OF c(1) le order_refl, where preload = False]) blast
  have "e = d" by (rule bitsOf_bytes_eq) (use e c(2) d in auto)
  then show "LoadSlice (8 * n) c = (Inr d, skipped (length (bitsOf d 0 (8 * n))) c)"
    using e(1) d by (auto simp: LoadSlice_def loadSlice_def skipped_def)
qed (simp add: StoreSlice_ok)

subsection \<open>Variable-length integers and coins\<close>

definition varBytes :: "int \<Rightarrow> nat" where
  "varBytes v = (bitLen v + 7) div 8"

definition varUIntBits :: "nat \<Rightarrow> int \<Rightarrow> bool list" where
  "varUIntBits sz v = bitsInt (bitLen (int sz - 1)) (int (varBytes v)) @ bitsInt (varBytes v * 8) v"

lemma varBytes_fits: "0 \<le> v \<Longrightarrow> v < 2 ^ (varBytes v * 8)"
  using bitLen_le [of v "varBytes v * 8"] unfolding varBytes_def by linarith

lemma varLen_fits:
  assumes "varBytes v < sz" shows "int (varBytes v) < 2 ^ bitLen (int sz - 1)"
proof -
  have "int sz - 1 < 2 ^ bitLen (int sz - 1)" using bitLen_le [of "int sz - 1" "bitLen (int sz - 1)"] assms by simp
  then show ?thesis using assms by linarith
qed

text \<open>Both length fields of the code are at most 64 bits wide.\<close>

lemma varLen_small: "0 < sz \<Longrightarrow> sz \<le> 2 ^ 64 \<Longrightarrow> bitLen (int sz - 1) \<le> 64"
  using bitLen_le [of "int sz - 1" 64] by auto

lemma varBytes_word:
  assumes "sz \<le> 2 ^ 64" "varBytes v < sz"
  shows "uint (word_of_nat (varBytes v) :: 64 word) = int (varBytes v)"
    "unat (word_of_nat (varBytes v) :: 64 word) = varBytes v"
  using assms by (simp_all add: unsigned_of_nat take_bit_nat_eq_self)

lemma StoreVar_ok:
  assumes "sz \<le> 2 ^ 64" "varBytes v < sz" "0 \<le> v" "builder_ok b" "b_bitsSz b + length (varUIntBits sz v) < 1024"
    and tail: "\<And>b. builder_ok b \<Longrightarrow> b_bitsSz b + varBytes v * 8 < 1024 \<Longrightarrow>
      \<exists>b'. st b = (Inr (), b') \<and> builder_ok b' \<and> b_refs b' = b_refs b \<and>
        builderBits b' = builderBits b @ bitsInt (varBytes v * 8) v"
  shows "\<exists>b'. seq (StoreUInt (word_of_nat (varBytes v)) (bitLen (int sz - 1))) st b = (Inr (), b') \<and> builder_ok b' \<and>
    b_refs b' = b_refs b \<and> builderBits b' = builderBits b @ varUIntBits sz v"
proof -
  let ?l = "bitLen (int sz - 1)"
  have l: "?l \<le> 64" using varLen_small assms(1,2) by simp
  note u = varBytes_word(1) [OF assms(1,2)]
  obtain b1 where b1: "StoreUInt (word_of_nat (varBytes v)) ?l b = (Inr (), b1)" "builder_ok b1" "b_refs b1 = b_refs b"
      "builderBits b1 = builderBits b @ bitsInt ?l (int (varBytes v))"
    using StoreUInt_bits [OF assms(4) _ l, of "word_of_nat (varBytes v)"] u varLen_fits [OF assms(2)] assms(5)
    by (auto simp: varUIntBits_def)
  have "b_bitsSz b1 = b_bitsSz b + ?l" using arg_cong [OF b1(4), of length] by simp
  then show ?thesis using tail [OF b1(2)] assms(5) b1 by (auto simp: varUIntBits_def seq_apply)
qed

lemma LoadVar_len:
  assumes "sz \<le> 2 ^ 64" "varBytes v < sz" "slice_ok c" "sliceBits c = varUIntBits sz v @ rest"
  shows "LoadUInt (bitLen (int sz - 1)) c =
      (Inr (word_of_nat (varBytes v)), skipped (bitLen (int sz - 1)) c)"
    "unat (word_of_nat (varBytes v) :: 64 word) = varBytes v"
    "sliceBits (skipped (bitLen (int sz - 1)) c) = bitsInt (varBytes v * 8) v @ rest"
proof -
  let ?l = "bitLen (int sz - 1)"
  have l: "?l \<le> 64" using varLen_small assms(1,2) by simp
  note u = varBytes_word(1) [OF assms(1,2)]
  have front: "sliceBits c = bitsInt ?l (int (varBytes v)) @ (bitsInt (varBytes v * 8) v @ rest)"
    using assms(4) by (simp add: varUIntBits_def)
  show "LoadUInt ?l c = (Inr (word_of_nat (varBytes v)), skipped ?l c)"
    using uint_codec.load_enc [of ?l "word_of_nat (varBytes v)" c] l u varLen_fits [OF assms(2)] assms(3) front by simp
  show "unat (word_of_nat (varBytes v) :: 64 word) = varBytes v"
    by (rule varBytes_word(2) [OF assms(1,2)])
  show "sliceBits (skipped ?l c) = bitsInt (varBytes v * 8) v @ rest"
    using front front_le [OF front] assms(3) by (simp add: skipped_ok)
qed

lemma StoreBigVarUInt_ok:
  assumes "0 \<le> v" "varBytes v < sz" "varBytes v \<le> 32" "sz \<le> 2 ^ 64" "builder_ok b"
    "b_bitsSz b + length (varUIntBits sz v) < 1024"
  shows "\<exists>b'. StoreBigVarUInt v sz b = (Inr (), b') \<and> builder_ok b' \<and> b_refs b' = b_refs b \<and>
    builderBits b' = builderBits b @ varUIntBits sz v"
proof -
  have "StoreBigVarUInt v sz b =
      seq (StoreUInt (word_of_nat (varBytes v)) (bitLen (int sz - 1))) (StoreBigUInt v (varBytes v * 8)) b"
    using assms(1,2,6) by (auto simp: StoreBigVarUInt_def Let_def varBytes_def varUIntBits_def act_simps)
  moreover have "\<exists>b'. StoreBigUInt v (varBytes v * 8) b = (Inr (), b') \<and> builder_ok b' \<and> b_refs b' = b_refs b \<and>
        builderBits b' = builderBits b @ bitsInt (varBytes v * 8) v"
    if "builder_ok b" "b_bitsSz b + varBytes v * 8 < 1024" for b
    using that assms(1,3) varBytes_fits [OF assms(1)] by (intro StoreBigUInt_ok) auto
  ultimately show ?thesis using StoreVar_ok [OF assms(4,2,1,5,6)] by simp
qed

lemma LoadVarUInt_ok:
  assumes "0 \<le> v" "varBytes v < sz" "varBytes v \<le> 32" "sz \<le> 2 ^ 64" "slice_ok c" "sliceBits c = varUIntBits sz v @ rest"
  shows "LoadVarUInt sz c = (Inr v, skipped (length (varUIntBits sz v)) c)"
proof -
  note l = LoadVar_len [OF assms(4,2,5,6)]
  have "slice_ok (skipped (bitLen (int sz - 1)) c)"
    using front_le [OF assms(6)] assms(5) by (simp add: skipped_ok varUIntBits_def)
  then have "LoadBigUInt (varBytes v * 8) (skipped (bitLen (int sz - 1)) c) =
      (Inr v, skipped (varBytes v * 8) (skipped (bitLen (int sz - 1)) c))"
    using biguint_codec.load_enc [OF _ _ l(3)] assms(1,3) varBytes_fits [OF assms(1)] by simp
  then show ?thesis
    using assms(2) l(1,2) by (simp add: LoadVarUInt_def bnd_apply varUIntBits_def skipped_skipped)
qed

interpretation varuint_codec: codec "\<lambda>v. StoreBigVarUInt v sz" "LoadVarUInt sz"
  "\<lambda>v. 0 \<le> v \<and> varBytes v < sz \<and> varBytes v \<le> 32 \<and> sz \<le> 2 ^ 64" "varUIntBits sz" for sz
  by unfold_locales (simp_all add: StoreBigVarUInt_ok LoadVarUInt_ok)

lemma varBytes_less: "0 \<le> v \<Longrightarrow> v < 2 ^ (8 * n) \<Longrightarrow> varBytes v \<le> n"
  using bitLen_le [of v "8 * n"] unfolding varBytes_def by linarith

interpretation bigcoins_codec: codec StoreBigCoins LoadBigCoins "\<lambda>v. 0 \<le> v \<and> v < 2 ^ 120" "varUIntBits 16"
proof -
  have "varBytes v \<le> 15" if "0 \<le> v" "v < 2 ^ 120" for v using varBytes_less [of v 15] that by simp
  then have ok: "0 \<le> v \<Longrightarrow> v < 2 ^ 120 \<Longrightarrow> varBytes v < 16 \<and> varBytes v \<le> 32" for v by fastforce
  show "codec StoreBigCoins LoadBigCoins (\<lambda>v. 0 \<le> v \<and> v < 2 ^ 120) (varUIntBits 16)"
    unfolding StoreBigCoins_def LoadBigCoins_def
    by unfold_locales (use ok in \<open>simp_all add: StoreBigVarUInt_ok LoadVarUInt_ok\<close>)
qed

lemma bitLen_15: "bitLen 15 = 4"
  by (simp add: bitLen.simps)

interpretation coins_codec: codec StoreCoins LoadCoins "\<lambda>_. True" "\<lambda>v. varUIntBits 16 (uint v)"
proof
  fix v :: "64 word"
  have lt: "uint v < 2 ^ 64" using uint_lt2p [of v] by simp
  have n: "varBytes (uint v) \<le> 8" using varBytes_less [of "uint v" 8] lt by simp
  fix b assume b: "builder_ok b" "b_bitsSz b + length (varUIntBits 16 (uint v)) < 1024"
  have "StoreCoins v b = seq (StoreUInt (word_of_nat (varBytes (uint v))) (bitLen (int 16 - 1)))
      (StoreUInt v (varBytes (uint v) * 8)) b"
    using n b(2) by (auto simp: StoreCoins_def StoreVarUInt_def Let_def varBytes_def varUIntBits_def act_simps)
  moreover have "\<exists>b'. StoreUInt v (varBytes (uint v) * 8) b = (Inr (), b') \<and> builder_ok b' \<and> b_refs b' = b_refs b \<and>
        builderBits b' = builderBits b @ bitsInt (varBytes (uint v) * 8) (uint v)"
    if "builder_ok b" "b_bitsSz b + varBytes (uint v) * 8 < 1024" for b
    using that n varBytes_fits [of "uint v"] by (intro StoreUInt_bits) auto
  ultimately show "\<exists>b'. StoreCoins v b = (Inr (), b') \<and> builder_ok b' \<and> b_refs b' = b_refs b \<and>
      builderBits b' = builderBits b @ varUIntBits 16 (uint v)"
    using StoreVar_ok [OF _ _ _ b] n by simp
next
  fix v :: "64 word" and c rest
  assume c: "slice_ok c" "sliceBits c = varUIntBits 16 (uint v) @ rest"
  have lt: "uint v < 2 ^ 64" using uint_lt2p [of v] by simp
  have n: "varBytes (uint v) \<le> 8" using varBytes_less [of "uint v" 8] lt by simp
  have l: "LoadUInt 4 c = (Inr (word_of_nat (varBytes (uint v))), skipped 4 c)"
      "unat (word_of_nat (varBytes (uint v)) :: 64 word) = varBytes (uint v)"
      "sliceBits (skipped 4 c) = bitsInt (varBytes (uint v) * 8) (uint v) @ rest"
    using LoadVar_len [OF _ _ c] n by (simp_all add: bitLen_15)
  have "slice_ok (skipped 4 c)"
    using front_le [OF c(2)] c(1) by (simp add: skipped_ok varUIntBits_def bitLen_15)
  then have "LoadUInt (varBytes (uint v) * 8) (skipped 4 c) = (Inr v, skipped (varBytes (uint v) * 8) (skipped 4 c))"
    using uint_codec.load_enc [OF _ _ l(3)] n varBytes_fits [of "uint v"] by simp
  then show "LoadCoins c = (Inr v, skipped (length (varUIntBits 16 (uint v))) c)"
    using n l(1,2) by (simp add: LoadCoins_def onCopy_def bnd_apply varUIntBits_def skipped_skipped bitLen_15)
qed

end
