(* ===== verification/Cell_Props.thy ===== *)
theory Cell_Props
  imports Cell_Codec
begin

section \<open>Properties of cells, builders and slices\<close>

text \<open>
  The properties of package \<open>cell\<close>, stated over the operations of the model: round trips through
  a finalised cell, equivalence of the word-wise loops with bit sequences, exact error behaviour,
  and the hash and depth of ordinary cells.
\<close>

text \<open>Shared facts: what a store that fails leaves behind, and how much room coins need.\<close>

lemma varUIntBits_coins: "length (varUIntBits 16 (uint (v :: 64 word))) \<le> 68"
  using varBytes_less [of "uint v" 8] uint_lt2p [of v] by (simp add: varUIntBits_def bitLen_15)

lemma uint_fits_iff: "drop_bit sz value = 0 \<longleftrightarrow> uint (value :: 64 word) < 2 ^ sz"
proof -
  have "drop_bit sz value = 0 \<longleftrightarrow> uint (drop_bit sz value) = 0" by (metis uint_0_iff)
  also have "uint (drop_bit sz value) = uint value div 2 ^ sz" 
    unfolding unsigned_drop_bit_eq using uint_lt2p [of "value"] by (simp add: drop_bit_eq_div take_bit_int_eq_self)
  finally show ?thesis by (auto simp: zdiv_eq_0_iff not_le)
qed

text \<open>C5: a byte string stored with \<open>StoreBinarySnake\<close> into a fresh builder and finalised is read back
  unchanged by \<open>LoadBinarySnake\<close>, for every length the depth limit of cells admits.\<close>

theorem snake_roundtrip:
  assumes "length data \<le> 127 * 1025"
  shows "\<exists>b. StoreBinarySnake sha data BeginCell = (Inr (), b) \<and> EndCell sha b = Inr (builtCell b) \<and>
    fst (LoadBinarySnake (newSliceFromCell (builtCell b))) = Inr data"
proof -
  obtain b k where b: "StoreBinarySnake sha data BeginCell = (Inr (), b)" "plainBuilder b" "snake_chain (builtCell b) data k"
    using snake_short [of data sha] snake_long [of data sha] assms by (cases "length data \<le> 127") auto
  then show ?thesis using snakeLoad_chain [OF b(3), of "[]"] by (auto simp: finalize_plain LoadBinarySnake_def)
qed

theorem snake_roundtrip_witness:
  "\<exists>b. StoreBinarySnake sha256 (replicate 300 7) BeginCell = (Inr (), b) \<and> EndCell sha256 b = Inr (builtCell b) \<and>
    fst (LoadBinarySnake (newSliceFromCell (builtCell b))) = Inr (replicate 300 7)"
  using snake_roundtrip [of "replicate 300 7" sha256] by simp

lemma snake_tail:
  assumes "0 < length t" "length t \<le> 127 * 1024"
  obtains c where "buildBinarySnakeTail sha t = Inr (Some c)" "plain c" "treeDepth c < 1024"
    "fst (LoadBinarySnake (newSliceFromCell c)) = Inr t"
proof -
  define k where "k = (length t + 126) div 127"
  have k: "0 < k" "k \<le> 1024" using assms unfolding k_def by linarith+
  obtain c where c: "buildBinarySnakeTail sha t = Inr (Some c)" "snake_chain c t (k - 1)"
    using snakeTailLoop_ok [of "length t" t 0 None sha] k unfolding k_def [symmetric]
    by (auto simp: snake_suffix_def buildBinarySnakeTail_def)
  then show thesis
    using that [of c] snake_chain_plain [OF c(2)] snakeLoad_chain [OF c(2), of "[]"] k by (auto simp: LoadBinarySnake_def)
qed

lemma StoreBinarySnake_fits:
  assumes "builder_ok b" "room = BitsLeftB b div 8" "length data \<le> room + 127 * 1024" "length data \<le> room \<or> length (b_refs b) < 4"
  shows "\<exists>b' rs. StoreBinarySnake sha data b = (Inr (), b') \<and> builder_ok b' \<and>
      builderBits b' = builderBits b @ bitsOf (take room data) 0 (8 * length (take room data)) \<and> b_refs b' = b_refs b @ rs \<and>
      (if length data \<le> room then rs = []
       else \<exists>c. rs = [c] \<and> fst (LoadBinarySnake (newSliceFromCell c)) = Inr (drop room data))"
proof -
  have first: "min (length data) (BitsLeftB b div 8) = length (take room data)" by (simp add: assms(2) min.commute)
  have "b_bitsSz b + length (take room data) * 8 < 1024" using assms(1) by (auto simp: assms(2) BitsLeftB_def builder_ok_def)
  from StoreSlice_ok [OF assms(1) this, of "take room data"]
  obtain b1 where b1: "StoreSlice (take room data) (length (take room data) * 8) b = (Inr (), b1)" "builder_ok b1" "b_refs b1 = b_refs b"
      "builderBits b1 = builderBits b @ bitsOf (take room data) 0 (8 * length (take room data))"
    by (auto simp: mult.commute)
  show ?thesis
  proof (cases "length data \<le> room")
    case True
    then have "StoreBinarySnake sha data b = (Inr (), b1)"
      unfolding StoreBinarySnake_def first using b1(1) by (simp add: Let_def preflightSnake_def seq_apply)
    then show ?thesis using True b1 by auto
  next
    case False
    define t where "t = drop room data"
    have t: "0 < length t" "length t \<le> 127 * 1024" "length t = length data - room" using False assms(3) by (auto simp: t_def)
    obtain c where c: "buildBinarySnakeTail sha t = Inr (Some c)" "plain c" "treeDepth c < 1024" "fst (LoadBinarySnake (newSliceFromCell c)) = Inr t"
      by (rule snake_tail [OF t(1,2)])
    define b' where "b' = b1\<lparr>b_refs := b_refs b @ [c]\<rparr>"
    have refs: "length (b_refs b) < 4" using False assms(4) by simp
    have "StoreRef (Some c) b1 = (Inr (), b')"
      using b1(3) refs c(2,3) by (simp add: StoreRef_def storeRef_def act_simps Depth_plain maxDepth_def b'_def)
    moreover have "(length t - 1) div 127 < 1024" using t by linarith
    then have "preflightSnake b (length data - length (take room data)) = Inr ()"
      using False t refs by (simp add: preflightSnake_def maxDepth_def)
    ultimately have "StoreBinarySnake sha data b = (Inr (), b')"
      unfolding StoreBinarySnake_def first using b1(1) c(1) False
      by (simp add: Let_def seq_apply bnd_apply t_def)
    moreover have "builder_ok b'" "builderBits b' = builderBits b1" "b_refs b' = b_refs b @ [c]"
      using b1(2,3) refs by (auto simp: b'_def builder_ok_def builderBits_def)
    ultimately show ?thesis using False b1(4) c(4) by (auto simp: t_def)
  qed
qed

text \<open>C38: \<open>StoreBinarySnake\<close> on any well-formed builder.  The first bytes fill the room the builder has in whole bytes.  The rest, if any, goes to a chain of cells behind one new reference, from which
  \<open>LoadBinarySnake\<close> reads exactly the rest; it may have up to 1024 times 127 bytes.  The call fails when there is a rest but no free reference, with \<open>ErrTooMuchRefs\<close>, and otherwise when the rest is longer than that, with the
  depth-limit error; a failing call leaves the builder as it was.\<close>

theorem snake_store_result:
  assumes "builder_ok b" "room = BitsLeftB b div 8"
  shows "if room < length data \<and> length (b_refs b) = 4 then StoreBinarySnake sha data b = (Inl (CellError ErrTooMuchRefs), b)
    else if room + 127 * 1024 < length data then StoreBinarySnake sha data b = (Inl (CellError ErrCellDepthLimit), b)
    else \<exists>b' rs. StoreBinarySnake sha data b = (Inr (), b') \<and> builder_ok b' \<and>
      builderBits b' = builderBits b @ bitsOf (take room data) 0 (8 * length (take room data)) \<and> b_refs b' = b_refs b @ rs \<and>
      (if length data \<le> room then rs = []
       else \<exists>c. rs = [c] \<and> fst (LoadBinarySnake (newSliceFromCell c)) = Inr (drop room data))"
proof -
  have r4: "length (b_refs b) \<le> 4" using assms(1) by (simp add: builder_ok_def)
  have pf: "StoreBinarySnake sha data b = (Inl e, b)" if "preflightSnake b (length data - room) = Inl e" "room < length data" for e
    using that assms(2) by (simp add: StoreBinarySnake_def Let_def)
  have "preflightSnake b (length data - room) = Inl (CellError ErrTooMuchRefs)" if "room < length data" "length (b_refs b) = 4"
    using that by (simp add: preflightSnake_def)
  moreover have "preflightSnake b (length data - room) = Inl (CellError ErrCellDepthLimit)"
    if "room + 127 * 1024 < length data" "length (b_refs b) \<noteq> 4"
  proof -
    have "1024 \<le> (length data - room - 1) div 127" using that(1) by linarith
    then show ?thesis using that r4 by (simp add: preflightSnake_def maxDepth_def)
  qed
  ultimately have "room < length data \<and> length (b_refs b) = 4 \<Longrightarrow> StoreBinarySnake sha data b = (Inl (CellError ErrTooMuchRefs), b)"
      "\<not> (room < length data \<and> length (b_refs b) = 4) \<Longrightarrow> room + 127 * 1024 < length data \<Longrightarrow>
         StoreBinarySnake sha data b = (Inl (CellError ErrCellDepthLimit), b)"
    using pf by auto
  moreover note StoreBinarySnake_fits [OF assms, of data sha]
  ultimately show ?thesis using r4 by (simp only: if_split) (metis le_neq_implies_less not_le)
qed

theorem snake_store_result_witness:
  "StoreBinarySnake sha256 (replicate 130176 0) BeginCell = (Inl (CellError ErrCellDepthLimit), BeginCell) \<and>
   (\<exists>b'. StoreBinarySnake sha256 (replicate 130175 0) BeginCell = (Inr (), b'))"
proof -
  have room: "builder_ok BeginCell" "127 = BitsLeftB BeginCell div 8" by (simp_all add: BitsLeftB_def)
  define long short where "long = replicate 130176 (0 :: byte)" and "short = replicate 130175 (0 :: byte)"
  have len: "length long = 130176" "length short = 130175" by (simp_all add: long_def short_def)
  have "StoreBinarySnake sha256 long BeginCell = (Inl (CellError ErrCellDepthLimit), BeginCell)"
      "\<exists>b'. StoreBinarySnake sha256 short BeginCell = (Inr (), b')"
    using snake_store_result [OF room, of long sha256] snake_store_result [OF room, of short sha256] by (auto simp: len)
  then show ?thesis by (simp only: long_def short_def)
qed

text \<open>C22: an amount stored with \<open>StoreCoins\<close> anywhere in a builder is read back by \<open>LoadCoins\<close> from the
  finalised cell, and the cursor stops behind it.\<close>

theorem coins_roundtrip:
  assumes "plainBuilder b" "b_bitsSz b + 68 < 1024"
  shows "\<exists>b'. StoreCoins v b = (Inr (), b') \<and> EndCell sha b' = Inr (builtCell b') \<and>
    LoadCoins (skipped (b_bitsSz b) (newSliceFromCell (builtCell b'))) =
      (Inr v, skipped (b_bitsSz b') (newSliceFromCell (builtCell b')))"
  by (rule coins_codec.roundtrip [where v = v and b = b and sha = sha])
    (use assms varUIntBits_coins [of v] in auto)

theorem coins_roundtrip_witness:
  "\<exists>b'. StoreCoins 1000000000 BeginCell = (Inr (), b') \<and> EndCell sha256 b' = Inr (builtCell b') \<and>
    LoadCoins (skipped 0 (newSliceFromCell (builtCell b'))) =
      (Inr 1000000000, skipped (b_bitsSz b') (newSliceFromCell (builtCell b')))"
  using coins_roundtrip [of BeginCell 1000000000 sha256] by (simp add: plainBuilder_def)

text \<open>C26: a signed integer of up to 257 bits stored with \<open>StoreBigInt\<close> is read back by \<open>LoadBigInt\<close>.\<close>

theorem bigint_roundtrip:
  assumes "0 < sz" "sz \<le> 257" "- (2 ^ (sz - 1)) \<le> v" "v < 2 ^ (sz - 1)" "plainBuilder b" "b_bitsSz b + sz < 1024"
  shows "\<exists>b'. StoreBigInt v sz b = (Inr (), b') \<and> EndCell sha b' = Inr (builtCell b') \<and>
    LoadBigInt sz (skipped (b_bitsSz b) (newSliceFromCell (builtCell b'))) =
      (Inr v, skipped (b_bitsSz b') (newSliceFromCell (builtCell b')))"
  by (rule bigint_codec.roundtrip [where v = v and b = b and sz = sz and sha = sha]) (use assms in \<open>auto simp: fitsSigned_def\<close>)

theorem bigint_roundtrip_witness:
  "\<exists>b'. StoreBigInt (-5) 257 BeginCell = (Inr (), b') \<and> EndCell sha256 b' = Inr (builtCell b') \<and>
    LoadBigInt 257 (skipped 0 (newSliceFromCell (builtCell b'))) =
      (Inr (-5), skipped (b_bitsSz b') (newSliceFromCell (builtCell b')))"
  using bigint_roundtrip [of 257 "-5" BeginCell sha256] by (simp add: plainBuilder_def)

text \<open>C29: a signed integer of at most 64 bits stored with \<open>StoreInt\<close> is read back by \<open>LoadInt\<close>, whose
  sign extension works on a 64-bit word.\<close>

theorem int_roundtrip:
  assumes "0 < sz" "sz \<le> 64" "- (2 ^ (sz - 1)) \<le> v" "v < 2 ^ (sz - 1)" "plainBuilder b" "b_bitsSz b + sz < 1024"
  shows "\<exists>b'. StoreInt v sz b = (Inr (), b') \<and> EndCell sha b' = Inr (builtCell b') \<and>
    LoadInt sz (skipped (b_bitsSz b) (newSliceFromCell (builtCell b'))) =
      (Inr v, skipped (b_bitsSz b') (newSliceFromCell (builtCell b')))"
  by (rule int_codec.roundtrip [where v = v and b = b and sz = sz and sha = sha]) (use assms in \<open>auto simp: fitsSigned_def\<close>)

theorem int_roundtrip_witness:
  "\<exists>b'. StoreInt (-128) 8 BeginCell = (Inr (), b') \<and> EndCell sha256 b' = Inr (builtCell b') \<and>
    LoadInt 8 (skipped 0 (newSliceFromCell (builtCell b'))) =
      (Inr (-128), skipped (b_bitsSz b') (newSliceFromCell (builtCell b')))"
  using int_roundtrip [of 8 "-128" BeginCell sha256] by (simp add: plainBuilder_def)

text \<open>C23: \<open>StoreSlice\<close>, which writes 64-bit words and shifted bytes, appends exactly the first \<open>sz\<close> bits of
  its argument and keeps the builder well formed.\<close>

theorem StoreSlice_appends:
  assumes "builder_ok b" "b_bitsSz b + sz < 1024" "sz \<le> 8 * length src"
  shows "\<exists>b'. StoreSlice src sz b = (Inr (), b') \<and> builder_ok b' \<and> b_refs b' = b_refs b \<and>
    builderBits b' = builderBits b @ bitsOf src 0 sz"
  by (rule StoreSlice_ok [OF assms])

theorem StoreSlice_appends_witness:
  "\<exists>b'. StoreSlice [0xAB, 0xCD] 13 BeginCell = (Inr (), b') \<and> builder_ok b' \<and> b_refs b' = [] \<and>
    builderBits b' = bitsOf [0xAB, 0xCD] 0 13"
  using StoreSlice_appends [of BeginCell 13 "[0xAB, 0xCD]"] by simp

text \<open>C27: \<open>StoreUInt\<close> on at most 64 bits appends the binary digits of its argument when it fits; it fails
  with \<open>ErrTooBigValue\<close> when the value needs more bits, with \<open>ErrNotFit1023\<close> when the cell is full, and a failing
  store leaves the builder as it was.\<close>

theorem StoreUInt_result:
  assumes "builder_ok b" "sz \<le> 64"
  shows "if uint value \<ge> 2 ^ sz then StoreUInt value sz b = (Inl (CellError ErrTooBigValue), b)
    else if b_bitsSz b + sz \<ge> 1024 then StoreUInt value sz b = (Inl (CellError ErrNotFit1023), b)
    else \<exists>b'. StoreUInt value sz b = (Inr (), b') \<and> builder_ok b' \<and> b_refs b' = b_refs b \<and>
      builderBits b' = builderBits b @ bitsInt sz (uint value)"
proof -
  have big: "StoreUInt value sz b = (Inl (CellError ErrTooBigValue), b)" if "uint value \<ge> 2 ^ sz"
  proof (cases "sz = 0")
    case True
    then have "value \<noteq> 0" using that by auto
    then show ?thesis using True by (simp add: StoreUInt_def)
  next
    case False
    have "sz \<noteq> 64" using that uint_lt2p [of "value"] by auto
    then show ?thesis using that False assms(2) uint_fits_iff [of sz "value"] by (simp add: StoreUInt_def)
  qed
  have full: "StoreUInt value sz b = (Inl (CellError ErrNotFit1023), b)"
    if "\<not> uint value \<ge> 2 ^ sz" "b_bitsSz b + sz \<ge> 1024"
  proof -
    have "sz \<noteq> 0" using that(2) assms(1) by (auto simp: builder_ok_def)
    moreover have "drop_bit sz value = 0" using drop_bit_small [of "value" sz] that(1) by simp
    ultimately show ?thesis using that(2) assms(2) by (simp add: StoreUInt_def StoreBoolBit_def act_simps)
  qed
  show ?thesis using big full StoreUInt_bits [OF assms(1) _ assms(2), of "value"] by simp
qed

theorem StoreUInt_result_witness:
  "StoreUInt 8 3 BeginCell = (Inl (CellError ErrTooBigValue), BeginCell)"
  using StoreUInt_result [of BeginCell 3 8] by simp

text \<open>C28: \<open>loadUintFast\<close>, which assembles a number from whole bytes and shifts, returns the number whose
  binary digits are the next \<open>sz\<close> bits of the window and advances by \<open>sz\<close> unless it only peeks.\<close>

theorem loadUint_equiv:
  assumes "slice_ok c" "sz \<le> 64" "sz \<le> BitsLeft c"
  shows "loadUintFast sz preload c =
    (Inr (word_of_nat (uintOf (take sz (sliceBits c)))),
     if preload then c else c\<lparr>sl_bitStart := sl_bitStart c + sz\<rparr>)"
  by (rule loadUintFast_ok [OF assms])

theorem loadUint_equiv_witness:
  "loadUintFast 10 False (newSliceFromCell (Cell [0xAB, 0xC0] 12 False 0 [])) =
    (Inr (word_of_nat (uintOf (take 10 (sliceBits (newSliceFromCell (Cell [0xAB, 0xC0] 12 False 0 [])))))),
     (newSliceFromCell (Cell [0xAB, 0xC0] 12 False 0 []))\<lparr>sl_bitStart := 10\<rparr>)"
  using loadUint_equiv [of "newSliceFromCell (Cell [0xAB, 0xC0] 12 False 0 [])" 10 False]
  by (simp add: slice_ok_def BitsLeft_def)

text \<open>C35: \<open>calculateHashesOrdinary\<close>, the separate copy of the hash computation for ordinary cells of level 0, with its own loops over the references, computes the same hash and
  depth, and fails for the same depths, as the general loop over the levels.\<close>

theorem hash_fast_path:
  assumes "cell_levelMask c = 0" "computeType c = OrdinaryCellType"
  shows "calculateHashesOrdinary sha c kids = calculateHashesLoop sha c kids"
  using hashLevels_single [OF assms] by simp

theorem hash_fast_path_witness:
  "calculateHashesOrdinary sha256 (Cell [0xC0] 3 False 0 [emptyCell]) [(emptyCell, infoOf sha256 emptyCell)] =
   calculateHashesLoop sha256 (Cell [0xC0] 3 False 0 [emptyCell]) [(emptyCell, infoOf sha256 emptyCell)]"
  using hash_fast_path [of "Cell [0xC0] 3 False 0 [emptyCell]" sha256 "[(emptyCell, infoOf sha256 emptyCell)]"] by (simp add: computeType_def)

text \<open>C36: the depth stored in a cell whose tree holds only ordinary level-0 cells is the height of the tree,
  and such a cell of height at most 1024 can always be hashed.\<close>

theorem Depth_is_height:
  assumes "plain c" "treeDepth c \<le> 1024"
  shows "Depth c = treeDepth c \<and> (\<exists>i. cellInfo sha c = Inr i \<and> plainInfo c i)"
  using Depth_plain [OF assms] cellInfo_plain [OF assms] by blast

theorem Depth_is_height_witness:
  "Depth (Cell [] 0 False 0 [emptyCell, Cell [] 0 False 0 [emptyCell]]) = 2"
  using Depth_is_height [of "Cell [] 0 False 0 [emptyCell, Cell [] 0 False 0 [emptyCell]]" sha256]
  by (simp add: emptyCell_def)

text \<open>C37: finalising a well-formed builder over ordinary level-0 references of depth below 1024 succeeds, and a
  slice over the result shows exactly the builder's bits and references.\<close>

theorem finalize_ordinary:
  assumes "plainBuilder b"
  shows "finalizeCellFromBuilder sha b False = Inr (builtCell b) \<and>
    slice_ok (newSliceFromCell (builtCell b)) \<and>
    sliceBits (newSliceFromCell (builtCell b)) = builderBits b \<and>
    sliceRefs (newSliceFromCell (builtCell b)) = b_refs b"
  using finalize_plain [OF assms] builtCell_slice [of b] assms
  by (simp add: plainBuilder_def sliceRefs_def RefsNum_def builtCell_def)

theorem finalize_ordinary_witness:
  "finalizeCellFromBuilder sha256 BeginCell False = Inr (builtCell BeginCell)"
  using finalize_ordinary [of BeginCell sha256] by (simp add: plainBuilder_def)

text \<open>C39: a number of more than 32 bytes passes the checks of \<open>StoreBigVarUInt\<close> when the length field allows it,
  but the second store is then refused: the call fails after the length field has been
  written, unlike \<open>StoreBigVarInt\<close>, which checks first.\<close>

theorem StoreBigVarUInt_partial:
  assumes "builder_ok b" "0 \<le> v" "32 < varBytes v" "varBytes v < sz" "sz \<le> 2 ^ 64"
    "b_bitsSz b + bitLen (int sz - 1) + varBytes v * 8 < 1024"
  shows "\<exists>b'. StoreBigVarUInt v sz b = (Inl (CellError ErrTooBigSize), b') \<and>
    builderBits b' = builderBits b @ bitsInt (bitLen (int sz - 1)) (int (varBytes v))"
proof -
  let ?l = "bitLen (int sz - 1)"
  have l: "?l \<le> 64" using varLen_small assms(4,5) by simp
  obtain b1 where b1: "StoreUInt (word_of_nat (varBytes v)) ?l b = (Inr (), b1)"
      "builderBits b1 = builderBits b @ bitsInt ?l (int (varBytes v))"
    using StoreUInt_bits [OF assms(1) _ l, of "word_of_nat (varBytes v)"] varBytes_word [OF assms(5,4)]
      varLen_fits [OF assms(4)] assms(6) by auto
  moreover have "StoreBigUInt v (varBytes v * 8) b1 = (Inl (CellError ErrTooBigSize), b1)"
    using assms(2,3) by (simp add: StoreBigUInt_def)
  ultimately show ?thesis
    using assms(2,4,6) by (auto simp: StoreBigVarUInt_def Let_def varBytes_def act_simps)
qed

lemma varBytes_2_256: "varBytes (2 ^ 256) = 33"
proof -
  have "bitLen (2 ^ 256) \<le> 257" "\<not> bitLen (2 ^ 256) \<le> 256" by (simp_all add: bitLen_le)
  then have "bitLen (2 ^ 256) = 257" by linarith
  then show ?thesis by (simp add: varBytes_def)
qed

lemma bitLen_63: "bitLen 63 = 6"
  by (simp add: bitLen.simps)

theorem StoreBigVarUInt_partial_witness:
  "\<exists>b'. StoreBigVarUInt (2 ^ 256) 64 BeginCell = (Inl (CellError ErrTooBigSize), b') \<and> builderBits b' = bitsInt 6 33"
  using StoreBigVarUInt_partial [of BeginCell "2 ^ 256" 64] by (simp add: varBytes_2_256 bitLen_63 del: power_numeral)

end
