(* ===== verification/Vm_Dispatch.thy ===== *)
theory Vm_Dispatch
  imports Cell_Slice_Bits
begin

section \<open>Opcode dispatch\<close>

text \<open>
  The prefix trie of \<^verbatim>\<open>src/tvm/vm.go\<close>: how opcodes are registered, the table over the first sixteen
  bits, and the two ways of looking an instruction up.  The trie is polymorphic in the
  dispatch entry.  A prefix is its bit sequence; the index table is the function it tabulates.
\<close>

subsection \<open>The trie\<close>

datatype 'e trie_node = TrieNode
  (trie_op: "'e option")
  (trie_next0: "'e trie_node option")
  (trie_next1: "'e trie_node option")

definition trie_next :: "'e trie_node \<Rightarrow> bool \<Rightarrow> 'e trie_node option" where
  "trie_next n b = (if b then trie_next1 n else trie_next0 n)"

definition emptyNode :: "'e trie_node" where
  "emptyNode = TrieNode None None None"

record 'e opcode_dispatch =
  d_root :: "'e trie_node"
  d_maxPrefixLen :: nat
  d_index :: "nat \<Rightarrow> 'e trie_node option \<times> 'e option"

definition newOpcodeDispatch :: "'e opcode_dispatch" where
  "newOpcodeDispatch = \<lparr>d_root = emptyNode, d_maxPrefixLen = 0, d_index = (\<lambda>_. (None, None))\<rparr>"

definition childOrNew :: "'e trie_node option \<Rightarrow> 'e trie_node" where
  "childOrNew n = (case n of None \<Rightarrow> emptyNode | Some c \<Rightarrow> c)"

fun addPrefixNode :: "bool list \<Rightarrow> 'e \<Rightarrow> 'e trie_node \<Rightarrow> 'e trie_node" where
  "addPrefixNode [] e (TrieNode x l r) = TrieNode (Some e) l r"
| "addPrefixNode (b # bs) e (TrieNode x l r) =
     (if b then TrieNode x l (Some (addPrefixNode bs e (childOrNew r)))
      else TrieNode x (Some (addPrefixNode bs e (childOrNew l))) r)"

definition addPrefix :: "bool list \<Rightarrow> 'e \<Rightarrow> 'e opcode_dispatch \<Rightarrow> 'e opcode_dispatch" where
  "addPrefix prefix e d =
     d\<lparr>d_root := addPrefixNode prefix e (d_root d),
       d_maxPrefixLen := (if length prefix > d_maxPrefixLen d then length prefix else d_maxPrefixLen d)\<rparr>"

text \<open>
  The loop all lookups share: follow the bit at each position, remember the last entry passed;
  stop at a missing child or at a bit that cannot be read.
\<close>

fun trieLoop :: "(nat \<Rightarrow> bool option) \<Rightarrow> nat list \<Rightarrow> 'e trie_node \<Rightarrow> 'e option \<Rightarrow> 'e trie_node option \<times> 'e option" where
  "trieLoop bitf [] n matched = (Some n, matched)"
| "trieLoop bitf (i # is) n matched =
     (case bitf i of
        None \<Rightarrow> (Some n, matched)
      | Some b \<Rightarrow>
          (case trie_next n b of
             None \<Rightarrow> (None, matched)
           | Some n' \<Rightarrow> trieLoop bitf is n' (case trie_op n' of None \<Rightarrow> matched | Some e \<Rightarrow> Some e)))"

definition opcodeDispatchIndexBits :: nat where
  "opcodeDispatchIndexBits = 16"

definition buildFastTable :: "'e opcode_dispatch \<Rightarrow> 'e opcode_dispatch" where
  "buildFastTable d =
     d\<lparr>d_index := (\<lambda>raw. trieLoop (\<lambda>i. Some (bit raw (opcodeDispatchIndexBits - 1 - i)))
         [0..<opcodeDispatchIndexBits] (d_root d) None)\<rparr>"

subsection \<open>Lookup\<close>

definition matchOpcodeSlow :: "'e trie_node \<Rightarrow> nat \<Rightarrow> slice \<Rightarrow> nat \<Rightarrow> 'e option" where
  "matchOpcodeSlow root maxPrefixLen code available =
     snd (trieLoop (\<lambda>i. if i < available
                        then (case fst (BitAt i code) of Inl _ \<Rightarrow> None | Inr b \<Rightarrow> Some (b = 1))
                        else Some False) [0..<maxPrefixLen] root None)"

definition fastTail :: "'e trie_node \<Rightarrow> 'e option \<Rightarrow> nat \<Rightarrow> 64 word \<Rightarrow> nat \<Rightarrow> 'e option" where
  "fastTail n matched maxPrefixLen raw preloadBits =
     snd (trieLoop (\<lambda>i. Some (i < preloadBits \<and> bit raw (preloadBits - 1 - i)))
       [opcodeDispatchIndexBits..<maxPrefixLen] n matched)"

definition matchOpcodeFast :: "'e opcode_dispatch \<Rightarrow> slice \<Rightarrow> nat \<Rightarrow> 'e option" where
  "matchOpcodeFast d code available =
     (let indexBits = opcodeDispatchIndexBits; preloadBits = min indexBits available in
      case fst (PreloadUInt preloadBits code) of
        Inl _ \<Rightarrow> None
      | Inr raw \<Rightarrow>
          let idx = (if preloadBits \<ge> indexBits then raw AND (2 ^ opcodeDispatchIndexBits - 1)
                     else push_bit (indexBits - preloadBits) raw)
          in case d_index d (unat idx) of
               (None, matched) \<Rightarrow> matched
             | (Some n, matched) \<Rightarrow>
                 if available > preloadBits \<and> d_maxPrefixLen d > preloadBits
                 then let preloadBits' = min (d_maxPrefixLen d) available in
                   (case fst (PreloadUInt preloadBits' code) of
                      Inl _ \<Rightarrow> None
                    | Inr raw' \<Rightarrow> fastTail n matched (d_maxPrefixLen d) raw' preloadBits')
                 else fastTail n matched (d_maxPrefixLen d) raw preloadBits)"

definition matchOpcode :: "'e opcode_dispatch \<Rightarrow> slice \<Rightarrow> 'e option" where
  "matchOpcode d code =
     (let available = BitsLeft code in
      if available = 0 then None
      else if d_maxPrefixLen d \<le> 64 then matchOpcodeFast d code available
      else matchOpcodeSlow (d_root d) (d_maxPrefixLen d) code available)"

subsection \<open>Registration\<close>

text \<open>
  What an opcode registers: its prefixes, the first global version that has it, its entry and the
  entry that stands for it in older versions under the historical quiet prefixes.
\<close>

record 'e registration =
  rg_prefixes :: "bool list list"
  rg_minVersion :: int
  rg_entry :: 'e
  rg_invalid :: 'e

definition opcodeIsHistoricalQuietCompoundPrefix :: "bool list \<Rightarrow> bool" where
  "opcodeIsHistoricalQuietCompoundPrefix prefix \<longleftrightarrow>
     length prefix = 24 \<and>
     (let v = uintOf prefix; args = v mod 16 in
      \<not> (args mod 4 = 3 \<or> (args div 4) mod 4 \<noteq> 0) \<and>
      v div 16 \<in> {0xb7a90, 0xb7a92, 0xb7a98, 0xb7a9a, 0xb7a9c})"

definition registerPrefix :: "nat \<Rightarrow> 'e registration \<Rightarrow> 'e opcode_dispatch \<Rightarrow> bool list \<Rightarrow> 'e opcode_dispatch" where
  "registerPrefix ver rg d s =
     (let minVersion = (if rg_minVersion rg < 0 then 0 else rg_minVersion rg);
          d1 = (if minVersion > 0 \<and> opcodeIsHistoricalQuietCompoundPrefix s \<and> int ver < minVersion
                then addPrefix s (rg_invalid rg) d else d)
      in if int ver \<ge> minVersion then addPrefix s (rg_entry rg) d1 else d1)"

definition registerOpcodePrefixes :: "nat \<Rightarrow> 'e registration \<Rightarrow> 'e opcode_dispatch \<Rightarrow> 'e opcode_dispatch" where
  "registerOpcodePrefixes ver rg d = foldl (registerPrefix ver rg) d (rg_prefixes rg)"

text \<open>The table of one global version: the loop over versions only repeats this.\<close>

definition buildOpcodeDispatch :: "'e registration list \<Rightarrow> nat \<Rightarrow> 'e opcode_dispatch" where
  "buildOpcodeDispatch registry ver =
     buildFastTable (foldl (\<lambda>d rg. registerOpcodePrefixes ver rg d) newOpcodeDispatch registry)"

subsection \<open>Specification: the longest registered prefix\<close>

text \<open>
  The bits the lookup sees are those of the code padded with zeros.  Among the registered prefixes of
  them the longest wins; a prefix registered twice has its last entry.
\<close>

definition paddedBits :: "nat \<Rightarrow> slice \<Rightarrow> bool list" where
  "paddedBits len code = take len (sliceBits code @ replicate len False)"

definition longestMatch :: "(bool list \<times> 'e) list \<Rightarrow> bool list \<Rightarrow> 'e option" where
  "longestMatch regs bits =
     foldl (\<lambda>m k. case map_of (rev regs) (take k bits) of None \<Rightarrow> m | Some e \<Rightarrow> Some e)
       None [1..<Suc (length bits)]"

text \<open>The prefixes that reach the table of one version, in order.\<close>

definition prefixEntries :: "nat \<Rightarrow> 'e registration \<Rightarrow> (bool list \<times> 'e) list" where
  "prefixEntries ver rg =
     concat (map (\<lambda>s. (if rg_minVersion rg > int ver
                       then (if opcodeIsHistoricalQuietCompoundPrefix s then [(s, rg_invalid rg)] else [])
                       else [(s, rg_entry rg)])) (rg_prefixes rg))"

definition dispatchOf :: "(bool list \<times> 'e) list \<Rightarrow> 'e opcode_dispatch" where
  "dispatchOf regs = foldl (\<lambda>d (s, e). addPrefix s e d) newOpcodeDispatch regs"

subsection \<open>Walking a trie along a bit sequence\<close>

fun trieWalk :: "bool list \<Rightarrow> 'e trie_node \<Rightarrow> 'e option \<Rightarrow> 'e trie_node option \<times> 'e option" where
  "trieWalk [] n m = (Some n, m)"
| "trieWalk (b # bs) n m =
     (case trie_next n b of
        None \<Rightarrow> (None, m)
      | Some n' \<Rightarrow> trieWalk bs n' (case trie_op n' of None \<Rightarrow> m | Some e \<Rightarrow> Some e))"

fun trieGet :: "bool list \<Rightarrow> 'e trie_node \<Rightarrow> 'e option" where
  "trieGet [] n = trie_op n"
| "trieGet (b # bs) n = (case trie_next n b of None \<Rightarrow> None | Some n' \<Rightarrow> trieGet bs n')"

text \<open>\<open>trieWithin k n\<close>: no path of the trie is longer than \<open>k\<close>.\<close>

fun trieWithin :: "nat \<Rightarrow> 'e trie_node \<Rightarrow> bool" where
  "trieWithin 0 n \<longleftrightarrow> trie_next0 n = None \<and> trie_next1 n = None"
| "trieWithin (Suc k) n \<longleftrightarrow>
     (case trie_next0 n of None \<Rightarrow> True | Some c \<Rightarrow> trieWithin k c) \<and>
     (case trie_next1 n of None \<Rightarrow> True | Some c \<Rightarrow> trieWithin k c)"

lemma trieLoop_walk: "(\<And>i. i \<in> set is \<Longrightarrow> bitf i = Some (f i)) \<Longrightarrow> trieLoop bitf is n m = trieWalk (map f is) n m"
  by (induction "is" arbitrary: n m) (auto split: option.splits)

lemma trieWalk_append:
  "trieWalk (xs @ ys) n m = (case trieWalk xs n m of (None, m') \<Rightarrow> (None, m') | (Some n', m') \<Rightarrow> trieWalk ys n' m')"
  by (induction xs arbitrary: n m) (auto split: option.splits)

lemma trieWithin_emptyNode [simp]: "trieWithin k emptyNode"
  by (cases k) (simp_all add: emptyNode_def)

lemma trieWithin_mono: "trieWithin k n \<Longrightarrow> k \<le> l \<Longrightarrow> trieWithin l n"
proof (induction k arbitrary: n l)
  case 0 then show ?case by (cases l) auto
next
  case (Suc k) then show ?case by (cases l) (auto split: option.splits)
qed

lemma trieWithin_childOrNew:
  "(case x of None \<Rightarrow> True | Some c \<Rightarrow> trieWithin k c) \<Longrightarrow> trieWithin k (childOrNew x)"
  by (cases x) (simp_all add: childOrNew_def)

lemma trieWithin_addPrefixNode:
  "trieWithin k n \<Longrightarrow> length p \<le> k \<Longrightarrow> trieWithin k (addPrefixNode p e n)"
proof (induction p e n arbitrary: k rule: addPrefixNode.induct)
  case (1 e x l r) then show ?case by (cases k) auto
next
  case (2 b bs e x l r)
  then obtain k' where "k = Suc k'" by (cases k) auto
  with 2 show ?case by (auto simp: trieWithin_childOrNew)
qed

lemma trieWalk_within: "trieWithin (length xs) n \<Longrightarrow> snd (trieWalk (xs @ ys) n m) = snd (trieWalk xs n m)"
proof (induction xs arbitrary: n m)
  case Nil then show ?case by (cases ys) (auto simp: trie_next_def)
next
  case (Cons b bs) then show ?case by (auto simp: trie_next_def split: option.splits)
qed

lemma trieGet_emptyNode [simp]: "trieGet q emptyNode = None"
  by (cases q) (auto simp: emptyNode_def trie_next_def)

lemma trieGet_addPrefixNode: "trieGet q (addPrefixNode p e n) = (if q = p then Some e else trieGet q n)"
proof (induction p e n arbitrary: q rule: addPrefixNode.induct)
  case (1 e x l r) then show ?case by (cases q) (auto simp: trie_next_def)
next
  case (2 b bs e x l r)
  have child: "trieGet qs (childOrNew c) = (case c of None \<Rightarrow> None | Some n \<Rightarrow> trieGet qs n)" for qs :: "bool list" and c :: "'a trie_node option"
    by (simp add: childOrNew_def split: option.splits)
  from 2 show ?case by (cases q) (auto simp: trie_next_def child)
qed

lemma foldl_keep: "(\<And>k. k \<in> set ks \<Longrightarrow> f k = None) \<Longrightarrow>
    foldl (\<lambda>m k. case f k of None \<Rightarrow> m | Some e \<Rightarrow> Some e) m ks = m"
  by (induction ks arbitrary: m) auto

lemma trieWalk_longest:
  "snd (trieWalk bs n m) =
     foldl (\<lambda>m k. case trieGet (take k bs) n of None \<Rightarrow> m | Some e \<Rightarrow> Some e) m [1..<Suc (length bs)]"
proof (induction bs arbitrary: n m)
  case (Cons b bs)
  have ks: "[1..<Suc (length (b # bs))] = 1 # map Suc [1..<Suc (length bs)]"
    by (simp add: upt_conv_Cons map_Suc_upt del: upt_Suc)
  show ?case
  proof (cases "trie_next n b")
    case None
    then have "trieGet (take k (b # bs)) n = None" if "k \<in> set [1..<Suc (length (b # bs))]" for k
      using that by (cases k) auto
    then have "foldl (\<lambda>m k. case trieGet (take k (b # bs)) n of None \<Rightarrow> m | Some e \<Rightarrow> Some e) m
        [1..<Suc (length (b # bs))] = m" by (rule foldl_keep)
    with None show ?thesis by (simp del: upt_Suc)
  next
    case (Some n')
    then show ?thesis unfolding ks using Cons.IH [of n'] by (simp add: foldl_map del: upt_Suc)
  qed
qed simp

subsection \<open>The dispatch built from registrations\<close>

lemma dispatchOf_snoc: "dispatchOf (regs @ [(s, e)]) = addPrefix s e (dispatchOf regs)"
  by (simp add: dispatchOf_def)

lemma dispatchOf_max: "list_all (\<lambda>(s, e). length s \<le> k) regs \<Longrightarrow> d_maxPrefixLen (dispatchOf regs) \<le> k"
  by (induction regs rule: rev_induct) (auto simp: dispatchOf_snoc addPrefix_def dispatchOf_def newOpcodeDispatch_def)

lemma dispatchOf_within: "trieWithin (d_maxPrefixLen (dispatchOf regs)) (d_root (dispatchOf regs))"
proof (induction regs rule: rev_induct)
  case (snoc r regs)
  then show ?case
    by (cases r) (auto simp: dispatchOf_snoc addPrefix_def intro!: trieWithin_addPrefixNode elim: trieWithin_mono)
qed (simp add: dispatchOf_def newOpcodeDispatch_def)

lemma dispatchOf_get: "trieGet q (d_root (dispatchOf regs)) = map_of (rev regs) q"
  by (induction regs rule: rev_induct)
    (auto simp: dispatchOf_snoc addPrefix_def trieGet_addPrefixNode dispatchOf_def newOpcodeDispatch_def)

lemma registerOpcodePrefixes_entries:
  "registerOpcodePrefixes ver rg (dispatchOf regs) = dispatchOf (regs @ prefixEntries ver rg)"
proof -
  have "foldl (registerPrefix ver rg) (dispatchOf regs) ss = dispatchOf (regs @ concat (map (\<lambda>s.
      (if rg_minVersion rg > int ver
       then (if opcodeIsHistoricalQuietCompoundPrefix s then [(s, rg_invalid rg)] else [])
       else [(s, rg_entry rg)])) ss))" for ss
    by (induction ss rule: rev_induct)
      (auto simp: registerPrefix_def Let_def dispatchOf_snoc [symmetric] simp flip: append_assoc)
  then show ?thesis by (simp add: registerOpcodePrefixes_def prefixEntries_def)
qed

lemma buildOpcodeDispatch_eq:
  "buildOpcodeDispatch registry ver = buildFastTable (dispatchOf (concat (map (prefixEntries ver) registry)))"
proof -
  have "foldl (\<lambda>d rg. registerOpcodePrefixes ver rg d) (dispatchOf regs) registry =
      dispatchOf (regs @ concat (map (prefixEntries ver) registry))" for regs
    by (induction registry arbitrary: regs) (simp_all add: registerOpcodePrefixes_entries)
  from this [of "[]"] show ?thesis by (simp add: buildOpcodeDispatch_def dispatchOf_def)
qed

subsection \<open>The two lookups agree\<close>

lemma paddedBits_nth: "i < len \<Longrightarrow> paddedBits len code ! i = (i < BitsLeft code \<and> sliceBits code ! i)"
  by (simp add: paddedBits_def nth_append)

lemma length_paddedBits [simp]: "length (paddedBits len code) = len"
  by (simp add: paddedBits_def)

lemma take_paddedBits: "k \<le> len \<Longrightarrow> take k (paddedBits len code) = paddedBits k code"
  by (rule nth_equalityI) (simp_all add: paddedBits_nth)

lemma paddedBits_map: "map (\<lambda>i. i < BitsLeft code \<and> sliceBits code ! i) [0..<len] = paddedBits len code"
  by (rule nth_equalityI) (simp_all add: paddedBits_nth)

lemma BitAt_bit:
  assumes "slice_ok code" "i < BitsLeft code"
  shows "fst (BitAt i code) = Inr (of_bool (sliceBits code ! i))"
  using assms nth_sliceBits [of i code]
  by (simp add: BitAt_def act_simps Let_def bitAt_def and_one_eq bit_iff_odd_drop_bit odd_iff_mod_2_eq_one of_bool_def)

lemma matchOpcodeSlow_walk:
  assumes "slice_ok code"
  shows "matchOpcodeSlow root len code (BitsLeft code) = snd (trieWalk (paddedBits len code) root None)"
proof -
  have "trieLoop (\<lambda>i. if i < BitsLeft code
      then (case fst (BitAt i code) of Inl _ \<Rightarrow> None | Inr b \<Rightarrow> Some (b = 1)) else Some False) [0..<len] root None =
      trieWalk (map (\<lambda>i. i < BitsLeft code \<and> sliceBits code ! i) [0..<len]) root None"
    by (rule trieLoop_walk) (auto simp: BitAt_bit [OF assms])
  then show ?thesis by (simp add: matchOpcodeSlow_def paddedBits_map)
qed

lemma bit_word_of_bits:
  "length bs \<le> 64 \<Longrightarrow> bit (word_of_nat (uintOf bs) :: 64 word) k \<longleftrightarrow> k < length bs \<and> bs ! (length bs - 1 - k)"
  by (auto simp: bit_of_nat_iff bit_uintOf)

lemma index_bits:
  assumes "slice_ok code" "pb = min 16 (BitsLeft code)" "i < 16"
  defines "raw \<equiv> word_of_nat (uintOf (take pb (sliceBits code))) :: 64 word"
  shows "bit (unat (if pb \<ge> 16 then raw AND (2 ^ 16 - 1) else push_bit (16 - pb) raw)) (15 - i) \<longleftrightarrow>
    i < BitsLeft code \<and> sliceBits code ! i"
proof (cases "pb \<ge> 16")
  case True
  then have pb: "pb = 16" "16 \<le> BitsLeft code" using assms(2) by auto
  have "bit raw (15 - i) \<longleftrightarrow> sliceBits code ! i"
    unfolding raw_def using pb assms(3) by (subst bit_word_of_bits) auto
  moreover have "(65535 :: 64 word) = mask 16"
    by (simp add: mask_eq_exp_minus_1)
  then have "bit (65535 :: 64 word) (15 - i)"
    using assms(3) by (simp only: bit_mask_iff possible_bit_word) auto
  ultimately show ?thesis using pb assms(3) by (simp add: bit_unsigned_iff bit_and_iff)
next
  case False
  then have pb: "pb = BitsLeft code" "BitsLeft code < 16" using assms(2) by auto
  have "bit (push_bit (16 - pb) raw) (15 - i) \<longleftrightarrow> 16 - pb \<le> 15 - i \<and> bit raw (15 - i - (16 - pb))"
    using assms(3) by (auto simp: bit_push_bit_iff)
  also have "\<dots> \<longleftrightarrow> i < pb \<and> sliceBits code ! i"
    unfolding raw_def using pb assms(3) by (subst bit_word_of_bits) (auto simp: algebra_simps)
  finally show ?thesis using False pb by (simp add: bit_unsigned_iff)
qed

lemma tail_bits:
  assumes "pb \<le> BitsLeft code" "pb \<le> 64" "i < pb"
  shows "bit (word_of_nat (uintOf (take pb (sliceBits code))) :: 64 word) (pb - 1 - i) \<longleftrightarrow> sliceBits code ! i"
  using assms by (subst bit_word_of_bits) auto

lemma fastTail_walk:
  assumes "\<And>i. 16 \<le> i \<Longrightarrow> i < len \<Longrightarrow> (i < pb \<and> bit raw (pb - 1 - i)) = (i < BitsLeft code \<and> sliceBits code ! i)"
  shows "fastTail n m len raw pb = snd (trieWalk (drop 16 (paddedBits len code)) n m)"
proof -
  have "map (\<lambda>i. i < pb \<and> bit raw (pb - 1 - i)) [16..<len] = drop 16 (paddedBits len code)"
  proof (rule nth_equalityI, goal_cases)
    case (2 i) then show ?case using assms [of "16 + i"] by (simp add: paddedBits_nth)
  qed simp
  then show ?thesis
    unfolding fastTail_def opcodeDispatchIndexBits_def by (subst trieLoop_walk [OF refl]) simp
qed

lemma fast_index:
  assumes "slice_ok code" "pb = min 16 (BitsLeft code)" "d = buildFastTable d0"
  defines "raw \<equiv> word_of_nat (uintOf (take pb (sliceBits code))) :: 64 word"
  shows "d_index d (unat (if pb \<ge> 16 then raw AND (2 ^ 16 - 1) else push_bit (16 - pb) raw)) =
    trieWalk (paddedBits 16 code) (d_root d0) None"
proof -
  have "map (\<lambda>i. bit (unat (if pb \<ge> 16 then raw AND (2 ^ 16 - 1) else push_bit (16 - pb) raw)) (15 - i)) [0..<16] =
      paddedBits 16 code"
    by (rule nth_equalityI) (simp_all only: length_map length_upt length_paddedBits nth_map nth_upt
        paddedBits_nth index_bits [OF assms(1,2)] raw_def, simp)
  then show ?thesis
    unfolding assms(3) buildFastTable_def opcodeDispatchIndexBits_def by (simp add: trieLoop_walk [OF refl])
qed

lemma matchOpcodeFast_walk:
  assumes "slice_ok code" "d_maxPrefixLen d0 \<le> 64" "trieWithin (d_maxPrefixLen d0) (d_root d0)"
  shows "matchOpcodeFast (buildFastTable d0) code (BitsLeft code) =
    snd (trieWalk (paddedBits (d_maxPrefixLen d0) code) (d_root d0) None)"
proof -
  let ?L = "d_maxPrefixLen d0" and ?A = "BitsLeft code"
  define pb where "pb = min 16 ?A"
  have mx: "d_maxPrefixLen (buildFastTable d0) = ?L" by (simp add: buildFastTable_def)
  have load: "fst (PreloadUInt k code) = Inr (word_of_nat (uintOf (take k (sliceBits code))))" if "k \<le> ?A" "k \<le> 64" for k
    using LoadUInt_ok(2) [OF assms(1) that(2,1)] by simp
  obtain n m where w: "trieWalk (paddedBits 16 code) (d_root d0) None = (n, m)" by fastforce
  note index = fast_index [OF assms(1) pb_def refl, of d0, unfolded w]
  have whole: "snd (trieWalk (paddedBits ?L code) (d_root d0) None) =
      (case n of None \<Rightarrow> m | Some n' \<Rightarrow> snd (trieWalk (drop 16 (paddedBits ?L code)) n' m))"
  proof (cases "16 \<le> ?L")
    case True
    have "paddedBits ?L code = paddedBits 16 code @ drop 16 (paddedBits ?L code)"
      using append_take_drop_id [of 16 "paddedBits ?L code"] take_paddedBits [OF True] by simp
    then have "snd (trieWalk (paddedBits ?L code) (d_root d0) None) =
        snd (trieWalk (paddedBits 16 code @ drop 16 (paddedBits ?L code)) (d_root d0) None)" by simp
    then show ?thesis unfolding trieWalk_append w by (simp split: option.splits)
  next
    case False
    then have "paddedBits 16 code = paddedBits ?L code @ drop ?L (paddedBits 16 code)"
      using append_take_drop_id [of ?L "paddedBits 16 code"] take_paddedBits [of ?L 16] by simp
    then have "snd (trieWalk (paddedBits 16 code) (d_root d0) None) = snd (trieWalk (paddedBits ?L code) (d_root d0) None)"
      using trieWalk_within [of "paddedBits ?L code" "d_root d0" "drop ?L (paddedBits 16 code)"] assms(3) by simp
    with w False show ?thesis by (auto split: option.splits)
  qed
  have short: "fastTail n' m ?L (word_of_nat (uintOf (take pb (sliceBits code)))) pb =
      snd (trieWalk (drop 16 (paddedBits ?L code)) n' m)" if "\<not> (?A > pb \<and> ?L > pb)" for n'
    by (rule fastTail_walk) (use that in \<open>auto simp: pb_def\<close>)
  have long: "fastTail n' m ?L (word_of_nat (uintOf (take (min ?L ?A) (sliceBits code)))) (min ?L ?A) =
      snd (trieWalk (drop 16 (paddedBits ?L code)) n' m)" for n'
    by (rule fastTail_walk) (use assms(2) tail_bits [of "min ?L ?A" code] in auto)
  show ?thesis
    unfolding matchOpcodeFast_def Let_def mx opcodeDispatchIndexBits_def pb_def [symmetric] whole
    using load [of pb] load [of "min ?L ?A"] assms(2) index short long
    by (auto simp: pb_def split: option.splits)
qed

lemma matchOpcode_walk:
  assumes "slice_ok code" "trieWithin (d_maxPrefixLen d0) (d_root d0)"
  shows "matchOpcode (buildFastTable d0) code =
    (if BitsLeft code = 0 then None else snd (trieWalk (paddedBits (d_maxPrefixLen d0) code) (d_root d0) None))"
  using matchOpcodeFast_walk [OF assms(1) _ assms(2)]
  by (simp add: matchOpcode_def Let_def buildFastTable_def matchOpcodeSlow_walk [OF assms(1)])

lemma longest_walk:
  "snd (trieWalk bs (d_root (dispatchOf regs)) None) = longestMatch regs bs"
  unfolding trieWalk_longest longestMatch_def dispatchOf_get by simp

end
