(* ===== verification/Vm_Op.thy ===== *)
theory Vm_Op
  imports Vm_Exec Vm_Dispatch Cell_Finalize
begin

section \<open>Opcodes: decoding, charging, running\<close>

text \<open>
  \<^verbatim>\<open>src/tvm/op/helpers\<close> (prefixes, \<open>SimpleOP\<close>, \<open>ArgOP\<close>), the parsing gateway of \<^verbatim>\<open>src/tvm/vm/cell_manager.go\<close> and the
  part of \<^verbatim>\<open>src/tvm/vm.go\<close> that runs one decoded instruction.  An \<open>arg_iface\<close> is a value of the
  interface \<open>vm.ArgOP\<close>; an \<open>obj_op\<close> is an opcode of the older shape, which keeps its decoded operand: its
  \<open>Deserialize\<close> yields the charged length and the body.  Text forms of instructions are left out.
\<close>

subsection \<open>Prefixes\<close>

type_synonym bit_prefix = "bool list"

definition UIntPrefix :: "int \<Rightarrow> nat \<Rightarrow> bit_prefix" where
  "UIntPrefix v bits = bitsInt bits v"

definition BytesPrefix :: "byte list \<Rightarrow> bit_prefix" where
  "BytesPrefix data = bitsOf data 0 (8 * length data)"

definition SlicePrefix :: "nat \<Rightarrow> byte list \<Rightarrow> bit_prefix" where
  "SlicePrefix bits data = bitsOf data 0 bits"

abbreviation onCode :: "'a sl \<Rightarrow> 'a vm" where
  "onCode \<equiv> lift_field st_CurrentCode st_CurrentCode_update"

subsection \<open>The two shapes of opcodes\<close>

text \<open>A decoder returns an operand even when it fails, since the charge depends on it.\<close>

type_synonym decoder = "vm_state \<Rightarrow> (64 word \<times> go_error option) \<times> vm_state"

record arg_iface =
  ai_Decode :: decoder
  ai_Bits :: "64 word \<Rightarrow> int"
  ai_Interpret :: "64 word \<Rightarrow> unit vm"

record arg_op =
  ao_Prefixes :: "bit_prefix list"
  ao_ArgBits :: nat
  ao_Action :: "64 word \<Rightarrow> unit vm"
  ao_Decode :: "decoder option"
  ao_Bits :: "(64 word \<Rightarrow> int) option"
  ao_Serializer :: "(64 word \<Rightarrow> unit bld) option"
  ao_BaseGasPrice :: int
  ao_MinVersion :: int

definition NewArgOP :: "bit_prefix list \<Rightarrow> nat \<Rightarrow> (64 word \<Rightarrow> unit vm) \<Rightarrow> arg_op" where
  "NewArgOP prefixes argBits action =
     \<lparr>ao_Prefixes = prefixes, ao_ArgBits = argBits, ao_Action = action, ao_Decode = None, ao_Bits = None,
      ao_Serializer = None, ao_BaseGasPrice = 0, ao_MinVersion = 0\<rparr>"

definition prefixBits :: "arg_op \<Rightarrow> nat" where
  "prefixBits op = length (hd (ao_Prefixes op))"

text \<open>Run a load on the code; on failure the operand decoded so far is \<open>sofar\<close>.\<close>

definition decodeStep :: "64 word \<Rightarrow> 'a sl \<Rightarrow> ('a \<Rightarrow> decoder) \<Rightarrow> decoder" where
  "decodeStep sofar m k = (\<lambda>s. case onCode m s of
     (Inl e, s1) \<Rightarrow> ((sofar, Some e), s1)
   | (Inr x, s1) \<Rightarrow> k x s1)"

definition decoded :: "64 word \<Rightarrow> decoder" where
  "decoded args = (\<lambda>s. ((args, None), s))"

definition decodeFail :: "64 word \<Rightarrow> go_error \<Rightarrow> decoder" where
  "decodeFail args e = (\<lambda>s. ((args, Some e), s))"

definition DecodeArgs :: "arg_op \<Rightarrow> decoder" where
  "DecodeArgs op =
     (case ao_Decode op of
        Some d \<Rightarrow> d
      | None \<Rightarrow>
          decodeStep 0 (SkipBits (prefixBits op)) (\<lambda>_.
            if ao_ArgBits op = 0 then decoded 0 else decodeStep 0 (LoadUInt (ao_ArgBits op)) decoded))"

definition ArgInstructionBits :: "arg_op \<Rightarrow> 64 word \<Rightarrow> int" where
  "ArgInstructionBits op args =
     (case ao_Bits op of Some f \<Rightarrow> f args | None \<Rightarrow> int (prefixBits op + ao_ArgBits op))"

definition InterpretArgs :: "arg_op \<Rightarrow> 64 word \<Rightarrow> unit vm" where
  "InterpretArgs op args =
     seq (if ao_BaseGasPrice op \<noteq> 0 then ConsumeGas (ao_BaseGasPrice op) else ret ()) (ao_Action op args)"

text \<open>Encoding an instruction: the first prefix, then the operand.\<close>

definition storePrefix :: "bit_prefix \<Rightarrow> unit bld" where
  "storePrefix p = StoreSlice (be_bytes ((length p + 7) div 8) (int (uintOf p) * 2 ^ (8 * ((length p + 7) div 8) - length p))) (length p)"

definition SerializeArgs :: "arg_op \<Rightarrow> 64 word \<Rightarrow> unit bld" where
  "SerializeArgs op args =
     (case ao_Serializer op of
        Some f \<Rightarrow> f args
      | None \<Rightarrow>
          seq (storePrefix (hd (ao_Prefixes op)))
            (if ao_ArgBits op > 0 then StoreUInt args (ao_ArgBits op) else ret ()))"

definition argIface :: "arg_op \<Rightarrow> arg_iface" where
  "argIface op = \<lparr>ai_Decode = DecodeArgs op, ai_Bits = ArgInstructionBits op, ai_Interpret = InterpretArgs op\<rparr>"

record simple_op =
  so_Action :: "unit vm"
  so_BitPrefix :: bit_prefix
  so_BaseGasPrice :: int
  so_MinVersion :: int

definition SimpleOP :: "bit_prefix \<Rightarrow> unit vm \<Rightarrow> simple_op" where
  "SimpleOP prefix action =
     \<lparr>so_Action = action, so_BitPrefix = prefix, so_BaseGasPrice = 0, so_MinVersion = 0\<rparr>"

definition simpleInterpret :: "simple_op \<Rightarrow> unit vm" where
  "simpleInterpret op =
     seq (if so_BaseGasPrice op \<noteq> 0 then ConsumeGas (so_BaseGasPrice op) else ret ()) (so_Action op)"

definition simpleIface :: "simple_op \<Rightarrow> arg_iface" where
  "simpleIface op =
     \<lparr>ai_Decode = decodeStep 0 (SkipBits (length (so_BitPrefix op))) (\<lambda>_. decoded 0),
      ai_Bits = (\<lambda>_. int (length (so_BitPrefix op))),
      ai_Interpret = (\<lambda>_. simpleInterpret op)\<rparr>"

record obj_op =
  oo_Prefixes :: "bit_prefix list"
  oo_Deserialize :: "vm_state \<Rightarrow> (go_error option \<times> int \<times> unit vm) \<times> vm_state"

datatype dispatch_entry = EntryArg arg_iface | EntryGet obj_op

text \<open>Opcodes that a global version did not have yet: decoded and charged, then rejected.\<close>

definition historicalInvalidArgOP :: "arg_iface \<Rightarrow> arg_iface" where
  "historicalInvalidArgOP op = op\<lparr>ai_Interpret := (\<lambda>_. raise (VMError CodeInvalidOpcode))\<rparr>"

definition historicalInvalidOpcode :: "obj_op \<Rightarrow> obj_op" where
  "historicalInvalidOpcode op = op\<lparr>oo_Deserialize := (\<lambda>s.
     case oo_Deserialize op s of
       ((err, bits, body), s1) \<Rightarrow> ((err, bits, raise (VMError CodeInvalidOpcode)), s1))\<rparr>"

definition argRegistration :: "arg_op \<Rightarrow> dispatch_entry registration" where
  "argRegistration op =
     \<lparr>rg_prefixes = ao_Prefixes op, rg_minVersion = ao_MinVersion op, rg_entry = EntryArg (argIface op),
      rg_invalid = EntryArg (historicalInvalidArgOP (argIface op))\<rparr>"

definition simpleRegistration :: "simple_op \<Rightarrow> dispatch_entry registration" where
  "simpleRegistration op =
     \<lparr>rg_prefixes = [so_BitPrefix op], rg_minVersion = so_MinVersion op, rg_entry = EntryArg (simpleIface op),
      rg_invalid = EntryArg (historicalInvalidArgOP (simpleIface op))\<rparr>"

definition objRegistration :: "obj_op \<Rightarrow> dispatch_entry registration" where
  "objRegistration op =
     \<lparr>rg_prefixes = oo_Prefixes op, rg_minVersion = 0, rg_entry = EntryGet op,
      rg_invalid = EntryGet (historicalInvalidOpcode op)\<rparr>"

text \<open>What is left of a truncated instruction, padded with zeros to \<open>bits\<close>; the code is drained.\<close>

definition PeekZeroPaddedOpcode :: "nat \<Rightarrow> 64 word sl" where
  "PeekZeroPaddedOpcode bits = bnd getS (\<lambda>code.
     let rest = BitsLeft code in
     if rest = 0 then ret 0
     else (\<lambda>c. case LoadUInt rest c of
             (Inl _, c1) \<Rightarrow> (Inr 0, c1)
           | (Inr raw, c1) \<Rightarrow> (Inr (push_bit (bits - rest) raw), c1)))"

subsection \<open>Loading cells\<close>

text \<open>
  The gas listener of the machine: the first failed charge is kept and reported by every later
  event.  Cells are fully loaded and not virtualised, and the machine has no library collection, so a
  library cell is charged and then fails to resolve.
\<close>

definition pendingCheck :: "unit vm" where
  "pendingCheck = bnd getS (\<lambda>s. case st_pendingErr s of Some e \<Rightarrow> raise e | None \<Rightarrow> ret ())"

definition latchError :: "unit vm \<Rightarrow> unit vm" where
  "latchError m = seq pendingCheck (\<lambda>s. case m s of
     (Inl e, s1) \<Rightarrow> (Inl e, s1\<lparr>st_pendingErr := Some e\<rparr>)
   | (Inr x, s1) \<Rightarrow> (Inr (), s1))"

definition OnLoadError :: "cell \<Rightarrow> unit vm" where
  "OnLoadError c = latchError (RegisterCellLoad c)"

definition OnCreate :: "unit vm" where
  "OnCreate = latchError RegisterCellCreate"

definition beginParseWithGasTrace :: "cell \<Rightarrow> bool \<Rightarrow> slice vm" where
  "beginParseWithGasTrace c alreadyLoaded =
     seq (if alreadyLoaded then ret () else OnLoadError c) (seq pendingCheck (ret (newSliceFromCell c)))"

definition beginParseLoadedCell :: "cell \<Rightarrow> bool \<Rightarrow> bool \<Rightarrow> (slice \<times> bool) vm" where
  "beginParseLoadedCell c allowSpecial alreadyLoaded =
     bnd (beginParseWithGasTrace c alreadyLoaded) (\<lambda>sl.
       if allowSpecial then ret (sl, cell_special c)
       else if \<not> cell_special c then ret (sl, False)
       else raise (VMError CodeCellUnderflow))"

definition CellsBeginParse :: "cell \<Rightarrow> slice vm" where
  "CellsBeginParse c = bnd (beginParseLoadedCell c False False) (\<lambda>p. ret (fst p))"

definition CellsBeginParseAlreadyLoaded :: "cell \<Rightarrow> slice vm" where
  "CellsBeginParseAlreadyLoaded c = bnd (beginParseLoadedCell c False True) (\<lambda>p. ret (fst p))"

definition CellsBeginParseSpecial :: "cell \<Rightarrow> (slice \<times> bool) vm" where
  "CellsBeginParseSpecial c = beginParseLoadedCell c True False"

text \<open>
  \<open>LoadRefInto\<close> on the current code, the slice the run loop calls it with: the code is advanced past the
  reference before the pending error is checked and the child is parsed.
\<close>

definition CellsLoadRef :: "slice vm" where
  "CellsLoadRef = bnd getS (\<lambda>s.
     case LoadRefCell (st_CurrentCode s) of
       (Inl e, _) \<Rightarrow> raise e
     | (Inr ref, sl1) \<Rightarrow>
         seq (modifyS (\<lambda>s. s\<lparr>st_CurrentCode := sl1\<rparr>)) (seq pendingCheck (CellsBeginParse ref)))"

subsection \<open>Running one instruction\<close>

definition normalizeCellError :: "go_error \<Rightarrow> go_error" where
  "normalizeCellError err =
     (case err of
        CellError e \<Rightarrow>
          (if e \<in> {ErrNotEnoughData, ErrNoMoreRefs, ErrSmallSlice} then VMError CodeCellUnderflow
           else if e \<in> {ErrNotFit1023, ErrTooMuchRefs, ErrCellDepthLimit, ErrRefCannotBeNil} then VMError CodeCellOverflow
           else if e \<in> {ErrTooBigValue, ErrNegative, ErrInvalidSize, ErrNilBigInt, ErrTooBigSize} then VMError CodeRangeCheck
           else err)
      | _ \<Rightarrow> err)"

definition normalizeOpcodeDeserializeError :: "go_error \<Rightarrow> go_error" where
  "normalizeOpcodeDeserializeError err =
     (if err \<in> {ErrCorruptedOpcode, CellError ErrNoMoreRefs, CellError ErrSmallSlice, CellError ErrNotEnoughData}
      then VMError CodeInvalidOpcode else err)"

definition interpretOpcode :: "unit vm \<Rightarrow> unit vm" where
  "interpretOpcode run =
     seq (bnd getS (\<lambda>s. if st_GlobalVersion s \<ge> 4 then CheckGas else ret ()))
       (\<lambda>s. case run s of
          (Inl err, s1) \<Rightarrow>
            if err = GoPanic then (Inl GoPanic, s1)
            else (case st_pendingErr s1 of
                    Some gasErr \<Rightarrow> (Inl gasErr, s1)
                  | None \<Rightarrow>
                      if err = ErrStopOnAccept
                      then (case onGas Check s1 of
                              (Inl gasErr, s2) \<Rightarrow> (Inl gasErr, s2)
                            | (Inr _, s2) \<Rightarrow> (Inl (normalizeCellError err), s2))
                      else (Inl (normalizeCellError err), s1))
        | (Inr _, s1) \<Rightarrow> CheckGas s1)"

definition executeArgOpcode :: "arg_iface \<Rightarrow> unit vm" where
  "executeArgOpcode op = (\<lambda>s.
     case ai_Decode op s of
       ((args, Some err), s1) \<Rightarrow>
         seq (ConsumeGas (InstructionBaseGasPrice + ai_Bits op args))
           (raise (normalizeOpcodeDeserializeError err)) s1
     | ((args, None), s1) \<Rightarrow>
         seq (ConsumeGas (InstructionBaseGasPrice + ai_Bits op args))
           (interpretOpcode (ai_Interpret op args)) s1)"

definition executeObjOpcode :: "obj_op \<Rightarrow> unit vm" where
  "executeObjOpcode op = (\<lambda>s.
     case oo_Deserialize op s of
       ((Some err, bits, _), s1) \<Rightarrow>
         seq (ConsumeGas (InstructionBaseGasPrice + bits)) (raise (normalizeOpcodeDeserializeError err)) s1
     | ((None, bits, body), s1) \<Rightarrow>
         seq (ConsumeGas (InstructionBaseGasPrice + bits)) (interpretOpcode body) s1)"

definition executeEntry :: "dispatch_entry \<Rightarrow> unit vm" where
  "executeEntry e = (case e of EntryArg op \<Rightarrow> executeArgOpcode op | EntryGet op \<Rightarrow> executeObjOpcode op)"

end
