(* ===== verification/Vm_Run.thy ===== *)
theory Vm_Run
  imports Vm_Op
begin

section \<open>The run loop\<close>

text \<open>
  The step and run functions of \<^verbatim>\<open>src/tvm/vm.go\<close>.  \<open>execute\<close> is the unbounded loop of the source as a partial function:
  no result means that it does not return.  Vm_Gas_Safe and Vm_Live show that it does from global
  version 4 on: every step pays at least five units of gas, and no instruction of a well-behaved table gives gas back.
\<close>

subsection \<open>Steps\<close>

definition historicallyAbsent :: "vm_state \<Rightarrow> bool" where
  "historicallyAbsent s \<longleftrightarrow>
     st_GlobalVersion s = 0 \<and> (h_NoPRNG (st_Historical s) \<or> h_NoBLKDROP2 (st_Historical s)) \<and>
     (let bits = min (BitsLeft (st_CurrentCode s)) 16;
          prefix = uintOf (take bits (sliceBits (st_CurrentCode s))) * 2 ^ (16 - bits)
      in (h_NoBLKDROP2 (st_Historical s) \<and> prefix div 256 = 0x6c) \<or>
         (h_NoPRNG (st_Historical s) \<and> prefix \<in> {0xf810, 0xf811, 0xf814, 0xf815}))"

definition stepWithDispatch :: "dispatch_entry opcode_dispatch \<Rightarrow> unit vm" where
  "stepWithDispatch dispatch = bnd getS (\<lambda>s.
     case (if historicallyAbsent s then None else matchOpcode dispatch (st_CurrentCode s)) of
       None \<Rightarrow> seq (ConsumeGas InstructionBaseGasPrice) (raise (VMError CodeInvalidOpcode))
     | Some entry \<Rightarrow> executeEntry entry)"

definition countStep :: "unit vm" where
  "countStep = modifyS (\<lambda>s. s\<lparr>st_Steps := st_Steps s + 1\<rparr>)"

definition implicitCharge :: "int \<Rightarrow> unit vm" where
  "implicitCharge price = bnd getS (\<lambda>s.
     if st_GlobalVersion s \<noteq> 0 \<or> h_GasSchedule (st_Historical s) = GasScheduleModern
     then onGas (Consume price) else ret ())"

definition stepAnyWithDispatch :: "dispatch_entry opcode_dispatch \<Rightarrow> unit vm" where
  "stepAnyWithDispatch dispatch = bnd getS (\<lambda>s.
     if BitsLeft (st_CurrentCode s) > 0 then seq countStep (stepWithDispatch dispatch)
     else if RefsNum (st_CurrentCode s) > 0
     then seq countStep (seq (implicitCharge ImplicitJmprefGasPrice)
            (bnd CellsLoadRef (\<lambda>cc. JumpToCode cc (st_CP s))))
     else seq countStep (seq (implicitCharge ImplicitRetGasPrice) (Return None)))"

definition outOfGasExit :: "go_error \<Rightarrow> vm_state \<Rightarrow> bool \<times> (go_error option) \<times> vm_state" where
  "outOfGasExit err s =
     (case HandleOutOfGas (s\<lparr>st_Steps := st_Steps s + 1\<rparr>) of
        (Inl stackErr, s1) \<Rightarrow> (False, Some stackErr, s1)
      | (Inr _, s1) \<Rightarrow> (False, Some err, s1))"

text \<open>Whether the loop goes on, the error it stops with otherwise, and the state.\<close>

definition handleStepError :: "go_error \<Rightarrow> vm_state \<Rightarrow> bool \<times> (go_error option) \<times> vm_state" where
  "handleStepError err s =
     (if IsHandledException err then (False, Some err, s)
      else if err = ErrStopOnAccept then (False, None, s)
      else case AsVMError err of
        Some code \<Rightarrow>
          if code = CodeOutOfGas then outOfGasExit err s
          else if \<not> IsNullContinuation (regC (st_Reg s) 2) \<and> \<not> IsSuccessExitCode code
          then (case ThrowException code [] (s\<lparr>st_Steps := st_Steps s + 1\<rparr>) of
                  (Inr _, s1) \<Rightarrow> (True, None, s1)
                | (Inl err1, s1) \<Rightarrow>
                    if AsVMError err1 = Some CodeOutOfGas then outOfGasExit err1 s1
                    else (False, Some err1, s1))
          else (False, Some err, s)
      | None \<Rightarrow> (False, Some err, s))"

definition afterStep :: "(go_error + unit) \<times> vm_state \<Rightarrow> (go_error + unit) \<times> vm_state" where
  "afterStep p =
     (case p of (r, s) \<Rightarrow>
        if st_GlobalVersion s < 4 \<and> (case r of Inr _ \<Rightarrow> True | Inl e \<Rightarrow> IsHandledException e)
        then (case CheckGas s of (Inl gasErr, s1) \<Rightarrow> (Inl gasErr, s1) | (Inr _, s1) \<Rightarrow> (r, s1))
        else (r, s))"

partial_function (option) execute ::
    "dispatch_entry opcode_dispatch \<Rightarrow> vm_state \<Rightarrow> (go_error option \<times> vm_state) option" where
  "execute dispatch s =
     (case afterStep (stepAnyWithDispatch dispatch s) of
        (Inr _, s1) \<Rightarrow> execute dispatch s1
      | (Inl err, s1) \<Rightarrow>
          (case handleStepError err s1 of
             (retry, r, s2) \<Rightarrow> if retry then execute dispatch s2 else Some (r, s2)))"

text \<open>
  \<open>runState\<close>: the exit code, the error and the final state.  A Go panic inside the machine is
  recovered here and reported as a fatal error.
\<close>

definition invertCode :: "int \<Rightarrow> int" where
  "invertCode code = - code - 1"

definition finishRun :: "int \<Rightarrow> vm_state \<Rightarrow> int \<times> go_error option \<times> vm_state" where
  "finishRun exitCode s =
     (case TryCommitCurrent s of
        (Inr True, s1) \<Rightarrow> (exitCode, None, s1)
      | (_, s1) \<Rightarrow>
          (case seq (onStack Clear) (onStack (PushSmallInt 0)) s1 of
             (Inl e, s2) \<Rightarrow> (0, Some e, s2)
           | (Inr _, s2) \<Rightarrow> (CodeCellOverflow, Some (VMError CodeCellOverflow), s2)))"

definition runState :: "dispatch_entry opcode_dispatch \<Rightarrow> vm_state \<Rightarrow> (int \<times> go_error option \<times> vm_state) option" where
  "runState dispatch s =
     (case execute dispatch s of
        None \<Rightarrow> None
      | Some (None, s1) \<Rightarrow> Some (finishRun 0 s1)
      | Some (Some err, s1) \<Rightarrow>
          (if err = GoPanic then Some (CodeFatal, Some err, s1)
           else case ErrorCode err of
             None \<Rightarrow> Some (0, Some err, s1)
           | Some code \<Rightarrow>
               let exitCode = (if code = CodeOutOfGas \<and> \<not> IsHandledException err then invertCode code
                               else if code = CodeVirtualization \<and> err = VirtualizationError then invertCode code
                               else code)
               in if \<not> IsSuccessExitCode exitCode then Some (exitCode, Some err, s1)
                  else Some (finishRun exitCode s1)))"

end
