(* ===== verification/Vm_Gas_Safe.thy ===== *)
theory Vm_Gas_Safe
  imports Vm_Run
begin

section \<open>Gas only goes down\<close>

text \<open>
  What the run loop needs of an operation: the gas used never shrinks, the limits stay in range, and
  unless the operation failed for lack of gas the remaining gas is still not negative.  From global
  version 4 on every charge is checked at once, so a charge never starts from a negative balance and
  the \<open>int64\<close> arithmetic of the counters cannot wrap.  The rules are compositional and
  collected in \<open>gas_intros\<close>; the primitive operations are in \<open>gas_safe\<close>.
  \<open>gasU\<close> is the gas used, \<open>gasTop\<close> the larger of the base and the maximum, which bounds every limit the machine can be given.
\<close>

named_theorems gas_intros \<open>compositional rules for gas safety\<close>
named_theorems gas_safe \<open>operations that are gas safe\<close>

definition gasU :: "vm_state \<Rightarrow> int" where
  "gasU s = g_Base (st_Gas s) - g_Remaining (st_Gas s)"

definition gasTop :: "vm_state \<Rightarrow> int" where
  "gasTop s = max (g_Base (st_Gas s)) (g_Max (st_Gas s))"

definition gas_range :: "vm_state \<Rightarrow> bool" where
  "gas_range s \<longleftrightarrow> 0 \<le> g_Base (st_Gas s) \<and> 0 \<le> g_Max (st_Gas s) \<and> gasTop s < 2 ^ 63 \<and>
     is_int64 (g_Remaining (st_Gas s)) \<and> 0 \<le> gasU s"

definition gas_live :: "vm_state \<Rightarrow> bool" where
  "gas_live s \<longleftrightarrow> 4 \<le> st_GlobalVersion s \<and> st_pendingErr s = None \<and> gas_range s \<and> 0 \<le> g_Remaining (st_Gas s)"

definition gas_le :: "vm_state \<Rightarrow> vm_state \<Rightarrow> bool" where
  "gas_le s t \<longleftrightarrow> st_GlobalVersion t = st_GlobalVersion s \<and> st_pendingErr t \<in> {None, Some errOutOfGas} \<and>
     gas_range t \<and> gasU s \<le> gasU t \<and> gasTop t \<le> gasTop s"

definition gsafe :: "'a vm \<Rightarrow> bool" where
  "gsafe m \<longleftrightarrow> (\<forall>s. gas_live s \<longrightarrow>
     gas_le s (snd (m s)) \<and> (fst (m s) = Inl errOutOfGas \<or> gas_live (snd (m s))))"

text \<open>
  The body of an instruction may end with a negative balance when it succeeds (lowering the limit); the
  check after the instruction catches that.
\<close>

definition gbody :: "unit vm \<Rightarrow> bool" where
  "gbody m \<longleftrightarrow> (\<forall>s. gas_live s \<longrightarrow>
     gas_le s (snd (m s)) \<and>
     (fst (m s) \<in> {Inl errOutOfGas, Inr (), Inl ErrStopOnAccept} \<or> gas_live (snd (m s))) \<and>
     (fst (m s) \<in> {Inr (), Inl ErrStopOnAccept} \<longrightarrow> st_pendingErr (snd (m s)) = None))"

text \<open>Parts of the state that gas safety does not look at.\<close>

definition gas_same :: "vm_state \<Rightarrow> vm_state \<Rightarrow> bool" where
  "gas_same s t \<longleftrightarrow> st_Gas t = st_Gas s \<and> st_GlobalVersion t = st_GlobalVersion s \<and> st_pendingErr t = st_pendingErr s"

lemma gas_le_refl: "gas_live s \<Longrightarrow> gas_le s s"
  by (simp add: gas_live_def gas_le_def)

lemma gas_le_trans: "gas_le s t \<Longrightarrow> gas_le t u \<Longrightarrow> gas_le s u"
  by (auto simp: gas_le_def)

lemma gas_same_live: "gas_same s t \<Longrightarrow> gas_live t = gas_live s"
  by (simp add: gas_same_def gas_live_def gas_range_def gasU_def gasTop_def)

lemma gas_same_le: "gas_same s t \<Longrightarrow> gas_live s \<Longrightarrow> gas_le s t"
  by (auto simp: gas_same_def gas_le_def gas_live_def gas_range_def gasU_def gasTop_def)

lemma gsafeI_same: "(\<And>s. gas_same s (snd (m s))) \<Longrightarrow> gsafe m"
  unfolding gsafe_def using gas_same_le gas_same_live by blast

lemma gsafeD: "gsafe m \<Longrightarrow> gas_live s \<Longrightarrow> gas_le s (snd (m s))"
  and gsafeD_live: "gsafe m \<Longrightarrow> gas_live s \<Longrightarrow> fst (m s) \<noteq> Inl errOutOfGas \<Longrightarrow> gas_live (snd (m s))"
  by (auto simp: gsafe_def)

subsection \<open>Composition\<close>

lemma gsafe_ret [gas_intros]: "gsafe (ret x)"
  and gsafe_raise [gas_intros]: "gsafe (raise e)"
  and gsafe_lift_sum [gas_intros]: "gsafe (lift_sum r)"
  and gsafe_getS [gas_intros]: "gsafe getS"
  by (rule gsafeI_same, simp add: gas_same_def)+

lemma gsafe_Pair [gas_intros]: "gsafe (Pair r)"
  by (rule gsafeI_same) (simp add: gas_same_def)

lemma gsafe_bnd [gas_intros]:
  assumes "gsafe m" "\<And>x. gsafe (f x)" shows "gsafe (bnd m f)"
  unfolding gsafe_def
proof (intro allI impI, goal_cases)
  case (1 s)
  obtain r t where m: "m s = (r, t)" by fastforce
  from assms(1) 1 m have le: "gas_le s t" "r = Inl errOutOfGas \<or> gas_live t" by (auto simp: gsafe_def)
  show ?case
  proof (cases r)
    case (Inl e) then show ?thesis using le m by (simp add: bnd_apply)
  next
    case (Inr x)
    then have "gas_live t" using le by simp
    then have "gas_le t (snd (f x t))" "fst (f x t) = Inl errOutOfGas \<or> gas_live (snd (f x t))"
      using assms(2) [of x] by (auto simp: gsafe_def)
    then show ?thesis using Inr m le gas_le_trans by (simp add: bnd_apply)
  qed
qed

lemma gsafe_seq [gas_intros]: "gsafe m \<Longrightarrow> gsafe k \<Longrightarrow> gsafe (seq m k)"
  unfolding seq_def by (rule gsafe_bnd)

lemma gsafe_if [gas_intros]: "(b \<Longrightarrow> gsafe m) \<Longrightarrow> (\<not> b \<Longrightarrow> gsafe k) \<Longrightarrow> gsafe (if b then m else k)"
  by simp

lemma gsafe_option [gas_intros]:
  "(x = None \<Longrightarrow> gsafe m) \<Longrightarrow> (\<And>y. x = Some y \<Longrightarrow> gsafe (f y)) \<Longrightarrow> gsafe (case x of None \<Rightarrow> m | Some y \<Rightarrow> f y)"
  by (cases x) auto

lemma gsafe_sum [gas_intros]:
  "(\<And>y. x = Inl y \<Longrightarrow> gsafe (f y)) \<Longrightarrow> (\<And>y. x = Inr y \<Longrightarrow> gsafe (g y)) \<Longrightarrow> gsafe (case x of Inl y \<Rightarrow> f y | Inr y \<Rightarrow> g y)"
  by (cases x) auto

lemma gsafe_prod [gas_intros]: "(\<And>a b. x = (a, b) \<Longrightarrow> gsafe (f a b)) \<Longrightarrow> gsafe (case x of (a, b) \<Rightarrow> f a b)"
  by (cases x) auto

lemma gsafe_list [gas_intros]:
  "(x = [] \<Longrightarrow> gsafe m) \<Longrightarrow> (\<And>y ys. x = y # ys \<Longrightarrow> gsafe (f y ys)) \<Longrightarrow> gsafe (case x of [] \<Rightarrow> m | y # ys \<Rightarrow> f y ys)"
  by (cases x) auto

lemma gsafe_value [gas_intros]:
  assumes "x = VNull \<Longrightarrow> gsafe a" "x = VNaN \<Longrightarrow> gsafe b" "\<And>i. x = VInt i \<Longrightarrow> gsafe (c i)"
    "\<And>i. x = VCell i \<Longrightarrow> gsafe (d i)" "\<And>i. x = VSlice i \<Longrightarrow> gsafe (e i)" "\<And>i. x = VBuilder i \<Longrightarrow> gsafe (f i)"
    "\<And>i. x = VTuple i \<Longrightarrow> gsafe (g i)" "\<And>i. x = VCont i \<Longrightarrow> gsafe (h i)"
  shows "gsafe (case x of VNull \<Rightarrow> a | VNaN \<Rightarrow> b | VInt i \<Rightarrow> c i | VCell i \<Rightarrow> d i | VSlice i \<Rightarrow> e i
     | VBuilder i \<Rightarrow> f i | VTuple i \<Rightarrow> g i | VCont i \<Rightarrow> h i)"
  using assms by (cases x) auto

lemma gsafe_Let [gas_intros]: "(\<And>y. gsafe (f y)) \<Longrightarrow> gsafe (Let x f)"
  by (simp add: Let_def)

lemma gsafe_modifyS [gas_intros]: "(\<And>s. gas_same s (f s)) \<Longrightarrow> gsafe (modifyS f)"
  by (rule gsafeI_same) simp

lemma gsafe_repeat [gas_intros]: "gsafe m \<Longrightarrow> gsafe (repeat_act n m)"
  by (induction n) (simp_all add: gas_intros)

lemma gsafe_for_each [gas_intros]: "(\<And>x. gsafe (f x)) \<Longrightarrow> gsafe (for_each xs f)"
  by (induction xs) (simp_all add: gas_intros)

lemma gas_same_upd [simp]:
  "gas_same s (s\<lparr>st_Stack := a\<rparr>)" "gas_same s (s\<lparr>st_Reg := b\<rparr>)" "gas_same s (s\<lparr>st_CurrentCode := c\<rparr>)"
  "gas_same s (s\<lparr>st_CP := cp\<rparr>)" "gas_same s (s\<lparr>st_Steps := n\<rparr>)" "gas_same s (s\<lparr>st_loaded := ld\<rparr>)"
  "gas_same s (s\<lparr>st_Committed := cm\<rparr>)" "gas_same s s" "gas_same s (s\<lparr>st_Stack := a, st_Reg := b\<rparr>)"
  by (simp_all add: gas_same_def)

lemma gsafe_onStack [gas_safe]: "gsafe (onStack m)"
  by (rule gsafeI_same) (auto simp: gas_same_def lift_field_apply split: prod.splits)

lemma gsafe_onCode [gas_safe]: "gsafe (onCode m)"
  by (rule gsafeI_same) (auto simp: gas_same_def lift_field_apply split: prod.splits)

subsection \<open>Charging\<close>

lemma gas_live_charge:
  assumes "gas_live s" "0 \<le> n" "n < 2 ^ 63"
  defines "t \<equiv> s\<lparr>st_Gas := (st_Gas s)\<lparr>g_Remaining := g_Remaining (st_Gas s) - n\<rparr>\<rparr>"
  shows "wrap64 (g_Remaining (st_Gas s) - n) = g_Remaining (st_Gas s) - n" "gas_le s t" "gasU t = gasU s + n"
    "n \<le> g_Remaining (st_Gas s) \<Longrightarrow> gas_live t"
proof -
  have "is_int64 (g_Remaining (st_Gas s) - n)"
    using assms(1-3) by (simp add: gas_live_def gas_range_def is_int64_def)
  then show "wrap64 (g_Remaining (st_Gas s) - n) = g_Remaining (st_Gas s) - n" by (rule wrap64_id)
  show "gas_le s t" "gasU t = gasU s + n" "n \<le> g_Remaining (st_Gas s) \<Longrightarrow> gas_live t"
    using assms(1,2) \<open>is_int64 (g_Remaining (st_Gas s) - n)\<close>
    by (simp_all add: t_def gas_le_def gas_live_def gas_range_def gasU_def gasTop_def)
qed

lemma Consume_live:
  assumes "gas_live s" "0 \<le> n" "n < 2 ^ 63"
  shows "onGas (Consume n) s = (if n \<le> g_Remaining (st_Gas s) then Inr () else Inl errOutOfGas,
    s\<lparr>st_Gas := (st_Gas s)\<lparr>g_Remaining := g_Remaining (st_Gas s) - n\<rparr>\<rparr>)"
  using assms(2) gas_live_charge(1) [OF assms] by (simp add: lift_field_apply Consume_def act_simps)

lemma ConsumeGas_live:
  assumes "gas_live s"
  shows "ConsumeGas n s = onGas (Consume n) s"
  using assms by (simp add: ConsumeGas_def checkGasOnConsume_def gas_live_def bnd_apply)

lemma gsafe_Consume [gas_safe]:
  assumes "n < 2 ^ 63" shows "gsafe (onGas (Consume n))"
  unfolding gsafe_def
proof (intro allI impI, goal_cases)
  case (1 s)
  show ?case
  proof (cases "n < 0")
    case True
    then show ?thesis using 1 by (simp add: Consume_def act_simps gas_le_refl)
  next
    case False
    then show ?thesis using 1 assms gas_live_charge [of s n] by (auto simp: Consume_live)
  qed
qed

lemma gsafe_ConsumeGas [gas_safe]: "n < 2 ^ 63 \<Longrightarrow> gsafe (ConsumeGas n)"
  using gsafe_Consume [of n] by (simp add: gsafe_def ConsumeGas_live)

lemma gsafe_consumeGasChecked [gas_safe]: "n < 2 ^ 63 \<Longrightarrow> gsafe (consumeGasChecked n)"
  unfolding consumeGasChecked_def by (rule gsafe_Consume)

lemma gsafe_CheckGas [gas_safe]: "gsafe CheckGas"
  by (auto simp: gsafe_def CheckGas_def Check_def act_simps gas_live_def [of "_ :: vm_state"] gas_le_refl
      intro!: gas_le_refl)

lemma gsafe_pendingCheck [gas_safe]: "gsafe pendingCheck"
  unfolding pendingCheck_def by (intro gas_intros)

lemma gsafe_latchError:
  assumes "gsafe m" "\<And>s e. gas_live s \<Longrightarrow> fst (m s) = Inl e \<Longrightarrow> e = errOutOfGas"
  shows "gsafe (latchError m)"
  unfolding gsafe_def
proof (intro allI impI, goal_cases)
  case (1 s)
  obtain r t where m: "m s = (r, t)" by fastforce
  from assms(1) 1 m have le: "gas_le s t" "r = Inl errOutOfGas \<or> gas_live t" by (auto simp: gsafe_def)
  have p: "st_pendingErr s = None" using 1 by (simp add: gas_live_def)
  show ?case
    using le m p assms(2) [OF 1]
    by (cases r) (auto simp: latchError_def pendingCheck_def act_simps gas_le_def gas_range_def gasU_def gasTop_def)
qed

lemma wrap64_less: "wrap64 x < 2 ^ 63"
  using wrap64_range [of x] by (simp add: is_int64_def)

lemma gsafe_ConsumeStackGas [gas_safe]: "gsafe (ConsumeStackGas stk)"
  unfolding ConsumeStackGas_def ConsumeStackGasLen_def Let_def gas_price_defs
  using wrap64_less [of "slen stk"] by (intro gsafe_ConsumeGas) auto

lemma gsafe_ConsumeTupleGasLen [gas_safe]: "gsafe (ConsumeTupleGasLen n)"
  unfolding ConsumeTupleGasLen_def gas_price_defs using wrap64_less [of n] by (auto intro!: gas_intros gas_safe)

lemma gsafe_PushTupleCharged [gas_safe]: "gsafe (PushTupleCharged t)"
  unfolding PushTupleCharged_def by (intro gas_intros gas_safe)

lemma ConsumeGas_error:
  assumes "gas_live s" "0 \<le> n" "n < 2 ^ 63" "fst (ConsumeGas n s) = Inl e"
  shows "e = errOutOfGas"
  using assms by (auto simp: ConsumeGas_live Consume_live split: if_splits)

lemma gsafe_RegisterCellLoad [gas_safe]: "gsafe (RegisterCellLoad c)"
  unfolding RegisterCellLoad_def Let_def gas_price_defs
  by (intro gas_intros gas_safe) (auto simp: case_prod_beta intro!: gas_intros gas_safe)

lemma RegisterCellLoad_error:
  assumes "gas_live s" "fst (RegisterCellLoad c s) = Inl e"
  shows "e = errOutOfGas"
proof -
  have "gas_live (s\<lparr>st_loaded := ld\<rparr>)" for ld using assms(1) gas_same_live [of s "s\<lparr>st_loaded := ld\<rparr>"] by simp
  then show ?thesis
    using assms(2) ConsumeGas_error [of "s\<lparr>st_loaded := snd (cls_add (Hash c) (st_loaded s))\<rparr>" 25 e]
      ConsumeGas_error [of "s\<lparr>st_loaded := snd (cls_add (Hash c) (st_loaded s))\<rparr>" 100 e]
    by (auto simp: RegisterCellLoad_def Let_def gas_price_defs act_simps case_prod_beta split: if_splits)
qed

lemma gsafe_OnLoadError [gas_safe]: "gsafe (OnLoadError c)"
  unfolding OnLoadError_def by (rule gsafe_latchError [OF gsafe_RegisterCellLoad RegisterCellLoad_error])

lemma gsafe_OnCreate [gas_safe]: "gsafe OnCreate"
  unfolding OnCreate_def RegisterCellCreate_def gas_price_defs
  by (rule gsafe_latchError [OF gsafe_ConsumeGas ConsumeGas_error]) simp_all

subsection \<open>State operations and control flow\<close>

lemma gsafe_beginParseLoadedCell [gas_safe]: "gsafe (beginParseLoadedCell c sp al)"
  unfolding beginParseLoadedCell_def beginParseWithGasTrace_def by (intro gas_intros gas_safe)

lemma gsafe_CellsBeginParse [gas_safe]: "gsafe (CellsBeginParse c)"
  and gsafe_CellsBeginParseAlreadyLoaded [gas_safe]: "gsafe (CellsBeginParseAlreadyLoaded c)"
  and gsafe_CellsBeginParseSpecial [gas_safe]: "gsafe (CellsBeginParseSpecial c)"
  unfolding CellsBeginParse_def CellsBeginParseAlreadyLoaded_def CellsBeginParseSpecial_def
  by (intro gas_intros gas_safe)+

lemma gsafe_CellsLoadRef [gas_safe]: "gsafe CellsLoadRef"
  unfolding CellsLoadRef_def by (intro gas_intros gas_safe) simp

lemma gsafe_SetC7 [gas_safe]: "gsafe (SetC7 t)"
  unfolding SetC7_def by (intro gas_intros gas_safe) simp

lemma gsafe_GetParam [gas_safe]: "gsafe (GetParam i)"
  and gsafe_GetUnpackedConfigTuple [gas_safe]: "gsafe GetUnpackedConfigTuple"
  and gsafe_GetGlobal [gas_safe]: "gsafe (GetGlobal i)"
  unfolding GetParam_def GetUnpackedConfigTuple_def GetGlobal_def by (intro gas_intros gas_safe)+

text \<open>An operation that tidies up parts of the state outside gas when it fails.\<close>

lemma gsafe_cleanup:
  assumes "gsafe m" "\<And>s. gas_same s (f s)" "\<And>x. gsafe (k x)"
  shows "gsafe (\<lambda>s. case m s of (Inl e, t) \<Rightarrow> (Inl e, f t) | (Inr x, t) \<Rightarrow> k x t)"
  unfolding gsafe_def
proof (intro allI impI, goal_cases)
  case (1 s)
  obtain r t where m: "m s = (r, t)" by fastforce
  from assms(1) 1 m have le: "gas_le s t" "r = Inl errOutOfGas \<or> gas_live t" by (auto simp: gsafe_def)
  show ?case
  proof (cases r)
    case (Inl e)
    have "gas_le s (f t)"
      using le(1) assms(2) [of t] by (auto simp: gas_le_def gas_same_def gas_range_def gasU_def gasTop_def)
    then show ?thesis using le m Inl gas_same_live [OF assms(2), of t] by auto
  next
    case (Inr x)
    then have "gas_live t" using le by simp
    then show ?thesis using Inr m le assms(3) [of x] gas_le_trans by (auto simp: gsafe_def)
  qed
qed

lemma gsafe_SetGlobal [gas_safe]: "gsafe (SetGlobal i v)"
proof -
  have "gas_same s (snd (SetC7 (NewTupleValue []) s))" for s
    by (simp add: SetC7_def NewTupleValue_def)
  then show ?thesis
    unfolding SetGlobal_def Let_def by (intro gas_intros gsafe_cleanup gas_safe)
qed

lemma gsafe_setStateC [gas_safe]: "gsafe (setStateC i c)"
  and gsafe_adjustRegs [gas_safe]: "gsafe (adjustRegs r)"
  and gsafe_adoptCurrentCode [gas_safe]: "gsafe (adoptCurrentCode code)"
  unfolding setStateC_def adjustRegs_def adoptCurrentCode_def by (intro gas_intros; simp)+

lemma gsafe_forceContinuationCodepage [gas_safe]: "gsafe (forceContinuationCodepage cp)"
  unfolding forceContinuationCodepage_def by (intro gas_intros) simp

lemma gsafe_applyContinuationCodepage [gas_safe]: "gsafe (applyContinuationCodepage cp)"
  unfolding applyContinuationCodepage_def by (intro gas_intros gas_safe)

lemma gsafe_excQuitJump [gas_safe]: "gsafe excQuitJump"
  by (rule gsafeI_same) (auto simp: excQuitJump_def gas_same_def lift_field_apply split: prod.splits sum.splits)

lemma gsafe_cont_Jump [gas_safe]: "gsafe (cont_Jump c)"
  by (cases c) (auto simp: jump_defs intro!: gas_intros gas_safe)

lemma gsafe_moveTopOnto [gas_safe]: "gsafe (moveTopOnto b n)"
  unfolding moveTopOnto_def by (intro gas_intros) simp_all

lemma gsafe_splitCallStack [gas_safe]: "gsafe (splitCallStack cp sk)"
  unfolding splitCallStack_def by (intro gas_intros gas_safe)

lemma gsafe_buildCallStack [gas_safe]: "gsafe (buildCallStack p)"
  unfolding buildCallStack_def Let_def by (intro gas_intros gas_safe)

lemma gsafe_keepTopCharged [gas_safe]: "gsafe (keepTopCharged n)"
  unfolding keepTopCharged_def by (intro gas_intros gas_safe)

lemma gsafe_applyJumpStack [gas_safe]: "gsafe (applyJumpStack p)"
  unfolding applyJumpStack_def Let_def by (intro gas_intros gas_safe) simp_all

lemma gas_same_preclear [simp]: "gas_same s (preclear r s)"
  by (simp add: preclear_def)

lemma gsafe_adjustJumpCont [gas_safe]: "gsafe (adjustJumpCont c n)"
proof -
  have same: "gas_same s (case d of None \<Rightarrow> s | Some d \<Rightarrow> preclear (cd_Save d) s)" for s d
    by (simp split: option.splits)
  have "gsafe (\<lambda>st. case applyJumpStack plan st of
      (Inl e, st1) \<Rightarrow> (Inl e, case pl_data plan of None \<Rightarrow> st1 | Some d \<Rightarrow> preclear (cd_Save d) st1)
    | (Inr _, st1) \<Rightarrow> (Inr (), st1))" for plan
    by (rule gsafe_cleanup [OF gsafe_applyJumpStack same gsafe_ret, unfolded ret_def])
  then show ?thesis unfolding adjustJumpCont_def by (intro gas_intros gas_safe)
qed

lemma gsafe_nestedJumpCharge [gas_safe]: "gsafe (nestedJumpCharge n)"
  unfolding nestedJumpCharge_def by (intro gas_intros gas_safe) simp

lemma gsafe_adjustNext [gas_safe]: "gsafe (adjustNext c)"
  unfolding adjustNext_def by (intro gas_intros gas_safe)

lemma JumpTo_loop_seq:
  "JumpTo_loop iter c = (\<lambda>s. case cont_Jump c s of
     (Inl e, s1) \<Rightarrow> (if \<not> IsHandledException e then raise e else seq (nestedJumpCharge (iter + 1)) (raise e)) s1
   | (Inr next, s1) \<Rightarrow> seq (nestedJumpCharge (iter + 1)) (case next of
        None \<Rightarrow> ret () | Some c' \<Rightarrow> seq (adjustNext c') (JumpTo_loop (iter + 1) c')) s1)"
  by (rule ext, subst JumpTo_loop.simps) (auto simp: act_simps split: prod.splits sum.splits option.splits)

lemma gsafe_catch:
  assumes "gsafe m" "\<And>e. gsafe (A e)" "A errOutOfGas = raise errOutOfGas" "\<And>s x t. m s = (Inr x, t) \<Longrightarrow> gsafe (B x)"
  shows "gsafe (\<lambda>s. case m s of (Inl e, t) \<Rightarrow> A e t | (Inr x, t) \<Rightarrow> B x t)"
  unfolding gsafe_def
proof (intro allI impI, goal_cases)
  case (1 s)
  obtain r t where m: "m s = (r, t)" by fastforce
  from assms(1) 1 m have le: "gas_le s t" "r = Inl errOutOfGas \<or> gas_live t" by (auto simp: gsafe_def)
  show ?case
  proof (cases r)
    case (Inl e)
    then show ?thesis
      using le m assms(2) [of e] assms(3) gas_le_trans [OF le(1)] by (cases "gas_live t") (auto simp: gsafe_def)
  next
    case (Inr x)
    then show ?thesis using le m assms(4) [of s x t] gas_le_trans [OF le(1)] by (auto simp: gsafe_def)
  qed
qed

lemma gsafe_JumpTo_loop: "gsafe (JumpTo_loop iter c)"
proof (induction c arbitrary: iter rule: measure_induct_rule [of size])
  case (less c)
  show ?case
    unfolding JumpTo_loop_seq [of iter c]
  proof (rule gsafe_catch, goal_cases)
    case (4 s x t)
    then show ?case using less.IH cont_Jump_size [of c s]
      by (cases x) (auto intro!: gas_intros gas_safe)
  qed (auto intro!: gas_intros gas_safe)
qed

lemma gsafe_JumpTo [gas_safe]: "gsafe (JumpTo c)"
  unfolding JumpTo_def by (rule gsafe_JumpTo_loop)

lemma gsafe_JumpArgs [gas_safe]: "gsafe (JumpArgs c n)"
  unfolding JumpArgs_def by (intro gas_intros gas_safe)

lemma gsafe_Jump [gas_safe]: "gsafe (Jump c)"
  unfolding Jump_def by (intro gas_intros gas_safe)

lemma gsafe_JumpToCode [gas_safe]: "gsafe (JumpToCode code cp)"
  unfolding JumpToCode_def by (intro gas_intros gas_safe)

lemma gsafe_modify_then: "(\<And>s. gas_same s (f s)) \<Longrightarrow> gsafe m \<Longrightarrow> gsafe (\<lambda>s. m (f s))"
  using gas_same_live gas_same_le gas_le_trans unfolding gsafe_def by metis

lemma gsafe_CallArgs [gas_safe]: "gsafe (CallArgs c p r)"
proof -
  have "gsafe (\<lambda>st. case buildCallStack plan st of
      (Inl e, st1) \<Rightarrow> (Inl e, case GetControlData c of None \<Rightarrow> st1
         | Some d \<Rightarrow> preclear (cd_Save d) (st1\<lparr>st_Reg := setC 0 None (st_Reg st1)\<rparr>))
    | (Inr (newStack, left), st1) \<Rightarrow> JumpTo c (st1\<lparr>st_Stack := newStack,
         st_Reg := setC 0 (Some (OrdinaryCont (ControlData (saveOnlyC0 (regC (st_Reg s) 0)) left r (st_CP st1))
           (st_CurrentCode st1))) (st_Reg st1)\<rparr>))" for plan s
  proof -
    have "gsafe (\<lambda>st. case buildCallStack plan st of
      (Inl e, st1) \<Rightarrow> (Inl e, case GetControlData c of None \<Rightarrow> st1
         | Some d \<Rightarrow> preclear (cd_Save d) (st1\<lparr>st_Reg := setC 0 None (st_Reg st1)\<rparr>))
    | (Inr x, st1) \<Rightarrow> (\<lambda>st1. JumpTo c (st1\<lparr>st_Stack := fst x,
         st_Reg := setC 0 (Some (OrdinaryCont (ControlData (saveOnlyC0 (regC (st_Reg s) 0)) (snd x) r (st_CP st1))
           (st_CurrentCode st1))) (st_Reg st1)\<rparr>)) st1)"
      by (rule gsafe_cleanup [OF gsafe_buildCallStack])
        (auto simp: gas_same_def preclear_def split: option.splits intro!: gsafe_modify_then gas_safe)
    then show ?thesis by (simp add: case_prod_beta cong: sum.case_cong)
  qed
  then show ?thesis unfolding CallArgs_def by (intro gas_intros gas_safe)
qed

lemma gsafe_Call [gas_safe]: "gsafe (Call c)"
  unfolding Call_def by (intro gas_intros gas_safe)

lemma gsafe_returnTo [gas_safe]: "gsafe (returnTo i code args)"
  unfolding returnTo_def jumpOpt_def Let_def by (intro gas_intros gas_safe)

lemma gsafe_Return [gas_safe]: "gsafe (Return args)" and gsafe_ReturnAlt [gas_safe]: "gsafe (ReturnAlt args)"
  unfolding Return_def ReturnAlt_def by (rule gsafe_returnTo)+

lemma gsafe_ThrowException [gas_safe]: "gsafe (ThrowException code args)"
  unfolding ThrowException_def jumpOpt_def gas_price_defs by (intro gas_intros gas_safe) simp_all

lemma gsafe_ExtractCurrentContinuation [gas_safe]: "gsafe (ExtractCurrentContinuation m n k)"
  unfolding ExtractCurrentContinuation_def Let_def by (intro gas_intros gas_safe) (auto simp: gas_same_def)

lemma gsafe_TryCommitCurrent [gas_safe]: "gsafe TryCommitCurrent"
  unfolding TryCommitCurrent_def Let_def by (intro gas_intros gas_safe) (auto simp: gas_same_def)

lemma gsafe_ForceCommitCurrent [gas_safe]: "gsafe ForceCommitCurrent"
  unfolding ForceCommitCurrent_def by (intro gas_intros gas_safe)

end
