(* ===== verification/Vm_Live.thy ===== *)
theory Vm_Live
  imports Vm_Gas_Safe
begin

section \<open>The machine stops and stays well formed\<close>

text \<open>
  The locale \<open>instruction_set\<close> is what the run loop asks of an opcode table: decoding does not touch gas, the
  charged length is a small non-negative number, bodies are gas safe and keep the machine well
  formed.  Under it the loop returns from every state that is \<open>gas_live\<close> (global version
  4 or later, no pending error, a balance that is not negative), and leaves a well-formed machine.
\<close>

subsection \<open>Bodies of instructions\<close>

lemma gbody_gsafe: "gsafe m \<Longrightarrow> gbody m"
  by (auto simp: gbody_def gsafe_def gas_live_def)

lemma gbody_bnd:
  assumes "gsafe m" "\<And>x. gbody (f x)" shows "gbody (bnd m f)"
  unfolding gbody_def
proof (intro allI impI, goal_cases)
  case (1 s)
  obtain r t where m: "m s = (r, t)" by fastforce
  from assms(1) 1 m have le: "gas_le s t" "r = Inl errOutOfGas \<or> gas_live t" by (auto simp: gsafe_def)
  show ?case
  proof (cases r)
    case (Inl e) then show ?thesis using le m by (auto simp: bnd_apply gas_live_def)
  next
    case (Inr x)
    then have "gas_live t" using le by simp
    with assms(2) [of x] show ?thesis using Inr m gas_le_trans [OF le(1)] by (simp add: gbody_def bnd_apply)
  qed
qed

lemma gbody_seq: "gsafe m \<Longrightarrow> gbody k \<Longrightarrow> gbody (seq m k)"
  unfolding seq_def by (rule gbody_bnd)

lemma gbody_if: "(b \<Longrightarrow> gbody m) \<Longrightarrow> (\<not> b \<Longrightarrow> gbody k) \<Longrightarrow> gbody (if b then m else k)"
  by simp

lemma Used_live: "gas_live s \<Longrightarrow> Used (st_Gas s) = gasU s"
  unfolding Used_def gasU_def by (rule wrap64_id) (auto simp: gas_live_def gas_range_def gasU_def gasTop_def is_int64_def)

lemma ChangeLimit_live:
  assumes "gas_live s" "gasU s \<le> limit"
  defines "l \<equiv> min limit (g_Max (st_Gas s))"
  shows "ChangeLimit limit (st_Gas s) = (st_Gas s)\<lparr>g_Credit := 0, g_Limit := l, g_Base := l, g_Remaining := l - gasU s\<rparr>"
proof -
  have d: "0 \<le> gasU s" "0 \<le> g_Remaining (st_Gas s)" "g_Base (st_Gas s) < 2 ^ 63" "0 \<le> g_Max (st_Gas s)"
      "g_Max (st_Gas s) < 2 ^ 63" "g_Remaining (st_Gas s) = g_Base (st_Gas s) - gasU s"
    using assms(1) by (auto simp: gas_live_def gas_range_def gasTop_def gasU_def)
  have l: "(if (if limit < 0 then 0 else limit) > g_Max (st_Gas s) then g_Max (st_Gas s)
      else (if limit < 0 then 0 else limit)) = l" "0 \<le> l" "l < 2 ^ 63"
    using assms(2) d by (auto simp: l_def)
  have "wrap64 (l - g_Base (st_Gas s)) = l - g_Base (st_Gas s)"
    using l(2,3) d by (intro wrap64_id) (simp add: is_int64_def)
  moreover have "wrap64 (g_Remaining (st_Gas s) + (l - g_Base (st_Gas s))) = l - gasU s"
    using l(2,3) d by (subst wrap64_id) (auto simp: is_int64_def)
  ultimately show ?thesis unfolding ChangeLimit_def ChangeBase_def Let_def l(1) by simp
qed

lemma gbody_SetGasLimit: "gbody (SetGasLimit limit)"
  unfolding gbody_def
proof (intro allI impI, goal_cases)
  case (1 s)
  show ?case
  proof (cases "limit < gasU s")
    case True
    then show ?thesis using 1 by (simp add: SetGasLimit_def act_simps Used_live gas_le_refl)
  next
    case False
    let ?t = "s\<lparr>st_Gas := ChangeLimit limit (st_Gas s)\<rparr>"
    have "gas_le s ?t" "st_pendingErr ?t = None"
      using 1 False ChangeLimit_live [of s limit]
      by (auto simp: gas_le_def gas_live_def gas_range_def gasU_def gasTop_def is_int64_def)
    then show ?thesis using 1 False by (auto simp: SetGasLimit_def act_simps Used_live)
  qed
qed

subsection \<open>One instruction pays\<close>

definition pays :: "int \<Rightarrow> 'a vm \<Rightarrow> bool" where
  "pays k m \<longleftrightarrow> gsafe m \<and> (\<forall>s. gas_live s \<longrightarrow> gasU s + k \<le> gasU (snd (m s)))"

lemma gas_le_U: "gas_le s t \<Longrightarrow> gasU s \<le> gasU t"
  by (simp add: gas_le_def)

lemma pays_seq:
  assumes "pays k m" "gsafe n" shows "pays k (seq m n)"
  unfolding pays_def
proof (intro conjI allI impI)
  show "gsafe (seq m n)" using assms by (simp add: pays_def gsafe_seq)
  fix s assume s: "gas_live s"
  obtain r t where m: "m s = (r, t)" by fastforce
  have "gasU s + k \<le> gasU t" "r = Inl errOutOfGas \<or> gas_live t" using assms(1) s m by (auto simp: pays_def gsafe_def)
  then show "gasU s + k \<le> gasU (snd (seq m n s))"
    using m gsafeD [OF assms(2), of t] gas_le_U [of t "snd (n t)"] by (cases r) (auto simp: seq_apply)
qed

lemma pays_mono: "pays k m \<Longrightarrow> j \<le> k \<Longrightarrow> pays j m"
  by (fastforce simp: pays_def)

lemma pays_after:
  assumes "\<And>s. gas_same s (f s)" "\<And>s. pays k (m s)"
  shows "pays k (\<lambda>s. m s (f s))"
proof -
  have "gas_le s (snd (m s (f s)))" if s: "gas_live s" for s
    using gas_le_trans [OF gas_same_le [OF assms(1) s] gsafeD [of "m s" "f s"]] assms(2) [of s] gas_same_live [OF assms(1), of s] s
    by (simp add: pays_def)
  moreover have "gasU s + k \<le> gasU (snd (m s (f s)))" if s: "gas_live s" for s
  proof -
    have "gas_live (f s)" "gasU (f s) = gasU s"
      using assms(1) [of s] gas_same_live [OF assms(1), of s] s by (auto simp: gas_same_def gasU_def)
    with assms(2) [of s] show ?thesis by (metis pays_def)
  qed
  ultimately show ?thesis
    using assms(2) gas_same_live [OF assms(1)] unfolding pays_def gsafe_def by auto
qed

lemma pays_Consume: "0 \<le> n \<Longrightarrow> n < 2 ^ 63 \<Longrightarrow> pays n (onGas (Consume n))"
  using gas_live_charge by (auto simp: pays_def gsafe_Consume Consume_live)

lemma pays_ConsumeGas: "0 \<le> n \<Longrightarrow> n < 2 ^ 63 \<Longrightarrow> pays n (ConsumeGas n)"
  using pays_Consume [of n] gsafe_ConsumeGas [of n] by (auto simp: pays_def ConsumeGas_live)

lemma gsafe_interpretOpcode:
  assumes "gbody run" shows "gsafe (interpretOpcode run)"
  unfolding gsafe_def
proof (intro allI impI, goal_cases)
  case (1 s)
  obtain r t where m: "run s = (r, t)" by fastforce
  note b = assms [unfolded gbody_def, rule_format, OF 1, unfolded m, simplified]
  have pre: "interpretOpcode run s = (case (r, t) of
      (Inl err, s1) \<Rightarrow>
        if err = GoPanic then (Inl GoPanic, s1)
        else (case st_pendingErr s1 of
                Some gasErr \<Rightarrow> (Inl gasErr, s1)
              | None \<Rightarrow> if err = ErrStopOnAccept
                  then (case onGas Check s1 of
                          (Inl gasErr, s2) \<Rightarrow> (Inl gasErr, s2)
                        | (Inr _, s2) \<Rightarrow> (Inl (normalizeCellError err), s2))
                  else (Inl (normalizeCellError err), s1))
    | (Inr _, s1) \<Rightarrow> CheckGas s1)"
    using 1 m by (simp add: interpretOpcode_def act_simps CheckGas_def Check_def gas_live_def)
  have live: "gas_live t" if "st_pendingErr t = None" "0 \<le> g_Remaining (st_Gas t)"
    using b 1 that by (auto simp: gas_live_def gas_le_def)
  have n: "normalizeCellError errOutOfGas = errOutOfGas" by (simp add: normalizeCellError_def)
  show ?case
  proof (cases r)
    case (Inr x)
    then show ?thesis using b pre live by (auto simp: CheckGas_def Check_def act_simps)
  next
    case (Inl e)
    consider "st_pendingErr t = Some errOutOfGas" | "st_pendingErr t = None" using b by (auto simp: gas_le_def)
    then show ?thesis
      using Inl b pre live n by cases (auto simp: Check_def act_simps)
  qed
qed

definition bits_ok :: "int \<Rightarrow> bool" where
  "bits_ok b \<longleftrightarrow> 0 \<le> b \<and> b < 2 ^ 62"

definition entry_gas_safe :: "dispatch_entry \<Rightarrow> bool" where
  "entry_gas_safe e \<longleftrightarrow> (case e of
     EntryArg op \<Rightarrow> (\<forall>s. gas_same s (snd (ai_Decode op s))) \<and> (\<forall>a. bits_ok (ai_Bits op a) \<and> gbody (ai_Interpret op a))
   | EntryGet op \<Rightarrow> (\<forall>s. gas_same s (snd (oo_Deserialize op s)) \<and>
       (case fst (oo_Deserialize op s) of (err, bits, body) \<Rightarrow> bits_ok bits \<and> gbody body)))"

lemma pays_instruction:
  assumes "bits_ok bits" "gsafe k" shows "pays 10 (seq (ConsumeGas (InstructionBaseGasPrice + bits)) k)"
  using assms by (intro pays_seq pays_mono [OF pays_ConsumeGas]) (auto simp: bits_ok_def gas_price_defs)

definition chargedBody :: "int \<Rightarrow> go_error option \<Rightarrow> unit vm \<Rightarrow> unit vm" where
  "chargedBody bits x body = seq (ConsumeGas (InstructionBaseGasPrice + bits))
     (case x of Some err \<Rightarrow> raise (normalizeOpcodeDeserializeError err) | None \<Rightarrow> interpretOpcode body)"

lemma pays_chargedBody: "bits_ok bits \<Longrightarrow> gbody body \<Longrightarrow> pays 10 (chargedBody bits x body)"
  unfolding chargedBody_def
  by (intro pays_instruction) (auto split: option.split intro: gsafe_interpretOpcode gsafe_raise)

lemma executeEntry_charged:
  "executeEntry (EntryArg op) = (\<lambda>s. chargedBody (ai_Bits op (fst (fst (ai_Decode op s))))
     (snd (fst (ai_Decode op s))) (ai_Interpret op (fst (fst (ai_Decode op s)))) (snd (ai_Decode op s)))"
  "executeEntry (EntryGet oo) = (\<lambda>s. chargedBody (fst (snd (fst (oo_Deserialize oo s))))
     (fst (fst (oo_Deserialize oo s))) (snd (snd (fst (oo_Deserialize oo s)))) (snd (oo_Deserialize oo s)))"
  by (rule ext; simp add: executeEntry_def executeArgOpcode_def executeObjOpcode_def chargedBody_def
      case_prod_beta split: option.split)+

lemma pays_executeEntry:
  assumes "entry_gas_safe e" shows "pays 10 (executeEntry e)"
proof (cases e)
  case (EntryArg op)
  show ?thesis unfolding EntryArg executeEntry_charged
    by (rule pays_after) (use assms EntryArg in \<open>auto simp: entry_gas_safe_def intro: pays_chargedBody\<close>)
next
  case (EntryGet op)
  show ?thesis unfolding EntryGet executeEntry_charged
    by (rule pays_after) (use assms EntryGet in \<open>auto simp: entry_gas_safe_def case_prod_beta intro: pays_chargedBody\<close>)
qed

subsection \<open>One step pays\<close>

definition entry_keeps_ok :: "dispatch_entry \<Rightarrow> bool" where
  "entry_keeps_ok e \<longleftrightarrow> (case e of
     EntryArg op \<Rightarrow> (\<forall>s. state_ok s \<longrightarrow> state_ok (snd (ai_Decode op s)) \<and> Vk (ai_Interpret op (fst (fst (ai_Decode op s)))) (\<lambda>_. True))
   | EntryGet op \<Rightarrow> (\<forall>s. state_ok s \<longrightarrow> state_ok (snd (oo_Deserialize op s)) \<and>
       Vk (snd (snd (fst (oo_Deserialize op s)))) (\<lambda>_. True)))"

definition live_table :: "dispatch_entry opcode_dispatch \<Rightarrow> bool" where
  "live_table d \<longleftrightarrow> (\<forall>code e. matchOpcode d code = Some e \<longrightarrow> entry_gas_safe e)"

lemma pays_bnd_getS: "(\<And>x. pays k (f x)) \<Longrightarrow> pays k (bnd getS f)"
  unfolding pays_def gsafe_def by (simp add: bnd_apply)

lemma pays_seq_safe:
  assumes "gsafe m" "\<And>s. gas_live s \<Longrightarrow> fst (m s) \<noteq> Inl errOutOfGas \<Longrightarrow> \<exists>x. fst (m s) = Inr x" "pays k n"
    "\<And>s. fst (m s) \<noteq> Inl errOutOfGas"
  shows "pays k (seq m n)"
  unfolding pays_def
proof (intro conjI allI impI)
  show "gsafe (seq m n)" using assms by (simp add: pays_def gsafe_seq)
  fix s assume s: "gas_live s"
  obtain r t where m: "m s = (r, t)" by fastforce
  obtain x where r: "r = Inr x" using assms(2) [OF s] assms(4) [of s] m by auto
  have t: "gas_live t" "gas_le s t" using assms(1) s m r by (auto simp: gsafe_def)
  have "gasU t + k \<le> gasU (snd (n t))" using assms(3) t(1) by (simp add: pays_def)
  then show "gasU s + k \<le> gasU (snd (seq m n s))" using m r gas_le_U [OF t(2)] by (simp add: seq_apply)
qed

lemma pays_countStep: "pays k n \<Longrightarrow> pays k (seq countStep n)"
  by (rule pays_seq_safe) (auto simp: countStep_def modifyS_def intro!: gsafeI_same)

lemma pays_stepWithDispatch: "live_table d \<Longrightarrow> pays 10 (stepWithDispatch d)"
  unfolding stepWithDispatch_def
  by (rule pays_bnd_getS)
    (auto simp: live_table_def gas_price_defs split: option.split if_splits
      intro!: pays_executeEntry pays_seq pays_mono [OF pays_ConsumeGas] gsafe_raise)

lemma pays_implicitCharge:
  assumes "0 \<le> n" "n < 2 ^ 63" shows "pays n (implicitCharge n)"
proof -
  have "implicitCharge n s = onGas (Consume n) s" if "gas_live s" for s
    using that by (simp add: implicitCharge_def bnd_apply gas_live_def)
  then show ?thesis using pays_Consume [OF assms] by (simp add: pays_def gsafe_def)
qed

lemma pays_step: "live_table d \<Longrightarrow> pays 5 (stepAnyWithDispatch d)"
  unfolding stepAnyWithDispatch_def
  by (intro pays_bnd_getS)
    (auto simp: gas_price_defs intro!: pays_countStep pays_seq pays_mono [OF pays_stepWithDispatch]
      pays_mono [OF pays_implicitCharge] gas_intros gas_safe)

lemma afterStep_live: "4 \<le> st_GlobalVersion (snd p) \<Longrightarrow> afterStep p = p"
  by (cases p) (simp add: afterStep_def)

lemma handleStepError_live:
  assumes "gas_live s" "handleStepError e s = (True, r, t)"
  shows "gas_live t" "gasU s \<le> gasU t" "gasTop t \<le> gasTop s"
proof -
  obtain code where "ThrowException code [] (s\<lparr>st_Steps := st_Steps s + 1\<rparr>) = (Inr (), t)"
    using assms(2) by (auto simp: handleStepError_def outOfGasExit_def split: option.splits if_splits sum.splits prod.splits)
  moreover have "gsafe (ThrowException code [])" by (intro gas_safe)
  moreover have "gas_live (s\<lparr>st_Steps := st_Steps s + 1\<rparr>)" "gasU (s\<lparr>st_Steps := st_Steps s + 1\<rparr>) = gasU s"
      "gasTop (s\<lparr>st_Steps := st_Steps s + 1\<rparr>) = gasTop s"
    using assms(1) by (auto simp: gas_live_def gas_range_def gasU_def gasTop_def)
  ultimately have "gas_live t \<and> gas_le (s\<lparr>st_Steps := st_Steps s + 1\<rparr>) t"
    by (metis gsafe_def fst_conv snd_conv Inl_Inr_False)
  then show "gas_live t" "gasU s \<le> gasU t" "gasTop t \<le> gasTop s"
    by (auto simp: gas_le_def gasU_def gasTop_def)
qed

lemma handleStepError_out_of_gas: "\<not> fst (handleStepError errOutOfGas s)"
  by (auto simp: handleStepError_def outOfGasExit_def split: prod.split sum.split)

theorem execute_returns:
  assumes "live_table d" "gas_live s" shows "\<exists>r. execute d s = Some r"
  using assms(2)
proof (induction "nat (gasTop s - gasU s)" arbitrary: s rule: less_induct)
  case less
  obtain r t where st: "stepAnyWithDispatch d s = (r, t)" by fastforce
  have t: "gasU s + 5 \<le> gasU t" "r = Inl errOutOfGas \<or> gas_live t" "gasTop t \<le> gasTop s" "4 \<le> st_GlobalVersion t"
    using pays_step [OF assms(1)] less.prems st by (auto simp: pays_def gsafe_def gas_le_def gas_live_def)
  have top: "gasU u \<le> gasTop u" if "gas_live u" for u
    using that by (auto simp: gas_live_def gasU_def gasTop_def)
  have again: "\<exists>r. execute d u = Some r" if "gas_live u" "gasU t \<le> gasU u" "gasTop u \<le> gasTop t" for u
    by (rule less.hyps) (use that t top [OF that(1)] in auto)
  have e: "execute d s = (case (r, t) of (Inr _, s1) \<Rightarrow> execute d s1 | (Inl err, s1) \<Rightarrow>
      (case handleStepError err s1 of (retry, r, s2) \<Rightarrow> if retry then execute d s2 else Some (r, s2)))"
    using st t(4) afterStep_live [of "(r, t)"] by (subst execute.simps) simp
  show ?case
  proof (cases r)
    case (Inr x) then show ?thesis using e t again [of t] by simp
  next
    case (Inl err)
    obtain retry rr u where h: "handleStepError err t = (retry, rr, u)" by (metis prod_cases3)
    show ?thesis
    proof (cases retry)
      case False then show ?thesis using e Inl h by simp
    next
      case True
      then have "gas_live t" using t(2) Inl h handleStepError_out_of_gas [of t] by auto
      moreover have h': "handleStepError err t = (True, rr, u)" using h True by simp
      ultimately have "\<exists>r. execute d u = Some r" using handleStepError_live [OF _ h'] by (intro again)
      then show ?thesis using e Inl h True by simp
    qed
  qed
qed

subsection \<open>Well-formedness\<close>

lemma Vk_countStep [vm_keeps]: "Vk countStep (\<lambda>_. True)"
  and Vk_implicitCharge [vm_keeps]: "Vk (implicitCharge n) (\<lambda>_. True)"
  unfolding countStep_def implicitCharge_def by (auto intro!: keeps_intros vm_keeps simp: state_ok_def)

lemma Vk_pendingCheck [vm_keeps]: "Vk pendingCheck (\<lambda>_. True)"
  unfolding pendingCheck_def by (auto intro!: keeps_intros)

lemma Vk_catch:
  assumes "Vk m Q" "\<And>e s. state_ok s \<Longrightarrow> state_ok (snd (h e s))" "\<And>x s. state_ok s \<Longrightarrow> state_ok (snd (k x s))"
  shows "Vk (\<lambda>s. case m s of (Inl e, s1) \<Rightarrow> h e s1 | (Inr x, s1) \<Rightarrow> k x s1) (\<lambda>_. True)"
proof (rule keepsI)
  fix s assume "state_ok s"
  then have "state_ok (snd (m s))" by (rule keepsD1 [OF assms(1)])
  then show "state_ok (snd (case m s of (Inl e, s1) \<Rightarrow> h e s1 | (Inr x, s1) \<Rightarrow> k x s1))"
    using assms(2,3) by (cases "m s"; cases "fst (m s)") auto
qed simp

lemma Vk_latchError [vm_keeps]: "Vk m (\<lambda>_. True) \<Longrightarrow> Vk (latchError m) (\<lambda>_. True)"
  unfolding latchError_def by (intro keeps_seq Vk_pendingCheck Vk_catch) (auto simp: state_ok_def)

lemma Vk_OnLoadError [vm_keeps]: "Vk (OnLoadError c) (\<lambda>_. True)"
  and Vk_OnCreate [vm_keeps]: "Vk OnCreate (\<lambda>_. True)"
  unfolding OnLoadError_def OnCreate_def RegisterCellCreate_def by (auto intro!: keeps_intros vm_keeps)

lemma Vk_beginParse [vm_keeps]: "Vk (beginParseLoadedCell c a b) (\<lambda>_. True)"
  unfolding beginParseWithGasTrace_def beginParseLoadedCell_def
  by (auto intro!: keeps_bnd [where R = "\<lambda>_. True"] keeps_intros vm_keeps)

lemma Vk_CellsBeginParse [vm_keeps]: "Vk (CellsBeginParse c) (\<lambda>_. True)"
  and Vk_CellsBeginParseAlreadyLoaded [vm_keeps]: "Vk (CellsBeginParseAlreadyLoaded c) (\<lambda>_. True)"
  and Vk_CellsBeginParseSpecial [vm_keeps]: "Vk (CellsBeginParseSpecial c) (\<lambda>_. True)"
  unfolding CellsBeginParse_def CellsBeginParseAlreadyLoaded_def CellsBeginParseSpecial_def
  by (auto intro!: keeps_bnd [where R = "\<lambda>_. True"] keeps_intros vm_keeps)

lemma Vk_CellsLoadRef [vm_keeps]: "Vk CellsLoadRef (\<lambda>_. True)"
  unfolding CellsLoadRef_def
  by (auto intro!: keeps_intros vm_keeps split: prod.splits sum.splits)

lemma Vk_interpretOpcode: 
  assumes "Vk run (\<lambda>_. True)" shows "Vk (interpretOpcode run) (\<lambda>_. True)"
proof -
  have c: "state_ok s \<Longrightarrow> state_ok (snd (CheckGas s))" for s by (rule keepsD1 [OF Vk_CheckGas])
  have o: "state_ok s \<Longrightarrow> onGas Check s = (r, t) \<Longrightarrow> state_ok t" for s r t
    using keepsD1 [OF Vk_onGas, of s Check] by simp
  show ?thesis unfolding interpretOpcode_def
    by (intro keeps_seq Vk_catch [OF assms])
      (auto intro!: keeps_intros vm_keeps c split: option.splits prod.splits sum.splits dest: o)
qed

lemma Vk_chargedBody:
  "(x = None \<Longrightarrow> Vk body (\<lambda>_. True)) \<Longrightarrow> Vk (chargedBody bits x body) (\<lambda>_. True)"
  unfolding chargedBody_def by (auto intro!: keeps_intros vm_keeps Vk_interpretOpcode)

lemma executeEntry_ok:
  assumes "entry_keeps_ok e" "state_ok s" shows "state_ok (snd (executeEntry e s))"
  using assms
  by (cases e) (auto simp: executeEntry_charged entry_keeps_ok_def intro!: keepsD1 [OF Vk_chargedBody])

lemma step_ok:
  assumes "\<And>code e. matchOpcode d code = Some e \<Longrightarrow> entry_keeps_ok e" "state_ok s"
  shows "state_ok (snd (stepAnyWithDispatch d s))"
proof -
  have e: "Vk (executeEntry e) (\<lambda>_. True)" if "matchOpcode d code = Some e" for code e
    using executeEntry_ok assms(1) [OF that] by (intro keepsI) auto
  have "Vk (stepWithDispatch d) (\<lambda>_. True)"
    unfolding stepWithDispatch_def by (auto intro!: keeps_intros vm_keeps intro: e split: if_splits)
  then have "Vk (stepAnyWithDispatch d) (\<lambda>_. True)"
    unfolding stepAnyWithDispatch_def JumpToCode_def Return_def
    by (auto intro!: keeps_bnd [OF Vk_CellsLoadRef] keeps_intros vm_keeps simp: state_ok_def split: prod.splits)
  then show ?thesis using assms(2) by (rule keepsD1)
qed

lemma handleStepError_ok:
  assumes "state_ok s" shows "state_ok (snd (snd (handleStepError err s)))"
proof -
  have o: "state_ok (snd (snd (outOfGasExit e t)))" if "state_ok t" for e t
  proof -
    have "state_ok (t\<lparr>st_Steps := st_Steps t + 1\<rparr>)" using that by (simp add: state_ok_def)
    from keepsD1 [OF Vk_HandleOutOfGas this] show ?thesis by (auto simp: outOfGasExit_def split: prod.split sum.split)
  qed
  have t: "state_ok (snd (ThrowException code [] (s\<lparr>st_Steps := st_Steps s + 1\<rparr>)))" for code
    by (rule keepsD1 [OF Vk_ThrowException]) (use assms in \<open>auto simp: state_ok_def\<close>)
  show ?thesis using assms o t
    by (auto simp: handleStepError_def split: option.splits prod.splits sum.splits) (metis snd_conv)+
qed

lemma execute_ok:
  assumes "\<And>code e. matchOpcode d code = Some e \<Longrightarrow> entry_keeps_ok e" "execute d s = Some (r, t)" "state_ok s"
  shows "state_ok t"
proof -
  have after: "state_ok (snd (afterStep p))" if "state_ok (snd p)" for p
    using that keepsD1 [OF Vk_CheckGas, of "snd p"]
    by (cases p) (auto simp: afterStep_def split: sum.splits prod.splits)
  have "d = d \<longrightarrow> state_ok s \<longrightarrow> state_ok (snd (r, t))"
  proof (rule execute.raw_induct [where P = "\<lambda>d' s y. d' = d \<longrightarrow> state_ok s \<longrightarrow> state_ok (snd y)", OF _ assms(2)], intro impI)
    fix execute' d' s y
    assume IH: "\<And>d' s y. execute' d' s = Some y \<Longrightarrow> d' = d \<longrightarrow> state_ok s \<longrightarrow> state_ok (snd y)"
      and run: "(case afterStep (stepAnyWithDispatch d' s) of (Inl err, s1) \<Rightarrow>
        (case handleStepError err s1 of (retry, r, s2) \<Rightarrow> if retry then execute' d' s2 else Some (r, s2))
        | (Inr _, s1) \<Rightarrow> execute' d' s1) = Some y"
      and d: "d' = d" and s: "state_ok s"
    obtain q u where a: "afterStep (stepAnyWithDispatch d s) = (q, u)" by fastforce
    have u: "state_ok u" using after [OF step_ok [of d s]] assms(1) s a by simp
    show "state_ok (snd y)"
    proof (cases q)
      case (Inr x) then show ?thesis using IH run d a u by simp
    next
      case (Inl err)
      obtain retry rr v where h: "handleStepError err u = (retry, rr, v)" by (metis prod_cases3)
      have "state_ok v" using handleStepError_ok [OF u, of err] h by simp
      then show ?thesis using IH run d a Inl h by (auto split: if_splits)
    qed
  qed
  then show ?thesis using assms(3) by simp
qed

subsection \<open>Instruction sets\<close>

locale instruction_set =
  fixes dispatch :: "dispatch_entry opcode_dispatch"
  assumes gas_safe_entry: "matchOpcode dispatch code = Some e \<Longrightarrow> entry_gas_safe e"
    and keeps_ok_entry: "matchOpcode dispatch code = Some e \<Longrightarrow> entry_keeps_ok e"
begin

lemma returns: "gas_live s \<Longrightarrow> \<exists>r. execute dispatch s = Some r"
  by (rule execute_returns) (auto simp: live_table_def gas_safe_entry)

lemma stays_ok: "execute dispatch s = Some (r, t) \<Longrightarrow> state_ok s \<Longrightarrow> state_ok t"
  by (rule execute_ok) (auto intro: keeps_ok_entry)

lemma run_returns: "gas_live s \<Longrightarrow> runState dispatch s \<noteq> None"
  using returns [of s] by (auto simp: runState_def Let_def simp del: not_None_eq split: option.splits)

end

subsection \<open>Tables built from registrations\<close>

lemma set_emptyNode [simp]: "set_trie_node emptyNode = {}"
  by (simp add: emptyNode_def)

lemma set_trie_next: "trie_next n b = Some c \<Longrightarrow> set_trie_node c \<subseteq> set_trie_node n"
  by (cases n) (auto simp: trie_next_def split: if_splits)

lemma set_trie_op: "trie_op n = Some e \<Longrightarrow> e \<in> set_trie_node n"
  by (cases n) auto

lemma set_addPrefixNode: "set_trie_node (addPrefixNode p e n) \<subseteq> insert e (set_trie_node n)"
proof (induction p e n rule: addPrefixNode.induct)
  case (2 b bs e x l r)
  then show ?case by (cases l; cases r; cases b) (auto simp: childOrNew_def)
qed auto

lemma set_trieLoop:
  assumes "trieLoop f ks n m = (n', m')"
  shows "(\<forall>c. n' = Some c \<longrightarrow> set_trie_node c \<subseteq> set_trie_node n) \<and> (\<forall>e. m' = Some e \<longrightarrow> m = Some e \<or> e \<in> set_trie_node n)"
  using assms
proof (induction f ks n m rule: trieLoop.induct)
  case (2 f i ks n m)
  show ?case
  proof (cases "f i")
    case (Some b)
    show ?thesis
    proof (cases "trie_next n b")
      case None then show ?thesis using 2(2) Some by simp
    next
      case (Some c)
      have "set_trie_node c \<subseteq> set_trie_node n" using Some by (rule set_trie_next)
      moreover have "(\<forall>k. n' = Some k \<longrightarrow> set_trie_node k \<subseteq> set_trie_node c) \<and>
          (\<forall>e. m' = Some e \<longrightarrow> (case trie_op c of None \<Rightarrow> m | Some e \<Rightarrow> Some e) = Some e \<or> e \<in> set_trie_node c)"
        using 2 Some \<open>f i = Some b\<close> by simp
      ultimately show ?thesis using set_trie_op [of c] by (cases "trie_op c") auto
    qed
  qed (use 2 in auto)
qed auto

lemma set_fastTail: "fastTail n m k raw pb = Some e \<Longrightarrow> m = Some e \<or> e \<in> set_trie_node n"
  unfolding fastTail_def
  by (cases "trieLoop (\<lambda>i. Some (i < pb \<and> bit raw (pb - 1 - i))) [opcodeDispatchIndexBits..<k] n m") (frule set_trieLoop, simp)

lemma set_index:
  assumes "d_index (buildFastTable d) i = (n, m)"
  shows "(\<forall>c. n = Some c \<longrightarrow> set_trie_node c \<subseteq> set_trie_node (d_root d)) \<and> (\<forall>e. m = Some e \<longrightarrow> e \<in> set_trie_node (d_root d))"
  using assms set_trieLoop [of _ _ "d_root d" None n m] by (auto simp: buildFastTable_def)

lemma matchOpcodeFast_cases:
  assumes "matchOpcodeFast d code a = Some e"
  shows "\<exists>i n m. d_index d i = (n, m) \<and> (m = Some e \<or> (\<exists>c k raw pb. n = Some c \<and> fastTail c m k raw pb = Some e))"
proof -
  obtain raw where raw: "fst (PreloadUInt (min opcodeDispatchIndexBits a) code) = Inr raw"
    using assms unfolding matchOpcodeFast_def Let_def by (cases "fst (PreloadUInt (min opcodeDispatchIndexBits a) code)") simp_all
  define i where "i = unat (if min opcodeDispatchIndexBits a \<ge> opcodeDispatchIndexBits then raw AND (2 ^ opcodeDispatchIndexBits - 1)
      else push_bit (opcodeDispatchIndexBits - min opcodeDispatchIndexBits a) raw)"
  obtain n m where i: "d_index d i = (n, m)" by fastforce
  have "m = Some e \<or> (\<exists>c k raw pb. n = Some c \<and> fastTail c m k raw pb = Some e)"
    using assms unfolding matchOpcodeFast_def Let_def raw sum.case i_def [symmetric] i prod.case
    by (cases n) (simp_all split: if_splits sum.splits, blast+)
  then show ?thesis using i by blast
qed

lemma set_matchOpcode:
  assumes "matchOpcode (buildFastTable d) code = Some e" shows "e \<in> set_trie_node (d_root d)"
proof -
  have slow: "matchOpcodeSlow (d_root d) k c a = Some e \<Longrightarrow> ?thesis" for k c a
    unfolding matchOpcodeSlow_def
    by (cases "trieLoop (\<lambda>i. if i < a then (case fst (BitAt i c) of Inl _ \<Rightarrow> None | Inr b \<Rightarrow> Some (b = 1)) else Some False)
        [0..<k] (d_root d) None") (frule set_trieLoop, simp)
  have fast: "matchOpcodeFast (buildFastTable d) code a = Some e \<Longrightarrow> ?thesis" for a
    by (drule matchOpcodeFast_cases, elim exE conjE, frule set_index) (metis set_fastTail subsetD)
  show ?thesis using assms slow fast
    by (simp add: matchOpcode_def Let_def split: if_splits) (simp add: buildFastTable_def)
qed

lemma set_dispatchOf: "set_trie_node (d_root (dispatchOf regs)) \<subseteq> snd ` set regs"
proof (induction regs rule: rev_induct)
  case (snoc r regs)
  then show ?case using set_addPrefixNode by (cases r) (fastforce simp: dispatchOf_snoc addPrefix_def)
qed (simp add: dispatchOf_def newOpcodeDispatch_def)

lemma matchOpcode_registered:
  assumes "matchOpcode (buildOpcodeDispatch registry ver) code = Some e"
  shows "\<exists>rg \<in> set registry. e = rg_entry rg \<or> e = rg_invalid rg"
proof -
  have "e \<in> snd ` set (concat (map (prefixEntries ver) registry))"
    by (rule subsetD [OF set_dispatchOf set_matchOpcode [OF assms [unfolded buildOpcodeDispatch_eq]]])
  then obtain rg s where "rg \<in> set registry" "(s, e) \<in> set (prefixEntries ver rg)" by auto
  then show ?thesis by (intro bexI [of _ rg]) (auto simp: prefixEntries_def split: if_splits)
qed

subsection \<open>Opcodes that belong in a table\<close>

named_theorems op_ok \<open>opcodes that are gas safe and keep the machine well formed\<close>

definition plain_decoder :: "decoder \<Rightarrow> bool" where
  "plain_decoder d \<longleftrightarrow> (\<forall>s. \<exists>c. snd (d s) = s\<lparr>st_CurrentCode := c\<rparr>)"

definition body_ok :: "unit vm \<Rightarrow> bool" where
  "body_ok m \<longleftrightarrow> gbody m \<and> Vk m (\<lambda>_. True)"

definition arg_op_ok :: "arg_op \<Rightarrow> bool" where
  "arg_op_ok op \<longleftrightarrow> (case ao_Decode op of None \<Rightarrow> True | Some d \<Rightarrow> plain_decoder d) \<and>
     (\<forall>a. bits_ok (ArgInstructionBits op a)) \<and> ao_BaseGasPrice op < 2 ^ 62 \<and> (\<forall>a. body_ok (ao_Action op a))"

definition simple_op_ok :: "simple_op \<Rightarrow> bool" where
  "simple_op_ok op \<longleftrightarrow> length (so_BitPrefix op) < 2 ^ 62 \<and> so_BaseGasPrice op < 2 ^ 62 \<and> body_ok (so_Action op)"

definition obj_op_ok :: "obj_op \<Rightarrow> bool" where
  "obj_op_ok op \<longleftrightarrow> (\<forall>s. \<exists>err bits body c. oo_Deserialize op s = ((err, bits, body), s\<lparr>st_CurrentCode := c\<rparr>) \<and>
     bits_ok bits \<and> body_ok body)"

definition entry_ok :: "dispatch_entry \<Rightarrow> bool" where
  "entry_ok e \<longleftrightarrow> entry_gas_safe e \<and> entry_keeps_ok e"

definition registered_ok :: "dispatch_entry registration \<Rightarrow> bool" where
  "registered_ok rg \<longleftrightarrow> entry_ok (rg_entry rg) \<and> entry_ok (rg_invalid rg)"

lemma gas_same_code [simp]: "gas_same s (s\<lparr>st_CurrentCode := c\<rparr>)"
  by (simp add: gas_same_def)

lemma plain_decoderI: "(\<And>s. snd (d s) = s\<lparr>st_CurrentCode := c s\<rparr>) \<Longrightarrow> plain_decoder d"
  unfolding plain_decoder_def by blast

lemma plain_decoded [op_ok]: "plain_decoder (decoded a)" and plain_decodeFail [op_ok]: "plain_decoder (decodeFail a e)"
  by (rule plain_decoderI [where c = st_CurrentCode]; simp add: decoded_def decodeFail_def)+

lemma plain_decodeStep [op_ok]:
  assumes "\<And>x. plain_decoder (k x)" shows "plain_decoder (decodeStep a m k)"
  unfolding plain_decoder_def
proof
  fix s :: vm_state
  obtain r c where m: "m (st_CurrentCode s) = (r, c)" by fastforce
  show "\<exists>c. snd (decodeStep a m k s) = s\<lparr>st_CurrentCode := c\<rparr>"
  proof (cases r)
    case (Inl e) then show ?thesis using m by (auto simp: decodeStep_def lift_field_apply)
  next
    case (Inr x)
    obtain c' where "snd (k x (s\<lparr>st_CurrentCode := c\<rparr>)) = s\<lparr>st_CurrentCode := c\<rparr>\<lparr>st_CurrentCode := c'\<rparr>"
      using assms [of x] unfolding plain_decoder_def by blast
    then show ?thesis using m Inr by (auto simp: decodeStep_def lift_field_apply)
  qed
qed

lemma plain_if [op_ok]: "plain_decoder d \<Longrightarrow> plain_decoder e \<Longrightarrow> plain_decoder (if b then d else e)"
  by simp

lemma plain_DecodeArgs: "arg_op_ok op \<Longrightarrow> plain_decoder (DecodeArgs op)"
  by (cases "ao_Decode op") (auto simp: arg_op_ok_def DecodeArgs_def intro!: op_ok)

lemma plain_gas: "plain_decoder d \<Longrightarrow> gas_same s (snd (d s))"
  unfolding plain_decoder_def by (metis gas_same_code)

lemma plain_ok: "plain_decoder d \<Longrightarrow> state_ok s \<Longrightarrow> state_ok (snd (d s))"
  unfolding plain_decoder_def by (metis state_ok_upd)

lemma gsafe_charge: "n < 2 ^ 62 \<Longrightarrow> gsafe (if n \<noteq> 0 then ConsumeGas n else ret ())"
  by (auto intro!: gas_safe gas_intros)

lemma body_ok_charged: "n < 2 ^ 62 \<Longrightarrow> body_ok m \<Longrightarrow> body_ok (seq (if n \<noteq> 0 then ConsumeGas n else ret ()) m)"
  unfolding body_ok_def by (intro conjI gbody_seq gsafe_charge keeps_intros vm_keeps) auto

lemma body_ok_raise [op_ok]: "body_ok (raise e)"
  unfolding body_ok_def by (auto intro: gbody_gsafe gsafe_raise keeps_raise)

lemma body_okI: "gsafe m \<Longrightarrow> Vk m (\<lambda>_. True) \<Longrightarrow> body_ok m"
  unfolding body_ok_def using gbody_gsafe by blast

lemma argRegistration_ok [op_ok]:
  assumes "arg_op_ok op" shows "registered_ok (argRegistration op)"
proof -
  note d = plain_DecodeArgs [OF assms]
  have "body_ok (InterpretArgs op a)" for a
    using assms unfolding InterpretArgs_def arg_op_ok_def by (intro body_ok_charged) auto
  then show ?thesis
    using assms plain_gas [OF d] plain_ok [OF d] body_ok_raise [of "VMError CodeInvalidOpcode"]
    by (auto simp: registered_ok_def argRegistration_def entry_ok_def entry_gas_safe_def entry_keeps_ok_def argIface_def
        historicalInvalidArgOP_def arg_op_ok_def body_ok_def)
qed

lemma simpleRegistration_ok [op_ok]:
  assumes "simple_op_ok op" shows "registered_ok (simpleRegistration op)"
proof -
  have d: "plain_decoder (decodeStep 0 (SkipBits (length (so_BitPrefix op))) (\<lambda>_. decoded 0))" by (intro op_ok)
  have "body_ok (simpleInterpret op)"
    using assms unfolding simpleInterpret_def simple_op_ok_def by (intro body_ok_charged) auto
  then show ?thesis
    using assms plain_gas [OF d] plain_ok [OF d] body_ok_raise [of "VMError CodeInvalidOpcode"]
    by (auto simp: registered_ok_def simpleRegistration_def entry_ok_def entry_gas_safe_def entry_keeps_ok_def simpleIface_def
        historicalInvalidArgOP_def simple_op_ok_def body_ok_def bits_ok_def)
qed

lemma obj_op_okD:
  assumes "obj_op_ok op"
  obtains err bits body c where "oo_Deserialize op s = ((err, bits, body), s\<lparr>st_CurrentCode := c\<rparr>)" "bits_ok bits" "gbody body"
    "Vk body (\<lambda>_. True)"
  using assms unfolding obj_op_ok_def body_ok_def by blast

lemma entryGet_ok: "obj_op_ok op \<Longrightarrow> entry_ok (EntryGet op)"
  unfolding entry_ok_def entry_gas_safe_def entry_keeps_ok_def dispatch_entry.case
proof (intro conjI allI impI, goal_cases)
  case (1 s) from 1(1) show ?case by (rule obj_op_okD [of op s]) simp
next
  case (2 s) from 2(1) show ?case by (rule obj_op_okD [of op s]) simp
next
  case (3 s) from 3(1) show ?case by (rule obj_op_okD [of op s]) (use 3(2) in simp)
next
  case (4 s) from 4(1) show ?case by (rule obj_op_okD [of op s]) simp
qed

lemma historicalInvalidOpcode_ok:
  assumes "obj_op_ok op" shows "obj_op_ok (historicalInvalidOpcode op)"
  unfolding obj_op_ok_def
proof
  fix s
  from assms obtain err bits body c where "oo_Deserialize op s = ((err, bits, body), s\<lparr>st_CurrentCode := c\<rparr>)" "bits_ok bits"
    by (rule obj_op_okD [of op s])
  then show "\<exists>err bits body c. oo_Deserialize (historicalInvalidOpcode op) s = ((err, bits, body), s\<lparr>st_CurrentCode := c\<rparr>) \<and>
      bits_ok bits \<and> body_ok body"
    using body_ok_raise by (simp add: historicalInvalidOpcode_def) (rule exI, rule refl)
qed

lemma objRegistration_ok [op_ok]: "obj_op_ok op \<Longrightarrow> registered_ok (objRegistration op)"
  by (simp add: registered_ok_def objRegistration_def entryGet_ok historicalInvalidOpcode_ok)

lemma registry_instruction_set:
  assumes "\<And>rg. rg \<in> set registry \<Longrightarrow> registered_ok rg"
  shows "instruction_set (buildOpcodeDispatch registry ver)"
proof
  fix code e assume "matchOpcode (buildOpcodeDispatch registry ver) code = Some e"
  from matchOpcode_registered [OF this] assms have "entry_ok e" unfolding registered_ok_def by blast
  then show "entry_gas_safe e" "entry_keeps_ok e" by (simp_all add: entry_ok_def)
qed

end
