(* ===== verification/Cell_Slice_Ops.thy ===== *)
theory Cell_Slice_Ops
  imports "HOL-Library.Sublist" Cell_Slice_Bits Cell_Hash
begin

section \<open>Comparing and cutting slices\<close>

text \<open>
  \<^verbatim>\<open>src/tvm/cell/slice_ops.go\<close>: windows cut at either end, prefix and suffix tests, lexicographic comparison and
  runs of equal bits.  The loops work on 64-bit chunks, or on whole bytes when both windows have the same
  alignment; the lemmas say what they compute on the bit lists of the windows.
\<close>

subsection \<open>Windows\<close>

definition OnlyFirst :: "nat \<Rightarrow> nat \<Rightarrow> slice \<Rightarrow> bool \<times> slice" where
  "OnlyFirst bits refs c =
     (if BitsLeft c < bits \<or> RefsNum c < refs then (False, c)
      else (True, c\<lparr>sl_bitEnd := sl_bitStart c + bits, sl_refEnd := sl_refStart c + refs\<rparr>))"

definition SkipFirst :: "nat \<Rightarrow> nat \<Rightarrow> slice \<Rightarrow> bool \<times> slice" where
  "SkipFirst bits refs c =
     (if BitsLeft c < bits \<or> RefsNum c < refs then (False, c)
      else (True, c\<lparr>sl_bitStart := sl_bitStart c + bits, sl_refStart := sl_refStart c + refs\<rparr>))"

definition OnlyLast :: "nat \<Rightarrow> nat \<Rightarrow> slice \<Rightarrow> bool \<times> slice" where
  "OnlyLast bits refs c =
     (if BitsLeft c < bits \<or> RefsNum c < refs then (False, c)
      else (True, c\<lparr>sl_bitStart := sl_bitEnd c - bits, sl_refStart := sl_refEnd c - refs\<rparr>))"

definition SkipLast :: "nat \<Rightarrow> nat \<Rightarrow> slice \<Rightarrow> bool \<times> slice" where
  "SkipLast bits refs c =
     (if BitsLeft c < bits \<or> RefsNum c < refs then (False, c)
      else (True, c\<lparr>sl_bitEnd := sl_bitEnd c - bits, sl_refEnd := sl_refEnd c - refs\<rparr>))"

definition Subslice :: "nat \<Rightarrow> nat \<Rightarrow> nat \<Rightarrow> nat \<Rightarrow> slice \<Rightarrow> go_error + slice" where
  "Subslice offsetBits offsetRefs bits refs c =
     (case SkipFirst offsetBits offsetRefs c of
        (False, _) \<Rightarrow> Inl (CellError ErrNotEnoughData)
      | (True, nxt) \<Rightarrow>
          (case OnlyFirst bits refs nxt of
             (False, _) \<Rightarrow> Inl (CellError ErrNotEnoughData)
           | (True, r) \<Rightarrow> Inr r))"

subsection \<open>Chunks\<close>

definition preloadSliceUIntAt :: "slice \<Rightarrow> nat \<Rightarrow> nat \<Rightarrow> go_error + 64 word" where
  "preloadSliceUIntAt src offset sz =
     (if sz = 0 then Inr 0
      else if offset > BitsLeft src \<or> BitsLeft src - offset < sz then Inl (CellError ErrNotEnoughData)
      else fst (loadUintFast sz True (src\<lparr>sl_bitStart := sl_bitStart src + offset\<rparr>)))"

definition sameBitsValue :: "bool \<Rightarrow> nat \<Rightarrow> 64 word" where
  "sameBitsValue b sz = (if \<not> b then 0 else if sz = 64 then NOT 0 else push_bit sz 1 - 1)"

subsection \<open>Equality of bit ranges\<close>

definition bitsEqualSameOffset :: "byte list \<Rightarrow> byte list \<Rightarrow> nat \<Rightarrow> nat \<Rightarrow> bool" where
  "bitsEqualSameOffset left right offset bits =
     (let whole = (\<lambda>left right bits.
            let wholeBytes = bits div 8; tailBits = bits mod 8 in
            if take wholeBytes left \<noteq> take wholeBytes right then False
            else if tailBits = 0 then True
            else let mask = push_bit (8 - tailBits) (0xFF :: byte)
                 in left ! wholeBytes AND mask = right ! wholeBytes AND mask)
      in if bits = 0 then True
         else if offset \<noteq> 0
         then let headBits = min bits (8 - offset);
                  mask = drop_bit offset (0xFF :: byte) AND push_bit (8 - offset - headBits) 0xFF
              in if left ! 0 AND mask \<noteq> right ! 0 AND mask then False
                 else if bits - headBits = 0 then True
                 else whole (drop 1 left) (drop 1 right) (bits - headBits)
         else whole left right bits)"

function bitsEqualLoop :: "slice \<Rightarrow> slice \<Rightarrow> nat \<Rightarrow> nat \<Rightarrow> nat \<Rightarrow> nat \<Rightarrow> bool" where
  "bitsEqualLoop c d offset otherOffset bits pos =
     (if pos < bits then
        let chunk = min 64 (bits - pos) in
        case preloadSliceUIntAt c (offset + pos) chunk of
          Inl _ \<Rightarrow> False
        | Inr a \<Rightarrow>
            (case preloadSliceUIntAt d (otherOffset + pos) chunk of
               Inl _ \<Rightarrow> False
             | Inr b \<Rightarrow> if a \<noteq> b then False else bitsEqualLoop c d offset otherOffset bits (pos + chunk))
      else True)"
  by pat_completeness auto
termination
  by (relation "measure (\<lambda>(c, d, offset, otherOffset, bits, pos). bits - pos)") auto

declare bitsEqualLoop.simps [simp del]

definition bitsEqualAt :: "slice \<Rightarrow> slice \<Rightarrow> nat \<Rightarrow> nat \<Rightarrow> nat \<Rightarrow> bool" where
  "bitsEqualAt c d offset otherOffset bits =
     (let start = sl_bitStart c + offset; otherStart = sl_bitStart d + otherOffset in
      if start mod 8 = otherStart mod 8
      then bitsEqualSameOffset (drop (start div 8) (cell_data (sl_cell c)))
             (drop (otherStart div 8) (cell_data (sl_cell d))) (start mod 8) bits
      else bitsEqualLoop c d offset otherOffset bits 0)"

definition BitsEqual :: "slice \<Rightarrow> slice option \<Rightarrow> bool" where
  "BitsEqual c other =
     (case other of None \<Rightarrow> False
      | Some d \<Rightarrow> BitsLeft c = BitsLeft d \<and> bitsEqualAt c d 0 0 (BitsLeft c))"

definition IsPrefixOf :: "slice \<Rightarrow> slice option \<Rightarrow> bool" where
  "IsPrefixOf c other =
     (case other of None \<Rightarrow> False
      | Some d \<Rightarrow> if BitsLeft c > BitsLeft d then False else bitsEqualAt c d 0 0 (BitsLeft c))"

definition HasPrefix :: "slice \<Rightarrow> slice option \<Rightarrow> bool" where
  "HasPrefix c pfx = (case pfx of None \<Rightarrow> True | Some p \<Rightarrow> IsPrefixOf p (Some c))"

definition IsProperPrefixOf :: "slice \<Rightarrow> slice option \<Rightarrow> bool" where
  "IsProperPrefixOf c other =
     (case other of None \<Rightarrow> False
      | Some d \<Rightarrow> BitsLeft c < BitsLeft d \<and> bitsEqualAt c d 0 0 (BitsLeft c))"

definition IsSuffixOf :: "slice \<Rightarrow> slice option \<Rightarrow> bool" where
  "IsSuffixOf c other =
     (case other of None \<Rightarrow> False
      | Some d \<Rightarrow> if BitsLeft c > BitsLeft d then False
                  else bitsEqualAt c d 0 (BitsLeft d - BitsLeft c) (BitsLeft c))"

definition IsProperSuffixOf :: "slice \<Rightarrow> slice option \<Rightarrow> bool" where
  "IsProperSuffixOf c other =
     (case other of None \<Rightarrow> False
      | Some d \<Rightarrow> BitsLeft c < BitsLeft d \<and> bitsEqualAt c d 0 (BitsLeft d - BitsLeft c) (BitsLeft c))"

subsection \<open>Lexicographic comparison\<close>

function lexLoop :: "slice \<Rightarrow> slice \<Rightarrow> nat \<Rightarrow> nat \<Rightarrow> int option" where
  "lexLoop c d limit pos =
     (if pos < limit then
        let chunk = min 64 (limit - pos) in
        case (preloadSliceUIntAt c pos chunk, preloadSliceUIntAt d pos chunk) of
          (Inr a, Inr b) \<Rightarrow>
            if a \<noteq> b then Some (if a < b then -1 else 1) else lexLoop c d limit (pos + chunk)
        | _ \<Rightarrow> None
      else None)"
  by pat_completeness auto
termination
  by (relation "measure (\<lambda>(c, d, limit, pos). limit - pos)") auto

declare lexLoop.simps [simp del]

definition LexCompare :: "slice \<Rightarrow> slice option \<Rightarrow> int" where
  "LexCompare c other =
     (case other of
        None \<Rightarrow> if BitsLeft c = 0 then 0 else 1
      | Some d \<Rightarrow>
          let left = BitsLeft c; right = BitsLeft d; limit = (if right < left then right else left) in
          case lexLoop c d limit 0 of
            Some r \<Rightarrow> r
          | None \<Rightarrow> if left < right then -1 else if left > right then 1 else 0)"

subsection \<open>Runs of equal bits\<close>

text \<open>\<^verbatim>\<open>math/bits\<close> of the Go library.\<close>

definition LeadingZeros64 :: "64 word \<Rightarrow> nat" where
  "LeadingZeros64 x = length (takeWhile (\<lambda>i. \<not> bit x (63 - i)) [0..<64])"

definition TrailingZeros64 :: "64 word \<Rightarrow> nat" where
  "TrailingZeros64 x = length (takeWhile (\<lambda>i. \<not> bit x i) [0..<64])"

function leadingLoop :: "slice \<Rightarrow> bool \<Rightarrow> nat \<Rightarrow> nat \<Rightarrow> nat" where
  "leadingLoop c b bits pos =
     (if pos < bits then
        let chunk = min 64 (bits - pos) in
        case preloadSliceUIntAt c pos chunk of
          Inl _ \<Rightarrow> pos
        | Inr v \<Rightarrow>
            let want = sameBitsValue b chunk in
            if v \<noteq> want then pos + LeadingZeros64 (push_bit (64 - chunk) (v XOR want))
            else leadingLoop c b bits (pos + chunk)
      else bits)"
  by pat_completeness auto
termination
  by (relation "measure (\<lambda>(c, b, bits, pos). bits - pos)") auto

declare leadingLoop.simps [simp del]

definition CountLeading :: "bool \<Rightarrow> slice \<Rightarrow> nat" where
  "CountLeading b c = (if BitsLeft c = 0 then 0 else leadingLoop c b (BitsLeft c) 0)"

function trailingLoop :: "slice \<Rightarrow> bool \<Rightarrow> nat \<Rightarrow> nat \<Rightarrow> nat" where
  "trailingLoop c b bits pos =
     (if pos < bits then
        let chunk = min 64 (bits - pos) in
        case preloadSliceUIntAt c (bits - pos - chunk) chunk of
          Inl _ \<Rightarrow> pos
        | Inr v \<Rightarrow>
            let want = sameBitsValue b chunk in
            if v \<noteq> want then pos + TrailingZeros64 (v XOR want)
            else trailingLoop c b bits (pos + chunk)
      else bits)"
  by pat_completeness auto
termination
  by (relation "measure (\<lambda>(c, b, bits, pos). bits - pos)") auto

declare trailingLoop.simps [simp del]

definition CountTrailing :: "bool \<Rightarrow> slice \<Rightarrow> nat" where
  "CountTrailing b c = (if BitsLeft c = 0 then 0 else trailingLoop c b (BitsLeft c) 0)"

definition RemoveTrailing :: "slice \<Rightarrow> nat \<times> slice" where
  "RemoveTrailing c =
     (let bits = BitsLeft c in
      if bits = 0 then (0, c)
      else let trailing = CountTrailing False c in
           if trailing \<ge> bits then (trailing, c\<lparr>sl_bitEnd := sl_bitEnd c - trailing\<rparr>)
           else (trailing + 1, c\<lparr>sl_bitEnd := sl_bitEnd c - (trailing + 1)\<rparr>))"

text \<open>The 16-bit depth of what a slice holds; the increment wraps.\<close>

definition sliceDepth :: "slice \<Rightarrow> nat" where
  "sliceDepth c =
     foldl (\<lambda>depth i. let childDepth = (Depth (cell_refs (sl_cell c) ! (sl_refStart c + i)) + 1) mod 2 ^ 16
                     in if childDepth > depth then childDepth else depth) 0 [0..<RefsNum c]"

subsection \<open>What is computed on bit lists\<close>

fun bitsCompare :: "bool list \<Rightarrow> bool list \<Rightarrow> int" where
  "bitsCompare [] [] = 0"
| "bitsCompare [] (y # ys) = -1"
| "bitsCompare (x # xs) [] = 1"
| "bitsCompare (x # xs) (y # ys) = (if x = y then bitsCompare xs ys else if y then -1 else 1)"

lemma window_ok:
  assumes "slice_ok c" "sl_bitStart c \<le> i" "i \<le> j" "j \<le> sl_bitEnd c"
    "sl_refStart c \<le> p" "p \<le> q" "q \<le> sl_refEnd c"
  defines "d \<equiv> c\<lparr>sl_bitStart := i, sl_bitEnd := j, sl_refStart := p, sl_refEnd := q\<rparr>"
  shows "slice_ok d" "sliceBits d = take (j - i) (drop (i - sl_bitStart c) (sliceBits c))"
    "sliceRefs d = take (q - p) (drop (p - sl_refStart c) (sliceRefs c))"
proof -
  show "slice_ok d" using assms by (auto simp: slice_ok_def)
  show "sliceBits d = take (j - i) (drop (i - sl_bitStart c) (sliceBits c))"
    using assms(2-4) by (simp add: d_def sliceBits_def drop_bitsOf take_bitsOf min_def)
  show "sliceRefs d = take (q - p) (drop (p - sl_refStart c) (sliceRefs c))"
    using assms by (simp add: d_def sliceRefs_def RefsNum_def drop_take)
qed

lemma window_len:
  assumes "slice_ok c"
  shows "sl_bitStart c + BitsLeft c = sl_bitEnd c" "sl_refStart c + RefsNum c = sl_refEnd c"
    "length (sliceRefs c) = RefsNum c"
  using assms by (auto simp: slice_ok_def BitsLeft_def RefsNum_def sliceRefs_def)

lemma cut_ok:
  assumes "slice_ok c" "bits \<le> BitsLeft c" "refs \<le> RefsNum c"
  shows "fst (OnlyFirst bits refs c) \<and> slice_ok (snd (OnlyFirst bits refs c)) \<and>
      sliceBits (snd (OnlyFirst bits refs c)) = take bits (sliceBits c) \<and>
      sliceRefs (snd (OnlyFirst bits refs c)) = take refs (sliceRefs c)"
    "fst (SkipFirst bits refs c) \<and> slice_ok (snd (SkipFirst bits refs c)) \<and>
      sliceBits (snd (SkipFirst bits refs c)) = drop bits (sliceBits c) \<and>
      sliceRefs (snd (SkipFirst bits refs c)) = drop refs (sliceRefs c)"
    "fst (OnlyLast bits refs c) \<and> slice_ok (snd (OnlyLast bits refs c)) \<and>
      sliceBits (snd (OnlyLast bits refs c)) = drop (BitsLeft c - bits) (sliceBits c) \<and>
      sliceRefs (snd (OnlyLast bits refs c)) = drop (RefsNum c - refs) (sliceRefs c)"
    "fst (SkipLast bits refs c) \<and> slice_ok (snd (SkipLast bits refs c)) \<and>
      sliceBits (snd (SkipLast bits refs c)) = take (BitsLeft c - bits) (sliceBits c) \<and>
      sliceRefs (snd (SkipLast bits refs c)) = take (RefsNum c - refs) (sliceRefs c)"
proof -
  note len = window_len [OF assms(1)]
  note w = window_ok [OF assms(1), of "sl_bitStart c" "sl_bitStart c + bits" "sl_refStart c" "sl_refStart c + refs"]
    window_ok [OF assms(1), of "sl_bitStart c + bits" "sl_bitEnd c" "sl_refStart c + refs" "sl_refEnd c"]
    window_ok [OF assms(1), of "sl_bitEnd c - bits" "sl_bitEnd c" "sl_refEnd c - refs" "sl_refEnd c"]
    window_ok [OF assms(1), of "sl_bitStart c" "sl_bitEnd c - bits" "sl_refStart c" "sl_refEnd c - refs"]
  have n: "sl_bitEnd c = sl_bitStart c + BitsLeft c" "sl_refEnd c = sl_refStart c + RefsNum c" using len by simp_all
  have ord: "sl_bitStart c \<le> sl_bitEnd c" "sl_refStart c \<le> sl_refEnd c" using n by simp_all
  show "fst (OnlyFirst bits refs c) \<and> slice_ok (snd (OnlyFirst bits refs c)) \<and>
      sliceBits (snd (OnlyFirst bits refs c)) = take bits (sliceBits c) \<and>
      sliceRefs (snd (OnlyFirst bits refs c)) = take refs (sliceRefs c)"
    using assms(2,3) w(1-3) n by (simp add: OnlyFirst_def)
  show "fst (SkipFirst bits refs c) \<and> slice_ok (snd (SkipFirst bits refs c)) \<and>
      sliceBits (snd (SkipFirst bits refs c)) = drop bits (sliceBits c) \<and>
      sliceRefs (snd (SkipFirst bits refs c)) = drop refs (sliceRefs c)"
    using assms(2,3) w(4-6) ord len(3) by (simp add: SkipFirst_def BitsLeft_def RefsNum_def)
  show "fst (OnlyLast bits refs c) \<and> slice_ok (snd (OnlyLast bits refs c)) \<and>
      sliceBits (snd (OnlyLast bits refs c)) = drop (BitsLeft c - bits) (sliceBits c) \<and>
      sliceRefs (snd (OnlyLast bits refs c)) = drop (RefsNum c - refs) (sliceRefs c)"
    using assms(2,3) w(7-9) ord len(3) by (simp add: OnlyLast_def BitsLeft_def RefsNum_def add.commute)
  show "fst (SkipLast bits refs c) \<and> slice_ok (snd (SkipLast bits refs c)) \<and>
      sliceBits (snd (SkipLast bits refs c)) = take (BitsLeft c - bits) (sliceBits c) \<and>
      sliceRefs (snd (SkipLast bits refs c)) = take (RefsNum c - refs) (sliceRefs c)"
    using assms(2,3) w(10-12) n by (simp add: SkipLast_def)
qed

subsection \<open>Chunks\<close>

abbreviation chunkBits :: "slice \<Rightarrow> nat \<Rightarrow> nat \<Rightarrow> bool list" where
  "chunkBits c i n \<equiv> take n (drop i (sliceBits c))"

lemma preloadSliceUIntAt_ok:
  assumes "slice_ok c" "offset + sz \<le> BitsLeft c" "sz \<le> 64"
  shows "preloadSliceUIntAt c offset sz = Inr (word_of_nat (uintOf (chunkBits c offset sz)))"
proof (cases "sz = 0")
  case True then show ?thesis by (simp add: preloadSliceUIntAt_def)
next
  case False
  let ?d = "c\<lparr>sl_bitStart := sl_bitStart c + offset\<rparr>"
  have "slice_ok ?d" "sl_bitEnd ?d = sl_bitEnd c" "BitsLeft ?d = BitsLeft c - offset"
    using assms by (auto simp: slice_ok_def BitsLeft_def)
  moreover have "sliceBits ?d = drop offset (sliceBits c)" by (simp add: sliceBits_def drop_bitsOf)
  ultimately show ?thesis using False assms loadUintFast_ok [of ?d sz True] by (simp add: preloadSliceUIntAt_def)
qed

lemma unat_uintOf: "length bs \<le> 64 \<Longrightarrow> unat (word_of_nat (uintOf bs) :: 64 word) = uintOf bs"
  using uintOf_less [of bs] power_increasing [of "length bs" 64 "2 :: nat"]
  by (simp add: unsigned_of_nat take_bit_nat_eq_self order_less_le_trans)

lemma uintOf_inj: "length xs = length ys \<Longrightarrow> uintOf xs = uintOf ys \<Longrightarrow> xs = ys"
  by (metis bitsUint_uintOf)

lemma word_uintOf_eq:
  assumes "length xs = length ys" "length ys \<le> 64"
  shows "(word_of_nat (uintOf xs) :: 64 word) = word_of_nat (uintOf ys) \<longleftrightarrow> xs = ys"
  using assms unat_uintOf [of xs] unat_uintOf [of ys] uintOf_inj [of xs ys] by metis

lemma word_uintOf_less:
  assumes "length xs = length ys" "length ys \<le> 64"
  shows "(word_of_nat (uintOf xs) :: 64 word) < word_of_nat (uintOf ys) \<longleftrightarrow> uintOf xs < uintOf ys"
  using assms unat_uintOf [of xs] unat_uintOf [of ys] by (simp add: word_less_nat_alt)

lemma chunk_split: "n \<le> m \<Longrightarrow> take m (drop i xs) = take n (drop i xs) @ take (m - n) (drop (i + n) xs)"
  using take_add [of n "m - n" "drop i xs"] by (simp add: add.commute)

lemma bitsEqualLoop_ok:
  assumes "slice_ok c" "slice_ok d" "i + bits \<le> BitsLeft c" "j + bits \<le> BitsLeft d" "pos \<le> bits"
  shows "bitsEqualLoop c d i j bits pos \<longleftrightarrow> chunkBits c (i + pos) (bits - pos) = chunkBits d (j + pos) (bits - pos)"
  using assms
proof (induction c d i j bits pos rule: bitsEqualLoop.induct)
  case (1 c d i j bits pos)
  show ?case
  proof (cases "pos < bits")
    case True
    define n where "n = min 64 (bits - pos)"
    have n: "n \<le> 64" "n \<le> bits - pos" "0 < n" "pos + n \<le> bits" using True by (auto simp: n_def)
    have load: "preloadSliceUIntAt c (i + pos) n = Inr (word_of_nat (uintOf (chunkBits c (i + pos) n)))"
        "preloadSliceUIntAt d (j + pos) n = Inr (word_of_nat (uintOf (chunkBits d (j + pos) n)))"
      using 1(2-6) n by (auto intro!: preloadSliceUIntAt_ok)
    have eq: "(word_of_nat (uintOf (chunkBits c (i + pos) n)) :: 64 word) = word_of_nat (uintOf (chunkBits d (j + pos) n)) \<longleftrightarrow>
        chunkBits c (i + pos) n = chunkBits d (j + pos) n"
      using 1(4,5) n by (intro word_uintOf_eq) auto
    have len: "length (chunkBits c (i + pos) n) = length (chunkBits d (j + pos) n)" using 1(4,5) n by auto
    have IH: "chunkBits c (i + pos) n = chunkBits d (j + pos) n \<Longrightarrow> bitsEqualLoop c d i j bits (pos + n) \<longleftrightarrow>
        chunkBits c (i + (pos + n)) (bits - (pos + n)) = chunkBits d (j + (pos + n)) (bits - (pos + n))"
      using 1(1) [OF True n_def load] 1(2-5) n by simp
    have "bitsEqualLoop c d i j bits pos \<longleftrightarrow> chunkBits c (i + pos) n = chunkBits d (j + pos) n \<and> bitsEqualLoop c d i j bits (pos + n)"
      by (subst bitsEqualLoop.simps) (simp add: True Let_def load eq flip: n_def)
    then show ?thesis
      using IH len chunk_split [OF n(2), of "i + pos" "sliceBits c"] chunk_split [OF n(2), of "j + pos" "sliceBits d"]
      by (auto simp: add.assoc)
  next
    case False
    then show ?thesis by (subst bitsEqualLoop.simps) simp
  qed
qed

subsection \<open>Aligned ranges\<close>

definition sameBits :: "byte list \<Rightarrow> byte list \<Rightarrow> nat \<Rightarrow> nat \<Rightarrow> bool" where
  "sameBits l r i j \<longleftrightarrow> (\<forall>k. i \<le> k \<and> k < j \<longrightarrow> bitAt l k = bitAt r k)"

lemma sameBitsD: "sameBits l r i j \<Longrightarrow> i \<le> k \<Longrightarrow> k < j \<Longrightarrow> bitAt l k = bitAt r k"
  and sameBitsI: "(\<And>k. i \<le> k \<Longrightarrow> k < j \<Longrightarrow> bitAt l k = bitAt r k) \<Longrightarrow> sameBits l r i j"
  by (simp_all add: sameBits_def)

lemma sameBits_split:
  assumes "i \<le> m" "m \<le> j"
  shows "sameBits l r i j \<longleftrightarrow> sameBits l r i m \<and> sameBits l r m j"
proof safe
  assume *: "sameBits l r i m" "sameBits l r m j"
  show "sameBits l r i j"
  proof (rule sameBitsI)
    fix k assume "i \<le> k" "k < j"
    then show "bitAt l k = bitAt r k" using sameBitsD [OF *(1), of k] sameBitsD [OF *(2), of k] by (cases "k < m") auto
  qed
qed (use assms in \<open>auto simp: sameBits_def\<close>)

lemma mask_eq_bits: "x AND m = y AND m \<longleftrightarrow> (\<forall>k<8. bit m k \<longrightarrow> bit x k = bit y k)" for x y m :: byte
  by (auto simp: bit_eq_iff bit_and_iff)

lemma sameBits_byte:
  assumes "i \<le> 8" "j \<le> 8"
  shows "sameBits l r (8 * b + i) (8 * b + j) \<longleftrightarrow> (\<forall>k<8. 8 - j \<le> k \<and> k < 8 - i \<longrightarrow> bit (l ! b) k = bit (r ! b) k)"
proof
  assume s: "sameBits l r (8 * b + i) (8 * b + j)"
  show "\<forall>k<8. 8 - j \<le> k \<and> k < 8 - i \<longrightarrow> bit (l ! b) k = bit (r ! b) k"
  proof (intro allI impI)
    fix k :: nat assume k: "k < 8" "8 - j \<le> k \<and> k < 8 - i"
    then have "bitAt l (8 * b + (7 - k)) = bitAt r (8 * b + (7 - k))" by (intro sameBitsD [OF s]) linarith+
    moreover have "7 - k < 8" "7 - (7 - k) = k" using k(1) by simp_all
    ultimately show "bit (l ! b) k = bit (r ! b) k" by (simp only: bitAt_byte)
  qed
next
  assume s: "\<forall>k<8. 8 - j \<le> k \<and> k < 8 - i \<longrightarrow> bit (l ! b) k = bit (r ! b) k"
  show "sameBits l r (8 * b + i) (8 * b + j)"
    unfolding sameBits_def
  proof (intro allI impI)
    fix k assume k: "8 * b + i \<le> k \<and> k < 8 * b + j"
    define p where "p = k - 8 * b"
    have p: "k = 8 * b + p" "i \<le> p" "p < j" "p < 8" using k assms by (auto simp: p_def)
    then have "8 - j \<le> 7 - p \<and> 7 - p < 8 - i" by linarith
    then have "bit (l ! b) (7 - p) = bit (r ! b) (7 - p)" using s p(4) by simp
    then show "bitAt l k = bitAt r k" using p by (simp add: bitAt_byte)
  qed
qed

lemma sameBits_bytes:
  assumes "w \<le> length l" "w \<le> length r"
  shows "take w l = take w r \<longleftrightarrow> sameBits l r 0 (8 * w)"
  using assms
proof (induction w)
  case 0 then show ?case by (simp add: sameBits_def)
next
  case (Suc w)
  have "take (Suc w) l = take (Suc w) r \<longleftrightarrow> take w l = take w r \<and> l ! w = r ! w"
    using Suc.prems by (simp add: take_Suc_conv_app_nth)
  moreover have "l ! w = r ! w \<longleftrightarrow> sameBits l r (8 * w) (8 * w + 8)"
    using sameBits_byte [of 0 8 l r w] bit_word_eqI [of "l ! w" "r ! w"] by auto
  ultimately show ?case using Suc sameBits_split [of 0 "8 * w" "8 * Suc w" l r] by (simp add: add.commute)
qed

lemma bit_headMask:
  assumes "i \<le> 8" "h \<le> 8 - i" "k < 8"
  shows "bit (drop_bit i (0xFF :: byte) AND push_bit (8 - i - h) 0xFF) k \<longleftrightarrow> 8 - (i + h) \<le> k \<and> k < 8 - i"
proof -
  have ff: "bit (0xFF :: byte) m \<longleftrightarrow> m < 8" for m
  proof -
    have "(0xFF :: byte) = mask 8" by (simp add: mask_eq_exp_minus_1)
    then show ?thesis by (simp only: bit_mask_iff possible_bit_word) auto
  qed
  show ?thesis using assms unfolding bit_and_iff bit_drop_bit_eq bit_push_bit_iff comp_def ff by auto
qed

lemma bit_tailMask:
  "t \<le> 8 \<Longrightarrow> k < 8 \<Longrightarrow> bit (push_bit (8 - t) (0xFF :: byte)) k \<longleftrightarrow> 8 - t \<le> k"
  using bit_headMask [of 0 t k] by (auto simp: bit_and_iff bit_push_bit_iff)

lemma sameBits_drop: "sameBits (drop b l) (drop b r) i j \<longleftrightarrow> sameBits l r (8 * b + i) (8 * b + j)"
  if "8 * b + j \<le> 8 * length l" "8 * b + j \<le> 8 * length r"
proof -
  have d: "bitAt (drop b x) k = bitAt x (8 * b + k)" if "8 * b + k < 8 * length x" for x :: "byte list" and k
  proof -
    obtain q p where k: "k = 8 * q + p" "p < 8" by (rule div8E)
    then have "drop b x ! q = x ! (b + q)" using that by (intro nth_drop) linarith
    then show ?thesis using k bitAt_byte [OF k(2), of "drop b x" q] bitAt_byte [OF k(2), of x "b + q"]
      by (simp add: algebra_simps)
  qed
  show ?thesis
  proof
    assume *: "sameBits (drop b l) (drop b r) i j"
    show "sameBits l r (8 * b + i) (8 * b + j)"
    proof (rule sameBitsI)
      fix k assume k: "8 * b + i \<le> k" "k < 8 * b + j"
      have "bitAt (drop b l) (k - 8 * b) = bitAt (drop b r) (k - 8 * b)" using k by (intro sameBitsD [OF *]) linarith+
      then show "bitAt l k = bitAt r k" using d [of "k - 8 * b" l] d [of "k - 8 * b" r] k that by simp
    qed
  next
    assume *: "sameBits l r (8 * b + i) (8 * b + j)"
    show "sameBits (drop b l) (drop b r) i j"
    proof (rule sameBitsI)
      fix k assume k: "i \<le> k" "k < j"
      then show "bitAt (drop b l) k = bitAt (drop b r) k"
        using that d [of k l] d [of k r] sameBitsD [OF *, of "8 * b + k"] by simp
    qed
  qed
qed

lemma whole_bits:
  assumes "bits \<le> 8 * length l" "bits \<le> 8 * length r" "w = bits div 8" "t = bits mod 8"
  shows "(if take w l \<noteq> take w r then False else if t = 0 then True
    else l ! w AND push_bit (8 - t) (0xFF :: byte) = r ! w AND push_bit (8 - t) 0xFF) \<longleftrightarrow> sameBits l r 0 bits"
proof -
  have b: "bits = 8 * w + t" "t < 8" using assms(3,4) by simp_all
  have w: "take w l = take w r \<longleftrightarrow> sameBits l r 0 (8 * w)"
    using assms(1,2) b by (intro sameBits_bytes) linarith+
  have "l ! w AND push_bit (8 - t) (0xFF :: byte) = r ! w AND push_bit (8 - t) 0xFF \<longleftrightarrow> sameBits l r (8 * w) (8 * w + t)"
    unfolding mask_eq_bits using b(2) sameBits_byte [of 0 t l r w] by (simp add: bit_tailMask)
  then show ?thesis using w sameBits_split [of 0 "8 * w" bits l r] b by (auto simp: sameBits_def [of _ _ "8 * w" "8 * w"])
qed

lemma bitsEqualSameOffset_ok:
  assumes "i < 8" "i + bits \<le> 8 * length l" "i + bits \<le> 8 * length r"
  shows "bitsEqualSameOffset l r i bits \<longleftrightarrow> sameBits l r i (i + bits)"
proof (cases "i = 0 \<or> bits = 0")
  case True
  then show ?thesis
    using assms whole_bits [of bits l r, OF _ _ refl refl] unfolding bitsEqualSameOffset_def Let_def
    by (auto simp: sameBits_def [of l r i i])
next
  case False
  define h where "h = min bits (8 - i)"
  have h: "h \<le> 8 - i" "i + h \<le> 8" "h \<le> bits" using assms(1) by (auto simp: h_def)
  have head: "l ! 0 AND (drop_bit i (0xFF :: byte) AND push_bit (8 - i - h) 0xFF) =
      r ! 0 AND (drop_bit i (0xFF :: byte) AND push_bit (8 - i - h) 0xFF) \<longleftrightarrow> sameBits l r i (i + h)"
    unfolding mask_eq_bits using sameBits_byte [of i "i + h" l r 0] assms(1) h
    by (simp add: bit_headMask del: diff_diff_left)
  have tail: "sameBits (drop 1 l) (drop 1 r) 0 (bits - h) \<longleftrightarrow> sameBits l r (i + h) (i + bits)" if "bits - h \<noteq> 0"
  proof -
    have "i + h = 8" using that assms(1) by (auto simp: h_def)
    then have "8 * 1 + (bits - h) = i + bits" "8 * 1 + 0 = i + h" using h by simp_all
    then show ?thesis using sameBits_drop [of 1 "bits - h" l r 0] assms by simp
  qed
  have rest: "bits - h \<le> 8 * length (drop 1 l)" "bits - h \<le> 8 * length (drop 1 r)" if "bits - h \<noteq> 0"
    using that assms h_def by auto
  have "bitsEqualSameOffset l r i bits \<longleftrightarrow> sameBits l r i (i + h) \<and> (bits - h = 0 \<or> sameBits (drop 1 l) (drop 1 r) 0 (bits - h))"
    unfolding bitsEqualSameOffset_def Let_def h_def [symmetric] head
    using False whole_bits [of "bits - h" "drop 1 l" "drop 1 r", OF rest refl refl] by auto
  then show ?thesis using tail sameBits_split [of i "i + h" "i + bits" l r] h by auto
qed

lemma chunk_sameBits:
  assumes "i + n \<le> BitsLeft c" "j + n \<le> BitsLeft d" "(sl_bitStart c + i) mod 8 = (sl_bitStart d + j) mod 8"
  defines "a \<equiv> sl_bitStart c + i" and "b \<equiv> sl_bitStart d + j"
  assumes len: "a + n \<le> 8 * length (cell_data (sl_cell c))" "b + n \<le> 8 * length (cell_data (sl_cell d))"
  shows "sameBits (drop (a div 8) (cell_data (sl_cell c))) (drop (b div 8) (cell_data (sl_cell d))) (a mod 8) (a mod 8 + n) \<longleftrightarrow>
    chunkBits c i n = chunkBits d j n"
proof -
  have m: "b mod 8 = a mod 8" using assms(3) by (simp add: a_def b_def)
  have d: "bitAt (drop (p div 8) x) (p mod 8 + k) = bitAt x (p + k)" if "p + k < 8 * length x" for p k and x :: "byte list"
  proof -
    obtain q r where k: "p mod 8 + k = 8 * q + r" "r < 8" by (rule div8E)
    obtain u v where p: "p = 8 * u + v" "v < 8" "p div 8 = u" "p mod 8 = v" by (rule div8E)
    have e: "8 * (p div 8 + q) + r = p + k" unfolding p(3) using k(1) [unfolded p(4)] p(1) by (simp add: add_mult_distrib2)
    then have "drop (p div 8) x ! q = x ! (p div 8 + q)" using that by (intro nth_drop) linarith
    then show ?thesis using k bitAt_byte [OF k(2), of "drop (p div 8) x" q] bitAt_byte [OF k(2), of x "p div 8 + q"] e by simp
  qed
  have "chunkBits c i n = chunkBits d j n \<longleftrightarrow> (\<forall>k<n. bitAt (cell_data (sl_cell c)) (a + k) = bitAt (cell_data (sl_cell d)) (b + k))"
    using assms(1,2) by (auto simp: list_eq_iff_nth_eq nth_sliceBits a_def b_def add.assoc)
  also have "\<dots> \<longleftrightarrow> (\<forall>k<n. bitAt (drop (a div 8) (cell_data (sl_cell c))) (a mod 8 + k) =
      bitAt (drop (b div 8) (cell_data (sl_cell d))) (a mod 8 + k))"
    using d [of a _ "cell_data (sl_cell c)"] d [of b _ "cell_data (sl_cell d)"] len m by auto
  also have "\<dots> \<longleftrightarrow> sameBits (drop (a div 8) (cell_data (sl_cell c))) (drop (b div 8) (cell_data (sl_cell d))) (a mod 8) (a mod 8 + n)"
    (is "?p \<longleftrightarrow> ?q")
  proof
    assume ?p
    show ?q
    proof (rule sameBitsI)
      fix k assume "a mod 8 \<le> k" "k < a mod 8 + n"
      then show "bitAt (drop (a div 8) (cell_data (sl_cell c))) k = bitAt (drop (b div 8) (cell_data (sl_cell d))) k"
        using \<open>?p\<close> [rule_format, of "k - a mod 8"] by simp
    qed
  qed (intro allI impI, erule sameBitsD, simp_all)
  finally show ?thesis by simp
qed

lemma slice_ok_bytes: "slice_ok c \<Longrightarrow> i + n \<le> BitsLeft c \<Longrightarrow> sl_bitStart c + i + n \<le> 8 * length (cell_data (sl_cell c))"
  by (auto simp: slice_ok_def BitsLeft_def)

lemma bitsEqualAt_ok:
  assumes "slice_ok c" "slice_ok d" "i + n \<le> BitsLeft c" "j + n \<le> BitsLeft d"
  shows "bitsEqualAt c d i j n \<longleftrightarrow> chunkBits c i n = chunkBits d j n"
proof (cases "(sl_bitStart c + i) mod 8 = (sl_bitStart d + j) mod 8")
  case True
  let ?a = "sl_bitStart c + i" and ?b = "sl_bitStart d + j"
  have len: "?a + n \<le> 8 * length (cell_data (sl_cell c))" "?b + n \<le> 8 * length (cell_data (sl_cell d))"
    using slice_ok_bytes assms by blast+
  have "bitsEqualSameOffset (drop (?a div 8) (cell_data (sl_cell c))) (drop (?b div 8) (cell_data (sl_cell d))) (?a mod 8) n \<longleftrightarrow>
      sameBits (drop (?a div 8) (cell_data (sl_cell c))) (drop (?b div 8) (cell_data (sl_cell d))) (?a mod 8) (?a mod 8 + n)"
  proof (rule bitsEqualSameOffset_ok)
    show "?a mod 8 + n \<le> 8 * length (drop (?a div 8) (cell_data (sl_cell c)))"
        "?a mod 8 + n \<le> 8 * length (drop (?b div 8) (cell_data (sl_cell d)))"
      using len True mult_div_mod_eq [of 8 ?a] mult_div_mod_eq [of 8 ?b] by (simp_all only: length_drop)
  qed simp
  then show ?thesis using chunk_sameBits [OF assms(3,4) True len] True by (simp add: bitsEqualAt_def Let_def)
next
  case False
  then show ?thesis using bitsEqualLoop_ok [OF assms, of 0] by (simp add: bitsEqualAt_def Let_def)
qed

subsection \<open>Prefixes, suffixes, order\<close>

lemma prefix_take: "prefix xs ys \<longleftrightarrow> length xs \<le> length ys \<and> xs = take (length xs) ys"
  by (metis append_eq_conv_conj prefix_def prefix_length_le take_is_prefix)

lemma suffix_eq_drop: "suffix xs ys \<longleftrightarrow> length xs \<le> length ys \<and> xs = drop (length ys - length xs) ys"
  by (metis append_eq_conv_conj diff_diff_cancel length_drop suffix_def suffix_drop suffix_length_le
      add_diff_cancel_right' length_append)

lemma strict_prefix_take: "strict_prefix xs ys \<longleftrightarrow> length xs < length ys \<and> xs = take (length xs) ys"
  by (metis less_imp_le nat_neq_iff prefix_length_less prefix_take strict_prefix_def)

lemma strict_suffix_drop: "strict_suffix xs ys \<longleftrightarrow> length xs < length ys \<and> xs = drop (length ys - length xs) ys"
  by (metis less_imp_le nat_neq_iff suffix_length_less suffix_eq_drop strict_suffix_def)

lemma prefix_ops_ok:
  assumes "slice_ok c" "slice_ok d"
  shows "BitsEqual c (Some d) \<longleftrightarrow> sliceBits c = sliceBits d"
    "IsPrefixOf c (Some d) \<longleftrightarrow> prefix (sliceBits c) (sliceBits d)"
    "IsProperPrefixOf c (Some d) \<longleftrightarrow> strict_prefix (sliceBits c) (sliceBits d)"
    "IsSuffixOf c (Some d) \<longleftrightarrow> suffix (sliceBits c) (sliceBits d)"
    "IsProperSuffixOf c (Some d) \<longleftrightarrow> strict_suffix (sliceBits c) (sliceBits d)"
proof -
  have p: "bitsEqualAt c d 0 0 (BitsLeft c) \<longleftrightarrow> sliceBits c = take (BitsLeft c) (sliceBits d)" if "BitsLeft c \<le> BitsLeft d"
    using bitsEqualAt_ok [OF assms, of 0 "BitsLeft c" 0] that by simp
  have q: "bitsEqualAt c d 0 (BitsLeft d - BitsLeft c) (BitsLeft c) \<longleftrightarrow> sliceBits c = drop (BitsLeft d - BitsLeft c) (sliceBits d)"
    if "BitsLeft c \<le> BitsLeft d"
    using bitsEqualAt_ok [OF assms, of 0 "BitsLeft c" "BitsLeft d - BitsLeft c"] that by simp
  show "BitsEqual c (Some d) \<longleftrightarrow> sliceBits c = sliceBits d"
  proof (cases "BitsLeft c = BitsLeft d")
    case True then show ?thesis using p by (simp add: BitsEqual_def)
  next
    case False
    then have "sliceBits c \<noteq> sliceBits d" by (metis length_sliceBits)
    then show ?thesis using False by (simp add: BitsEqual_def)
  qed
  show "IsPrefixOf c (Some d) \<longleftrightarrow> prefix (sliceBits c) (sliceBits d)"
    "IsProperPrefixOf c (Some d) \<longleftrightarrow> strict_prefix (sliceBits c) (sliceBits d)"
    "IsSuffixOf c (Some d) \<longleftrightarrow> suffix (sliceBits c) (sliceBits d)"
    "IsProperSuffixOf c (Some d) \<longleftrightarrow> strict_suffix (sliceBits c) (sliceBits d)"
    unfolding prefix_take strict_prefix_take suffix_eq_drop strict_suffix_drop length_sliceBits
      IsPrefixOf_def IsProperPrefixOf_def IsSuffixOf_def IsProperSuffixOf_def option.case
    using p q not_le_imp_less [of "BitsLeft c" "BitsLeft d"] less_imp_le [of "BitsLeft c" "BitsLeft d"] by (meson leD)+
qed

lemma bitsCompare_append:
  "length xs = length ys \<Longrightarrow> bitsCompare (xs @ us) (ys @ vs) =
    (if xs = ys then bitsCompare us vs else if uintOf xs < uintOf ys then -1 else 1)"
proof (induction xs ys rule: list_induct2)
  case (Cons x xs y ys)
  then show ?case using uintOf_less [of xs] uintOf_less [of ys] by (cases x; cases y) auto
qed simp

lemma bitsCompare_nil: "bitsCompare xs [] = (if xs = [] then 0 else 1)" "bitsCompare [] ys = (if ys = [] then 0 else -1)"
  by (cases xs; simp) (cases ys; simp)

lemma lexLoop_ok:
  assumes "slice_ok c" "slice_ok d" "limit = min (BitsLeft c) (BitsLeft d)" "pos \<le> limit"
  shows "bitsCompare (drop pos (sliceBits c)) (drop pos (sliceBits d)) =
    (case lexLoop c d limit pos of Some r \<Rightarrow> r
     | None \<Rightarrow> if BitsLeft c < BitsLeft d then -1 else if BitsLeft c > BitsLeft d then 1 else 0)"
  using assms
proof (induction c d limit pos rule: lexLoop.induct)
  case (1 c d limit pos)
  show ?case
  proof (cases "pos < limit")
    case True
    define n where "n = min 64 (limit - pos)"
    have n: "n \<le> 64" "n \<le> limit - pos" "0 < n" "pos + n \<le> limit" using True by (auto simp: n_def)
    let ?x = "chunkBits c pos n" and ?y = "chunkBits d pos n"
    have load: "preloadSliceUIntAt c pos n = Inr (word_of_nat (uintOf ?x))"
        "preloadSliceUIntAt d pos n = Inr (word_of_nat (uintOf ?y))"
      using 1(2-5) n by (auto intro!: preloadSliceUIntAt_ok)
    have len: "length ?x = length ?y" "length ?y \<le> 64" using 1(4) n by auto
    note w = word_uintOf_eq [OF len] word_uintOf_less [OF len]
    have split: "drop pos (sliceBits e) = chunkBits e pos n @ drop (pos + n) (sliceBits e)" for e
      by (metis append_take_drop_id drop_drop add.commute)
    have IH: "?x = ?y \<Longrightarrow> bitsCompare (drop (pos + n) (sliceBits c)) (drop (pos + n) (sliceBits d)) =
      (case lexLoop c d limit (pos + n) of Some r \<Rightarrow> r
       | None \<Rightarrow> if BitsLeft c < BitsLeft d then -1 else if BitsLeft c > BitsLeft d then 1 else 0)"
      using 1(1) [OF True n_def _ load] 1(2-4) n by simp
    have "lexLoop c d limit pos = (if ?x \<noteq> ?y then Some (if uintOf ?x < uintOf ?y then -1 else 1) else lexLoop c d limit (pos + n))"
      by (subst lexLoop.simps) (simp add: True Let_def load w flip: n_def)
    then show ?thesis
      using IH bitsCompare_append [OF len(1), of "drop (pos + n) (sliceBits c)" "drop (pos + n) (sliceBits d)",
          folded split] by auto
  next
    case False
    then have "drop pos (sliceBits c) = [] \<or> drop pos (sliceBits d) = []" using 1(4,5) by (auto simp: min_def split: if_splits)
    moreover have "lexLoop c d limit pos = None" using False by (subst lexLoop.simps) simp
    ultimately show ?thesis using 1(4,5) False by (auto simp: bitsCompare_nil min_def split: if_splits)
  qed
qed

lemma LexCompare_ok:
  "slice_ok c \<Longrightarrow> slice_ok d \<Longrightarrow> LexCompare c (Some d) = bitsCompare (sliceBits c) (sliceBits d)"
  using lexLoop_ok [of c d "min (BitsLeft c) (BitsLeft d)" 0]
  by (auto simp: LexCompare_def Let_def min_def split: option.splits)

subsection \<open>Runs\<close>

lemma bit_sameBitsValue: "sz \<le> 64 \<Longrightarrow> bit (sameBitsValue b sz) k \<longleftrightarrow> b \<and> k < sz"
proof -
  assume sz: "sz \<le> 64"
  have "bit (push_bit sz 1 - 1 :: 64 word) k \<longleftrightarrow> k < sz \<and> k < 64"
    by (simp add: push_bit_eq_mult bit_mask_iff possible_bit_word conj_commute flip: mask_eq_exp_minus_1)
  then show ?thesis using sz by (auto simp: sameBitsValue_def bit_not_iff dest: bit_imp_le_length)
qed

lemma sameBitsValue_eq:
  assumes "length xs \<le> 64"
  shows "word_of_nat (uintOf xs) = sameBitsValue b (length xs) \<longleftrightarrow> xs = replicate (length xs) b"
proof -
  have "sameBitsValue b (length xs) = word_of_nat (uintOf (replicate (length xs) b))"
    by (rule word_bitsI) (use assms in \<open>auto simp: bit_sameBitsValue\<close>)
  then show ?thesis using word_uintOf_eq [of xs "replicate (length xs) b"] assms by simp
qed

lemma bit_chunk: "length xs \<le> 64 \<Longrightarrow> bit (word_of_nat (uintOf xs) :: 64 word) k \<longleftrightarrow> k < length xs \<and> xs ! (length xs - 1 - k)"
  by (auto simp: bit_of_nat_iff bit_uintOf)

lemma bit_mismatch:
  assumes "length xs \<le> 64"
  shows "bit (word_of_nat (uintOf xs) XOR sameBitsValue b (length xs)) k \<longleftrightarrow> k < length xs \<and> xs ! (length xs - 1 - k) \<noteq> b"
  using assms by (auto simp: bit_xor_iff bit_chunk bit_sameBitsValue)

lemma bit_mismatch_high:
  assumes "length xs \<le> 64" "j < length xs"
  shows "bit (push_bit (64 - length xs) (word_of_nat (uintOf xs) XOR sameBitsValue b (length xs))) (63 - j) \<longleftrightarrow> xs ! j \<noteq> b"
proof -
  have "63 - j - (64 - length xs) = length xs - 1 - j" "64 - length xs \<le> 63 - j" using assms by simp_all
  then show ?thesis using assms bit_mismatch [OF assms(1), of b "length xs - 1 - j"] unfolding bit_push_bit_iff by auto
qed

lemma takeWhile_upt:
  assumes "i < n" "\<not> P i" "\<And>j. j < i \<Longrightarrow> P j" shows "length (takeWhile P [0..<n]) = i"
proof -
  have "[0..<n] = [0..<i] @ i # [Suc i..<n]"
    using assms(1) upt_add_eq_append [of 0 i "n - i"] upt_conv_Cons [of i n] by simp
  moreover have "takeWhile P ([0..<i] @ i # [Suc i..<n]) = [0..<i] @ takeWhile P (i # [Suc i..<n])"
    using assms by (intro takeWhile_append2) auto
  ultimately show ?thesis using assms(2) by simp
qed

lemma first_mismatch:
  assumes "xs \<noteq> replicate (length xs) b"
  obtains i where "i < length xs" "xs ! i \<noteq> b" "\<And>j. j < i \<Longrightarrow> xs ! j = b" "length (takeWhile ((=) b) (xs @ ys)) = i"
proof -
  have "\<exists>i. i < length xs \<and> xs ! i \<noteq> b" using assms by (auto simp: list_eq_iff_nth_eq)
  then obtain i where i: "i < length xs" "xs ! i \<noteq> b" "\<And>j. j < i \<Longrightarrow> xs ! j = b"
    unfolding exists_least_iff [of "\<lambda>i. i < length xs \<and> xs ! i \<noteq> b"] by (meson order_less_trans)
  have "takeWhile ((=) b) (xs @ ys) = takeWhile ((=) b) (take i xs @ xs ! i # (drop (Suc i) xs @ ys))"
    by (rule arg_cong) (use id_take_nth_drop [OF i(1)] in simp)
  also have "takeWhile ((=) b) (take i xs @ xs ! i # (drop (Suc i) xs @ ys)) =
      take i xs @ takeWhile ((=) b) (xs ! i # (drop (Suc i) xs @ ys))"
    using i by (intro takeWhile_append2) (auto simp: in_set_conv_nth)
  finally have "length (takeWhile ((=) b) (xs @ ys)) = i" using i(1,2) by simp
  with i show ?thesis by (rule that)
qed

lemma leadingLoop_ok:
  assumes "slice_ok c" "pos \<le> BitsLeft c"
  shows "leadingLoop c b (BitsLeft c) pos = pos + length (takeWhile ((=) b) (drop pos (sliceBits c)))"
  using assms
proof (induction c b "BitsLeft c" pos rule: leadingLoop.induct)
  case (1 c b pos)
  show ?case
  proof (cases "pos < BitsLeft c")
    case True
    define n where "n = min 64 (BitsLeft c - pos)"
    have n: "n \<le> 64" "0 < n" "pos + n \<le> BitsLeft c" using True by (auto simp: n_def)
    let ?x = "chunkBits c pos n"
    have len: "length ?x = n" using n by simp
    have load: "preloadSliceUIntAt c pos n = Inr (word_of_nat (uintOf ?x))"
      using 1(2) n by (intro preloadSliceUIntAt_ok)
    have step: "leadingLoop c b (BitsLeft c) pos = (if ?x \<noteq> replicate n b
        then pos + LeadingZeros64 (push_bit (64 - n) (word_of_nat (uintOf ?x) XOR sameBitsValue b n))
        else leadingLoop c b (BitsLeft c) (pos + n))"
      using sameBitsValue_eq [of ?x b] n len
      by (subst leadingLoop.simps) (simp add: True Let_def load flip: n_def)
    have "drop pos (sliceBits c) = ?x @ drop (pos + n) (sliceBits c)"
      by (metis append_take_drop_id drop_drop add.commute)
    then have split: "length (takeWhile ((=) b) (drop pos (sliceBits c))) =
        length (takeWhile ((=) b) (?x @ drop (pos + n) (sliceBits c)))" by (rule arg_cong)
    show ?thesis
    proof (cases "?x = replicate n b")
      case True
      have "leadingLoop c b (BitsLeft c) (pos + n) = pos + n + length (takeWhile ((=) b) (drop (pos + n) (sliceBits c)))"
        using 1(1) [OF \<open>pos < BitsLeft c\<close> n_def load refl] sameBitsValue_eq [of ?x b] True n len 1(2) by simp
      moreover have "takeWhile ((=) b) (replicate n b @ zs) = replicate n b @ takeWhile ((=) b) zs" for zs
        by (rule takeWhile_append2) simp
      ultimately show ?thesis unfolding step split using True by simp
    next
      case False
      obtain i where i: "i < n" "?x ! i \<noteq> b" "\<And>j. j < i \<Longrightarrow> ?x ! j = b"
          "length (takeWhile ((=) b) (?x @ drop (pos + n) (sliceBits c))) = i"
        using first_mismatch [of ?x b "drop (pos + n) (sliceBits c)"] False unfolding len by blast
      have "LeadingZeros64 (push_bit (64 - n) (word_of_nat (uintOf ?x) XOR sameBitsValue b n)) = i"
        unfolding LeadingZeros64_def
        by (rule takeWhile_upt) (use i n bit_mismatch_high [of ?x _ b, unfolded len] in simp_all)
      then show ?thesis unfolding step split using False i(4) by simp
    qed
  next
    case False
    then show ?thesis using 1(3) by (subst leadingLoop.simps) simp
  qed
qed

lemma CountLeading_ok: "slice_ok c \<Longrightarrow> CountLeading b c = length (takeWhile ((=) b) (sliceBits c))"
  using leadingLoop_ok [of c 0 b] length_sliceBits [of c]
  by (auto simp: CountLeading_def simp del: length_sliceBits)

lemma take_drop_rev: "i + n + m = length xs \<Longrightarrow> take n (drop i (rev xs)) = rev (take n (drop m xs))"
proof (rule nth_equalityI, goal_cases)
  case (2 k)
  then have "length xs - Suc (i + k) = m + (n - Suc k)" by simp
  then show ?case using 2 by (simp add: rev_nth)
qed simp

lemma trailingLoop_ok:
  assumes "slice_ok c" "pos \<le> BitsLeft c"
  shows "trailingLoop c b (BitsLeft c) pos = pos + length (takeWhile ((=) b) (drop pos (rev (sliceBits c))))"
  using assms
proof (induction c b "BitsLeft c" pos rule: trailingLoop.induct)
  case (1 c b pos)
  show ?case
  proof (cases "pos < BitsLeft c")
    case True
    define n where "n = min 64 (BitsLeft c - pos)"
    have n: "n \<le> 64" "0 < n" "pos + n \<le> BitsLeft c" using True by (auto simp: n_def)
    let ?i = "BitsLeft c - pos - n"
    define x where "x = chunkBits c ?i n"
    have len: "length x = n" using n by (simp add: x_def)
    have load: "preloadSliceUIntAt c ?i n = Inr (word_of_nat (uintOf x))"
      unfolding x_def using 1(2) n by (intro preloadSliceUIntAt_ok) auto
    have rep: "rev x = replicate n b \<longleftrightarrow> x = replicate n b" by (metis rev_replicate rev_rev_ident)
    have step: "trailingLoop c b (BitsLeft c) pos = (if x \<noteq> replicate n b
        then pos + TrailingZeros64 (word_of_nat (uintOf x) XOR sameBitsValue b n)
        else trailingLoop c b (BitsLeft c) (pos + n))"
      unfolding trailingLoop.simps [of c b "BitsLeft c" pos] Let_def n_def [symmetric] load sum.case
      using sameBitsValue_eq [of x b] n(1) True unfolding len by simp
    have "take n (drop pos (rev (sliceBits c))) = rev x"
      unfolding x_def using n by (intro take_drop_rev) simp
    then have "drop pos (rev (sliceBits c)) = rev x @ drop (pos + n) (rev (sliceBits c))"
      by (metis append_take_drop_id drop_drop add.commute)
    then have split: "length (takeWhile ((=) b) (drop pos (rev (sliceBits c)))) =
        length (takeWhile ((=) b) (rev x @ drop (pos + n) (rev (sliceBits c))))" by (rule arg_cong)
    show ?thesis
    proof (cases "x = replicate n b")
      case True
      have "trailingLoop c b (BitsLeft c) (pos + n) = pos + n + length (takeWhile ((=) b) (drop (pos + n) (rev (sliceBits c))))"
        using 1(1) [OF \<open>pos < BitsLeft c\<close> n_def load refl] sameBitsValue_eq [of x b] True n len 1(2) by simp
      moreover have "takeWhile ((=) b) (replicate n b @ zs) = replicate n b @ takeWhile ((=) b) zs" for zs
        by (rule takeWhile_append2) simp
      ultimately show ?thesis unfolding step split using True by simp
    next
      case False
      have rlen: "length (rev x) = n" using len by (simp only: length_rev)
      obtain i where i: "i < n" "rev x ! i \<noteq> b" "\<And>j. j < i \<Longrightarrow> rev x ! j = b"
          "length (takeWhile ((=) b) (rev x @ drop (pos + n) (rev (sliceBits c)))) = i"
        using first_mismatch [of "rev x" b "drop (pos + n) (rev (sliceBits c))"] False rep unfolding rlen by blast
      have rx: "rev x ! j = x ! (n - 1 - j)" if "j < n" for j using that len rev_nth [of j x] by simp
      have "TrailingZeros64 (word_of_nat (uintOf x) XOR sameBitsValue b n) = i"
        unfolding TrailingZeros64_def
        by (rule takeWhile_upt) (use i n rx bit_mismatch [of x b, unfolded len] in simp_all)
      then show ?thesis unfolding step split using False i(4) by simp
    qed
  next
    case False
    then show ?thesis using 1(3) by (subst trailingLoop.simps) simp
  qed
qed

lemma CountTrailing_ok: "slice_ok c \<Longrightarrow> CountTrailing b c = length (takeWhile ((=) b) (rev (sliceBits c)))"
  using trailingLoop_ok [of c 0 b] length_sliceBits [of c]
  by (auto simp: CountTrailing_def simp del: length_sliceBits)

text \<open>Removing the completion tag: the last one and the zeros after it.\<close>

lemma RemoveTrailing_ok:
  assumes "slice_ok c"
  shows "slice_ok (snd (RemoveTrailing c))"
    "sliceBits (snd (RemoveTrailing c)) = butlast (rev (dropWhile Not (rev (sliceBits c))))"
    "sliceRefs (snd (RemoveTrailing c)) = sliceRefs c"
proof -
  define t where "t = CountTrailing False c"
  have "((=) False) = Not" by (rule ext) simp
  then have t: "t = length (takeWhile Not (rev (sliceBits c)))"
    using CountTrailing_ok [OF assms, of False] unfolding t_def by (simp only:)
  have le: "t \<le> BitsLeft c" unfolding t using length_takeWhile_le [of Not "rev (sliceBits c)"] by simp
  define k where "k = BitsLeft c - (t + 1)"
  note len = window_len [OF assms]
  have r: "snd (RemoveTrailing c) = c\<lparr>sl_bitEnd := sl_bitStart c + k\<rparr>"
    using le len(1) by (auto simp: RemoveTrailing_def Let_def t_def [symmetric] k_def BitsLeft_def)
  have w: "sl_bitStart c + k \<le> sl_bitEnd c" "sl_refStart c \<le> sl_refEnd c" using len(1,2) by (simp_all add: k_def)
  note d = window_ok [OF assms order_refl _ w(1) order_refl w(2) order_refl, simplified, folded r]
  show "slice_ok (snd (RemoveTrailing c))" by (rule d(1))
  have "RefsNum c = sl_refEnd c - sl_refStart c" by (simp add: RefsNum_def)
  then show "sliceRefs (snd (RemoveTrailing c)) = sliceRefs c" using d(3) len(3) by simp
  have "dropWhile Not (rev (sliceBits c)) = drop t (rev (sliceBits c))" unfolding t by (rule dropWhile_eq_drop)
  then have "butlast (rev (dropWhile Not (rev (sliceBits c)))) = take k (sliceBits c)"
    by (simp add: rev_drop butlast_conv_take k_def)
  then show "sliceBits (snd (RemoveTrailing c)) = butlast (rev (dropWhile Not (rev (sliceBits c))))"
    using d(2) by simp
qed

end
