(* ===== verification/Op_Stack.thy ===== *)
theory Op_Stack
  imports Vm_Live Cell_Slice_Ops
begin

section \<open>Stack opcodes\<close>

text \<open>
  \<^verbatim>\<open>src/tvm/op/stack\<close>: one definition per opcode, with its prefix, decoder and action, and the registry of the
  package.  Tracing is off: the debug opcodes read their operand and do nothing.  The opcodes that
  push a constant are in Op_Const.
\<close>

subsection \<open>Shared helpers\<close>

definition maxSmallIndex :: int where
  "maxSmallIndex = 2 ^ 30 - 1"

definition popSmallIndex :: "int vm" where
  "popSmallIndex = bnd getS (\<lambda>s.
     let mx = (if st_GlobalVersion s < 4 then 255 else maxSmallIndex) in onStack (PopIntRangeInt64 0 mx))"

definition consumeLargeStackMoveGas :: "int \<Rightarrow> unit vm" where
  "consumeLargeStackMoveGas cnt = (if cnt \<le> 255 then ret () else ConsumeGas (cnt - 255))"

definition requireStackDepth :: "int \<Rightarrow> int list \<Rightarrow> unit vm" where
  "requireStackDepth cnt indices = bnd getS (\<lambda>s.
     let need = foldl (\<lambda>need idx. if idx < 0 then need else if idx + 1 > need then idx + 1 else need) cnt indices in
     if slen (st_Stack s) < need then raise errStackUnderflow else ret ())"

definition requireNibbles :: "byte list \<Rightarrow> go_error + unit" where
  "requireNibbles vs = (if list_ex (\<lambda>v. v > 0xF) vs then Inl GoPanic else Inr ())"

definition packArgs2 :: "byte \<Rightarrow> byte \<Rightarrow> go_error + 64 word" where
  "packArgs2 i j = (case requireNibbles [i, j] of
     Inl e \<Rightarrow> Inl e | Inr _ \<Rightarrow> Inr (push_bit 4 (ucast i) OR ucast j))"

definition packArgs3 :: "byte \<Rightarrow> byte \<Rightarrow> byte \<Rightarrow> go_error + 64 word" where
  "packArgs3 i j k = (case requireNibbles [i, j, k] of
     Inl e \<Rightarrow> Inl e | Inr _ \<Rightarrow> Inr (push_bit 8 (ucast i) OR push_bit 4 (ucast j) OR ucast k))"

definition unpackArgs2 :: "64 word \<Rightarrow> int \<times> int" where
  "unpackArgs2 args = (sint (drop_bit 4 args) AND 0xF, sint args AND 0xF)"

definition unpackArgs3 :: "64 word \<Rightarrow> int \<times> int \<times> int" where
  "unpackArgs3 args = (sint (drop_bit 8 args) AND 0xF, sint (drop_bit 4 args) AND 0xF, sint args AND 0xF)"

definition maxStackDepthCount :: "int \<Rightarrow> int \<Rightarrow> int" where
  "maxStackDepthCount a b = (if a > b then a else b)"

text \<open>The pair of calls \<open>Get\<close> and \<open>PushAny\<close> that most permutation opcodes use.\<close>

definition getPush :: "int \<Rightarrow> unit vm" where
  "getPush i = bnd (onStack (Get i)) (\<lambda>val. onStack (PushAny val))"

text \<open>A decoder that re-reads its prefix.\<close>

definition decodeChecked :: "nat \<Rightarrow> 64 word \<Rightarrow> nat \<Rightarrow> decoder" where
  "decodeChecked prefixLen pfx argBits =
     decodeStep 0 (LoadUInt prefixLen) (\<lambda>p.
       if p \<noteq> pfx then decodeFail 0 ErrCorruptedOpcode else decodeStep 0 (LoadUInt argBits) decoded)"

subsection \<open>Opcodes without operand\<close>

definition NOP :: simple_op where
  "NOP = SimpleOP (BytesPrefix [0x00]) (ret ())"

definition SWAP :: simple_op where
  "SWAP = SimpleOP (BytesPrefix [0x01]) (onStack (Exchange 0 1))"

definition DUP :: simple_op where
  "DUP = SimpleOP (BytesPrefix [0x20]) (onStack (PushAt 0))"

definition OVER :: simple_op where
  "OVER = SimpleOP (BytesPrefix [0x21]) (onStack (PushAt 1))"

definition DROP :: simple_op where
  "DROP = SimpleOP (BytesPrefix [0x30]) (bnd (onStack PopAny) (\<lambda>_. ret ()))"

definition NIP :: simple_op where
  "NIP = SimpleOP (BytesPrefix [0x31]) (onStack (PopSwapAt 1))"

definition ROT :: simple_op where
  "ROT = SimpleOP (BytesPrefix [0x58])
     (seq (requireStackDepth 3 []) (seq (onStack (Exchange 2 1)) (onStack (Exchange 1 0))))"

definition ROTREV :: simple_op where
  "ROTREV = SimpleOP (BytesPrefix [0x59])
     (seq (requireStackDepth 3 []) (seq (onStack (Exchange 1 0)) (onStack (Exchange 2 1))))"

definition SWAP2 :: simple_op where
  "SWAP2 = SimpleOP (BytesPrefix [0x5A])
     (seq (requireStackDepth 4 []) (seq (onStack (Exchange 3 1)) (onStack (Exchange 2 0))))"

definition DROP2 :: simple_op where
  "DROP2 = SimpleOP (BytesPrefix [0x5B]) (onStack (Drop 2))"

definition DUP2 :: simple_op where
  "DUP2 = SimpleOP (BytesPrefix [0x5C])
     (seq (requireStackDepth 2 [])
       (bnd (onStack (Get 1)) (\<lambda>a. bnd (onStack (Get 0)) (\<lambda>b.
          seq (onStack (PushAny a)) (onStack (PushAny b))))))"

definition OVER2 :: simple_op where
  "OVER2 = SimpleOP (BytesPrefix [0x5D]) (seq (requireStackDepth 4 []) (seq (getPush 3) (getPush 3)))"

definition PICK :: simple_op where
  "PICK = SimpleOP (BytesPrefix [0x60]) (bnd popSmallIndex (\<lambda>idx. bnd getS (\<lambda>s.
     if idx \<ge> slen (st_Stack s) then raise errStackUnderflow else onStack (PushAt idx))))"

primrec rollLoop :: "nat \<Rightarrow> unit vm" where
  "rollLoop 0 = ret ()"
| "rollLoop (Suc n) = seq (onStack (Exchange (int n) (int (Suc n)))) (rollLoop n)"

definition ROLL :: simple_op where
  "ROLL = SimpleOP (BytesPrefix [0x61]) (bnd popSmallIndex (\<lambda>idx. bnd getS (\<lambda>s.
     if idx \<ge> slen (st_Stack s) then raise errStackUnderflow
     else seq (consumeLargeStackMoveGas idx) (rollLoop (nat idx)))))"

definition ROLLREV :: simple_op where
  "ROLLREV = SimpleOP (BytesPrefix [0x62]) (bnd popSmallIndex (\<lambda>idx. bnd getS (\<lambda>s.
     if idx \<ge> slen (st_Stack s) then raise errStackUnderflow
     else seq (consumeLargeStackMoveGas idx)
            (for_each [0..<nat idx] (\<lambda>i. onStack (Exchange (int i) (int (i + 1))))))))"

text \<open>The three reversals that swap two adjacent blocks.\<close>

definition blockSwap :: "int \<Rightarrow> int \<Rightarrow> unit vm" where
  "blockSwap x y = seq (onStack (Reverse (x + y) y)) (seq (onStack (Reverse y 0)) (onStack (Reverse (x + y) 0)))"

definition BLKSWX :: simple_op where
  "BLKSWX = SimpleOP (BytesPrefix [0x63]) (bnd getS (\<lambda>s.
     if slen (st_Stack s) < 2 then raise errStackUnderflow
     else bnd popSmallIndex (\<lambda>y. bnd popSmallIndex (\<lambda>x. bnd getS (\<lambda>s.
       if x < 0 \<or> y < 0 \<or> x + y > slen (st_Stack s) then raise errStackUnderflow
       else if x = 0 \<or> y = 0 then ret ()
       else seq (if st_GlobalVersion s \<ge> 4 then consumeLargeStackMoveGas (x + y) else ret ()) (blockSwap x y))))))"

definition REVX :: simple_op where
  "REVX = SimpleOP (BytesPrefix [0x64]) (bnd getS (\<lambda>s.
     if slen (st_Stack s) < 2 then raise errStackUnderflow
     else bnd popSmallIndex (\<lambda>y. bnd popSmallIndex (\<lambda>x. bnd getS (\<lambda>s.
       if x < 0 \<or> y < 0 \<or> x + y > slen (st_Stack s) then raise errStackUnderflow
       else seq (consumeLargeStackMoveGas x) (onStack (Reverse (x + y) y)))))))"

definition DROPX :: simple_op where
  "DROPX = SimpleOP (BytesPrefix [0x65]) (bnd popSmallIndex (\<lambda>idx. onStack (Drop idx)))"

definition TUCK :: simple_op where
  "TUCK = SimpleOP (BytesPrefix [0x66])
     (seq (requireStackDepth 2 [])
       (bnd (onStack (Get 0)) (\<lambda>b. seq (onStack (Exchange 0 1)) (onStack (PushAny b)))))"

definition XCHGX :: simple_op where
  "XCHGX = SimpleOP (BytesPrefix [0x67]) (bnd popSmallIndex (\<lambda>idx. onStack (Exchange 0 idx)))"

definition DEPTH :: simple_op where
  "DEPTH = SimpleOP (BytesPrefix [0x68]) (bnd getS (\<lambda>s. onStack (PushSmallInt (slen (st_Stack s)))))"

definition CHKDEPTH :: simple_op where
  "CHKDEPTH = SimpleOP (BytesPrefix [0x69]) (bnd popSmallIndex (\<lambda>idx. bnd getS (\<lambda>s.
     if idx > slen (st_Stack s) then raise errStackUnderflow else ret ())))"

definition ONLYTOPX :: simple_op where
  "ONLYTOPX = SimpleOP (BytesPrefix [0x6a]) (bnd popSmallIndex (\<lambda>cnt. bnd getS (\<lambda>s.
     if cnt > slen (st_Stack s) then raise errStackUnderflow
     else seq (if cnt < slen (st_Stack s) then consumeLargeStackMoveGas cnt else ret ())
            (onStack (DropAfter cnt)))))"

definition ONLYX :: simple_op where
  "ONLYX = SimpleOP (BytesPrefix [0x6b]) (bnd popSmallIndex (\<lambda>cnt. bnd getS (\<lambda>s.
     if cnt > slen (st_Stack s) then raise errStackUnderflow
     else onStack (Drop (slen (st_Stack s) - cnt)))))"

text \<open>When the condition has the wrong type, all three operands are consumed.\<close>

definition CONDSEL :: simple_op where
  "CONDSEL = SimpleOP (BytesPrefix [0xE3, 0x04]) (bnd getS (\<lambda>s.
     if slen (st_Stack s) < 3 then raise errStackUnderflow
     else seq (onStack (Exchange 0 2)) (\<lambda>s. case onStack PopBool s of
            (Inl err, s1) \<Rightarrow> seq (onStack (Drop 2)) (raise err) s1
          | (Inr f2, s1) \<Rightarrow> (if f2 then onStack (DropMany 1 1) else onStack (Drop 1)) s1)))"

definition DUMPSTK :: simple_op where
  "DUMPSTK = SimpleOP (BytesPrefix [0xFE, 0x00]) (ret ())"

definition STRDUMP :: simple_op where
  "STRDUMP = SimpleOP (BytesPrefix [0xFE, 0x14]) (ret ())"

subsection \<open>Opcodes with an operand\<close>

definition blkDropOp :: arg_op where
  "blkDropOp = NewArgOP [SlicePrefix 12 [0x5F, 0x00]] 4 (\<lambda>args. onStack (Drop (sint args)))"

definition blkdrop2Prefixes :: "bit_prefix list" where
  "blkdrop2Prefixes = map (\<lambda>i. UIntPrefix (0x6C * 16 + int i) 12) [1..<16]"

definition blkDrop2Op :: arg_op where
  "blkDrop2Op = (NewArgOP blkdrop2Prefixes 4 (\<lambda>args. case unpackArgs2 args of (i, j) \<Rightarrow> onStack (DropMany i j)))
     \<lparr>ao_Decode := Some (decodeStep 0 (SkipBits 8) (\<lambda>_. decodeStep 0 (LoadUInt 8) (\<lambda>args.
        if drop_bit 4 args = 0 then decodeFail 0 ErrCorruptedOpcode else decoded args))),
      ao_Serializer := Some (\<lambda>args. seq (StoreUInt 0x6C 8) (StoreUInt args 8))\<rparr>"

definition blkPushOp :: arg_op where
  "blkPushOp = NewArgOP [BytesPrefix [0x5F]] 8 (\<lambda>args. case unpackArgs2 args of (i, j) \<Rightarrow> repeat_act (nat i) (getPush j))"

definition blkSwapOp :: arg_op where
  "blkSwapOp = NewArgOP [BytesPrefix [0x55]] 8 (\<lambda>args. case unpackArgs2 args of (i, j) \<Rightarrow>
     let x = i + 1; y = j + 1 in
     bnd getS (\<lambda>s. if x + y > slen (st_Stack s) then raise errStackUnderflow else blockSwap x y))"

definition dumpOp :: arg_op where
  "dumpOp = NewArgOP [UIntPrefix 0xFE2 12] 4 (\<lambda>args. ret ())"

definition debugOp :: arg_op where
  "debugOp = NewArgOP [BytesPrefix [0xFE]] 8 (\<lambda>args. ret ())"

definition xc2puOp :: arg_op where
  "xc2puOp = NewArgOP [UIntPrefix 0x541 12] 12 (\<lambda>args. case unpackArgs3 args of (i, j, k) \<Rightarrow>
     seq (requireStackDepth 2 [i, j, k])
       (seq (onStack (Exchange 1 i)) (seq (onStack (Exchange 0 j)) (getPush k))))"

definition xcpuxcOp :: arg_op where
  "xcpuxcOp = NewArgOP [UIntPrefix 0x542 12] 12 (\<lambda>args. case unpackArgs3 args of (i, j, k) \<Rightarrow>
     seq (requireStackDepth (maxStackDepthCount k 2) [i, j])
       (seq (onStack (Exchange 1 i)) (seq (getPush j) (seq (onStack (Exchange 0 1)) (onStack (Exchange 0 k))))))"

definition xcpu2Op :: arg_op where
  "xcpu2Op = NewArgOP [UIntPrefix 0x543 12] 12 (\<lambda>args. case unpackArgs3 args of (i, j, k) \<Rightarrow>
     seq (requireStackDepth 0 [i, j, k])
       (seq (onStack (Exchange 0 i)) (seq (getPush j) (getPush (k + 1)))))"

definition puxc2Op :: arg_op where
  "puxc2Op = NewArgOP [UIntPrefix 0x544 12] 12 (\<lambda>args. case unpackArgs3 args of (i, j, k) \<Rightarrow>
     seq (requireStackDepth (maxStackDepthCount j k) [i, 1])
       (seq (getPush i) (seq (onStack (Exchange 2 0)) (seq (onStack (Exchange 1 j)) (onStack (Exchange 0 k))))))"

definition puxcpuOp :: arg_op where
  "puxcpuOp = NewArgOP [UIntPrefix 0x545 12] 12 (\<lambda>args. case unpackArgs3 args of (i, j, k) \<Rightarrow>
     seq (requireStackDepth (maxStackDepthCount j k) [i])
       (seq (getPush i) (seq (onStack (Exchange 0 1)) (seq (onStack (Exchange 0 j)) (getPush k)))))"

definition pu2xcOp :: arg_op where
  "pu2xcOp = NewArgOP [UIntPrefix 0x546 12] 12 (\<lambda>args. case unpackArgs3 args of (i, j, k) \<Rightarrow>
     seq (requireStackDepth (maxStackDepthCount j (k - 1)) [i])
       (seq (getPush i) (seq (onStack (Exchange 1 0)) (seq (getPush j) (seq (onStack (Exchange 1 0)) (onStack (Exchange 0 k)))))))"

definition push3Op :: arg_op where
  "push3Op = NewArgOP [UIntPrefix 0x547 12] 12 (\<lambda>args. case unpackArgs3 args of (i, j, k) \<Rightarrow>
     seq (requireStackDepth 0 [i, j, k]) (seq (getPush i) (seq (getPush (j + 1)) (getPush (k + 2)))))"

definition popOp :: arg_op where
  "popOp = (NewArgOP [UIntPrefix 0x3 4] 4 (\<lambda>args. onStack (PopSwapAt (sint args))))\<lparr>ao_Decode := Some (decodeChecked 4 0x3 4)\<rparr>"

definition popLongOp :: arg_op where
  "popLongOp = (NewArgOP [UIntPrefix 0x57 8] 8 (\<lambda>args. onStack (PopSwapAt (sint args))))\<lparr>ao_Decode := Some (decodeChecked 8 0x57 8)\<rparr>"

definition pushOp :: arg_op where
  "pushOp = (NewArgOP [UIntPrefix 0x2 4] 4 (\<lambda>args. onStack (PushAt (sint args))))\<lparr>ao_Decode := Some (decodeChecked 4 0x2 4)\<rparr>"

definition pushLongOp :: arg_op where
  "pushLongOp = (NewArgOP [UIntPrefix 0x56 8] 8 (\<lambda>args. onStack (PushAt (sint args))))\<lparr>ao_Decode := Some (decodeChecked 8 0x56 8)\<rparr>"

definition push2Op :: arg_op where
  "push2Op = NewArgOP [BytesPrefix [0x53]] 8 (\<lambda>args. case unpackArgs2 args of (i, j) \<Rightarrow>
     seq (requireStackDepth 0 [i, j]) (seq (getPush i) (getPush (j + 1))))"

definition puxcOp :: arg_op where
  "puxcOp = NewArgOP [BytesPrefix [0x52]] 8 (\<lambda>args. case unpackArgs2 args of (i, j) \<Rightarrow>
     seq (requireStackDepth j [i]) (seq (getPush i) (seq (onStack (Exchange 0 1)) (onStack (Exchange 0 j)))))"

definition reverseOp :: arg_op where
  "reverseOp = NewArgOP [BytesPrefix [0x5E]] 8 (\<lambda>args. case unpackArgs2 args of (x, y) \<Rightarrow> onStack (Reverse (x + 2 + y) y))"

definition xchg2Op :: arg_op where
  "xchg2Op = NewArgOP [BytesPrefix [0x50]] 8 (\<lambda>args. case unpackArgs2 args of (i, j) \<Rightarrow>
     seq (requireStackDepth 2 [i, j]) (seq (onStack (Exchange 1 i)) (onStack (Exchange 0 j))))"

definition xchg3Action :: "64 word \<Rightarrow> unit vm" where
  "xchg3Action args = (case unpackArgs3 args of (i, j, k) \<Rightarrow>
     seq (requireStackDepth 3 [i, j, k])
       (seq (onStack (Exchange 2 i)) (seq (onStack (Exchange 1 j)) (onStack (Exchange 0 k)))))"

definition xchg3Op :: arg_op where
  "xchg3Op = NewArgOP [UIntPrefix 0x4 4] 12 xchg3Action"

definition xchg3ExtOp :: arg_op where
  "xchg3ExtOp = NewArgOP [UIntPrefix 0x540 12] 12 xchg3Action"

definition xcpuOp :: arg_op where
  "xcpuOp = NewArgOP [BytesPrefix [0x51]] 8 (\<lambda>args. case unpackArgs2 args of (i, j) \<Rightarrow>
     seq (requireStackDepth 0 [i, j]) (seq (onStack (Exchange 0 i)) (getPush j)))"

definition xchg0Prefixes :: "bit_prefix list" where
  "xchg0Prefixes = SlicePrefix 4 [0x0] # map (\<lambda>i. UIntPrefix (int i) 8) [2..<16]"

definition xchg0Op :: arg_op where
  "xchg0Op = (NewArgOP xchg0Prefixes 4 (\<lambda>args. onStack (Exchange 0 (sint args))))
     \<lparr>ao_Decode := Some (decodeStep 0 (SkipBits 4) (\<lambda>_. decodeStep 0 (LoadUInt 4) decoded))\<rparr>"

definition xchg0LongOp :: arg_op where
  "xchg0LongOp = NewArgOP [UIntPrefix 0x11 8] 8 (\<lambda>args. onStack (Exchange 0 (sint args)))"

subsection \<open>XCHG\<close>

text \<open>The operand packs both indices and whether the 16-bit form was used.\<close>

definition xchgLongForm :: "64 word" where
  "xchgLongForm = push_bit 16 1"

definition packXchgArgs :: "byte \<Rightarrow> byte \<Rightarrow> bool \<Rightarrow> 64 word" where
  "packXchgArgs a b long =
     (let args = push_bit 8 (ucast a) OR ucast b in if long then args OR xchgLongForm else args)"

definition unpackXchgArgs :: "64 word \<Rightarrow> byte \<times> byte \<times> bool" where
  "unpackXchgArgs args = (ucast (drop_bit 8 args), ucast args, args AND xchgLongForm \<noteq> 0)"

definition xchgAction :: "64 word \<Rightarrow> unit vm" where
  "xchgAction args = (case unpackXchgArgs args of (a, b, long) \<Rightarrow>
     if long \<and> (a = 0 \<or> a \<ge> b) then raise (VMError CodeInvalidOpcode)
     else onStack (Exchange (uint a) (uint b)))"

definition xchgDecode :: decoder where
  "xchgDecode = decodeStep 0 (LoadUInt 4) (\<lambda>a s.
     case onCode (LoadUInt 4) s of
       (Inl err, s1) \<Rightarrow>
         if a = 1
         then (case onCode (PeekZeroPaddedOpcode 4) s1 of
                 (Inr v, s2) \<Rightarrow> ((if v = 0 then packXchgArgs 0 0 True else 0, Some err), s2)
               | (Inl e, s2) \<Rightarrow> ((0, Some e), s2))
         else ((0, Some err), s1)
     | (Inr b, s1) \<Rightarrow>
         if a = 1 \<and> b = 0
         then decodeStep (packXchgArgs 1 0 True) (LoadUInt 4) (\<lambda>a.
                decodeStep (packXchgArgs 1 0 True) (LoadUInt 4) (\<lambda>b.
                  decoded (packXchgArgs (ucast a) (ucast b) True))) s1
         else decoded (packXchgArgs (ucast a) (ucast b) False) s1)"

definition xchgBits :: "64 word \<Rightarrow> int" where
  "xchgBits args = (case unpackXchgArgs args of (a, b, long) \<Rightarrow>
     if long then 16 else if a = 0 \<or> b = 0 \<or> a = 1 \<or> b = 1 then 8 else 16)"

definition xchgSerializer :: "64 word \<Rightarrow> unit bld" where
  "xchgSerializer args = (case unpackXchgArgs args of (a, b, _) \<Rightarrow>
     if a = 0 \<or> b = 0 then StoreSlice [0x00 OR (if a = 0 then b else a)] 8
     else if a = 1 \<or> b = 1 then StoreSlice [0x10 OR (if a = 1 then b else a)] 8
     else StoreSlice [0x10, push_bit 4 a OR b] 16)"

definition xchgOp :: arg_op where
  "xchgOp = (NewArgOP [UIntPrefix 0x0 4, UIntPrefix 0x1 4, UIntPrefix 0x10 8] 0 xchgAction)
     \<lparr>ao_Decode := Some xchgDecode, ao_Bits := Some xchgBits, ao_Serializer := Some xchgSerializer\<rparr>"

definition XCHG :: "byte \<Rightarrow> byte \<Rightarrow> 64 word" where
  "XCHG a b = packXchgArgs a b (a > 1 \<and> b > 1)"

subsection \<open>The opcodes keep the contract of the table\<close>

lemmas simple_defs = NOP_def SWAP_def DUP_def OVER_def DROP_def NIP_def ROT_def ROTREV_def SWAP2_def DROP2_def DUP2_def
  OVER2_def PICK_def ROLL_def ROLLREV_def BLKSWX_def REVX_def DROPX_def TUCK_def XCHGX_def DEPTH_def CHKDEPTH_def
  ONLYTOPX_def ONLYX_def CONDSEL_def DUMPSTK_def STRDUMP_def

definition stackSimpleOps :: "simple_op list" where
  "stackSimpleOps = [BLKSWX, CHKDEPTH, CONDSEL, DEPTH, DROP, DROP2, DROPX, DUMPSTK, STRDUMP, DUP, DUP2, NIP, NOP,
     ONLYTOPX, ONLYX, OVER, OVER2, PICK, REVX, ROLL, ROLLREV, ROT, ROTREV, SWAP, SWAP2, TUCK, XCHGX]"

definition stackArgOps :: "arg_op list" where
  "stackArgOps = [blkDropOp, blkDrop2Op, blkPushOp, blkSwapOp, dumpOp, debugOp, xc2puOp, xcpuxcOp, xcpu2Op, puxc2Op,
     puxcpuOp, pu2xcOp, push3Op, popOp, popLongOp, pushOp, push2Op, pushLongOp, puxcOp, reverseOp, xchgOp, xchg0Op,
     xchg0LongOp, xchg2Op, xchg3Op, xchg3ExtOp, xcpuOp]"

lemma gsafe_stack_helpers [gas_safe]:
  "gsafe popSmallIndex" "gsafe (requireStackDepth c is)" "gsafe (getPush i)" "gsafe (blockSwap x y)" "gsafe (rollLoop n)"
proof -
  show "gsafe (rollLoop n)" by (induction n; unfold rollLoop.simps) (intro gas_intros gas_safe, assumption?)+
qed (auto simp: popSmallIndex_def requireStackDepth_def getPush_def blockSwap_def Let_def intro!: gas_intros gas_safe)

lemma gsafe_consumeLargeStackMoveGas [gas_safe]: "c < 2 ^ 63 \<Longrightarrow> gsafe (consumeLargeStackMoveGas c)"
  by (auto simp: consumeLargeStackMoveGas_def intro!: gas_intros gas_safe)

lemma Vk_stack_helpers [vm_keeps]:
  "Vk (requireStackDepth c is) (\<lambda>_. True)" "Vk (getPush i) (\<lambda>_. True)" "Vk (blockSwap x y) (\<lambda>_. True)"
  "Vk (rollLoop n) (\<lambda>_. True)" "Vk (consumeLargeStackMoveGas c) (\<lambda>_. True)"
proof -
  show "Vk (rollLoop n) (\<lambda>_. True)" by (induction n; unfold rollLoop.simps) (rule keeps_ret keeps_seq Vk_onStack Sk_Exchange TrueI | assumption)+
qed (auto simp: requireStackDepth_def getPush_def blockSwap_def consumeLargeStackMoveGas_def Let_def
    intro!: keeps_intros vm_keeps stack_keeps)

lemma Vk_popSmallIndex [vm_keeps]: "Vk popSmallIndex (\<lambda>v. 0 \<le> v \<and> v < 2 ^ 30)"
  unfolding popSmallIndex_def Let_def maxSmallIndex_def
  by (auto intro!: keeps_intros vm_keeps keeps_weaken [OF Sk_PopIntRangeInt64] split: if_splits)

lemma gsafe_bnd_range:
  assumes "gsafe m" "\<And>s x. fst (m s) = Inr x \<Longrightarrow> Q x" "\<And>x. Q x \<Longrightarrow> gsafe (f x)" shows "gsafe (bnd m f)"
proof -
  have "bnd m f s = bnd m (\<lambda>x. if Q x then f x else raise GoPanic) s" for s
    using assms(2) [of s] by (cases "m s"; cases "fst (m s)") (auto simp: bnd_apply)
  then have "bnd m f = bnd m (\<lambda>x. if Q x then f x else raise GoPanic)" by (rule ext)
  moreover have "gsafe (bnd m (\<lambda>x. if Q x then f x else raise GoPanic))"
    using assms(1,3) by (intro gas_intros) auto
  ultimately show ?thesis by simp
qed

lemma popSmallIndex_range: "fst (popSmallIndex s) = Inr x \<Longrightarrow> 0 \<le> x \<and> x < 2 ^ 30"
  by (auto simp: popSmallIndex_def PopIntRangeInt64_def PopAny_def maxSmallIndex_def Let_def act_simps
      split: if_splits tvm_value.splits)

lemma gsafe_popSmallIndex:
  assumes "\<And>x. 0 \<le> x \<Longrightarrow> x < 2 ^ 30 \<Longrightarrow> gsafe (f x)" shows "gsafe (bnd popSmallIndex f)"
  by (rule gsafe_bnd_range [where Q = "\<lambda>x. 0 \<le> x \<and> x < 2 ^ 30"]) (use assms gsafe_stack_helpers popSmallIndex_range in blast)+

lemma gsafe_stack_catch:
  assumes "\<And>e. gsafe (A e)" "\<And>x. gsafe (B x)"
  shows "gsafe (\<lambda>s. case onStack m s of (Inl e, t) \<Rightarrow> A e t | (Inr x, t) \<Rightarrow> B x t)"
  unfolding gsafe_def
proof (intro allI impI, goal_cases)
  case (1 s)
  obtain r t where m: "onStack m s = (r, t)" by fastforce
  then have "gas_same s t" by (auto simp: gas_same_def lift_field_apply split: prod.splits)
  then have t: "gas_live t" "gas_le s t" using 1 gas_same_live gas_same_le by blast+
  show ?case using assms(1) [unfolded gsafe_def, rule_format, OF t(1)] assms(2) [unfolded gsafe_def, rule_format, OF t(1)] m
      gas_le_trans [OF t(2)] by (cases r) auto
qed

lemma simple_op_okI:
  "length p < 2 ^ 62 \<Longrightarrow> gsafe m \<Longrightarrow> Vk m (\<lambda>_. True) \<Longrightarrow> simple_op_ok (SimpleOP p m)"
  by (simp add: simple_op_ok_def SimpleOP_def body_okI)

lemma length_prefixes [simp]:
  "length (BytesPrefix d) = 8 * length d" "length (SlicePrefix n d) = n" "length (UIntPrefix v n) = n"
  by (simp_all add: BytesPrefix_def SlicePrefix_def UIntPrefix_def)

lemma stack_simple_ok [op_ok]:
  "simple_op_ok BLKSWX" "simple_op_ok CHKDEPTH" "simple_op_ok DEPTH" "simple_op_ok DROP" "simple_op_ok DROP2"
  "simple_op_ok DROPX" "simple_op_ok DUMPSTK" "simple_op_ok STRDUMP" "simple_op_ok DUP" "simple_op_ok DUP2"
  "simple_op_ok NIP" "simple_op_ok NOP" "simple_op_ok ONLYTOPX" "simple_op_ok ONLYX" "simple_op_ok OVER"
  "simple_op_ok OVER2" "simple_op_ok PICK" "simple_op_ok REVX" "simple_op_ok ROLL" "simple_op_ok ROLLREV"
  "simple_op_ok ROT" "simple_op_ok ROTREV" "simple_op_ok SWAP" "simple_op_ok SWAP2" "simple_op_ok TUCK" "simple_op_ok
  XCHGX"
  unfolding simple_defs
  by (rule simple_op_okI, simp, (intro gsafe_popSmallIndex gas_intros gas_safe; simp),
      (auto intro!: keeps_bnd [OF Vk_popSmallIndex] keeps_intros vm_keeps stack_keeps))+

lemma CONDSEL_ok [op_ok]: "simple_op_ok CONDSEL"
  unfolding CONDSEL_def
proof (rule simple_op_okI, goal_cases)
  case 2 show ?case by (intro gsafe_bnd gsafe_if gsafe_seq gsafe_stack_catch gas_intros gas_safe)
next
  case 3
  have "Vk (\<lambda>s. case onStack PopBool s of (Inl err, s1) \<Rightarrow> seq (onStack (Drop 2)) (raise err) s1
      | (Inr f2, s1) \<Rightarrow> (if f2 then onStack (DropMany 1 1) else onStack (Drop 1)) s1) (\<lambda>_. True)"
    by (rule Vk_catch [OF Vk_onStack [OF Sk_PopBool]]; rule keepsD1 [where Q = "\<lambda>_. True"])
      (auto intro!: keeps_intros vm_keeps stack_keeps)
  then show ?case by (auto intro!: keeps_intros vm_keeps stack_keeps)
qed simp

lemmas stack_arg_defs = xchg3Action_def blkDropOp_def blkDrop2Op_def blkPushOp_def blkSwapOp_def dumpOp_def debugOp_def xc2puOp_def xcpuxcOp_def
  xcpu2Op_def puxc2Op_def puxcpuOp_def pu2xcOp_def push3Op_def popOp_def popLongOp_def pushOp_def push2Op_def
  pushLongOp_def puxcOp_def reverseOp_def xchg0Op_def xchg0LongOp_def xchg2Op_def xchg3Op_def xchg3ExtOp_def
  xcpuOp_def

lemma arg_op_okI:
  "(\<And>a. gsafe (act a)) \<Longrightarrow> (\<And>a. Vk (act a) (\<lambda>_. True)) \<Longrightarrow> length (hd ps) + n < 2 ^ 62 \<Longrightarrow> arg_op_ok (NewArgOP ps n act)"
  "(\<And>a. gsafe (act a)) \<Longrightarrow> (\<And>a. Vk (act a) (\<lambda>_. True)) \<Longrightarrow> length (hd ps) + n < 2 ^ 62 \<Longrightarrow> plain_decoder d \<Longrightarrow>
    arg_op_ok ((NewArgOP ps n act)\<lparr>ao_Decode := Some d\<rparr>)"
  "(\<And>a. gsafe (act a)) \<Longrightarrow> (\<And>a. Vk (act a) (\<lambda>_. True)) \<Longrightarrow> length (hd ps) + n < 2 ^ 62 \<Longrightarrow> plain_decoder d \<Longrightarrow>
    arg_op_ok ((NewArgOP ps n act)\<lparr>ao_Decode := Some d, ao_Serializer := sr\<rparr>)"
  by (simp_all add: arg_op_ok_def NewArgOP_def ArgInstructionBits_def prefixBits_def bits_ok_def body_okI)

lemma plain_decodeChecked [op_ok]: "plain_decoder (decodeChecked n p k)"
  unfolding decodeChecked_def by (intro op_ok)

lemma hd_prefixes [simp]: "length (hd blkdrop2Prefixes) = 12" "length (hd xchg0Prefixes) = 4"
  by (simp_all add: blkdrop2Prefixes_def xchg0Prefixes_def upt_conv_Cons)

lemma stack_arg_ok [op_ok]:
  "arg_op_ok blkDropOp" "arg_op_ok blkDrop2Op" "arg_op_ok blkPushOp" "arg_op_ok blkSwapOp" "arg_op_ok dumpOp"
  "arg_op_ok debugOp" "arg_op_ok xc2puOp" "arg_op_ok xcpuxcOp" "arg_op_ok xcpu2Op" "arg_op_ok puxc2Op" "arg_op_ok
  puxcpuOp" "arg_op_ok pu2xcOp" "arg_op_ok push3Op" "arg_op_ok popOp" "arg_op_ok popLongOp" "arg_op_ok pushOp"
  "arg_op_ok push2Op" "arg_op_ok pushLongOp" "arg_op_ok puxcOp" "arg_op_ok reverseOp" "arg_op_ok xchg0Op" "arg_op_ok
  xchg0LongOp" "arg_op_ok xchg2Op" "arg_op_ok xchg3Op" "arg_op_ok xchg3ExtOp" "arg_op_ok xcpuOp"
  unfolding stack_arg_defs
  by (rule arg_op_okI; (intro gas_intros gas_safe op_ok; fail)?;
      ((rule keeps_intros vm_keeps stack_keeps TrueI | assumption)+; fail)?; simp add: bits_ok_def)+

lemma plain_Pair [op_ok]: "plain_decoder (Pair r)"
  by (rule plain_decoderI [where c = st_CurrentCode]) simp

lemma plain_if_apply: "plain_decoder d \<Longrightarrow> plain_decoder e \<Longrightarrow> plain_decoder (\<lambda>s. if b then d s else e s)"
  by (cases b) simp_all

lemma plain_catch [op_ok]:
  assumes "\<And>e. plain_decoder (A e)" "\<And>x. plain_decoder (B x)"
  shows "plain_decoder (\<lambda>s. case onCode m s of (Inl e, s1) \<Rightarrow> A e s1 | (Inr x, s1) \<Rightarrow> B x s1)"
  unfolding plain_decoder_def
proof
  fix s :: vm_state
  obtain r c where "m (st_CurrentCode s) = (r, c)" by fastforce
  then have m: "onCode m s = (r, s\<lparr>st_CurrentCode := c\<rparr>)" by (simp add: lift_field_apply)
  show "\<exists>c. snd (case onCode m s of (Inl e, s1) \<Rightarrow> A e s1 | (Inr x, s1) \<Rightarrow> B x s1) = s\<lparr>st_CurrentCode := c\<rparr>"
  proof (cases r)
    case (Inl e)
    then show ?thesis using m assms(1) [of e, unfolded plain_decoder_def, rule_format, of "s\<lparr>st_CurrentCode := c\<rparr>"] by auto
  next
    case (Inr x)
    then show ?thesis using m assms(2) [of x, unfolded plain_decoder_def, rule_format, of "s\<lparr>st_CurrentCode := c\<rparr>"] by auto
  qed
qed

lemma plain_xchgDecode [op_ok]: "plain_decoder xchgDecode"
proof -
  have a: "plain_decoder (\<lambda>s1. case onCode (PeekZeroPaddedOpcode 4) s1 of
       (Inl e, s2) \<Rightarrow> ((0, Some e), s2) | (Inr v, s2) \<Rightarrow> ((if v = 0 then packXchgArgs 0 0 True else 0, Some err), s2))" for err
    by (rule plain_catch; rule plain_Pair)
  have b: "plain_decoder (\<lambda>s1. if a = 1
         then (case onCode (PeekZeroPaddedOpcode 4) s1 of
                 (Inr v, s2) \<Rightarrow> ((if v = 0 then packXchgArgs 0 0 True else 0, Some err), s2)
               | (Inl e, s2) \<Rightarrow> ((0, Some e), s2))
         else ((0, Some err), s1))" for a :: "64 word" and err
    using a plain_Pair by (rule plain_if_apply)
  have c: "plain_decoder (\<lambda>s1. if a = 1 \<and> b = 0
         then decodeStep (packXchgArgs 1 0 True) (LoadUInt 4) (\<lambda>a.
                decodeStep (packXchgArgs 1 0 True) (LoadUInt 4) (\<lambda>b.
                  decoded (packXchgArgs (ucast a) (ucast b) True))) s1
         else decoded (packXchgArgs (ucast a) (ucast b) False) s1)" for a b :: "64 word"
    by (rule plain_if_apply; intro op_ok)
  show ?thesis unfolding xchgDecode_def by (rule plain_decodeStep, rule plain_catch, rule b, rule c)
qed

lemma xchgOp_ok [op_ok]: "arg_op_ok xchgOp"
proof -
  have "body_ok (xchgAction a)" for a
    unfolding xchgAction_def by (rule body_okI) (auto intro!: gas_intros gas_safe keeps_intros vm_keeps stack_keeps)
  moreover have "bits_ok (xchgBits a)" for a
    by (simp add: xchgBits_def bits_ok_def split: prod.split)
  ultimately show ?thesis using plain_xchgDecode
    by (simp add: arg_op_ok_def xchgOp_def NewArgOP_def ArgInstructionBits_def)
qed

end
