(* ===== verification/Op_Const.thy ===== *)
theory Op_Const
  imports Op_Stack Cell_Codec
begin

section \<open>Opcodes that push constants\<close>

text \<open>
  The opcodes of \<^verbatim>\<open>src/tvm/op/stack\<close> that keep their decoded operand: integers, continuations, references,
  slices and the constant dictionary.  Each has a decoder on the code slice, the length it is
  charged for, a body, and where the package has one, the encoder.
\<close>

subsection \<open>Decoders of opcodes with state\<close>

type_synonym 'o deser = "slice \<Rightarrow> (go_error option \<times> 'o) \<times> slice"

definition deserOk :: "'o \<Rightarrow> 'o deser" where
  "deserOk o1 = (\<lambda>c. ((None, o1), c))"

definition deserFail :: "go_error \<Rightarrow> 'o \<Rightarrow> 'o deser" where
  "deserFail e o1 = (\<lambda>c. ((Some e, o1), c))"

definition deserStep :: "'a sl \<Rightarrow> (go_error \<Rightarrow> 'o deser) \<Rightarrow> ('a \<Rightarrow> 'o deser) \<Rightarrow> 'o deser" where
  "deserStep m onErr k = (\<lambda>c. case m c of (Inl e, c1) \<Rightarrow> onErr e c1 | (Inr x, c1) \<Rightarrow> k x c1)"

definition objOp :: "bit_prefix list \<Rightarrow> 'o deser \<Rightarrow> ('o \<Rightarrow> int) \<Rightarrow> ('o \<Rightarrow> unit vm) \<Rightarrow> obj_op" where
  "objOp pfxs d bits body =
     \<lparr>oo_Prefixes = pfxs,
      oo_Deserialize = (\<lambda>s. case d (st_CurrentCode s) of
        ((err, o1), c) \<Rightarrow> ((err, bits o1, body o1), s\<lparr>st_CurrentCode := c\<rparr>))\<rparr>"

text \<open>Every object a decoder hands on, also on failure, satisfies \<open>P\<close>.\<close>

definition deser_all :: "('o \<Rightarrow> bool) \<Rightarrow> 'o deser \<Rightarrow> bool" where
  "deser_all P d \<longleftrightarrow> (\<forall>c. P (snd (fst (d c))))"

named_theorems deser_intros \<open>what decoders hand on\<close>

lemma deser_all_ok [deser_intros]: "P o1 \<Longrightarrow> deser_all P (deserOk o1)"
  and deser_all_fail [deser_intros]: "P o1 \<Longrightarrow> deser_all P (deserFail e o1)"
  by (simp_all add: deser_all_def deserOk_def deserFail_def)

lemma deser_all_step [deser_intros]:
  assumes "\<And>e. deser_all P (onErr e)" "\<And>x. deser_all P (k x)" shows "deser_all P (deserStep m onErr k)"
  unfolding deser_all_def deserStep_def
proof
  fix c show "P (snd (fst (case m c of (Inl e, c1) \<Rightarrow> onErr e c1 | (Inr x, c1) \<Rightarrow> k x c1)))"
    using assms by (cases "m c"; cases "fst (m c)") (auto simp: deser_all_def)
qed

lemma deser_all_if [deser_intros]: "(b \<Longrightarrow> deser_all P d) \<Longrightarrow> (\<not> b \<Longrightarrow> deser_all P e) \<Longrightarrow> deser_all P (if b then d else e)"
  by simp

lemma objOp_ok:
  assumes "deser_all P d" "\<And>o1. P o1 \<Longrightarrow> bits_ok (bits o1)" "\<And>o1. P o1 \<Longrightarrow> body_ok (body o1)"
  shows "obj_op_ok (objOp pfxs d bits body)"
  unfolding obj_op_ok_def
proof
  fix s :: vm_state
  obtain err o1 c where d: "d (st_CurrentCode s) = ((err, o1), c)" by (metis surj_pair)
  then have "oo_Deserialize (objOp pfxs d bits body) s = ((err, bits o1, body o1), s\<lparr>st_CurrentCode := c\<rparr>)"
    by (simp add: objOp_def)
  moreover have "P o1" using assms(1) d by (metis deser_all_def fst_conv snd_conv)
  ultimately show "\<exists>err b body' c. oo_Deserialize (objOp pfxs d bits body) s = ((err, b, body'), s\<lparr>st_CurrentCode := c\<rparr>) \<and>
      bits_ok b \<and> body_ok body'" using assms(2,3) by blast
qed

abbreviation invalidOpcode :: "'o \<Rightarrow> go_error \<Rightarrow> 'o deser" where
  "invalidOpcode o1 \<equiv> (\<lambda>e. deserFail (VMError CodeInvalidOpcode) o1)"

definition PeekRefCell :: "cell sl" where
  "PeekRefCell = refAndTraceAt 0"

subsection \<open>PUSHINT\<close>

record op_pushint =
  pi_value :: "int option"
  pi_instructionBits :: int

definition PUSHINT :: "int option \<Rightarrow> op_pushint" where
  "PUSHINT v = \<lparr>pi_value = v, pi_instructionBits = 0\<rparr>"

definition pushIntPrefixes :: "bit_prefix list" where
  "pushIntPrefixes = [UIntPrefix 0x7 4, UIntPrefix 0x80 8, UIntPrefix 0x81 8] @
     map (\<lambda>i. UIntPrefix (0x82 * 32 + int i) 13) [0..<31]"

definition pushIntSmallImmediates :: "nat \<Rightarrow> int" where
  "pushIntSmallImmediates i = int ((i + 5) mod 16) - 5"

definition loadPushIntValue :: "nat \<Rightarrow> int sl" where
  "loadPushIntValue sz =
     (if sz \<le> 257 then LoadBigInt sz
      else bnd (LoadSlice sz) (\<lambda>b.
        let b' = (if sz mod 8 > 0 then alignRight (sz mod 8) b else b);
            val = SetBytes b'
        in ret (if \<not> bit val (sz - 1) then val else val - 2 ^ sz)))"

definition pushIntDeserialize :: "op_pushint deser" where
  "pushIntDeserialize =
     (let op = PUSHINT None in
      deserStep (LoadUInt 8)
        (\<lambda>err. deserStep (PeekZeroPaddedOpcode 8) (\<lambda>e. deserFail err op) (\<lambda>v. deserFail err
           (op\<lparr>pi_instructionBits := (if v = 0x80 then 16 else if v = 0x81 then 24 else if v = 0x82 then 13 else 0)\<rparr>)))
        (\<lambda>pfx.
           if 0x70 \<le> pfx \<and> pfx \<le> 0x7f
           then deserOk \<lparr>pi_value = Some (pushIntSmallImmediates (unat (pfx AND 0xF))), pi_instructionBits = 8\<rparr>
           else if pfx = 0x80
           then deserStep (LoadBigInt 8) (\<lambda>e. deserFail e (op\<lparr>pi_instructionBits := 16\<rparr>))
                  (\<lambda>val. deserOk \<lparr>pi_value = Some val, pi_instructionBits = 16\<rparr>)
           else if pfx = 0x81
           then deserStep (LoadBigInt 16) (\<lambda>e. deserFail e (op\<lparr>pi_instructionBits := 24\<rparr>))
                  (\<lambda>val. deserOk \<lparr>pi_value = Some val, pi_instructionBits = 24\<rparr>)
           else if pfx = 0x82
           then deserStep (LoadUInt 5) (\<lambda>e. deserFail e (op\<lparr>pi_instructionBits := 13\<rparr>)) (\<lambda>szBytes.
                  if szBytes = 31 then deserFail ErrCorruptedOpcode (op\<lparr>pi_instructionBits := 13\<rparr>)
                  else deserStep (loadPushIntValue (unat szBytes * 8 + 19)) (\<lambda>e. deserFail e (op\<lparr>pi_instructionBits := 13\<rparr>))
                         (\<lambda>val. deserOk \<lparr>pi_value = Some val, pi_instructionBits = 13\<rparr>))
           else deserFail ErrCorruptedOpcode op))"

definition signedBigIntBits :: "int \<Rightarrow> nat" where
  "signedBigIntBits v = (if v \<ge> 0 then bitLen v + 1 else bitLen (- v - 1) + 1)"

definition pushIntSerialize :: "int \<Rightarrow> unit bld" where
  "pushIntSerialize v =
     (let bitsSz = signedBigIntBits v in
      if is_int64 v \<and> v \<ge> -5 \<and> v \<le> 10 then StoreUInt (0x70 OR (word_of_int v AND 0xF)) 8
      else if bitsSz \<le> 8 then seq (StoreUInt 0x80 8) (StoreBigInt v 8)
      else if bitsSz \<le> 16 then seq (StoreUInt 0x81 8) (StoreBigInt v 16)
      else let bitsSz = (if bitsSz < 19 then 19 else bitsSz);
               sz = bitsSz - 19;
               l = sz div 8 + (if sz mod 8 \<noteq> 0 then 1 else 0);
               x = 19 + l * 8
           in seq (StoreUInt 0x82 8) (seq (StoreUInt (word_of_nat l) 5)
                (if x > 257
                 then let padBits = x - 257 in
                   seq (if v < 0 then StoreUInt (push_bit padBits 1 - 1) padBits else StoreUInt 0 padBits)
                     (StoreBigInt v 257)
                 else StoreBigInt v x)))"

definition pushIntInstructionBits :: "op_pushint \<Rightarrow> int" where
  "pushIntInstructionBits op =
     (if pi_instructionBits op \<noteq> 0 then pi_instructionBits op
      else case pi_value op of
        None \<Rightarrow> 8
      | Some v \<Rightarrow>
          (let bitsSz = signedBigIntBits v in
           if is_int64 v \<and> v \<ge> -5 \<and> v \<le> 10 then 8
           else if bitsSz \<le> 8 then 16
           else if bitsSz \<le> 16 then 24 else 13))"

definition pushIntInterpret :: "op_pushint \<Rightarrow> unit vm" where
  "pushIntInterpret op =
     (case pi_value op of
        None \<Rightarrow> raise GoPanic
      | Some v \<Rightarrow> if is_int64 v \<and> v \<ge> -5 \<and> v \<le> 10 then onStack (PushSmallInt v) else onStack (PushInt v))"

definition pushIntOp :: obj_op where
  "pushIntOp = objOp pushIntPrefixes pushIntDeserialize pushIntInstructionBits pushIntInterpret"

subsection \<open>References and constant dictionaries\<close>

definition pushRefDeserialize :: "cell option deser" where
  "pushRefDeserialize =
     deserStep (SkipBits 8) (\<lambda>e. deserFail e None) (\<lambda>_.
       deserStep PeekRefCell (invalidOpcode None) (\<lambda>ref.
         deserStep (SkipBitsAndRefs 0 1) (\<lambda>e. deserFail e None) (\<lambda>_. deserOk (Some ref))))"

definition pushRefOp :: obj_op where
  "pushRefOp = objOp [UIntPrefix 0x88 8] pushRefDeserialize (\<lambda>_. 8) (\<lambda>v. onStack (PushCell v))"

text \<open>The load of a cell that is not special is charged first, and the gas error is not latched.\<close>

definition beginPushRefCell :: "cell \<Rightarrow> slice vm" where
  "beginPushRefCell ref =
     (if \<not> cell_special ref then seq (RegisterCellLoad ref) (CellsBeginParseAlreadyLoaded ref)
      else CellsBeginParse ref)"

definition pushRefSliceOp :: obj_op where
  "pushRefSliceOp = objOp [UIntPrefix 0x89 8] pushRefDeserialize (\<lambda>_. 8) (\<lambda>v. case v of
     None \<Rightarrow> raise GoPanic
   | Some ref \<Rightarrow> bnd (beginPushRefCell ref) (\<lambda>sl. onStack (PushSlice (Some sl))))"

record op_dictpushconst =
  dp_cont :: "cell option"
  dp_pfx :: "64 word"

definition dictPushConstDeserialize :: "op_dictpushconst deser" where
  "dictPushConstDeserialize =
     (let op = \<lparr>dp_cont = None, dp_pfx = 0\<rparr> in
      deserStep (SkipBits 13) (\<lambda>e. deserFail e op) (\<lambda>_.
        deserStep LoadBoolBit (invalidOpcode op) (\<lambda>_.
          deserStep PeekRefCell (invalidOpcode op) (\<lambda>ref.
            deserStep (SkipBitsAndRefs 0 1) (invalidOpcode op) (\<lambda>_.
              deserStep (LoadUInt 10) (invalidOpcode op) (\<lambda>pfx. deserOk \<lparr>dp_cont = Some ref, dp_pfx = pfx\<rparr>))))))"

definition dictPushConstOp :: obj_op where
  "dictPushConstOp = objOp [SlicePrefix 13 [0xF4, 0xA4]] dictPushConstDeserialize (\<lambda>_. 24)
     (\<lambda>op. seq (onStack (PushCell (dp_cont op))) (onStack (PushSmallInt (sint (dp_pfx op)))))"

subsection \<open>Continuations\<close>

datatype cont_form = FormNone | FormSmall | FormBig | FormRef

record op_pushcont =
  pc_cont :: "cell option"
  pc_window :: "slice option"
  pc_typ :: cont_form

definition pushContWindow :: "op_pushcont \<Rightarrow> nat \<Rightarrow> nat \<Rightarrow> op_pushcont deser" where
  "pushContWindow op bits refs =
     deserStep (FetchSubslice bits refs) (invalidOpcode op) (\<lambda>w. deserOk (op\<lparr>pc_window := Some w\<rparr>))"

definition pushContBody :: "op_pushcont \<Rightarrow> op_pushcont deser" where
  "pushContBody op =
     (case pc_typ op of
        FormSmall \<Rightarrow>
          deserStep (LoadUInt 4) (invalidOpcode op) (\<lambda>szBytes. pushContWindow op (unat (szBytes * 8)) 0)
      | FormBig \<Rightarrow>
          deserStep (LoadUInt 2) (invalidOpcode op) (\<lambda>refsNum.
            deserStep (LoadUInt 7) (invalidOpcode op) (\<lambda>szBytes.
              pushContWindow op (unat (szBytes * 8)) (unat refsNum)))
      | FormRef \<Rightarrow>
          deserStep PeekRefCell (invalidOpcode op) (\<lambda>ref.
            deserStep (SkipBitsAndRefs 0 1) (invalidOpcode op) (\<lambda>_. deserOk (op\<lparr>pc_cont := Some ref\<rparr>)))
      | FormNone \<Rightarrow> deserFail ErrCorruptedOpcode op)"

definition pushContDeserialize :: "op_pushcont deser" where
  "pushContDeserialize =
     (let op = (\<lambda>typ. \<lparr>pc_cont = None, pc_window = None, pc_typ = typ\<rparr>) in
      deserStep (LoadUInt 4) (\<lambda>e. deserFail e (op FormNone)) (\<lambda>prefix1.
        if prefix1 = 0x9 then pushContBody (op FormSmall)
        else deserStep (LoadUInt 3)
          (\<lambda>err. deserStep (PeekZeroPaddedOpcode 3) (\<lambda>e. deserFail e (op FormSmall)) (\<lambda>v.
             invalidOpcode (op (if push_bit 3 prefix1 OR v = 0x47 then FormBig else FormRef)) err))
          (\<lambda>prefix2.
             if push_bit 3 prefix1 OR prefix2 = 0x47 then pushContBody (op FormBig)
             else deserStep (LoadUInt 1) (invalidOpcode (op FormRef)) (\<lambda>prefix3.
               if push_bit 1 (push_bit 3 prefix1 OR prefix2) OR prefix3 \<noteq> 0x8A
               then deserFail ErrCorruptedOpcode (op FormRef)
               else pushContBody (op FormRef)))))"

text \<open>
  The encoder picks the form by the size of the body.  A failing store is a panic, since the code
  calls the \<open>Must\<close> variants.
\<close>

definition pushContSerialize :: "cont_form \<Rightarrow> cell \<Rightarrow> unit bld" where
  "pushContSerialize typ cont =
     (let bitsSz = cell_bitsSz cont; refs = length (cell_refs cont) in
      if typ = FormRef \<or> bitsSz mod 8 \<noteq> 0 \<or> bitsSz > 127 * 8 \<or> refs > 3
      then seq (StoreUInt 0x8A 8) (StoreRef (Some cont))
      else if refs = 0 \<and> bitsSz \<le> 15 * 8
      then seq (StoreUInt 9 4) (seq (StoreUInt (word_of_nat (bitsSz div 8)) 4)
             (bnd (lift_sum (fst (LoadSlice bitsSz (newSliceFromCell cont)))) (\<lambda>d. StoreSlice d (bitsSz div 8 * 8))))
      else seq (StoreUInt 0x47 7) (seq (StoreUInt (word_of_nat refs) 2) (seq (StoreUInt (word_of_nat (bitsSz div 8)) 7)
             (seq (bnd (lift_sum (fst (LoadSlice bitsSz (newSliceFromCell cont)))) (\<lambda>d. StoreSlice d (bitsSz div 8 * 8)))
                (for_each (cell_refs cont) (\<lambda>r. StoreRef (Some r)))))))"

definition pushContInstructionBits :: "op_pushcont \<Rightarrow> int" where
  "pushContInstructionBits op = (case pc_typ op of FormSmall \<Rightarrow> 8 | FormBig \<Rightarrow> 16 | FormRef \<Rightarrow> 8 | FormNone \<Rightarrow> 8)"

definition pushContInterpret :: "op_pushcont \<Rightarrow> unit vm" where
  "pushContInterpret op =
     bnd (if pc_typ op = FormRef
          then (case pc_cont op of None \<Rightarrow> raise GoPanic | Some ref \<Rightarrow> beginPushRefCell ref)
          else case (pc_cont op, pc_window op) of
            (None, Some w) \<Rightarrow> ret w
          | (Some c, _) \<Rightarrow> ret (newSliceFromCell c)
          | (None, None) \<Rightarrow> raise GoPanic)
       (\<lambda>code. bnd getS (\<lambda>s. onStack (PushOwnedContinuation
          (Some (OrdinaryCont (ControlData emptyRegister None ControlDataAllArgs (st_CP s)) code)))))"

definition pushContOp :: obj_op where
  "pushContOp = objOp [UIntPrefix 0x9 4, UIntPrefix 0x47 7, UIntPrefix 0x8A 8]
     pushContDeserialize pushContInstructionBits pushContInterpret"

subsection \<open>Inline slices\<close>

datatype slice_form = FormShort | FormWithRefs | FormLong

record op_pushslice =
  ps_value :: slice
  ps_form :: slice_form

function padTo :: "nat \<Rightarrow> nat \<Rightarrow> nat" where
  "padTo m bits = (if bits mod 8 \<noteq> m \<and> m < 8 then padTo m (bits + 1) else bits)"
  by pat_completeness auto
termination
  by (relation "measure (\<lambda>(m, bits). if bits mod 8 \<le> m then m - bits mod 8 else m + 8 - bits mod 8)")
    (auto simp: mod_Suc)

definition paddedInlineBits :: "nat \<Rightarrow> nat \<Rightarrow> nat" where
  "paddedInlineBits actual m = padTo m (actual + 1)"

definition selectForm :: "slice \<Rightarrow> slice_form" where
  "selectForm v =
     (let bits = BitsLeft v; refs = RefsNum v;
          shortBits = paddedInlineBits bits 4; refBits = paddedInlineBits bits 1
      in if refs = 0 \<and> shortBits \<le> 15 * 8 + 4 then FormShort
         else if refs \<ge> 1 \<and> refs \<le> 4 \<and> refBits \<le> 31 * 8 + 1 then FormWithRefs
         else FormLong)"

definition encodeInlineSlicePayload :: "slice \<Rightarrow> nat \<Rightarrow> go_error + builder" where
  "encodeInlineSlicePayload v totalBits =
     (let b = ToBuilder v; actual = BitsLeft v in
      if totalBits \<le> actual then Inr b
      else case seq (StoreUInt 1 1)
                  (let pad = totalBits - actual - 1 in if pad > 0 then StoreUInt 0 pad else ret ()) b of
             (Inl e, _) \<Rightarrow> Inl e
           | (Inr _, b') \<Rightarrow> Inr b')"

definition pushSliceInlineSerialize :: "slice \<Rightarrow> unit bld" where
  "pushSliceInlineSerialize v =
     (let payload = (\<lambda>totalBits. bnd (lift_sum (encodeInlineSlicePayload v totalBits)) StoreBuilder) in
      case selectForm v of
        FormShort \<Rightarrow>
          (let totalBits = paddedInlineBits (BitsLeft v) 4 in
           seq (StoreUInt 0x8B 8) (seq (StoreUInt (word_of_nat ((totalBits - 4) div 8)) 4) (payload totalBits)))
      | FormWithRefs \<Rightarrow>
          (let totalBits = paddedInlineBits (BitsLeft v) 1;
               arg = push_bit 5 (word_of_nat (RefsNum v - 1)) OR word_of_nat ((totalBits - 1) div 8)
           in seq (StoreUInt 0x8C 8) (seq (StoreUInt arg 7) (payload totalBits)))
      | FormLong \<Rightarrow>
          (let totalBits = paddedInlineBits (BitsLeft v) 6;
               arg = push_bit 7 (word_of_nat (RefsNum v)) OR word_of_nat ((totalBits - 6) div 8)
           in seq (StoreUInt 0x8D 8) (seq (StoreUInt arg 10) (payload totalBits))))"

definition pushSliceInlineFetch :: "op_pushslice \<Rightarrow> nat \<Rightarrow> nat \<Rightarrow> op_pushslice deser" where
  "pushSliceInlineFetch op bits refs =
     deserStep (FetchSubslice bits refs) (invalidOpcode op)
       (\<lambda>sl. deserOk (op\<lparr>ps_value := snd (RemoveTrailing sl)\<rparr>))"

definition pushSliceInlineDeserialize :: "op_pushslice deser" where
  "pushSliceInlineDeserialize =
     (let op = (\<lambda>form. \<lparr>ps_value = newSliceFromCell (Cell [] 0 False 0 []), ps_form = form\<rparr>) in
      deserStep (LoadUInt 8)
        (\<lambda>err. deserStep (PeekZeroPaddedOpcode 8) (\<lambda>e. deserFail e (op FormShort)) (\<lambda>v. deserFail err
           (op (if v = 0x8C then FormWithRefs else if v = 0x8D then FormLong else FormShort))))
        (\<lambda>pfx.
           if pfx = 0x8B
           then deserStep (LoadUInt 4) (\<lambda>e. deserFail e (op FormShort)) (\<lambda>arg.
                  pushSliceInlineFetch (op FormShort) (unat (arg * 8 + 4)) 0)
           else if pfx = 0x8C
           then deserStep (LoadUInt 7) (\<lambda>e. deserFail e (op FormWithRefs)) (\<lambda>arg.
                  pushSliceInlineFetch (op FormWithRefs) (unat ((arg AND 0x1F) * 8 + 1)) (unat (drop_bit 5 arg AND 3) + 1))
           else if pfx = 0x8D
           then deserStep (LoadUInt 10) (\<lambda>e. deserFail e (op FormLong)) (\<lambda>arg.
                  if unat (drop_bit 7 arg AND 7) > 4 then deserFail ErrCorruptedOpcode (op FormLong)
                  else pushSliceInlineFetch (op FormLong) (unat ((arg AND 0x7F) * 8 + 6)) (unat (drop_bit 7 arg AND 7)))
           else deserFail ErrCorruptedOpcode (op FormShort)))"

definition pushSliceInlineBits :: "op_pushslice \<Rightarrow> int" where
  "pushSliceInlineBits op = (case ps_form op of FormShort \<Rightarrow> 12 | FormWithRefs \<Rightarrow> 15 | FormLong \<Rightarrow> 18)"

definition pushSliceInlineOp :: obj_op where
  "pushSliceInlineOp = objOp
     ([UIntPrefix 0x8B 8, UIntPrefix 0x8C 8] @ map (\<lambda>i. UIntPrefix (0x8D * 8 + int i) 11) [0..<5])
     pushSliceInlineDeserialize pushSliceInlineBits (\<lambda>op. onStack (PushSlice (Some (ps_value op))))"

subsection \<open>Debug strings\<close>

definition debugStrDeserialize :: "byte list deser" where
  "debugStrDeserialize =
     deserStep (SkipBits 12) (\<lambda>e. deserFail e []) (\<lambda>_.
       deserStep (LoadUInt 4) (invalidOpcode []) (\<lambda>v.
         deserStep (LoadSlice (unat (v + 1) * 8)) (invalidOpcode []) deserOk))"

definition debugStrSerialize :: "byte list \<Rightarrow> unit bld" where
  "debugStrSerialize bs =
     (let d = take 16 (if bs = [] then [0] else bs) in
      seq (StoreUInt 0xFEF 12) (seq (StoreUInt (word_of_nat (length d - 1)) 4) (StoreSlice d (length d * 8))))"

definition debugStrOp :: obj_op where
  "debugStrOp = objOp [UIntPrefix 0xFEF 12] debugStrDeserialize (\<lambda>_. 16) (\<lambda>_. ret ())"

subsection \<open>All of them are gas safe and keep the machine well formed\<close>

lemma pushIntDeserialize_bits: "deser_all (\<lambda>op. pi_instructionBits op \<in> {0, 8, 13, 16, 24}) pushIntDeserialize"
  unfolding pushIntDeserialize_def Let_def PUSHINT_def by (intro deser_intros) auto

lemma pushIntOp_ok [op_ok]: "obj_op_ok pushIntOp"
  unfolding pushIntOp_def
proof (rule objOp_ok [OF pushIntDeserialize_bits])
  show "bits_ok (pushIntInstructionBits op)" if "pi_instructionBits op \<in> {0, 8, 13, 16, 24}" for op
    using that by (auto simp: pushIntInstructionBits_def bits_ok_def Let_def split: option.split)
  show "body_ok (pushIntInterpret op)" for op
    unfolding pushIntInterpret_def
    by (rule body_okI; cases "pi_value op"; auto intro!: gas_intros gas_safe keeps_intros vm_keeps stack_keeps)
qed

lemma deser_all_True: "deser_all (\<lambda>_. True) d"
  by (simp add: deser_all_def)

lemma beginPushRefCell_safe [gas_safe]: "gsafe (beginPushRefCell c)"
  and Vk_beginPushRefCell [vm_keeps]: "Vk (beginPushRefCell c) (\<lambda>_. True)"
  unfolding beginPushRefCell_def by (intro gas_intros gas_safe) (auto intro!: keeps_intros vm_keeps)

lemma pushRef_ok [op_ok]: "obj_op_ok pushRefOp" "obj_op_ok pushRefSliceOp" "obj_op_ok dictPushConstOp"
  "obj_op_ok pushSliceInlineOp" "obj_op_ok debugStrOp"
  unfolding pushRefOp_def pushRefSliceOp_def dictPushConstOp_def pushSliceInlineOp_def debugStrOp_def
  by (rule objOp_ok [OF deser_all_True],
      simp add: bits_ok_def pushSliceInlineBits_def split: slice_form.split,
      rule body_okI; auto intro!: gas_intros gas_safe keeps_intros vm_keeps stack_keeps split: option.split)+

lemma pushContInterpret_ok: "body_ok (pushContInterpret op)"
proof (rule body_okI)
  show "gsafe (pushContInterpret op)"
    unfolding pushContInterpret_def
    by (auto intro!: gas_intros gas_safe split: option.split)
  show "Vk (pushContInterpret op) (\<lambda>_. True)"
    unfolding pushContInterpret_def
    by (auto intro!: keeps_intros vm_keeps stack_keeps split: option.split)
qed

lemma pushContOp_ok [op_ok]: "obj_op_ok pushContOp"
  unfolding pushContOp_def
  by (rule objOp_ok [OF deser_all_True])
    (auto simp: bits_ok_def pushContInstructionBits_def pushContInterpret_ok split: cont_form.split)

end
