(* ===== verification/Op_Math.thy ===== *)
theory Op_Math
  imports Op_Stack
begin

section \<open>Arithmetic opcodes\<close>

text \<open>
  \<^verbatim>\<open>src/tvm/op/math\<close> with the division helpers of \<^verbatim>\<open>src/tvm/op/helpers\<close>: addition, multiplication, shifts, bitwise operations and
  comparisons.  An integer operand that is not a number is \<open>None\<close>.  The division families are in
  Op_Div.
\<close>

subsection \<open>Division of unbounded integers\<close>

text \<open>\<open>big.Int.DivMod\<close> is Euclidean, with a remainder that is never negative; \<open>big.Int.QuoRem\<close> truncates.\<close>

definition bigDivMod :: "int \<Rightarrow> int \<Rightarrow> int \<times> int" where
  "bigDivMod x y = (sgn y * (x div \<bar>y\<bar>), x mod \<bar>y\<bar>)"

definition bigQuoRem :: "int \<Rightarrow> int \<Rightarrow> int \<times> int" where
  "bigQuoRem x y = (let q = sgn x * sgn y * (\<bar>x\<bar> div \<bar>y\<bar>) in (q, x - q * y))"

definition DivFloor :: "int \<Rightarrow> int \<Rightarrow> int \<times> int" where
  "DivFloor x y =
     (let (q, r) = bigDivMod x y in
      if y > 0 then (if r < 0 then (q - 1, r + y) else (q, r))
      else if r > 0 then (q - 1, r + y) else (q, r))"

definition DivRound :: "int \<Rightarrow> int \<Rightarrow> int" where
  "DivRound x y =
     (let (q, r) = bigQuoRem x y in
      if r = 0 then q
      else let twiceRem = \<bar>r\<bar> * 2 in
        if sgn x = sgn y then (if twiceRem \<ge> \<bar>y\<bar> then q + 1 else q)
        else if twiceRem > \<bar>y\<bar> then q - 1 else q)"

definition DivCeil :: "int \<Rightarrow> int \<Rightarrow> int" where
  "DivCeil x y =
     (let (q, r) = bigDivMod x y;
          q1 = (if r \<noteq> 0 \<and> x > 0 \<and> y > 0 then q + 1 else q)
      in if r \<noteq> 0 \<and> x < 0 \<and> y > 0 then q1 + 1 else q1)"

subsection \<open>Helpers\<close>

definition checkStackDepth :: "int \<Rightarrow> unit vm" where
  "checkStackDepth depth = bnd getS (\<lambda>s. if slen (st_Stack s) < depth then raise errStackUnderflow else ret ())"

definition popInt :: "int option vm" where
  "popInt = onStack PopInt"

definition popIntRead :: "int option vm" where
  "popIntRead = onStack PopIntRead"

definition popIntFinite :: "int vm" where
  "popIntFinite = onStack PopIntFinite"

definition popIntRange :: "int \<Rightarrow> int \<Rightarrow> int vm" where
  "popIntRange mn mx = onStack (PopIntRange mn mx)"

definition pushInt :: "int \<Rightarrow> unit vm" where
  "pushInt v = onStack (PushInt v)"

definition pushSmallInt :: "int \<Rightarrow> unit vm" where
  "pushSmallInt v = onStack (PushSmallInt v)"

definition pushNaNOrOverflow :: "bool \<Rightarrow> unit vm" where
  "pushNaNOrOverflow quiet = (if quiet then onStack (PushAny VNaN) else raise errIntOverflow)"

definition pushMaybeInt :: "int option \<Rightarrow> bool \<Rightarrow> unit vm" where
  "pushMaybeInt val quiet =
     (case val of
        None \<Rightarrow> pushNaNOrOverflow quiet
      | Some v \<Rightarrow> if quiet then onStack (PushOwnedIntQuiet v) else onStack (PushOwnedInt v))"

text \<open>\<open>requireFiniteInts\<close>, one operand at a time; the rest of the opcode uses the value.\<close>

definition requireFinite :: "int option \<Rightarrow> (int \<Rightarrow> unit vm) \<Rightarrow> unit vm" where
  "requireFinite val f = (case val of None \<Rightarrow> raise errIntOverflow | Some v \<Rightarrow> f v)"

definition leftShiftResult :: "int option \<Rightarrow> nat \<Rightarrow> int option" where
  "leftShiftResult x shift =
     (case x of None \<Rightarrow> None | Some v \<Rightarrow> if v = 0 \<and> shift \<ge> 5 * 52 then None else Some (v * 2 ^ shift))"

definition legacyRShiftNaNResultThreshold :: "int \<Rightarrow> int \<Rightarrow> nat \<Rightarrow> int \<Rightarrow> int option" where
  "legacyRShiftNaNResultThreshold globalVersion threshold shift roundMode =
     (if globalVersion \<ge> threshold \<or> shift = 0 then None
      else if roundMode = -1 \<and> shift > 64 - 52 then Some (-1) else Some 0)"

definition legacyShiftNaNResultThreshold :: "int \<Rightarrow> int \<Rightarrow> nat \<Rightarrow> bool \<Rightarrow> int option" where
  "legacyShiftNaNResultThreshold globalVersion threshold shift right =
     (if globalVersion \<ge> threshold \<or> shift = 0 then None
      else if right then legacyRShiftNaNResultThreshold globalVersion threshold shift (-1)
      else let q = shift div 52 in if q = 0 \<or> q > 5 then None else Some 0)"

definition legacyLeftShiftOperand :: "int \<Rightarrow> int option \<Rightarrow> nat \<Rightarrow> int option" where
  "legacyLeftShiftOperand globalVersion val shift =
     (case val of Some v \<Rightarrow> Some v | None \<Rightarrow> legacyShiftNaNResultThreshold globalVersion 13 shift False)"

definition binaryIntResult :: "int option \<Rightarrow> int option \<Rightarrow> (int \<Rightarrow> int \<Rightarrow> int) \<Rightarrow> int option" where
  "binaryIntResult x y fn = (case (x, y) of (Some a, Some b) \<Rightarrow> Some (fn a b) | _ \<Rightarrow> None)"

definition versionedAndResult :: "int \<Rightarrow> int option \<Rightarrow> int option \<Rightarrow> int option" where
  "versionedAndResult globalVersion x y =
     (case (x, y) of
        (Some a, Some b) \<Rightarrow> Some (a AND b)
      | _ \<Rightarrow> if globalVersion < 13 \<and> (x = Some 0 \<or> y = Some 0) then Some 0 else None)"

definition versionedOrResult :: "int \<Rightarrow> int option \<Rightarrow> int option \<Rightarrow> int option" where
  "versionedOrResult globalVersion x y =
     (case (x, y) of
        (Some a, Some b) \<Rightarrow> Some (a OR b)
      | _ \<Rightarrow> if globalVersion < 13 \<and> (x = Some (-1) \<or> y = Some (-1)) then Some (-1) else None)"

definition pushUnaryIntResult :: "int option \<Rightarrow> (int \<Rightarrow> int) \<Rightarrow> unit vm" where
  "pushUnaryIntResult x fn = pushMaybeInt (map_option fn x) False"

definition pushBinaryIntResult :: "int option \<Rightarrow> int option \<Rightarrow> (int \<Rightarrow> int \<Rightarrow> int) \<Rightarrow> unit vm" where
  "pushBinaryIntResult x y fn = pushMaybeInt (binaryIntResult x y fn) False"

definition pushNaNComparisonResult :: "int option \<Rightarrow> bool \<Rightarrow> unit vm" where
  "pushNaNComparisonResult x quiet = bnd getS (\<lambda>s.
     case x of
       Some v \<Rightarrow> if h_NaNComparison (st_Historical s) \<and> st_GlobalVersion s \<ge> 0 \<and> st_GlobalVersion s \<le> 3
                   then pushInt v else pushNaNOrOverflow quiet
     | None \<Rightarrow> pushNaNOrOverflow quiet)"

definition pushCompareResult :: "int option \<Rightarrow> int option \<Rightarrow> (int \<Rightarrow> int \<Rightarrow> bool) \<Rightarrow> unit vm" where
  "pushCompareResult x y fn =
     (case (x, y) of
        (Some a, Some b) \<Rightarrow> onStack (PushBool (fn a b))
      | _ \<Rightarrow> pushNaNComparisonResult x False)"

definition compareBigIntInt64 :: "int \<Rightarrow> int \<Rightarrow> int" where
  "compareBigIntInt64 x y =
     (if is_int64 x then (if x < y then -1 else if x > y then 1 else 0)
      else if x < 0 then -1 else 1)"

definition signedFitsBits :: "int \<Rightarrow> nat \<Rightarrow> bool" where
  "signedFitsBits x bits =
     (if x = 0 then True
      else if bits = 0 then False
      else if x > 0 then bitLen x < bits else bitLen (- x - 1) < bits)"

definition unsignedFitsBits :: "int \<Rightarrow> nat \<Rightarrow> bool" where
  "unsignedFitsBits x bits = (if x = 0 then True else if x < 0 then False else bitLen x \<le> bits)"

definition bitSizeInvalid :: int where
  "bitSizeInvalid = 0x7fffffff"

definition signedBitSize :: "int option \<Rightarrow> int" where
  "signedBitSize x =
     (case x of
        None \<Rightarrow> bitSizeInvalid
      | Some v \<Rightarrow> if v = 0 then 0 else if v > 0 then int (bitLen v) + 1 else int (bitLen (- v - 1)) + 1)"

definition unsignedBitSize :: "int option \<Rightarrow> int" where
  "unsignedBitSize x =
     (case x of None \<Rightarrow> bitSizeInvalid
      | Some v \<Rightarrow> if v < 0 then bitSizeInvalid else if v = 0 then 0 else int (bitLen v))"

definition compareModeValue :: "int \<Rightarrow> int \<Rightarrow> int" where
  "compareModeValue mode c = (drop_bit (nat (4 + c * 4)) mode AND 15) - 8"

definition bytePlusOneValue :: "64 word \<Rightarrow> nat" where
  "bytePlusOneValue args = nat (uint (ucast args :: byte)) + 1"

definition int8Value :: "64 word \<Rightarrow> int" where
  "int8Value args = sint (ucast args :: byte)"

text \<open>The eight-bit operand of an arithmetic opcode is written as a signed number after the prefix.\<close>

definition int8Serializer :: "bit_prefix \<Rightarrow> 64 word \<Rightarrow> unit bld" where
  "int8Serializer p args = seq (storePrefix p) (StoreInt (int8Value args) 8)"

definition bigCmp :: "int \<Rightarrow> int \<Rightarrow> int" where
  "bigCmp x y = (if x < y then -1 else if x = y then 0 else 1)"

subsection \<open>Addition and multiplication\<close>

definition SUM_op :: simple_op where
  "SUM_op = SimpleOP (BytesPrefix [0xA0]) (seq (checkStackDepth 2)
     (bnd popInt (\<lambda>i0. bnd popInt (\<lambda>i1. pushBinaryIntResult i0 i1 (\<lambda>x y. x + y)))))"

definition SUB :: simple_op where
  "SUB = SimpleOP (BytesPrefix [0xA1]) (seq (checkStackDepth 2)
     (bnd popInt (\<lambda>i0. bnd popInt (\<lambda>i1. pushBinaryIntResult i1 i0 (\<lambda>x y. x - y)))))"

definition SUBR :: simple_op where
  "SUBR = SimpleOP (BytesPrefix [0xA2]) (seq (checkStackDepth 2)
     (bnd popInt (\<lambda>i0. bnd popInt (\<lambda>i1. pushBinaryIntResult i0 i1 (\<lambda>x y. x - y)))))"

definition NEGATE :: simple_op where
  "NEGATE = SimpleOP (BytesPrefix [0xA3]) (bnd popInt (\<lambda>i0. pushUnaryIntResult i0 (\<lambda>x. - x)))"

definition INC :: simple_op where
  "INC = SimpleOP (BytesPrefix [0xA4]) (bnd popIntRead (\<lambda>i0.
     case i0 of
       Some v \<Rightarrow> if is_int64 v \<and> v \<noteq> 2 ^ 63 - 1 then pushSmallInt (v + 1) else pushUnaryIntResult i0 (\<lambda>x. x + 1)
     | None \<Rightarrow> pushUnaryIntResult i0 (\<lambda>x. x + 1)))"

definition DEC :: simple_op where
  "DEC = SimpleOP (BytesPrefix [0xA5]) (bnd popIntRead (\<lambda>i0.
     case i0 of
       Some v \<Rightarrow> if is_int64 v \<and> v \<noteq> - (2 ^ 63) then pushSmallInt (v - 1) else pushUnaryIntResult i0 (\<lambda>x. x - 1)
     | None \<Rightarrow> pushUnaryIntResult i0 (\<lambda>x. x - 1)))"

definition addConstOp :: arg_op where
  "addConstOp = (NewArgOP [BytesPrefix [0xA6]] 8 (\<lambda>args. bnd popInt (\<lambda>i0. pushUnaryIntResult i0 (\<lambda>x. x + int8Value args))))
     \<lparr>ao_Decode := Some (decodeStep 0 (SkipBits 8) (\<lambda>_ s.
        case LoadUInt 8 (st_CurrentCode s) of
          (Inl _, c) \<Rightarrow> ((0, Some (VMError CodeInvalidOpcode)), s\<lparr>st_CurrentCode := c\<rparr>)
        | (Inr v, c) \<Rightarrow> ((v, None), s\<lparr>st_CurrentCode := c\<rparr>))),
      ao_Serializer := Some (int8Serializer (BytesPrefix [0xA6]))\<rparr>"

definition mulConstOp :: arg_op where
  "mulConstOp = (NewArgOP [BytesPrefix [0xA7]] 8 (\<lambda>args. bnd popInt (\<lambda>i0. pushUnaryIntResult i0 (\<lambda>x. x * int8Value args))))
     \<lparr>ao_Serializer := Some (int8Serializer (BytesPrefix [0xA7]))\<rparr>"

definition MUL :: simple_op where
  "MUL = SimpleOP (BytesPrefix [0xA8]) (seq (checkStackDepth 2)
     (bnd popInt (\<lambda>i0. bnd popInt (\<lambda>i1. pushBinaryIntResult i0 i1 (\<lambda>x y. x * y)))))"

definition ABS :: simple_op where
  "ABS = SimpleOP (BytesPrefix [0xB6, 0x0B]) (bnd popInt (\<lambda>i0. pushUnaryIntResult i0 (\<lambda>x. \<bar>x\<bar>)))"

definition POW2 :: simple_op where
  "POW2 = SimpleOP (BytesPrefix [0xAE]) (bnd (popIntRange 0 1023) (\<lambda>y. pushInt (2 ^ nat y)))"

definition pushPowConst :: "byte \<Rightarrow> bool \<Rightarrow> (nat \<Rightarrow> int) \<Rightarrow> arg_op" where
  "pushPowConst pfx nanAtMax fn = NewArgOP [BytesPrefix [pfx]] 8 (\<lambda>args.
     if nanAtMax \<and> (ucast args :: byte) = 0xFF then onStack (PushAny VNaN) else pushInt (fn (bytePlusOneValue args)))"

definition pushPow2Op :: arg_op where
  "pushPow2Op = pushPowConst 0x83 True (\<lambda>x. 2 ^ x)"

definition pushPow2DecOp :: arg_op where
  "pushPow2DecOp = pushPowConst 0x84 False (\<lambda>x. 2 ^ x - 1)"

definition pushNegPow2Op :: arg_op where
  "pushNegPow2Op = pushPowConst 0x85 False (\<lambda>x. - (2 ^ x))"

definition PUSHNAN :: simple_op where
  "PUSHNAN = SimpleOP (BytesPrefix [0x83, 0xFF]) (onStack (PushAny VNaN))"

subsection \<open>Bitwise operations and shifts\<close>

definition AND_op :: simple_op where
  "AND_op = SimpleOP (BytesPrefix [0xB0]) (seq (checkStackDepth 2)
     (bnd popIntRead (\<lambda>i0. bnd popIntRead (\<lambda>i1. bnd getS (\<lambda>s.
        case (i0, i1) of
          (Some a, Some b) \<Rightarrow> if is_int64 a \<and> is_int64 b then pushSmallInt (a AND b)
                               else pushMaybeInt (versionedAndResult (st_GlobalVersion s) i0 i1) False
        | _ \<Rightarrow> pushMaybeInt (versionedAndResult (st_GlobalVersion s) i0 i1) False)))))"

definition OR_op :: simple_op where
  "OR_op = SimpleOP (BytesPrefix [0xB1]) (seq (checkStackDepth 2)
     (bnd popIntRead (\<lambda>i0. bnd popIntRead (\<lambda>i1. bnd getS (\<lambda>s.
        case (i0, i1) of
          (Some a, Some b) \<Rightarrow> if is_int64 a \<and> is_int64 b then pushSmallInt (a OR b)
                               else pushMaybeInt (versionedOrResult (st_GlobalVersion s) i0 i1) False
        | _ \<Rightarrow> pushMaybeInt (versionedOrResult (st_GlobalVersion s) i0 i1) False)))))"

definition XOR_op :: simple_op where
  "XOR_op = SimpleOP (BytesPrefix [0xB2]) (seq (checkStackDepth 2)
     (bnd popIntRead (\<lambda>i0. bnd popIntRead (\<lambda>i1.
        case (i0, i1) of
          (Some a, Some b) \<Rightarrow> if is_int64 a \<and> is_int64 b then pushSmallInt (a XOR b)
                               else pushBinaryIntResult i0 i1 (\<lambda>x y. x XOR y)
        | _ \<Rightarrow> pushBinaryIntResult i0 i1 (\<lambda>x y. x XOR y)))))"

definition NOT_op :: simple_op where
  "NOT_op = SimpleOP (BytesPrefix [0xB3]) (bnd popIntRead (\<lambda>i0.
     case i0 of
       Some v \<Rightarrow> if is_int64 v then pushSmallInt (NOT v) else pushUnaryIntResult i0 (\<lambda>x. NOT x)
     | None \<Rightarrow> pushUnaryIntResult i0 (\<lambda>x. NOT x)))"

definition LSHIFT :: simple_op where
  "LSHIFT = SimpleOP (BytesPrefix [0xAC]) (seq (checkStackDepth 2)
     (bnd (popIntRange 0 1023) (\<lambda>y. bnd popIntRead (\<lambda>x. bnd getS (\<lambda>s.
        if x = None then pushMaybeInt (legacyShiftNaNResultThreshold (st_GlobalVersion s) 13 (nat y) False) False
        else pushMaybeInt (leftShiftResult x (nat y)) False)))))"

definition RSHIFT :: simple_op where
  "RSHIFT = SimpleOP (BytesPrefix [0xAD]) (seq (checkStackDepth 2)
     (bnd (popIntRange 0 1023) (\<lambda>y. bnd popIntRead (\<lambda>x. bnd getS (\<lambda>s.
        case x of
          None \<Rightarrow> pushMaybeInt (legacyShiftNaNResultThreshold (st_GlobalVersion s) 13 (nat y) True) False
        | Some v \<Rightarrow> pushInt (drop_bit (nat y) v))))))"

definition lshiftCodeOp :: arg_op where
  "lshiftCodeOp = NewArgOP [BytesPrefix [0xAA]] 8 (\<lambda>args. bnd popIntRead (\<lambda>x. bnd getS (\<lambda>s.
     if x = None then pushMaybeInt (legacyShiftNaNResultThreshold (st_GlobalVersion s) 14 (bytePlusOneValue args) False) False
     else pushMaybeInt (leftShiftResult x (bytePlusOneValue args)) False)))"

definition rshiftCodeOp :: arg_op where
  "rshiftCodeOp = NewArgOP [BytesPrefix [0xAB]] 8 (\<lambda>args. bnd popInt (\<lambda>x. bnd getS (\<lambda>s.
     case x of
       None \<Rightarrow> pushMaybeInt (legacyShiftNaNResultThreshold (st_GlobalVersion s) 14 (bytePlusOneValue args) True) False
     | Some v \<Rightarrow> pushInt (drop_bit (bytePlusOneValue args) v))))"

definition RSHIFTFLOOR :: simple_op where
  "RSHIFTFLOOR = SimpleOP (BytesPrefix [0xA9, 0x24]) (seq (checkStackDepth 2)
     (bnd (popIntRange 0 256) (\<lambda>y. bnd popInt (\<lambda>x. bnd getS (\<lambda>s.
        case x of
          None \<Rightarrow> pushMaybeInt (legacyShiftNaNResultThreshold (st_GlobalVersion s) 14 (nat y) True) False
        | Some v \<Rightarrow> pushInt (drop_bit (nat y) v))))))"

definition rshiftCodeFloorOp :: arg_op where
  "rshiftCodeFloorOp = NewArgOP [BytesPrefix [0xA9, 0x34]] 8 (\<lambda>args. bnd popInt (\<lambda>x. bnd getS (\<lambda>s.
     case x of
       None \<Rightarrow> pushMaybeInt (legacyShiftNaNResultThreshold (st_GlobalVersion s) 14 (bytePlusOneValue args) True) False
     | Some v \<Rightarrow> pushInt (drop_bit (bytePlusOneValue args) v))))"

subsection \<open>Comparisons\<close>

definition LESS :: simple_op where
  "LESS = SimpleOP (BytesPrefix [0xB9]) (seq (checkStackDepth 2)
     (bnd popIntRead (\<lambda>y. bnd popIntRead (\<lambda>x. pushCompareResult x y (\<lambda>x y. bigCmp x y = -1)))))"

definition EQUAL :: simple_op where
  "EQUAL = SimpleOP (BytesPrefix [0xBA]) (seq (checkStackDepth 2)
     (bnd popIntRead (\<lambda>i0. bnd popIntRead (\<lambda>i1. pushCompareResult i1 i0 (\<lambda>x y. bigCmp x y = 0)))))"

definition LEQ :: simple_op where
  "LEQ = SimpleOP (BytesPrefix [0xBB]) (seq (checkStackDepth 2)
     (bnd popIntRead (\<lambda>y. bnd popIntRead (\<lambda>x. pushCompareResult x y (\<lambda>x y. bigCmp x y \<noteq> 1)))))"

definition GREATER :: simple_op where
  "GREATER = SimpleOP (BytesPrefix [0xBC]) (seq (checkStackDepth 2)
     (bnd popIntRead (\<lambda>y. bnd popIntRead (\<lambda>x. pushCompareResult x y (\<lambda>x y. bigCmp x y = 1)))))"

definition NEQ :: simple_op where
  "NEQ = SimpleOP (BytesPrefix [0xBD]) (seq (checkStackDepth 2)
     (bnd popIntRead (\<lambda>i0. bnd popIntRead (\<lambda>i1. pushCompareResult i1 i0 (\<lambda>x y. bigCmp x y \<noteq> 0)))))"

definition GEQ :: simple_op where
  "GEQ = SimpleOP (BytesPrefix [0xBE]) (seq (checkStackDepth 2)
     (bnd popIntRead (\<lambda>y. bnd popIntRead (\<lambda>x. pushCompareResult x y (\<lambda>x y. bigCmp x y \<noteq> -1)))))"

definition signTest :: "byte \<Rightarrow> byte \<Rightarrow> (int \<Rightarrow> bool) \<Rightarrow> simple_op" where
  "signTest p q fn = SimpleOP (BytesPrefix [p, q]) (bnd popIntRead (\<lambda>i0.
     case i0 of None \<Rightarrow> pushNaNOrOverflow False | Some v \<Rightarrow> onStack (PushBool (fn (sgn v)))))"

definition ISZERO :: simple_op where
  "ISZERO = signTest 0xC0 0x00 (\<lambda>sg. sg = 0)"

definition ISNEG :: simple_op where
  "ISNEG = signTest 0xC1 0x00 (\<lambda>sg. sg = -1)"

definition ISNPOS :: simple_op where
  "ISNPOS = signTest 0xC1 0x01 (\<lambda>sg. sg \<noteq> 1)"

definition ISPOS :: simple_op where
  "ISPOS = signTest 0xC2 0x00 (\<lambda>sg. sg = 1)"

definition ISNNEG :: simple_op where
  "ISNNEG = signTest 0xC2 0xFF (\<lambda>sg. sg \<noteq> -1)"

definition intCmpOp :: "byte \<Rightarrow> nat \<Rightarrow> arg_op" where
  "intCmpOp pfx msk = (NewArgOP [BytesPrefix [pfx]] 8 (\<lambda>args. bnd popIntRead (\<lambda>i0.
     case i0 of
       None \<Rightarrow> pushNaNOrOverflow False
     | Some v \<Rightarrow> onStack (PushBool (bit msk (nat (compareBigIntInt64 v (int8Value args) + 1)))))))
     \<lparr>ao_Serializer := Some (int8Serializer (BytesPrefix [pfx]))\<rparr>"

definition eqIntOp :: arg_op where
  "eqIntOp = intCmpOp 0xC0 2"

definition lessIntOp :: arg_op where
  "lessIntOp = intCmpOp 0xC1 1"

definition gtIntOp :: arg_op where
  "gtIntOp = intCmpOp 0xC2 4"

definition neqIntOp :: arg_op where
  "neqIntOp = intCmpOp 0xC3 5"

definition MAX_op :: simple_op where
  "MAX_op = SimpleOP (BytesPrefix [0xB6, 0x09]) (seq (checkStackDepth 2)
     (bnd popIntRead (\<lambda>i0. bnd popIntRead (\<lambda>i1. requireFinite i0 (\<lambda>i0. requireFinite i1 (\<lambda>i1.
        if bigCmp i0 i1 = 1 then pushInt i0 else pushInt i1))))))"

definition MIN_op :: simple_op where
  "MIN_op = SimpleOP (BytesPrefix [0xB6, 0x08]) (seq (checkStackDepth 2)
     (bnd popIntRead (\<lambda>i0. bnd popIntRead (\<lambda>i1. requireFinite i0 (\<lambda>i0. requireFinite i1 (\<lambda>i1.
        if bigCmp i0 i1 = -1 then pushInt i0 else pushInt i1))))))"

definition minMaxOp :: "byte list \<Rightarrow> nat \<Rightarrow> bool \<Rightarrow> simple_op" where
  "minMaxOp pfx mode quiet = SimpleOP (BytesPrefix pfx) (seq (checkStackDepth 2)
     (bnd popIntRead (\<lambda>x. bnd popIntRead (\<lambda>y.
        let (x, y) = (case (x, y) of
              (Some a, Some b) \<Rightarrow> if bigCmp a b > 0 then (Some b, Some a) else (Some a, Some b)
            | _ \<Rightarrow> (None, None))
        in seq (if bit mode 1 then pushMaybeInt x quiet else ret ()) (if bit mode 2 then pushMaybeInt y quiet else ret ())))))"

definition absOp :: "byte list \<Rightarrow> bool \<Rightarrow> simple_op" where
  "absOp pfx quiet = SimpleOP (BytesPrefix pfx) (bnd popInt (\<lambda>x.
     case x of None \<Rightarrow> pushNaNOrOverflow quiet | Some v \<Rightarrow> pushMaybeInt (Some (if v < 0 then - v else v)) quiet))"

definition compareOp :: "byte list \<Rightarrow> int \<Rightarrow> bool \<Rightarrow> simple_op" where
  "compareOp pfx mode quiet = SimpleOP (BytesPrefix pfx) (seq (checkStackDepth 2)
     (bnd popIntRead (\<lambda>y. bnd popIntRead (\<lambda>x.
        case (x, y) of
          (Some a, Some b) \<Rightarrow> pushSmallInt (compareModeValue mode (bigCmp a b))
        | _ \<Rightarrow> pushNaNComparisonResult x quiet))))"

definition compareIntOp :: "byte list \<Rightarrow> int \<Rightarrow> bool \<Rightarrow> arg_op" where
  "compareIntOp pfx mode quiet = (NewArgOP [BytesPrefix pfx] 8 (\<lambda>args. bnd popIntRead (\<lambda>x.
     case x of
       None \<Rightarrow> pushNaNOrOverflow quiet
     | Some v \<Rightarrow> pushSmallInt (compareModeValue mode (compareBigIntInt64 v (int8Value args))))))
     \<lparr>ao_Serializer := Some (int8Serializer (BytesPrefix pfx))\<rparr>"

definition signOp :: "byte list \<Rightarrow> int \<Rightarrow> bool \<Rightarrow> simple_op" where
  "signOp pfx mode quiet = SimpleOP (BytesPrefix pfx) (bnd popIntRead (\<lambda>x.
     case x of None \<Rightarrow> pushNaNOrOverflow quiet | Some v \<Rightarrow> pushSmallInt (compareModeValue mode (sgn v))))"

definition MINMAX :: simple_op where
  "MINMAX = minMaxOp [0xB6, 0x0A] 6 False"

definition SGN :: simple_op where
  "SGN = signOp [0xB8] 0x987 False"

definition CMP :: simple_op where
  "CMP = compareOp [0xBF] 0x987 False"

definition ISNAN :: simple_op where
  "ISNAN = SimpleOP (BytesPrefix [0xC4]) (bnd popIntRead (\<lambda>x. onStack (PushBool (x = None))))"

definition CHKNAN :: simple_op where
  "CHKNAN = SimpleOP (BytesPrefix [0xC5]) (bnd popIntRead (\<lambda>x. pushMaybeInt x False))"

subsection \<open>Widths\<close>

definition fitTinyOp :: "byte list \<Rightarrow> bool \<Rightarrow> bool \<Rightarrow> arg_op" where
  "fitTinyOp pfx isUnsigned quiet = NewArgOP [BytesPrefix pfx] 8 (\<lambda>args. bnd popIntRead (\<lambda>x.
     case x of
       None \<Rightarrow> pushNaNOrOverflow quiet
     | Some v \<Rightarrow> let width = bytePlusOneValue args in
         pushMaybeInt (if (if isUnsigned then unsignedFitsBits v width else signedFitsBits v width) then Some v else None) quiet))"

definition fitStackOp :: "byte list \<Rightarrow> bool \<Rightarrow> bool \<Rightarrow> simple_op" where
  "fitStackOp pfx isUnsigned quiet = SimpleOP (BytesPrefix pfx) (seq (checkStackDepth 2)
     (bnd (popIntRange 0 1023) (\<lambda>bits. bnd popIntRead (\<lambda>x.
        case x of
          None \<Rightarrow> pushNaNOrOverflow quiet
        | Some v \<Rightarrow> let width = nat bits in
            pushMaybeInt (if (if isUnsigned then unsignedFitsBits v width else signedFitsBits v width) then Some v else None) quiet))))"

definition bitSizeOp :: "byte list \<Rightarrow> bool \<Rightarrow> bool \<Rightarrow> simple_op" where
  "bitSizeOp pfx isSigned quiet = SimpleOP (BytesPrefix pfx) (bnd popIntRead (\<lambda>x.
     let sz = (if isSigned then signedBitSize x else unsignedBitSize x) in
     if sz = bitSizeInvalid then (if quiet then pushNaNOrOverflow True else raise errRangeCheck)
     else pushSmallInt sz))"

definition fitsOp :: arg_op where
  "fitsOp = fitTinyOp [0xB4] False False"

definition ufitsOp :: arg_op where
  "ufitsOp = fitTinyOp [0xB5] True False"

definition FITSX :: simple_op where
  "FITSX = fitStackOp [0xB6, 0x00] False False"

definition UFITSX :: simple_op where
  "UFITSX = fitStackOp [0xB6, 0x01] True False"

definition BITSIZE :: simple_op where
  "BITSIZE = bitSizeOp [0xB6, 0x02] True False"

definition UBITSIZE :: simple_op where
  "UBITSIZE = bitSizeOp [0xB6, 0x03] False False"

definition mathSimpleOps :: "simple_op list" where
  "mathSimpleOps = [ABS, SUM_op, AND_op, DEC, EQUAL, FITSX, UFITSX, BITSIZE, UBITSIZE, GEQ, GREATER, INC, ISNEG, ISNNEG, ISNPOS,
     ISPOS, ISZERO, LEQ, LESS, LSHIFT, MAX_op, MIN_op, MINMAX, SGN, CMP, ISNAN, CHKNAN, MUL, NEGATE, NEQ, NOT_op, OR_op, POW2, PUSHNAN,
     RSHIFT, RSHIFTFLOOR, SUB, SUBR, XOR_op]"

definition mathArgOps :: "arg_op list" where
  "mathArgOps = [addConstOp, eqIntOp, fitsOp, ufitsOp, gtIntOp, lessIntOp, lshiftCodeOp, mulConstOp, neqIntOp, pushPow2Op, pushPow2DecOp,
     pushNegPow2Op, rshiftCodeOp, rshiftCodeFloorOp]"

subsection \<open>Arithmetic opcodes are safe\<close>

named_theorems math_body \<open>bodies of stack-only opcodes\<close>

lemma body_ok_onStack [math_body]: "Sk m (\<lambda>_. True) \<Longrightarrow> body_ok (onStack m)"
  by (intro body_okI gas_safe Vk_onStack)

lemma body_ok_bnd: "gsafe m \<Longrightarrow> Vk m Q \<Longrightarrow> (\<And>x. body_ok (f x)) \<Longrightarrow> body_ok (bnd m f)"
  unfolding body_ok_def by (blast intro: gbody_bnd keeps_bnd)

lemma body_ok_seq: "gsafe m \<Longrightarrow> Vk m (\<lambda>_. True) \<Longrightarrow> body_ok k \<Longrightarrow> body_ok (seq m k)"
  unfolding body_ok_def by (auto intro!: gbody_seq keeps_seq)

lemma body_ok_getS [math_body]: "(\<And>s. body_ok (f s)) \<Longrightarrow> body_ok (bnd getS f)"
  unfolding body_ok_def by (intro conjI gbody_bnd gsafe_getS) (auto simp: keeps_def bnd_apply)

lemma body_ok_control [math_body]:
  "body_ok m \<Longrightarrow> body_ok k \<Longrightarrow> body_ok (if b then m else k)"
  "body_ok n \<Longrightarrow> (\<And>v. body_ok (f v)) \<Longrightarrow> body_ok (case x of None \<Rightarrow> n | Some v \<Rightarrow> f v)"
  "(\<And>a b. body_ok (g a b)) \<Longrightarrow> body_ok (case p of (a, b) \<Rightarrow> g a b)"
  "(\<And>v. body_ok (h v)) \<Longrightarrow> body_ok (let v = e in h v)"
  "body_ok (ret ())"
  by (auto split: option.split prod.split simp: Let_def intro: body_okI gas_intros keeps_ret)

lemma body_ok_check [math_body]: "body_ok k \<Longrightarrow> body_ok (seq (checkStackDepth n) k)"
  by (rule body_ok_seq) (auto simp: checkStackDepth_def intro!: gas_intros gas_safe keeps_intros)

lemma body_ok_popping: "Sk m Q \<Longrightarrow> (\<And>x. body_ok (f x)) \<Longrightarrow> body_ok (bnd (onStack m) f)"
  by (rule body_ok_bnd [OF gsafe_onStack Vk_onStack])

lemma body_ok_pop [math_body]:
  "(\<And>x. body_ok (f x)) \<Longrightarrow> body_ok (bnd popInt f)" "(\<And>x. body_ok (f x)) \<Longrightarrow> body_ok (bnd popIntRead f)"
  "(\<And>x. body_ok (g x)) \<Longrightarrow> body_ok (bnd popIntFinite g)" "(\<And>x. body_ok (g x)) \<Longrightarrow> body_ok (bnd (popIntRange mn mx) g)"
  unfolding popInt_def popIntRead_def popIntFinite_def popIntRange_def
  by (fact body_ok_popping [OF Sk_PopInt] body_ok_popping [OF Sk_PopIntRead] body_ok_popping [OF Sk_PopIntFinite]
      body_ok_popping [OF Sk_PopIntRange])+

lemma body_ok_push [math_body]:
  "body_ok (pushInt v)" "body_ok (pushNaNOrOverflow q)" "body_ok (pushMaybeInt x q)" "body_ok (onStack (PushBool b))"
  "body_ok (onStack (PushAny VNaN))" "body_ok (pushNaNComparisonResult x q)"
  unfolding pushInt_def pushNaNOrOverflow_def pushMaybeInt_def pushNaNComparisonResult_def
  by (intro math_body body_ok_raise stack_keeps; simp)+

lemma body_ok_results [math_body]:
  "body_ok (pushSmallInt v)" "body_ok (pushUnaryIntResult x fn)" "body_ok (pushBinaryIntResult x y gn)" "body_ok (pushCompareResult x y bn)"
  "(\<And>v. body_ok (k v)) \<Longrightarrow> body_ok (requireFinite x k)"
  unfolding pushSmallInt_def pushUnaryIntResult_def pushBinaryIntResult_def pushCompareResult_def requireFinite_def
  by (intro math_body body_ok_raise stack_keeps; simp)+

lemma body_ok_pushes [math_body]: "body_ok k \<Longrightarrow> body_ok (seq (pushInt v) k)" "body_ok k \<Longrightarrow> body_ok (seq (if b then pushMaybeInt x q else ret ()) k)"
  by (auto intro!: body_ok_seq gas_intros gas_safe keeps_intros vm_keeps stack_keeps
      simp: pushInt_def pushMaybeInt_def pushNaNOrOverflow_def split: option.split)

lemma simple_op_ok_body: "length p < 2 ^ 62 \<Longrightarrow> body_ok m \<Longrightarrow> simple_op_ok (SimpleOP p m)"
    "length p < 2 ^ 62 \<Longrightarrow> body_ok m \<Longrightarrow> simple_op_ok ((SimpleOP p m)\<lparr>so_MinVersion := n\<rparr>)"
  by (simp_all add: simple_op_ok_def SimpleOP_def)

lemma arg_op_ok_body:
  assumes "\<And>a. body_ok (act a)" "length (hd ps) + n < 2 ^ 62"
  shows "arg_op_ok (NewArgOP ps n act)" "arg_op_ok ((NewArgOP ps n act)\<lparr>ao_Serializer := sr\<rparr>)" "arg_op_ok ((NewArgOP ps n act)\<lparr>ao_MinVersion := k\<rparr>)"
    "plain_decoder d \<Longrightarrow> arg_op_ok ((NewArgOP ps n act)\<lparr>ao_Decode := Some d, ao_Serializer := sr\<rparr>)"
  using assms by (simp_all add: arg_op_ok_def NewArgOP_def ArgInstructionBits_def prefixBits_def bits_ok_def)

lemmas math_shapes = minMaxOp_def absOp_def compareOp_def signOp_def fitStackOp_def bitSizeOp_def signTest_def

lemma math_shapes_ok [op_ok]:
  "length p < 2 ^ 50 \<Longrightarrow> simple_op_ok (minMaxOp p m q)" "length p < 2 ^ 50 \<Longrightarrow> simple_op_ok (absOp p q)"
  "length p < 2 ^ 50 \<Longrightarrow> simple_op_ok (compareOp p v q)" "length p < 2 ^ 50 \<Longrightarrow> simple_op_ok (signOp p v q)"
  "length p < 2 ^ 50 \<Longrightarrow> simple_op_ok (fitStackOp p u q)" "length p < 2 ^ 50 \<Longrightarrow> simple_op_ok (bitSizeOp p u q)" "simple_op_ok (signTest b c f)"
  unfolding math_shapes by (rule simple_op_ok_body, simp, intro math_body body_ok_raise)+

lemmas math_simple_defs = ABS_def SUM_op_def AND_op_def DEC_def EQUAL_def FITSX_def UFITSX_def BITSIZE_def UBITSIZE_def GEQ_def GREATER_def INC_def
  ISNEG_def ISNNEG_def ISNPOS_def ISPOS_def ISZERO_def LEQ_def LESS_def LSHIFT_def MAX_op_def MIN_op_def MINMAX_def SGN_def CMP_def ISNAN_def
  CHKNAN_def MUL_def NEGATE_def NEQ_def NOT_op_def OR_op_def POW2_def PUSHNAN_def RSHIFT_def RSHIFTFLOOR_def SUB_def SUBR_def XOR_op_def

lemma mathSimpleOps_ok: "op \<in> set mathSimpleOps \<Longrightarrow> simple_op_ok op"
proof -
  have "list_all simple_op_ok mathSimpleOps"
    unfolding mathSimpleOps_def list.pred_inject math_simple_defs
    by (intro conjI TrueI math_shapes_ok simple_op_ok_body; (intro math_body body_ok_raise)?; simp)
  then show "op \<in> set mathSimpleOps \<Longrightarrow> simple_op_ok op" by (simp add: list_all_iff)
qed

lemmas math_arg_defs = addConstOp_def eqIntOp_def fitsOp_def ufitsOp_def gtIntOp_def lessIntOp_def lshiftCodeOp_def mulConstOp_def neqIntOp_def
  pushPow2Op_def pushPow2DecOp_def pushNegPow2Op_def rshiftCodeOp_def rshiftCodeFloorOp_def intCmpOp_def fitTinyOp_def pushPowConst_def compareIntOp_def

lemma plain_readByte: "plain_decoder (\<lambda>s. case m (st_CurrentCode s) of
    (Inl _, c) \<Rightarrow> ((0, Some e), s\<lparr>st_CurrentCode := c\<rparr>) | (Inr v, c) \<Rightarrow> ((v, None), s\<lparr>st_CurrentCode := c\<rparr>))"
  unfolding plain_decoder_def by (auto split: prod.splits sum.splits)

lemma mathArgOps_ok: "op \<in> set mathArgOps \<Longrightarrow> arg_op_ok op"
proof -
  have "list_all arg_op_ok mathArgOps"
    unfolding mathArgOps_def list.pred_inject math_arg_defs
    by (intro conjI TrueI arg_op_ok_body plain_decodeStep plain_readByte; (intro math_body body_ok_raise)?; simp)
  then show "op \<in> set mathArgOps \<Longrightarrow> arg_op_ok op" by (simp add: list_all_iff)
qed

end
