(* ===== verification/Op_Div.thy ===== *)
theory Op_Div
  imports Op_Math
begin

section \<open>Division opcodes\<close>

text \<open>
  The division families of \<^verbatim>\<open>src/tvm/op/math\<close>: a dividend that is an operand, a sum, a product or a shifted operand, a
  divisor that is an operand or a power of two, three roundings, and quotient, remainder or both.
  The code has one function for each member; so has the model.
\<close>

definition bigDiv :: "int \<Rightarrow> int \<Rightarrow> int" where
  "bigDiv x y = fst (bigDivMod x y)"

definition pushTwo :: "int \<Rightarrow> int \<Rightarrow> unit vm" where
  "pushTwo q r = seq (pushInt q) (pushInt r)"

definition finitePair :: "int option \<Rightarrow> int option \<Rightarrow> (int \<Rightarrow> int \<Rightarrow> unit vm) \<Rightarrow> unit vm" where
  "finitePair x y f = (case (x, y) of (Some a, Some b) \<Rightarrow> f a b | _ \<Rightarrow> pushNaNOrOverflow False)"

subsection \<open>Division of one operand\<close>

definition DIV :: simple_op where
  "DIV = SimpleOP (BytesPrefix [0xA9, 0x04]) (seq (checkStackDepth 2)
     (bnd popIntRead (\<lambda>y. bnd popIntRead (\<lambda>x.
        finitePair x y (\<lambda>x y. if y = 0 then raise errIntOverflow else pushInt (fst (DivFloor x y)))))))"

definition MOD :: simple_op where
  "MOD = SimpleOP (BytesPrefix [0xA9, 0x08]) (seq (checkStackDepth 2)
     (bnd popIntRead (\<lambda>y. bnd popIntRead (\<lambda>x.
        finitePair x y (\<lambda>x y. if y = 0 then raise errIntOverflow else pushInt (snd (DivFloor x y)))))))"

definition DIVMOD :: simple_op where
  "DIVMOD = SimpleOP (BytesPrefix [0xA9, 0x0C]) (seq (checkStackDepth 2)
     (bnd popIntRead (\<lambda>y. bnd popIntRead (\<lambda>x.
        finitePair x y (\<lambda>x y. if y = 0 then raise errIntOverflow else (case DivFloor x y of (q, r) \<Rightarrow> pushTwo q r))))))"

definition ADDDIVMOD :: simple_op where
  "ADDDIVMOD = (SimpleOP (BytesPrefix [0xA9, 0x00]) (seq (checkStackDepth 3)
     (bnd popInt (\<lambda>z. bnd popInt (\<lambda>w. bnd popInt (\<lambda>x.
        requireFinite z (\<lambda>z. requireFinite w (\<lambda>w. requireFinite x (\<lambda>x. if z = 0 then raise errIntOverflow else (case DivFloor (x + w) z of (q, r) \<Rightarrow> pushTwo q r))))))))))\<lparr>so_MinVersion := 4\<rparr>"

definition DIVR :: simple_op where
  "DIVR = SimpleOP (BytesPrefix [0xA9, 0x05]) (seq (checkStackDepth 2)
     (bnd popIntRead (\<lambda>y. bnd popIntRead (\<lambda>x.
        finitePair x y (\<lambda>x y. if y = 0 then raise errIntOverflow else pushInt (DivRound x y))))))"

definition MODR :: simple_op where
  "MODR = SimpleOP (BytesPrefix [0xA9, 0x09]) (seq (checkStackDepth 2)
     (bnd popInt (\<lambda>y. bnd popInt (\<lambda>x.
        finitePair x y (\<lambda>x y. if y = 0 then raise errIntOverflow else (let q = DivRound x y in pushInt (x - y * q)))))))"

definition DIVMODR :: simple_op where
  "DIVMODR = SimpleOP (BytesPrefix [0xA9, 0x0D]) (seq (checkStackDepth 2)
     (bnd popInt (\<lambda>y. bnd popInt (\<lambda>x.
        finitePair x y (\<lambda>x y. if y = 0 then raise errIntOverflow else (let q = DivRound x y in pushTwo q (x - y * q)))))))"

definition ADDDIVMODR :: simple_op where
  "ADDDIVMODR = (SimpleOP (BytesPrefix [0xA9, 0x01]) (seq (checkStackDepth 3)
     (bnd popInt (\<lambda>z. bnd popInt (\<lambda>w. bnd popInt (\<lambda>x.
        requireFinite z (\<lambda>z. requireFinite w (\<lambda>w. requireFinite x (\<lambda>x. if z = 0 then raise errIntOverflow else (let q = DivRound (x + w) z in pushTwo q (x + w - z * q)))))))))))\<lparr>so_MinVersion := 4\<rparr>"

definition DIVC :: simple_op where
  "DIVC = SimpleOP (BytesPrefix [0xA9, 0x06]) (seq (checkStackDepth 2)
     (bnd popIntRead (\<lambda>y. bnd popIntRead (\<lambda>x.
        finitePair x y (\<lambda>x y. if y = 0 then raise errIntOverflow else pushInt (DivCeil x y))))))"

definition MODC :: simple_op where
  "MODC = SimpleOP (BytesPrefix [0xA9, 0x0A]) (seq (checkStackDepth 2)
     (bnd popInt (\<lambda>y. bnd popInt (\<lambda>x.
        finitePair x y (\<lambda>x y. if y = 0 then raise errIntOverflow else (let q = DivCeil x y in pushInt (x - y * q)))))))"

definition DIVMODC :: simple_op where
  "DIVMODC = SimpleOP (BytesPrefix [0xA9, 0x0E]) (seq (checkStackDepth 2)
     (bnd popIntRead (\<lambda>y. bnd popIntRead (\<lambda>x.
        finitePair x y (\<lambda>x y. if y = 0 then raise errIntOverflow else (let q = DivCeil x y in pushTwo q (x - y * q)))))))"

definition ADDDIVMODC :: simple_op where
  "ADDDIVMODC = (SimpleOP (BytesPrefix [0xA9, 0x02]) (seq (checkStackDepth 3)
     (bnd popInt (\<lambda>z. bnd popInt (\<lambda>w. bnd popInt (\<lambda>x.
        requireFinite z (\<lambda>z. requireFinite w (\<lambda>w. requireFinite x (\<lambda>x. if z = 0 then raise errIntOverflow else (let q = DivCeil (x + w) z in pushTwo q (x + w - z * q)))))))))))\<lparr>so_MinVersion := 4\<rparr>"

subsection \<open>Division by a power of two\<close>

definition ADDRSHIFTMOD :: simple_op where
  "ADDRSHIFTMOD = (SimpleOP (BytesPrefix [0xA9, 0x20]) (seq (checkStackDepth 3)
     (bnd (popIntRange 0 256) (\<lambda>z. bnd popInt (\<lambda>w. bnd popInt (\<lambda>x.
        requireFinite w (\<lambda>w. requireFinite x (\<lambda>x. (let q = fst (DivFloor (x + w) (2 ^ nat z)) in pushTwo q (x + w - (2 ^ nat z) * q))))))))))\<lparr>so_MinVersion := 4\<rparr>"

definition MODPOW2 :: simple_op where
  "MODPOW2 = SimpleOP (BytesPrefix [0xA9, 0x28]) (seq (checkStackDepth 2)
     (bnd (popIntRange 0 256) (\<lambda>y. bnd popIntFinite (\<lambda>x.
        (let q = bigDiv x (2 ^ nat y) in pushInt (x - (2 ^ nat y) * q))))))"

definition RSHIFTMOD :: simple_op where
  "RSHIFTMOD = SimpleOP (BytesPrefix [0xA9, 0x2C]) (seq (checkStackDepth 2)
     (bnd (popIntRange 0 256) (\<lambda>y. bnd popIntFinite (\<lambda>x.
        (let q = bigDiv x (2 ^ nat y) in pushTwo q (x - (2 ^ nat y) * q))))))"

definition ADDRSHIFTMODR :: simple_op where
  "ADDRSHIFTMODR = (SimpleOP (BytesPrefix [0xA9, 0x21]) (seq (checkStackDepth 3)
     (bnd (popIntRange 0 256) (\<lambda>z. bnd popInt (\<lambda>w. bnd popInt (\<lambda>x.
        requireFinite w (\<lambda>w. requireFinite x (\<lambda>x. (let q = DivRound (x + w) (2 ^ nat z) in pushTwo q (x + w - (2 ^ nat z) * q))))))))))\<lparr>so_MinVersion := 4\<rparr>"

definition MODPOW2R :: simple_op where
  "MODPOW2R = SimpleOP (BytesPrefix [0xA9, 0x29]) (seq (checkStackDepth 2)
     (bnd (popIntRange 0 256) (\<lambda>y. bnd popIntFinite (\<lambda>x.
        (let q = DivRound x (2 ^ nat y) in pushInt (x - (2 ^ nat y) * q))))))"

definition RSHIFTMODR :: simple_op where
  "RSHIFTMODR = SimpleOP (BytesPrefix [0xA9, 0x2D]) (seq (checkStackDepth 2)
     (bnd (popIntRange 0 256) (\<lambda>y. bnd popIntFinite (\<lambda>x.
        (let q = DivRound x (2 ^ nat y) in pushTwo q (x - (2 ^ nat y) * q))))))"

definition ADDRSHIFTMODC :: simple_op where
  "ADDRSHIFTMODC = (SimpleOP (BytesPrefix [0xA9, 0x22]) (seq (checkStackDepth 3)
     (bnd (popIntRange 0 256) (\<lambda>z. bnd popInt (\<lambda>w. bnd popInt (\<lambda>x.
        requireFinite w (\<lambda>w. requireFinite x (\<lambda>x. (let q = DivCeil (x + w) (2 ^ nat z) in pushTwo q (x + w - (2 ^ nat z) * q))))))))))\<lparr>so_MinVersion := 4\<rparr>"

definition MODPOW2C :: simple_op where
  "MODPOW2C = SimpleOP (BytesPrefix [0xA9, 0x2A]) (seq (checkStackDepth 2)
     (bnd (popIntRange 0 256) (\<lambda>y. bnd popIntFinite (\<lambda>x.
        (let q = DivCeil x (2 ^ nat y) in pushInt (x - (2 ^ nat y) * q))))))"

definition RSHIFTMODC :: simple_op where
  "RSHIFTMODC = SimpleOP (BytesPrefix [0xA9, 0x2E]) (seq (checkStackDepth 2)
     (bnd (popIntRange 0 256) (\<lambda>y. bnd popIntFinite (\<lambda>x.
        (let q = DivCeil x (2 ^ nat y) in pushTwo q (x - (2 ^ nat y) * q))))))"

subsection \<open>Products\<close>

definition MULADDDIVMOD :: simple_op where
  "MULADDDIVMOD = (SimpleOP (BytesPrefix [0xA9, 0x80]) (seq (checkStackDepth 4)
     (bnd popInt (\<lambda>z. bnd popInt (\<lambda>w. bnd popInt (\<lambda>y. bnd popInt (\<lambda>x.
        requireFinite z (\<lambda>z. requireFinite w (\<lambda>w. requireFinite y (\<lambda>y. requireFinite x (\<lambda>x. if z = 0 then raise errIntOverflow else (let q = fst (DivFloor (x * y + w) z) in pushTwo q (x * y + w - z * q)))))))))))))\<lparr>so_MinVersion := 4\<rparr>"

definition MULDIV :: simple_op where
  "MULDIV = SimpleOP (BytesPrefix [0xA9, 0x84]) (seq (checkStackDepth 3)
     (bnd popIntRead (\<lambda>z. bnd popIntRead (\<lambda>y. bnd popIntRead (\<lambda>x.
        requireFinite z (\<lambda>z. requireFinite y (\<lambda>y. requireFinite x (\<lambda>x. if z = 0 then raise errIntOverflow else pushInt (fst (DivFloor (x * y) z))))))))))"

definition MULMOD :: simple_op where
  "MULMOD = SimpleOP (BytesPrefix [0xA9, 0x88]) (seq (checkStackDepth 3)
     (bnd popIntRead (\<lambda>z. bnd popIntRead (\<lambda>y. bnd popIntRead (\<lambda>x.
        requireFinite z (\<lambda>z. requireFinite y (\<lambda>y. requireFinite x (\<lambda>x. if z = 0 then raise errIntOverflow else pushInt (snd (DivFloor (x * y) z))))))))))"

definition MULDIVMOD :: simple_op where
  "MULDIVMOD = SimpleOP (BytesPrefix [0xA9, 0x8C]) (seq (checkStackDepth 3)
     (bnd popInt (\<lambda>z. bnd popInt (\<lambda>y. bnd popInt (\<lambda>x.
        requireFinite z (\<lambda>z. requireFinite y (\<lambda>y. requireFinite x (\<lambda>x. if z = 0 then raise errIntOverflow else (let q = fst (DivFloor (x * y) z) in pushTwo q (x * y - z * q))))))))))"

definition MULADDRSHIFTMOD :: simple_op where
  "MULADDRSHIFTMOD = (SimpleOP (BytesPrefix [0xA9, 0xA0]) (seq (checkStackDepth 4)
     (bnd (popIntRange 0 256) (\<lambda>z. bnd popInt (\<lambda>w. bnd popInt (\<lambda>y. bnd popInt (\<lambda>x.
        requireFinite w (\<lambda>w. requireFinite y (\<lambda>y. requireFinite x (\<lambda>x. (let q = fst (DivFloor (x * y + w) (2 ^ nat z)) in pushTwo q (x * y + w - (2 ^ nat z) * q))))))))))))\<lparr>so_MinVersion := 4\<rparr>"

definition MULRSHIFT :: simple_op where
  "MULRSHIFT = SimpleOP (BytesPrefix [0xA9, 0xA4]) (seq (checkStackDepth 3)
     (bnd (popIntRange 0 256) (\<lambda>z. bnd popInt (\<lambda>y. bnd popInt (\<lambda>x.
        bnd getS (\<lambda>s. case (x, y) of (Some x, Some y) \<Rightarrow> pushInt (fst (DivFloor (x * y) (2 ^ nat z)))
        | _ \<Rightarrow> pushMaybeInt (legacyRShiftNaNResultThreshold (st_GlobalVersion s) 13 (nat z) (-1)) False))))))"

definition MULMODPOW2_VAR :: simple_op where
  "MULMODPOW2_VAR = SimpleOP (BytesPrefix [0xA9, 0xA8]) (seq (checkStackDepth 3)
     (bnd (popIntRange 0 256) (\<lambda>z. bnd popInt (\<lambda>y. bnd popInt (\<lambda>x.
        requireFinite y (\<lambda>y. requireFinite x (\<lambda>x. (let q = fst (DivFloor (x * y) (2 ^ nat z)) in pushInt (x * y - (2 ^ nat z) * q)))))))))"

definition MULRSHIFTMOD_VAR :: simple_op where
  "MULRSHIFTMOD_VAR = SimpleOP (BytesPrefix [0xA9, 0xAC]) (seq (checkStackDepth 3)
     (bnd (popIntRange 0 256) (\<lambda>z. bnd popInt (\<lambda>y. bnd popInt (\<lambda>x.
        requireFinite y (\<lambda>y. requireFinite x (\<lambda>x. (let q = fst (DivFloor (x * y) (2 ^ nat z)) in pushTwo q (x * y - (2 ^ nat z) * q)))))))))"

definition MULADDDIVMODR :: simple_op where
  "MULADDDIVMODR = (SimpleOP (BytesPrefix [0xA9, 0x81]) (seq (checkStackDepth 4)
     (bnd popInt (\<lambda>z. bnd popInt (\<lambda>w. bnd popInt (\<lambda>y. bnd popInt (\<lambda>x.
        requireFinite z (\<lambda>z. requireFinite w (\<lambda>w. requireFinite y (\<lambda>y. requireFinite x (\<lambda>x. if z = 0 then raise errIntOverflow else (let q = DivRound (x * y + w) z in pushTwo q (x * y + w - z * q)))))))))))))\<lparr>so_MinVersion := 4\<rparr>"

definition MULDIVR :: simple_op where
  "MULDIVR = SimpleOP (BytesPrefix [0xA9, 0x85]) (seq (checkStackDepth 3)
     (bnd popIntRead (\<lambda>z. bnd popIntRead (\<lambda>y. bnd popIntRead (\<lambda>x.
        requireFinite z (\<lambda>z. requireFinite y (\<lambda>y. requireFinite x (\<lambda>x. if z = 0 then raise errIntOverflow else pushInt (DivRound (x * y) z)))))))))"

definition MULMODR :: simple_op where
  "MULMODR = SimpleOP (BytesPrefix [0xA9, 0x89]) (seq (checkStackDepth 3)
     (bnd popInt (\<lambda>z. bnd popInt (\<lambda>y. bnd popInt (\<lambda>x.
        requireFinite z (\<lambda>z. requireFinite y (\<lambda>y. requireFinite x (\<lambda>x. if z = 0 then raise errIntOverflow else (let q = DivRound (x * y) z in pushInt (x * y - z * q))))))))))"

definition MULDIVMODR :: simple_op where
  "MULDIVMODR = SimpleOP (BytesPrefix [0xA9, 0x8D]) (seq (checkStackDepth 3)
     (bnd popInt (\<lambda>z. bnd popInt (\<lambda>y. bnd popInt (\<lambda>x.
        requireFinite z (\<lambda>z. requireFinite y (\<lambda>y. requireFinite x (\<lambda>x. if z = 0 then raise errIntOverflow else (let q = DivRound (x * y) z in pushTwo q (x * y - z * q))))))))))"

definition MULADDRSHIFTRMOD :: simple_op where
  "MULADDRSHIFTRMOD = (SimpleOP (BytesPrefix [0xA9, 0xA1]) (seq (checkStackDepth 4)
     (bnd (popIntRange 0 256) (\<lambda>z. bnd popInt (\<lambda>w. bnd popInt (\<lambda>y. bnd popInt (\<lambda>x.
        requireFinite w (\<lambda>w. requireFinite y (\<lambda>y. requireFinite x (\<lambda>x. (let q = DivRound (x * y + w) (2 ^ nat z) in pushTwo q (x * y + w - (2 ^ nat z) * q))))))))))))\<lparr>so_MinVersion := 4\<rparr>"

definition MULRSHIFTR :: simple_op where
  "MULRSHIFTR = SimpleOP (BytesPrefix [0xA9, 0xA5]) (seq (checkStackDepth 3)
     (bnd (popIntRange 0 256) (\<lambda>z. bnd popInt (\<lambda>y. bnd popInt (\<lambda>x.
        bnd getS (\<lambda>s. case (x, y) of (Some x, Some y) \<Rightarrow> pushInt (DivRound (x * y) (2 ^ nat z))
        | _ \<Rightarrow> pushMaybeInt (legacyRShiftNaNResultThreshold (st_GlobalVersion s) 13 (nat z) (0)) False))))))"

definition MULMODPOW2R_VAR :: simple_op where
  "MULMODPOW2R_VAR = SimpleOP (BytesPrefix [0xA9, 0xA9]) (seq (checkStackDepth 3)
     (bnd (popIntRange 0 256) (\<lambda>z. bnd popInt (\<lambda>y. bnd popInt (\<lambda>x.
        requireFinite y (\<lambda>y. requireFinite x (\<lambda>x. (let q = DivRound (x * y) (2 ^ nat z) in pushInt (x * y - (2 ^ nat z) * q)))))))))"

definition MULRSHIFTRMOD_VAR :: simple_op where
  "MULRSHIFTRMOD_VAR = SimpleOP (BytesPrefix [0xA9, 0xAD]) (seq (checkStackDepth 3)
     (bnd (popIntRange 0 256) (\<lambda>z. bnd popInt (\<lambda>y. bnd popInt (\<lambda>x.
        requireFinite y (\<lambda>y. requireFinite x (\<lambda>x. (let q = DivRound (x * y) (2 ^ nat z) in pushTwo q (x * y - (2 ^ nat z) * q)))))))))"

definition MULADDDIVMODC :: simple_op where
  "MULADDDIVMODC = (SimpleOP (BytesPrefix [0xA9, 0x82]) (seq (checkStackDepth 4)
     (bnd popInt (\<lambda>z. bnd popInt (\<lambda>w. bnd popInt (\<lambda>y. bnd popInt (\<lambda>x.
        requireFinite z (\<lambda>z. requireFinite w (\<lambda>w. requireFinite y (\<lambda>y. requireFinite x (\<lambda>x. if z = 0 then raise errIntOverflow else (let q = DivCeil (x * y + w) z in pushTwo q (x * y + w - z * q)))))))))))))\<lparr>so_MinVersion := 4\<rparr>"

definition MULDIVC :: simple_op where
  "MULDIVC = SimpleOP (BytesPrefix [0xA9, 0x86]) (seq (checkStackDepth 3)
     (bnd popIntRead (\<lambda>z. bnd popIntRead (\<lambda>y. bnd popIntRead (\<lambda>x.
        requireFinite z (\<lambda>z. requireFinite y (\<lambda>y. requireFinite x (\<lambda>x. if z = 0 then raise errIntOverflow else pushInt (DivCeil (x * y) z)))))))))"

definition MULMODC :: simple_op where
  "MULMODC = SimpleOP (BytesPrefix [0xA9, 0x8A]) (seq (checkStackDepth 3)
     (bnd popInt (\<lambda>z. bnd popInt (\<lambda>y. bnd popInt (\<lambda>x.
        requireFinite z (\<lambda>z. requireFinite y (\<lambda>y. requireFinite x (\<lambda>x. if z = 0 then raise errIntOverflow else (let q = DivCeil (x * y) z in pushInt (x * y - z * q))))))))))"

definition MULDIVMODC :: simple_op where
  "MULDIVMODC = SimpleOP (BytesPrefix [0xA9, 0x8E]) (seq (checkStackDepth 3)
     (bnd popInt (\<lambda>z. bnd popInt (\<lambda>y. bnd popInt (\<lambda>x.
        requireFinite z (\<lambda>z. requireFinite y (\<lambda>y. requireFinite x (\<lambda>x. if z = 0 then raise errIntOverflow else (let q = DivCeil (x * y) z in pushTwo q (x * y - z * q))))))))))"

definition MULADDRSHIFTCMOD :: simple_op where
  "MULADDRSHIFTCMOD = (SimpleOP (BytesPrefix [0xA9, 0xA2]) (seq (checkStackDepth 4)
     (bnd (popIntRange 0 256) (\<lambda>z. bnd popInt (\<lambda>w. bnd popInt (\<lambda>y. bnd popInt (\<lambda>x.
        requireFinite w (\<lambda>w. requireFinite y (\<lambda>y. requireFinite x (\<lambda>x. (let q = DivCeil (x * y + w) (2 ^ nat z) in pushTwo q (x * y + w - (2 ^ nat z) * q))))))))))))\<lparr>so_MinVersion := 4\<rparr>"

definition MULRSHIFTC :: simple_op where
  "MULRSHIFTC = SimpleOP (BytesPrefix [0xA9, 0xA6]) (seq (checkStackDepth 3)
     (bnd (popIntRange 0 256) (\<lambda>z. bnd popInt (\<lambda>y. bnd popInt (\<lambda>x.
        bnd getS (\<lambda>s. case (x, y) of (Some x, Some y) \<Rightarrow> pushInt (DivCeil (x * y) (2 ^ nat z))
        | _ \<Rightarrow> pushMaybeInt (legacyRShiftNaNResultThreshold (st_GlobalVersion s) 13 (nat z) (1)) False))))))"

definition MULMODPOW2C_VAR :: simple_op where
  "MULMODPOW2C_VAR = SimpleOP (BytesPrefix [0xA9, 0xAA]) (seq (checkStackDepth 3)
     (bnd (popIntRange 0 256) (\<lambda>z. bnd popInt (\<lambda>y. bnd popInt (\<lambda>x.
        requireFinite y (\<lambda>y. requireFinite x (\<lambda>x. (let q = DivCeil (x * y) (2 ^ nat z) in pushInt (x * y - (2 ^ nat z) * q)))))))))"

definition MULRSHIFTCMOD_VAR :: simple_op where
  "MULRSHIFTCMOD_VAR = SimpleOP (BytesPrefix [0xA9, 0xAE]) (seq (checkStackDepth 3)
     (bnd (popIntRange 0 256) (\<lambda>z. bnd popInt (\<lambda>y. bnd popInt (\<lambda>x.
        requireFinite y (\<lambda>y. requireFinite x (\<lambda>x. (let q = DivCeil (x * y) (2 ^ nat z) in pushTwo q (x * y - (2 ^ nat z) * q)))))))))"

subsection \<open>Shifted dividends\<close>

definition LSHIFTADDDIVMOD :: simple_op where
  "LSHIFTADDDIVMOD = (SimpleOP (BytesPrefix [0xA9, 0xC0]) (seq (checkStackDepth 4)
     (bnd (popIntRange 0 256) (\<lambda>y. bnd popInt (\<lambda>z. bnd popInt (\<lambda>w. bnd popInt (\<lambda>x.
        bnd getS (\<lambda>s. let x = legacyLeftShiftOperand (st_GlobalVersion s) x (nat y) in requireFinite z (\<lambda>z. requireFinite w (\<lambda>w. requireFinite x (\<lambda>x. if z = 0 then raise errIntOverflow else (let q = fst (DivFloor (x * 2 ^ nat y + w) z) in pushTwo q (x * 2 ^ nat y + w - z * q)))))))))))))\<lparr>so_MinVersion := 4\<rparr>"

definition LSHIFTDIV :: simple_op where
  "LSHIFTDIV = SimpleOP (BytesPrefix [0xA9, 0xC4]) (seq (checkStackDepth 3)
     (bnd (popIntRange 0 256) (\<lambda>z. bnd popInt (\<lambda>y. bnd popInt (\<lambda>x.
        bnd getS (\<lambda>s. let x = legacyLeftShiftOperand (st_GlobalVersion s) x (nat z) in requireFinite y (\<lambda>y. requireFinite x (\<lambda>x. if y = 0 then raise errIntOverflow else pushInt (fst (DivFloor (x * 2 ^ nat z) y))))))))))"

definition LSHIFTMOD :: simple_op where
  "LSHIFTMOD = SimpleOP (BytesPrefix [0xA9, 0xC8]) (seq (checkStackDepth 3)
     (bnd (popIntRange 0 256) (\<lambda>z. bnd popInt (\<lambda>y. bnd popInt (\<lambda>x.
        bnd getS (\<lambda>s. let x = legacyLeftShiftOperand (st_GlobalVersion s) x (nat z) in requireFinite y (\<lambda>y. requireFinite x (\<lambda>x. if y = 0 then raise errIntOverflow else pushInt (snd (DivFloor (x * 2 ^ nat z) y))))))))))"

definition LSHIFTDIVMOD :: simple_op where
  "LSHIFTDIVMOD = SimpleOP (BytesPrefix [0xA9, 0xCC]) (seq (checkStackDepth 3)
     (bnd (popIntRange 0 256) (\<lambda>z. bnd popInt (\<lambda>y. bnd popInt (\<lambda>x.
        bnd getS (\<lambda>s. let x = legacyLeftShiftOperand (st_GlobalVersion s) x (nat z) in requireFinite y (\<lambda>y. requireFinite x (\<lambda>x. if y = 0 then raise errIntOverflow else (case DivFloor (x * 2 ^ nat z) y of (q, r) \<Rightarrow> pushTwo q r)))))))))"

definition LSHIFTADDDIVMODR :: simple_op where
  "LSHIFTADDDIVMODR = (SimpleOP (BytesPrefix [0xA9, 0xC1]) (seq (checkStackDepth 4)
     (bnd (popIntRange 0 256) (\<lambda>y. bnd popInt (\<lambda>z. bnd popInt (\<lambda>w. bnd popInt (\<lambda>x.
        bnd getS (\<lambda>s. let x = legacyLeftShiftOperand (st_GlobalVersion s) x (nat y) in requireFinite z (\<lambda>z. requireFinite w (\<lambda>w. requireFinite x (\<lambda>x. if z = 0 then raise errIntOverflow else (let q = DivRound (x * 2 ^ nat y + w) z in pushTwo q (x * 2 ^ nat y + w - z * q)))))))))))))\<lparr>so_MinVersion := 4\<rparr>"

definition LSHIFTDIVR :: simple_op where
  "LSHIFTDIVR = SimpleOP (BytesPrefix [0xA9, 0xC5]) (seq (checkStackDepth 3)
     (bnd (popIntRange 0 256) (\<lambda>z. bnd popInt (\<lambda>y. bnd popInt (\<lambda>x.
        bnd getS (\<lambda>s. let x = legacyLeftShiftOperand (st_GlobalVersion s) x (nat z) in requireFinite y (\<lambda>y. requireFinite x (\<lambda>x. if y = 0 then raise errIntOverflow else pushInt (DivRound (x * 2 ^ nat z) y)))))))))"

definition LSHIFTMODR :: simple_op where
  "LSHIFTMODR = SimpleOP (BytesPrefix [0xA9, 0xC9]) (seq (checkStackDepth 3)
     (bnd (popIntRange 0 256) (\<lambda>z. bnd popInt (\<lambda>y. bnd popInt (\<lambda>x.
        bnd getS (\<lambda>s. let x = legacyLeftShiftOperand (st_GlobalVersion s) x (nat z) in requireFinite y (\<lambda>y. requireFinite x (\<lambda>x. if y = 0 then raise errIntOverflow else (let q = DivRound (x * 2 ^ nat z) y in pushInt (x * 2 ^ nat z - y * q))))))))))"

definition LSHIFTDIVMODR :: simple_op where
  "LSHIFTDIVMODR = SimpleOP (BytesPrefix [0xA9, 0xCD]) (seq (checkStackDepth 3)
     (bnd (popIntRange 0 256) (\<lambda>z. bnd popInt (\<lambda>y. bnd popInt (\<lambda>x.
        bnd getS (\<lambda>s. let x = legacyLeftShiftOperand (st_GlobalVersion s) x (nat z) in requireFinite y (\<lambda>y. requireFinite x (\<lambda>x. if y = 0 then raise errIntOverflow else (let q = DivRound (x * 2 ^ nat z) y in pushTwo q (x * 2 ^ nat z - y * q))))))))))"

definition LSHIFTADDDIVMODC :: simple_op where
  "LSHIFTADDDIVMODC = (SimpleOP (BytesPrefix [0xA9, 0xC2]) (seq (checkStackDepth 4)
     (bnd (popIntRange 0 256) (\<lambda>y. bnd popInt (\<lambda>z. bnd popInt (\<lambda>w. bnd popInt (\<lambda>x.
        bnd getS (\<lambda>s. let x = legacyLeftShiftOperand (st_GlobalVersion s) x (nat y) in requireFinite z (\<lambda>z. requireFinite w (\<lambda>w. requireFinite x (\<lambda>x. if z = 0 then raise errIntOverflow else (let q = DivCeil (x * 2 ^ nat y + w) z in pushTwo q (x * 2 ^ nat y + w - z * q)))))))))))))\<lparr>so_MinVersion := 4\<rparr>"

definition LSHIFTDIVC :: simple_op where
  "LSHIFTDIVC = SimpleOP (BytesPrefix [0xA9, 0xC6]) (seq (checkStackDepth 3)
     (bnd (popIntRange 0 256) (\<lambda>z. bnd popInt (\<lambda>y. bnd popInt (\<lambda>x.
        bnd getS (\<lambda>s. let x = legacyLeftShiftOperand (st_GlobalVersion s) x (nat z) in requireFinite y (\<lambda>y. requireFinite x (\<lambda>x. if y = 0 then raise errIntOverflow else pushInt (DivCeil (x * 2 ^ nat z) y)))))))))"

definition LSHIFTMODC :: simple_op where
  "LSHIFTMODC = SimpleOP (BytesPrefix [0xA9, 0xCA]) (seq (checkStackDepth 3)
     (bnd (popIntRange 0 256) (\<lambda>z. bnd popInt (\<lambda>y. bnd popInt (\<lambda>x.
        bnd getS (\<lambda>s. let x = legacyLeftShiftOperand (st_GlobalVersion s) x (nat z) in requireFinite y (\<lambda>y. requireFinite x (\<lambda>x. if y = 0 then raise errIntOverflow else (let q = DivCeil (x * 2 ^ nat z) y in pushInt (x * 2 ^ nat z - y * q))))))))))"

definition LSHIFTDIVMODC :: simple_op where
  "LSHIFTDIVMODC = SimpleOP (BytesPrefix [0xA9, 0xCE]) (seq (checkStackDepth 3)
     (bnd (popIntRange 0 256) (\<lambda>z. bnd popInt (\<lambda>y. bnd popInt (\<lambda>x.
        bnd getS (\<lambda>s. let x = legacyLeftShiftOperand (st_GlobalVersion s) x (nat z) in requireFinite y (\<lambda>y. requireFinite x (\<lambda>x. if y = 0 then raise errIntOverflow else (let q = DivCeil (x * 2 ^ nat z) y in pushTwo q (x * 2 ^ nat z - y * q))))))))))"

definition RSHIFTR :: simple_op where
  "RSHIFTR = SimpleOP (BytesPrefix [0xA9, 0x25]) (seq (checkStackDepth 2)
     (bnd (popIntRange 0 256) (\<lambda>y. bnd popIntRead (\<lambda>x. bnd getS (\<lambda>s.
        case x of
          None \<Rightarrow> if y = 0 \<or> st_GlobalVersion s \<ge> 14 then pushNaNOrOverflow False else pushSmallInt 0
        | Some x \<Rightarrow> pushInt (DivRound x (2 ^ nat y)))))))"

definition RSHIFTC :: simple_op where
  "RSHIFTC = SimpleOP (BytesPrefix [0xA9, 0x26]) (seq (checkStackDepth 2)
     (bnd (popIntRange 0 256) (\<lambda>y. bnd popIntRead (\<lambda>x. bnd getS (\<lambda>s.
        case x of
          None \<Rightarrow> if y = 0 \<or> st_GlobalVersion s \<ge> 14 then pushNaNOrOverflow False else pushSmallInt 0
        | Some x \<Rightarrow> pushInt (DivCeil x (2 ^ nat y)))))))"

subsection \<open>Shifts in the instruction\<close>

definition modPow2CodeOp :: arg_op where
  "modPow2CodeOp = NewArgOP [BytesPrefix [0xA9, 0x38]] 8 (\<lambda>args. bnd popIntFinite (\<lambda>x.
        (let q = bigDiv x (2 ^ bytePlusOneValue args) in pushInt (x - (2 ^ bytePlusOneValue args) * q))))"

definition rshiftCodeModOp :: arg_op where
  "rshiftCodeModOp = NewArgOP [BytesPrefix [0xA9, 0x3C]] 8 (\<lambda>args. bnd popIntFinite (\<lambda>x.
        (let q = bigDiv x (2 ^ bytePlusOneValue args) in pushTwo q (x - (2 ^ bytePlusOneValue args) * q))))"

definition mulAddRShiftCodeModOp :: arg_op where
  "mulAddRShiftCodeModOp = (NewArgOP [BytesPrefix [0xA9, 0xB0]] 8 (\<lambda>args. seq (checkStackDepth 3)
     (bnd popInt (\<lambda>w. bnd popInt (\<lambda>y. bnd popInt (\<lambda>x.
        requireFinite w (\<lambda>w. requireFinite y (\<lambda>y. requireFinite x (\<lambda>x. (let q = fst (DivFloor (x * y + w) (2 ^ bytePlusOneValue args)) in pushTwo q (x * y + w - (2 ^ bytePlusOneValue args) * q)))))))))))\<lparr>ao_MinVersion := 4\<rparr>"

definition mulRShiftCodeOp :: arg_op where
  "mulRShiftCodeOp = NewArgOP [BytesPrefix [0xA9, 0xB4]] 8 (\<lambda>args. seq (checkStackDepth 2)
     (bnd popInt (\<lambda>y. bnd popInt (\<lambda>x.
        bnd getS (\<lambda>s. case (x, y) of (Some x, Some y) \<Rightarrow> pushInt (fst (DivFloor (x * y) (2 ^ bytePlusOneValue args)))
        | _ \<Rightarrow> pushMaybeInt (legacyRShiftNaNResultThreshold (st_GlobalVersion s) 13 (bytePlusOneValue args) (-1)) False)))))"

definition mulModPow2CodeOp :: arg_op where
  "mulModPow2CodeOp = NewArgOP [BytesPrefix [0xA9, 0xB8]] 8 (\<lambda>args. seq (checkStackDepth 2)
     (bnd popInt (\<lambda>y. bnd popInt (\<lambda>x.
        requireFinite y (\<lambda>y. requireFinite x (\<lambda>x. (let q = fst (DivFloor (x * y) (2 ^ bytePlusOneValue args)) in pushInt (x * y - (2 ^ bytePlusOneValue args) * q))))))))"

definition mulRShiftCodeModOp :: arg_op where
  "mulRShiftCodeModOp = NewArgOP [BytesPrefix [0xA9, 0xBC]] 8 (\<lambda>args. seq (checkStackDepth 2)
     (bnd popInt (\<lambda>y. bnd popInt (\<lambda>x.
        requireFinite y (\<lambda>y. requireFinite x (\<lambda>x. (let q = fst (DivFloor (x * y) (2 ^ bytePlusOneValue args)) in pushTwo q (x * y - (2 ^ bytePlusOneValue args) * q))))))))"

definition modPow2RCodeOp :: arg_op where
  "modPow2RCodeOp = NewArgOP [BytesPrefix [0xA9, 0x39]] 8 (\<lambda>args. bnd popIntFinite (\<lambda>x.
        (let q = DivRound x (2 ^ bytePlusOneValue args) in pushInt (x - (2 ^ bytePlusOneValue args) * q))))"

definition rshiftRCodeModOp :: arg_op where
  "rshiftRCodeModOp = NewArgOP [BytesPrefix [0xA9, 0x3D]] 8 (\<lambda>args. bnd popIntFinite (\<lambda>x.
        (let q = DivRound x (2 ^ bytePlusOneValue args) in pushTwo q (x - (2 ^ bytePlusOneValue args) * q))))"

definition rshiftRCodeOp :: arg_op where
  "rshiftRCodeOp = NewArgOP [BytesPrefix [0xA9, 0x35]] 8 (\<lambda>args. bnd popIntRead (\<lambda>x.
        bnd getS (\<lambda>s. case x of Some x \<Rightarrow> pushInt (DivRound x (2 ^ bytePlusOneValue args))
        | None \<Rightarrow> if st_GlobalVersion s \<ge> 14 then pushNaNOrOverflow False else pushSmallInt 0)))"

definition mulAddRShiftRCodeModOp :: arg_op where
  "mulAddRShiftRCodeModOp = (NewArgOP [BytesPrefix [0xA9, 0xB1]] 8 (\<lambda>args. seq (checkStackDepth 3)
     (bnd popInt (\<lambda>w. bnd popInt (\<lambda>y. bnd popInt (\<lambda>x.
        requireFinite w (\<lambda>w. requireFinite y (\<lambda>y. requireFinite x (\<lambda>x. (let q = DivRound (x * y + w) (2 ^ bytePlusOneValue args) in pushTwo q (x * y + w - (2 ^ bytePlusOneValue args) * q)))))))))))\<lparr>ao_MinVersion := 4\<rparr>"

definition mulRShiftRCodeOp :: arg_op where
  "mulRShiftRCodeOp = NewArgOP [BytesPrefix [0xA9, 0xB5]] 8 (\<lambda>args. seq (checkStackDepth 2)
     (bnd popInt (\<lambda>y. bnd popInt (\<lambda>x.
        bnd getS (\<lambda>s. case (x, y) of (Some x, Some y) \<Rightarrow> pushInt (DivRound (x * y) (2 ^ bytePlusOneValue args))
        | _ \<Rightarrow> pushMaybeInt (legacyRShiftNaNResultThreshold (st_GlobalVersion s) 13 (bytePlusOneValue args) (0)) False)))))"

definition mulModPow2RCodeOp :: arg_op where
  "mulModPow2RCodeOp = NewArgOP [BytesPrefix [0xA9, 0xB9]] 8 (\<lambda>args. seq (checkStackDepth 2)
     (bnd popInt (\<lambda>y. bnd popInt (\<lambda>x.
        requireFinite y (\<lambda>y. requireFinite x (\<lambda>x. (let q = DivRound (x * y) (2 ^ bytePlusOneValue args) in pushInt (x * y - (2 ^ bytePlusOneValue args) * q))))))))"

definition mulRShiftRCodeModOp :: arg_op where
  "mulRShiftRCodeModOp = NewArgOP [BytesPrefix [0xA9, 0xBD]] 8 (\<lambda>args. seq (checkStackDepth 2)
     (bnd popInt (\<lambda>y. bnd popInt (\<lambda>x.
        requireFinite y (\<lambda>y. requireFinite x (\<lambda>x. (let q = DivRound (x * y) (2 ^ bytePlusOneValue args) in pushTwo q (x * y - (2 ^ bytePlusOneValue args) * q))))))))"

definition modPow2CCodeOp :: arg_op where
  "modPow2CCodeOp = NewArgOP [BytesPrefix [0xA9, 0x3A]] 8 (\<lambda>args. bnd popIntFinite (\<lambda>x.
        (let q = DivCeil x (2 ^ bytePlusOneValue args) in pushInt (x - (2 ^ bytePlusOneValue args) * q))))"

definition rshiftCCodeModOp :: arg_op where
  "rshiftCCodeModOp = NewArgOP [BytesPrefix [0xA9, 0x3E]] 8 (\<lambda>args. bnd popIntFinite (\<lambda>x.
        (let q = DivCeil x (2 ^ bytePlusOneValue args) in pushTwo q (x - (2 ^ bytePlusOneValue args) * q))))"

definition rshiftCCodeOp :: arg_op where
  "rshiftCCodeOp = NewArgOP [BytesPrefix [0xA9, 0x36]] 8 (\<lambda>args. bnd popIntRead (\<lambda>x.
        bnd getS (\<lambda>s. case x of Some x \<Rightarrow> pushInt (DivCeil x (2 ^ bytePlusOneValue args))
        | None \<Rightarrow> if st_GlobalVersion s \<ge> 14 then pushNaNOrOverflow False else pushSmallInt 0)))"

definition mulAddRShiftCCodeModOp :: arg_op where
  "mulAddRShiftCCodeModOp = (NewArgOP [BytesPrefix [0xA9, 0xB2]] 8 (\<lambda>args. seq (checkStackDepth 3)
     (bnd popInt (\<lambda>w. bnd popInt (\<lambda>y. bnd popInt (\<lambda>x.
        requireFinite w (\<lambda>w. requireFinite y (\<lambda>y. requireFinite x (\<lambda>x. (let q = DivCeil (x * y + w) (2 ^ bytePlusOneValue args) in pushTwo q (x * y + w - (2 ^ bytePlusOneValue args) * q)))))))))))\<lparr>ao_MinVersion := 4\<rparr>"

definition mulRShiftCCodeOp :: arg_op where
  "mulRShiftCCodeOp = NewArgOP [BytesPrefix [0xA9, 0xB6]] 8 (\<lambda>args. seq (checkStackDepth 2)
     (bnd popInt (\<lambda>y. bnd popInt (\<lambda>x.
        bnd getS (\<lambda>s. case (x, y) of (Some x, Some y) \<Rightarrow> pushInt (DivCeil (x * y) (2 ^ bytePlusOneValue args))
        | _ \<Rightarrow> pushMaybeInt (legacyRShiftNaNResultThreshold (st_GlobalVersion s) 13 (bytePlusOneValue args) (1)) False)))))"

definition mulModPow2CCodeOp :: arg_op where
  "mulModPow2CCodeOp = NewArgOP [BytesPrefix [0xA9, 0xBA]] 8 (\<lambda>args. seq (checkStackDepth 2)
     (bnd popInt (\<lambda>y. bnd popInt (\<lambda>x.
        requireFinite y (\<lambda>y. requireFinite x (\<lambda>x. (let q = DivCeil (x * y) (2 ^ bytePlusOneValue args) in pushInt (x * y - (2 ^ bytePlusOneValue args) * q))))))))"

definition mulRShiftCCodeModOp :: arg_op where
  "mulRShiftCCodeModOp = NewArgOP [BytesPrefix [0xA9, 0xBE]] 8 (\<lambda>args. seq (checkStackDepth 2)
     (bnd popInt (\<lambda>y. bnd popInt (\<lambda>x.
        requireFinite y (\<lambda>y. requireFinite x (\<lambda>x. (let q = DivCeil (x * y) (2 ^ bytePlusOneValue args) in pushTwo q (x * y - (2 ^ bytePlusOneValue args) * q))))))))"

definition newAddrShiftCodeModOp :: "byte \<Rightarrow> (int \<Rightarrow> int \<Rightarrow> int \<times> int) \<Rightarrow> arg_op" where
  "newAddrShiftCodeModOp op round = (NewArgOP [BytesPrefix [0xA9, op]] 8 (\<lambda>args. seq (checkStackDepth 2)
     (bnd popIntRead (\<lambda>w. bnd popIntRead (\<lambda>x. requireFinite w (\<lambda>w. requireFinite x (\<lambda>x.
        case round (x + w) (2 ^ bytePlusOneValue args) of (q, r) \<Rightarrow> pushTwo q r)))))))\<lparr>ao_MinVersion := 4\<rparr>"

definition addrShiftModOp :: arg_op where
  "addrShiftModOp = newAddrShiftCodeModOp 0x30 DivFloor"

definition addrShiftRModOp :: arg_op where
  "addrShiftRModOp = newAddrShiftCodeModOp 0x31 (\<lambda>x y. let q = DivRound x y in (q, x - y * q))"

definition addrShiftCModOp :: arg_op where
  "addrShiftCModOp = newAddrShiftCodeModOp 0x32 (\<lambda>x y. let q = DivCeil x y in (q, x - y * q))"

definition roundDivMod :: "int \<Rightarrow> int \<Rightarrow> int \<Rightarrow> int \<times> int" where
  "roundDivMod x y roundMode =
     (if roundMode = 0 then DivFloor x y
      else let q = (if roundMode = 1 then DivRound x y else DivCeil x y) in (q, x - y * q))"

text \<open>Without an addend the dividend has none to add: \<open>w\<close> is zero then.\<close>

definition newLshiftDivCodeOp :: "byte \<Rightarrow> int \<Rightarrow> int \<Rightarrow> arg_op" where
  "newLshiftDivCodeOp op d roundMode = (NewArgOP [BytesPrefix [0xA9, op]] 8 (\<lambda>args.
     seq (checkStackDepth (if d = 0 then 3 else 2))
       (bnd popIntRead (\<lambda>z.
        let run = (\<lambda>w. bnd popIntRead (\<lambda>x. bnd getS (\<lambda>s.
              let shift = bytePlusOneValue args; x = legacyLeftShiftOperand (st_GlobalVersion s) x shift in
              requireFinite z (\<lambda>z. requireFinite w (\<lambda>w. requireFinite x (\<lambda>x.
                if z = 0 then raise errIntOverflow
                else case roundDivMod (x * 2 ^ shift + w) z roundMode of (q, r) \<Rightarrow>
                  if d = 1 then pushInt q else if d = 2 then pushInt r else pushTwo q r))))))
        in if d = 0 then bnd popIntRead run else run (Some 0)))))
     \<lparr>ao_MinVersion := (if d = 0 then 4 else 0)\<rparr>"

definition newInvalidCompoundFamily :: "bit_prefix \<Rightarrow> nat \<Rightarrow> 64 word \<Rightarrow> arg_op" where
  "newInvalidCompoundFamily pfx suffixBits suff = (NewArgOP [pfx] suffixBits (\<lambda>args. raise (VMError CodeInvalidOpcode)))
     \<lparr>ao_Serializer := Some (\<lambda>args. seq (storePrefix pfx) (StoreUInt suff suffixBits))\<rparr>"

definition divSimpleOps :: "simple_op list" where
  "divSimpleOps = [DIV, MOD, DIVMOD, ADDDIVMOD, DIVR, MODR, DIVMODR, ADDDIVMODR, DIVC, MODC, DIVMODC, ADDDIVMODC, ADDRSHIFTMOD, MODPOW2, RSHIFTMOD,
     ADDRSHIFTMODR, MODPOW2R, RSHIFTMODR, ADDRSHIFTMODC, MODPOW2C, RSHIFTMODC, MULADDDIVMOD, MULDIV, MULMOD, MULDIVMOD,
     MULADDRSHIFTMOD, MULRSHIFT, MULMODPOW2_VAR, MULRSHIFTMOD_VAR, MULADDDIVMODR, MULDIVR, MULMODR, MULDIVMODR, MULADDRSHIFTRMOD,
     MULRSHIFTR, MULMODPOW2R_VAR, MULRSHIFTRMOD_VAR, MULADDDIVMODC, MULDIVC, MULMODC, MULDIVMODC, MULADDRSHIFTCMOD, MULRSHIFTC,
     MULMODPOW2C_VAR, MULRSHIFTCMOD_VAR, LSHIFTADDDIVMOD, LSHIFTDIV, LSHIFTMOD, LSHIFTDIVMOD, LSHIFTADDDIVMODR, LSHIFTDIVR,
     LSHIFTMODR, LSHIFTDIVMODR, LSHIFTADDDIVMODC, LSHIFTDIVC, LSHIFTMODC, LSHIFTDIVMODC, RSHIFTR, RSHIFTC]"

definition divArgOps :: "arg_op list" where
  "divArgOps = [addrShiftModOp, addrShiftRModOp, addrShiftCModOp, modPow2CodeOp, rshiftCodeModOp, mulAddRShiftCodeModOp, mulRShiftCodeOp, mulModPow2CodeOp, mulRShiftCodeModOp, modPow2RCodeOp,
     rshiftRCodeModOp, rshiftRCodeOp, mulAddRShiftRCodeModOp, mulRShiftRCodeOp, mulModPow2RCodeOp, mulRShiftRCodeModOp,
     modPow2CCodeOp, rshiftCCodeModOp, rshiftCCodeOp, mulAddRShiftCCodeModOp, mulRShiftCCodeOp, mulModPow2CCodeOp,
     mulRShiftCCodeModOp] @
     [newLshiftDivCodeOp 0xD0 0 0, newLshiftDivCodeOp 0xD1 0 1, newLshiftDivCodeOp 0xD2 0 2, newLshiftDivCodeOp 0xD4 1 0,
     newLshiftDivCodeOp 0xD5 1 1, newLshiftDivCodeOp 0xD6 1 2, newLshiftDivCodeOp 0xD8 2 0, newLshiftDivCodeOp 0xD9 2 1,
     newLshiftDivCodeOp 0xDA 2 2, newLshiftDivCodeOp 0xDC 3 0, newLshiftDivCodeOp 0xDD 3 1, newLshiftDivCodeOp 0xDE 3 2] @
     [newInvalidCompoundFamily (UIntPrefix 0xA90 12) 4 0x3, newInvalidCompoundFamily (UIntPrefix 0xA92 12) 4 0x7,
     newInvalidCompoundFamily (UIntPrefix 0xA93 12) 12 0x300, newInvalidCompoundFamily (UIntPrefix 0xA98 12) 4 0x7,
     newInvalidCompoundFamily (UIntPrefix 0xA9A 12) 4 0x7, newInvalidCompoundFamily (UIntPrefix 0xA9B 12) 12 0x300,
     newInvalidCompoundFamily (UIntPrefix 0xA9C 12) 4 0x7, newInvalidCompoundFamily (UIntPrefix 0xA9D 12) 12 0x300]"

lemmas div_simple_defs = DIV_def MOD_def DIVMOD_def ADDDIVMOD_def DIVR_def MODR_def DIVMODR_def ADDDIVMODR_def DIVC_def MODC_def DIVMODC_def ADDDIVMODC_def
  ADDRSHIFTMOD_def MODPOW2_def RSHIFTMOD_def ADDRSHIFTMODR_def MODPOW2R_def RSHIFTMODR_def ADDRSHIFTMODC_def MODPOW2C_def
  RSHIFTMODC_def MULADDDIVMOD_def MULDIV_def MULMOD_def MULDIVMOD_def MULADDRSHIFTMOD_def MULRSHIFT_def MULMODPOW2_VAR_def
  MULRSHIFTMOD_VAR_def MULADDDIVMODR_def MULDIVR_def MULMODR_def MULDIVMODR_def MULADDRSHIFTRMOD_def MULRSHIFTR_def
  MULMODPOW2R_VAR_def MULRSHIFTRMOD_VAR_def MULADDDIVMODC_def MULDIVC_def MULMODC_def MULDIVMODC_def MULADDRSHIFTCMOD_def
  MULRSHIFTC_def MULMODPOW2C_VAR_def MULRSHIFTCMOD_VAR_def LSHIFTADDDIVMOD_def LSHIFTDIV_def LSHIFTMOD_def LSHIFTDIVMOD_def
  LSHIFTADDDIVMODR_def LSHIFTDIVR_def LSHIFTMODR_def LSHIFTDIVMODR_def LSHIFTADDDIVMODC_def LSHIFTDIVC_def LSHIFTMODC_def
  LSHIFTDIVMODC_def RSHIFTR_def RSHIFTC_def

lemmas div_arg_defs = addrShiftModOp_def addrShiftRModOp_def addrShiftCModOp_def newAddrShiftCodeModOp_def modPow2CodeOp_def rshiftCodeModOp_def
  mulAddRShiftCodeModOp_def mulRShiftCodeOp_def mulModPow2CodeOp_def mulRShiftCodeModOp_def modPow2RCodeOp_def
  rshiftRCodeModOp_def rshiftRCodeOp_def mulAddRShiftRCodeModOp_def mulRShiftRCodeOp_def mulModPow2RCodeOp_def
  mulRShiftRCodeModOp_def modPow2CCodeOp_def rshiftCCodeModOp_def rshiftCCodeOp_def mulAddRShiftCCodeModOp_def
  mulRShiftCCodeOp_def mulModPow2CCodeOp_def mulRShiftCCodeModOp_def newLshiftDivCodeOp_def newInvalidCompoundFamily_def

lemma body_ok_div [math_body]:
  "body_ok (pushTwo q r)" "(\<And>a b. body_ok (f a b)) \<Longrightarrow> body_ok (finitePair x y f)"
  unfolding pushTwo_def finitePair_def by (intro math_body; simp)+

lemma divSimpleOps_ok: "op \<in> set divSimpleOps \<Longrightarrow> simple_op_ok op"
proof -
  have "list_all simple_op_ok divSimpleOps"
    unfolding divSimpleOps_def list.pred_inject div_simple_defs
    by (intro conjI TrueI simple_op_ok_body; (intro math_body body_ok_raise)?; simp)
  then show "op \<in> set divSimpleOps \<Longrightarrow> simple_op_ok op" by (simp add: list_all_iff)
qed

lemma divArgOps_ok: "op \<in> set divArgOps \<Longrightarrow> arg_op_ok op"
proof -
  have "list_all arg_op_ok divArgOps"
    unfolding divArgOps_def list.pred_inject append.simps div_arg_defs Let_def
    by (intro conjI TrueI arg_op_ok_body; (intro math_body body_ok_raise)?; simp)
  then show "op \<in> set divArgOps \<Longrightarrow> arg_op_ok op" by (simp add: list_all_iff)
qed

end
