(* ===== verification/Op_Registry.thy ===== *)
theory Op_Registry
  imports Op_Const Op_Div
begin

section \<open>The codepage\<close>

text \<open>
  The opcodes that \<^verbatim>\<open>src/tvm/vm.go\<close> collects from the modelled packages, \<^verbatim>\<open>op/math\<close> before \<^verbatim>\<open>op/stack\<close>: first the
  operations of the common list, then those with packed arguments.  Every table built from them meets the contract of the run
  loop, so the machine returns on it and stays well formed.
\<close>

definition cp0Registry :: "dispatch_entry registration list" where
  "cp0Registry =
     map simpleRegistration (mathSimpleOps @ divSimpleOps) @
     map objRegistration [dictPushConstOp, debugStrOp, pushContOp, pushIntOp, pushRefOp, pushRefSliceOp, pushSliceInlineOp] @
     map simpleRegistration stackSimpleOps @
     map argRegistration (mathArgOps @ divArgOps) @ map argRegistration stackArgOps"

lemma stackSimpleOps_ok: "op \<in> set stackSimpleOps \<Longrightarrow> simple_op_ok op"
  unfolding stackSimpleOps_def by (auto intro: op_ok)

lemma stackArgOps_ok: "op \<in> set stackArgOps \<Longrightarrow> arg_op_ok op"
  unfolding stackArgOps_def by (auto intro: op_ok)

lemma cp0Registry_ok: "rg \<in> set cp0Registry \<Longrightarrow> registered_ok rg"
  unfolding cp0Registry_def
  by (auto intro: op_ok dest: stackSimpleOps_ok stackArgOps_ok mathSimpleOps_ok mathArgOps_ok divSimpleOps_ok divArgOps_ok)

interpretation cp0: instruction_set "buildOpcodeDispatch cp0Registry ver" for ver
  by (rule registry_instruction_set) (rule cp0Registry_ok)

end
