(* ===== verification/Run_Props.thy ===== *)
theory Run_Props
  imports Op_Registry Vm_Props
begin

section \<open>Properties of dispatch and of the run loop\<close>

text \<open>
  Opcode lookup against its specification, and the run loop on the codepage of theory Op_Registry: from version 4 on it returns
  from every state with a sound gas budget, keeps the machine well formed and pays for every step.
\<close>

lemma dispatchOf_maxPrefixLen: "d_maxPrefixLen (dispatchOf regs) = fold max (map (length \<circ> fst) regs) 0"
  by (induction regs rule: rev_induct)
    (auto simp: dispatchOf_def addPrefix_def newOpcodeDispatch_def split: prod.split)

lemma gas_liveI:
  "4 \<le> st_GlobalVersion s \<Longrightarrow> st_pendingErr s = None \<Longrightarrow> gas_inv (st_Gas s) \<Longrightarrow> 0 \<le> g_Remaining (st_Gas s) \<Longrightarrow> gas_live s"
  by (auto simp: gas_live_def gas_range_def gasU_def gasTop_def gas_inv_def is_int64_def)

lemma demoState_pending [simp]: "st_pendingErr (demoState gv stk) = None"
  by (simp add: demoState_def NewExecutionState_def)

text \<open>C4: looking up the next opcode, through the 16-bit index and the tail of the trie or bit by
  bit, gives the entry of the longest registered prefix of the code padded with zeros; where a prefix is registered twice the
  later entry wins, and versions before an opcode's first one see it only as the historical invalid entry.\<close>

theorem dispatch_longest_prefix:
  assumes "slice_ok code"
  shows "matchOpcode (buildOpcodeDispatch registry ver) code =
    (let regs = concat (map (prefixEntries ver) registry) in
     if BitsLeft code = 0 then None
     else longestMatch regs (paddedBits (fold max (map (length \<circ> fst) regs) 0) code))"
  using matchOpcode_walk [OF assms dispatchOf_within [of "concat (map (prefixEntries ver) registry)"]]
  by (simp add: buildOpcodeDispatch_eq longest_walk dispatchOf_maxPrefixLen Let_def)

theorem dispatch_longest_prefix_witness:
  "matchOpcode (buildOpcodeDispatch [simpleRegistration NOP] 9) (newSliceFromCell (Cell [0] 8 False 0 [])) =
     longestMatch [(replicate 8 False, rg_entry (simpleRegistration NOP))] (replicate 8 False)"
proof -
  have "BytesPrefix [0x00] = replicate 8 False" by code_simp
  then have p: "prefixEntries 9 (simpleRegistration NOP) = [(replicate 8 False, rg_entry (simpleRegistration NOP))]"
    by (simp add: prefixEntries_def simpleRegistration_def NOP_def SimpleOP_def)
  have "slice_ok (newSliceFromCell (Cell [0] 8 False 0 []))" "BitsLeft (newSliceFromCell (Cell [0] 8 False 0 [])) = 8"
    "paddedBits 8 (newSliceFromCell (Cell [0] 8 False 0 [])) = replicate 8 False"
    by code_simp+
  then show ?thesis
    using dispatch_longest_prefix [of "newSliceFromCell (Cell [0] 8 False 0 [])" "[simpleRegistration NOP]" 9]
    by (simp add: p Let_def)
qed

text \<open>C1: from global version 4 on, a machine in a well-formed state, with no pending error, a balance that is not negative and gas counters in the range without wrap-around, stops on
  the codepage of the modelled opcodes, whichever version that table was built for, and leaves a well-formed state.  Versions 0 to 3, where charges are checked only after a step and old schedules leave implicit jumps
  uncharged, are not covered.\<close>

theorem run_returns_ok:
  assumes "4 \<le> st_GlobalVersion s" "st_pendingErr s = None" "gas_inv (st_Gas s)" "0 \<le> g_Remaining (st_Gas s)" "state_ok s"
  shows "\<exists>r t. execute (buildOpcodeDispatch cp0Registry ver) s = Some (r, t) \<and> state_ok t"
  using cp0.returns [OF gas_liveI [OF assms(1-4)]] cp0.stays_ok [OF _ assms(5)] by fastforce

theorem run_returns_ok_witness:
  "\<exists>r t. execute (buildOpcodeDispatch cp0Registry 9) (demoState 9 [VInt 1]) = Some (r, t) \<and> state_ok t"
  by (rule run_returns_ok) (simp_all add: gas_inv_demo demoState_ok fitsTVMInt_iff)

text \<open>C8: under the same conditions (global version 4 or later, no pending error, a balance that is not negative, counters in range) one step of the codepage uses at least five units of gas, base minus remaining.  The larger of
  base and maximum, beyond which no later limit can go, does not grow, and unless the step runs out of gas the balance is again not negative.\<close>

theorem step_pays:
  assumes "4 \<le> st_GlobalVersion s" "st_pendingErr s = None" "gas_inv (st_Gas s)" "0 \<le> g_Remaining (st_Gas s)"
    and "stepAnyWithDispatch (buildOpcodeDispatch cp0Registry ver) s = (r, t)"
  shows "(g_Base (st_Gas s) - g_Remaining (st_Gas s)) + 5 \<le> g_Base (st_Gas t) - g_Remaining (st_Gas t) \<and>
    max (g_Base (st_Gas t)) (g_Max (st_Gas t)) \<le> max (g_Base (st_Gas s)) (g_Max (st_Gas s)) \<and>
    (r = Inl errOutOfGas \<or> 0 \<le> g_Remaining (st_Gas t))"
proof -
  have "live_table (buildOpcodeDispatch cp0Registry ver)" by (auto simp: live_table_def cp0.gas_safe_entry)
  then have p: "pays 5 (stepAnyWithDispatch (buildOpcodeDispatch cp0Registry ver))" by (rule pays_step)
  have l: "gas_live s" by (rule gas_liveI [OF assms(1-4)])
  have "gasU s + 5 \<le> gasU t" "gas_le s t" "r = Inl errOutOfGas \<or> gas_live t"
    using p l assms(5) by (auto simp: pays_def gsafe_def)
  then show ?thesis by (auto simp: gas_le_def gas_live_def gasU_def gasTop_def)
qed

theorem step_pays_witness:
  "\<exists>r t. stepAnyWithDispatch (buildOpcodeDispatch cp0Registry 9) (demoState 9 []) = (r, t) \<and>
    5 \<le> g_Base (st_Gas t) - g_Remaining (st_Gas t)"
proof -
  obtain r t where st: "stepAnyWithDispatch (buildOpcodeDispatch cp0Registry 9) (demoState 9 []) = (r, t)" by fastforce
  from step_pays [OF _ _ _ _ st] have "5 \<le> g_Base (st_Gas t) - g_Remaining (st_Gas t)" by (simp add: gas_inv_demo)
  with st show ?thesis by blast
qed

end
