(* ===== verification/Slice_Props.thy ===== *)
theory Slice_Props
  imports Cell_Slice_Ops Cell_Roundtrip
begin

section \<open>Properties of slice comparison\<close>

text \<open>
  The operations of \<^verbatim>\<open>slice_ops.go\<close> read up to 64 bits at a time.  The properties relate them to the bit sequence of the
  window.
\<close>

text \<open>Two windows with the same bits at different offsets, for the witnesses.\<close>

definition demoSlice :: "byte list \<Rightarrow> nat \<Rightarrow> nat \<Rightarrow> slice" where
  "demoSlice bs from to = (newSliceFromCell (Cell bs (8 * length bs) False 0 []))\<lparr>sl_bitStart := from, sl_bitEnd := to\<rparr>"

text \<open>C19: comparing two slices in chunks of at most 64 bits is the lexicographic comparison of their bits, with a
  proper prefix first; reading the other way round gives the opposite sign.\<close>

theorem LexCompare_bits:
  assumes "slice_ok c" "slice_ok d"
  shows "LexCompare c (Some d) = bitsCompare (sliceBits c) (sliceBits d) \<and>
    LexCompare d (Some c) = - LexCompare c (Some d) \<and> (LexCompare c (Some d) = 0 \<longleftrightarrow> sliceBits c = sliceBits d)"
proof -
  have swap: "bitsCompare y x = - bitsCompare x y" for x y
    by (induction x y rule: bitsCompare.induct) simp_all
  have zero: "bitsCompare x y = 0 \<longleftrightarrow> x = y" for x y
    by (induction x y rule: bitsCompare.induct) auto
  show ?thesis
    using LexCompare_ok [OF assms] LexCompare_ok [OF assms(2,1)] swap [of "sliceBits d" "sliceBits c"]
      zero [of "sliceBits c" "sliceBits d"] by simp
qed

theorem LexCompare_bits_witness:
  "LexCompare (demoSlice [0x5A] 1 7) (Some (demoSlice [0xB4] 0 6)) = 0"
proof -
  have "slice_ok (demoSlice [0x5A] 1 7)" "slice_ok (demoSlice [0xB4] 0 6)"
    "sliceBits (demoSlice [0x5A] 1 7) = sliceBits (demoSlice [0xB4] 0 6)" by code_simp+
  then show ?thesis using LexCompare_bits [of "demoSlice [0x5A] 1 7" "demoSlice [0xB4] 0 6"] by simp
qed

text \<open>C20: the equality, prefix and suffix tests of slices, proper ones included, decide the relations of
  the bit sequences, whatever the offsets of the two windows in their cells.\<close>

theorem prefix_tests:
  assumes "slice_ok c" "slice_ok d"
  shows "(BitsEqual c (Some d) \<longleftrightarrow> sliceBits c = sliceBits d) \<and>
    (IsPrefixOf c (Some d) \<longleftrightarrow> prefix (sliceBits c) (sliceBits d)) \<and>
    (IsProperPrefixOf c (Some d) \<longleftrightarrow> strict_prefix (sliceBits c) (sliceBits d)) \<and>
    (IsSuffixOf c (Some d) \<longleftrightarrow> suffix (sliceBits c) (sliceBits d)) \<and>
    (IsProperSuffixOf c (Some d) \<longleftrightarrow> strict_suffix (sliceBits c) (sliceBits d))"
  using prefix_ops_ok [OF assms] by simp

theorem prefix_tests_witness: "IsPrefixOf (demoSlice [0x5A] 1 4) (Some (demoSlice [0xB4] 0 6))"
proof -
  have "slice_ok (demoSlice [0x5A] 1 4)" "slice_ok (demoSlice [0xB4] 0 6)"
    "prefix (sliceBits (demoSlice [0x5A] 1 4)) (sliceBits (demoSlice [0xB4] 0 6))" by code_simp+
  then show ?thesis using prefix_tests [of "demoSlice [0x5A] 1 4" "demoSlice [0xB4] 0 6"] by simp
qed

text \<open>C21: counting equal bits at either end, in chunks and with the machine's leading and trailing zero counts, gives
  the length of the run; removing the completion tag drops the trailing zeros and the last one.\<close>

theorem bit_runs:
  assumes "slice_ok c"
  shows "CountLeading b c = length (takeWhile ((=) b) (sliceBits c)) \<and>
    CountTrailing b c = length (takeWhile ((=) b) (rev (sliceBits c))) \<and>
    sliceBits (snd (RemoveTrailing c)) = butlast (rev (dropWhile Not (rev (sliceBits c)))) \<and>
    sliceRefs (snd (RemoveTrailing c)) = sliceRefs c"
  using CountLeading_ok CountTrailing_ok RemoveTrailing_ok assms by simp

theorem bit_runs_witness: "sliceBits (snd (RemoveTrailing (demoSlice [0x5A] 1 8))) = [True, False, True, True, False]"
proof -
  have "slice_ok (demoSlice [0x5A] 1 8)"
    "butlast (rev (dropWhile Not (rev (sliceBits (demoSlice [0x5A] 1 8))))) = [True, False, True, True, False]" by code_simp+
  then show ?thesis using bit_runs [of "demoSlice [0x5A] 1 8"] by simp
qed

end
