(* ===== verification/Cell_Append.thy ===== *)
theory Cell_Append
  imports Cell_Codec
begin

section \<open>Bit ranges, runs and builders stored into builders\<close>

text \<open>
  The stores of \<^verbatim>\<open>builder.go\<close> that copy bits between arrays with different alignments
  (\<open>appendBitRange\<close>), append a run of equal bits or append another builder: which bits each appends.
  The copy is compared with a copy from the source shifted to a byte boundary, so the lemmas on
  whole bytes and words apply.
\<close>

subsection \<open>The shifted source\<close>

definition shiftedByte :: "byte list \<Rightarrow> nat \<Rightarrow> nat \<Rightarrow> byte" where
  "shiftedByte src s i =
     (if s \<noteq> 0 \<and> i + 1 < length src then push_bit s (src ! i) OR drop_bit (8 - s) (src ! (i + 1)) else push_bit s (src ! i))"

definition shiftedSrc :: "byte list \<Rightarrow> nat \<Rightarrow> nat \<Rightarrow> nat \<Rightarrow> byte list" where
  "shiftedSrc src sb s n = map (\<lambda>i. shiftedByte src s (sb + i)) [0..<n]"

lemma shiftedSrc_nth: "i < n \<Longrightarrow> shiftedSrc src sb s n ! i = shiftedByte src s (sb + i)"
  by (simp add: shiftedSrc_def)

lemma length_shiftedSrc [simp]: "length (shiftedSrc src sb s n) = n"
  by (simp add: shiftedSrc_def)

lemma bit_shifted:
  assumes "s < 8" "j < 8" "8 * i + s + j < 8 * length src"
  shows "bit (shiftedByte src s i) (7 - j) = bitAt src (8 * i + s + j)"
proof -
  consider "s = 0" | "0 < s" "i + 1 < length src" | "0 < s" "i + 1 = length src" "s + j < 8"
    using assms by fastforce
  then show ?thesis
  proof cases
    case 1 then show ?thesis using bitAt_byte [of j src i] assms(2) by (simp add: shiftedByte_def)
  next
    case 2 then show ?thesis using bit_shiftedByte [of s j src i] assms by (simp add: shiftedByte_def)
  next
    case 3
    then show ?thesis using assms bitAt_byte [of "s + j" src i]
      by (auto simp: shiftedByte_def bit_push_bit_iff add.assoc add.commute)
  qed
qed

lemma bitAt_shiftedSrc:
  assumes "s < 8" "k < 8 * n" "8 * sb + s + k < 8 * length src"
  shows "bitAt (shiftedSrc src sb s n) k = bitAt src (8 * sb + s + k)"
proof -
  obtain q r where k: "k = 8 * q + r" "r < 8" "k div 8 = q" "k mod 8 = r" by (rule div8E)
  have "q < n" using assms(2) k by linarith
  then have "bitAt (shiftedSrc src sb s n) k = bit (shiftedByte src s (sb + q)) (7 - r)"
    using k by (simp add: bitAt_def shiftedSrc_nth)
  also have "\<dots> = bitAt src (8 * (sb + q) + s + r)" using assms k by (intro bit_shifted) auto
  finally show ?thesis using k(1) by (simp add: algebra_simps)
qed

lemma shiftedWord:
  assumes "s < 8" "i + 8 \<le> n" "8 * (sb + i) + s + 64 \<le> 8 * length src"
  shows "(if s = 0 then beUint64 src (sb + i)
          else push_bit s (beUint64 src (sb + i)) OR ucast (drop_bit (8 - s) (src ! (sb + i + 8)))) =
    beUint64 (shiftedSrc src sb s n) i" (is "?w = _")
proof (rule bit_eqI)
  fix m assume "possible_bit TYPE(64 word) m"
  then have m: "m < 64" by simp
  have r: "bit (beUint64 (shiftedSrc src sb s n) i) m = bitAt src (8 * (sb + i) + s + (63 - m))"
    using bit_beUint64 [of i "shiftedSrc src sb s n" m] m assms
    by (simp add: bitAt_shiftedSrc algebra_simps)
  show "bit ?w m = bit (beUint64 (shiftedSrc src sb s n) i) m"
  proof (cases "s = 0")
    case True
    then show ?thesis using r bit_beUint64 [of "sb + i" src m] m assms by simp
  next
    case False
    have eq: "ucast (drop_bit (8 - s) x) = drop_bit (8 - s) (ucast x :: 64 word)" for x :: byte
      by (rule bit_eqI) (auto simp: bit_drop_bit_eq bit_ucast_iff dest: bit_imp_le_length)
    show ?thesis
      using r bit_shiftedWord [of s "sb + i" src "63 - m"] m False assms by (simp add: eq)
  qed
qed

subsection \<open>Bytes and words at byte boundaries\<close>

lemma putWordAligned:
  assumes "appended d B (8 * i) (bitAt src) d1" "B = 8 * q" "q + i + 8 \<le> 128" "i + 8 \<le> length src"
  shows "appended d B (8 * (i + 8)) (bitAt src) (putBytes d1 (q + i) (beBytes64 (beUint64 src i)))"
proof -
  have l: "length d1 = 128" by (rule appended_length [OF assms(1)])
  have "bitAt (putBytes d1 (q + i) (beBytes64 (beUint64 src i))) k =
      (if k < B then bitAt d k else k < B + 8 * (i + 8) \<and> bitAt src (k - B))" if k: "k < 1024" for k
    using bitAt_putUint64 [of "q + i" d1 k "beUint64 src i"] appendedD [OF assms(1) k] l assms(2,3) k
      bit_beUint64 [OF assms(4), of "63 - (k - 8 * (q + i))"] by auto
  then show ?thesis using l assms(3) by (simp add: appended_def putBytes_def beBytesN_def)
qed

lemma putByteAligned:
  assumes "appended d B (8 * i) (bitAt src) d1" "B = 8 * q" "q + i < 128"
  shows "appended d B (8 * (i + 1)) (bitAt src) (d1[q + i := src ! i])"
proof -
  have l: "length d1 = 128" by (rule appended_length [OF assms(1)])
  have "bitAt (d1[q + i := src ! i]) k = (if k < B then bitAt d k else k < B + 8 * (i + 1) \<and> bitAt src (k - B))"
    if k: "k < 1024" for k
  proof -
    obtain kq kr where ke: "k = 8 * kq + kr" "kr < 8" "k div 8 = kq" "k mod 8 = kr" by (rule div8E)
    show ?thesis
    proof (cases "kq = q + i")
      case True
      have "k - B = 8 * i + kr" using True ke assms(2) by simp
      then have "bitAt src (k - B) = bit (src ! i) (7 - kr)" using bitAt_byte [OF ke(2)] by simp
      then show ?thesis using True ke l assms(2,3) by (simp add: bitAt_update)
    next
      case False
      then have "bitAt (d1[q + i := src ! i]) k = bitAt d1 k" using ke l assms(3) by (simp add: bitAt_update)
      moreover have "k < B + 8 * i \<longleftrightarrow> k < B + 8 * (i + 1)" using False ke assms(2) by auto
      ultimately show ?thesis using appendedD [OF assms(1) k] by auto
    qed
  qed
  then show ?thesis using l by (simp add: appended_def)
qed

subsection \<open>\<open>appendBitRange\<close>\<close>

lemma appendWords_stop: "\<not> left \<ge> 64 \<Longrightarrow> appendWords s ds src a b left d = (a, b, left, d)"
  by (simp add: appendWords.simps)

lemma appendWords_spec:
  assumes "appended d B (8 * i) (bitAt (shiftedSrc src sb s n)) d1" "B = 8 * q + ds" "ds < 8" "s < 8"
    "sz \<le> 8 * n" "8 * sb + s + sz \<le> 8 * length src" "B + sz < 1024" "8 * i \<le> sz"
  shows "\<exists>j d2. appendWords s ds src (sb + i) (q + i) (sz - 8 * i) d1 = (sb + j, q + j, sz - 8 * j, d2) \<and>
    8 * j \<le> sz \<and> appended d B (8 * j) (bitAt (shiftedSrc src sb s n)) d2"
  using assms(1,8)
proof (induction "sz - 8 * i" arbitrary: i d1 rule: less_induct)
  case less
  let ?S = "shiftedSrc src sb s n"
  show ?case
  proof (cases "sz - 8 * i \<ge> 64")
    case True
    let ?v = "beUint64 ?S i"
    let ?d = "if ds = 0 then putBytes d1 (q + i) (beBytes64 ?v)
      else putBytes (d1[q + i := d1 ! (q + i) OR ucast (drop_bit (56 + ds) ?v)]) (q + i + 1) (beBytes64 (push_bit (8 - ds) ?v))"
    have v: "(if s = 0 then beUint64 src (sb + i)
        else push_bit s (beUint64 src (sb + i)) OR ucast (drop_bit (8 - s) (src ! (sb + i + 8)))) = ?v"
      using True assms by (intro shiftedWord) auto
    have i8: "i + 8 \<le> n" "q + i + 8 \<le> 128" "0 < ds \<Longrightarrow> q + i + 9 \<le> 128" using True assms(2,5,7) by auto
    have "appended d B (8 * (i + 8)) (bitAt ?S) ?d"
    proof (cases "ds = 0")
      case True then show ?thesis using putWordAligned [OF less.prems(1)] i8 assms(2) by simp
    next
      case False
      then show ?thesis using orWord [OF less.prems(1) assms(2), of "8 - ds"] i8 assms(3) by simp
    qed
    moreover have "sz - 8 * (i + 8) < sz - 8 * i" "8 * (i + 8) \<le> sz" using True by auto
    ultimately obtain j d2 where "appendWords s ds src (sb + (i + 8)) (q + (i + 8)) (sz - 8 * (i + 8)) ?d =
        (sb + j, q + j, sz - 8 * j, d2)" "8 * j \<le> sz" "appended d B (8 * j) (bitAt ?S) d2"
      using less.hyps [of "i + 8" ?d] by blast
    moreover have "appendWords s ds src (sb + i) (q + i) (sz - 8 * i) d1 =
        appendWords s ds src (sb + (i + 8)) (q + (i + 8)) (sz - 8 * (i + 8)) ?d"
      using True v by (subst appendWords.simps) (simp add: Let_def algebra_simps)
    ultimately show ?thesis by auto
  next
    case False
    then show ?thesis using appendWords_stop [OF False] less.prems by auto
  qed
qed

lemma appendTail_spec:
  assumes "appended d B (8 * i) (bitAt (shiftedSrc src sb s n)) d1" "B = 8 * q + ds" "ds < 8"
    "sz + 7 = 8 * n + sr" "sr < 8" "B + sz < 1024" "8 * i < sz"
  shows "\<exists>m. appended d B m (bitAt (shiftedSrc src sb s n)) (appendTail s ds src (sb + i) (q + i) (sz - 8 * i) d1) \<and>
    sz \<le> m \<and> B + m \<le> 8 * ((B + sz + 7) div 8)"
  using assms(1,7)
proof (induction "sz - 8 * i" arbitrary: i d1 rule: less_induct)
  case less
  let ?S = "shiftedSrc src sb s n" and ?v = "shiftedByte src s (sb + i)"
  let ?d1 = "d1[q + i := d1 ! (q + i) OR drop_bit ds ?v]"
  let ?d = "if ds = 0 then d1[q + i := ?v]
    else if sz - 8 * i > 8 - ds then ?d1[q + i + 1 := push_bit (8 - ds) ?v] else ?d1"
  have val: "(if s \<noteq> 0 \<and> sb + i + 1 < length src then push_bit s (src ! (sb + i)) OR drop_bit (8 - s) (src ! (sb + i + 1))
      else push_bit s (src ! (sb + i))) = ?v" by (simp only: shiftedByte_def)
  have v: "?S ! i = ?v" using less.prems(2) assms(4,5) by (intro shiftedSrc_nth) linarith
  have qi: "q + i < 128" using less.prems(2) assms(2,6) by linarith
  have eq: "appendTail s ds src (sb + i) (q + i) (sz - 8 * i) d1 =
      (if sz - 8 * i \<le> 8 then ?d else appendTail s ds src (sb + (i + 1)) (q + (i + 1)) (sz - 8 * (i + 1)) ?d)"
    using less.prems(2) unfolding appendTail.simps [of s ds src "sb + i" "q + i" "sz - 8 * i"] Let_def val
    by (simp add: add.commute [of 8])
  have full: "appended d B (8 * (i + 1)) (bitAt ?S) ?d" if "ds = 0 \<or> sz - 8 * i > 8 - ds"
  proof (cases "ds = 0")
    case True then show ?thesis using putByteAligned [OF less.prems(1), of q] assms(2) qi v by simp
  next
    case False
    then show ?thesis
      using orByte [OF less.prems(1) assms(2) _ assms(3) qi] that assms(2,3,6)
        nextByte [OF _ assms(2) _ assms(3), of d i ?S ?d1] v by auto
  qed
  show ?case
  proof (cases "sz - 8 * i \<le> 8")
    case True
    show ?thesis
    proof (cases "ds = 0 \<or> sz - 8 * i > 8 - ds")
      case c: True
      have "B + 8 * (i + 1) \<le> 8 * ((B + sz + 7) div 8)"
        using c less.prems(2) assms(2,3) True
        by (intro le_ceil8 [of _ "if ds = 0 then q + i + 1 else q + i + 2"]) auto
      then show ?thesis using full [OF c] True eq by (intro exI [of _ "8 * (i + 1)"]) auto
    next
      case c: False
      then have "appended d B (8 * i + (8 - ds)) (bitAt ?S) ?d"
        using orByte [OF less.prems(1) assms(2) _ assms(3) qi] v by auto
      moreover have "B + (8 * i + (8 - ds)) \<le> 8 * ((B + sz + 7) div 8)"
        using c less.prems(2) assms(2,3) by (intro le_ceil8 [of _ "q + i + 1"]) auto
      ultimately show ?thesis using c True eq by (intro exI [of _ "8 * i + (8 - ds)"]) auto
    qed
  next
    case False
    then show ?thesis using less.hyps [of "i + 1" ?d] full eq assms(3) by auto
  qed
qed

lemma appended_cong:
  "appended d B n f d' \<Longrightarrow> (\<And>k. k < n \<Longrightarrow> f k = g k) \<Longrightarrow> appended d B n g d'"
  by (auto simp: appended_def)

lemma appendBitRange_spec:
  assumes "appended d B 0 f d" "0 < sz" "B + sz < 1024" "off + sz \<le> 8 * length src"
  shows "appended d B sz (\<lambda>k. bitAt src (off + k)) (appendBitRange d B src off sz)"
proof -
  obtain q ds where B: "B = 8 * q + ds" "ds < 8" "B div 8 = q" "B mod 8 = ds" by (rule div8E)
  obtain sb s where o: "off = 8 * sb + s" "s < 8" "off div 8 = sb" "off mod 8 = s" by (rule div8E)
  obtain n sr where n: "sz + 7 = 8 * n + sr" "sr < 8" "(sz + 7) div 8 = n" by (rule div8E)
  let ?S = "shiftedSrc src sb s n"
  have start: "appended d B (8 * 0) (bitAt ?S) d" using assms(1) by (auto simp: appended_def)
  have szn: "sz \<le> 8 * n" using n by linarith
  have fin: "appended d B sz (\<lambda>k. bitAt src (off + k)) (clearTail (B + sz) d')"
    if "appended d B m (bitAt ?S) d'" "sz \<le> m" "B + m \<le> 8 * ((B + sz + 7) div 8)" for m d'
    by (rule appended_cong [OF appended_clearTail [OF that assms(3)]])
      (use bitAt_shiftedSrc [OF o(2), of _ n sb src] szn assms(4) o(1) in auto)
  show ?thesis
  proof (cases "s = 0 \<and> ds = 0")
    case True
    have qn: "q + n \<le> 128" using True B(1) n(1,2) assms(3) by linarith
    have ld: "length d = 128" by (rule appended_length [OF start])
    have sl: "length (take n (drop sb src)) = n" "take n (drop sb src) = ?S"
    proof -
      have "sb + n \<le> length src" using True n o(1) assms(4) by linarith
      then show "length (take n (drop sb src)) = n" "take n (drop sb src) = ?S"
        using True by (auto intro!: nth_equalityI simp: shiftedSrc_def shiftedByte_def)
    qed
    have "appended d B (8 * n) (bitAt ?S) (putBytes d q ?S)"
      unfolding appended_def
    proof (intro conjI allI impI)
      fix k :: nat assume k: "k < 1024"
      then show "bitAt (putBytes d q ?S) k = (if k < B then bitAt d k else k < B + 8 * n \<and> bitAt ?S (k - B))"
        using bitAt_putBytes [of q ?S d k] ld qn appendedD [OF start k] True B(1) by (auto split: if_splits)
    qed (use ld qn in \<open>simp add: putBytes_def\<close>)
    moreover have "B + 8 * n \<le> 8 * ((B + sz + 7) div 8)"
      using True B(1) n(1) by (intro le_ceil8 [of _ "q + n"]) simp_all
    ultimately show ?thesis using fin [of "8 * n"] szn True sl(2)
      by (simp add: appendBitRange_def Let_def B(3,4) o(3,4) n(3))
  next
    case False
    obtain j d2 where w: "appendWords s ds src (sb + 0) (q + 0) (sz - 8 * 0) d = (sb + j, q + j, sz - 8 * j, d2)"
        "8 * j \<le> sz" "appended d B (8 * j) (bitAt ?S) d2"
      using appendWords_spec [OF start B(1,2) o(2) szn _ assms(3)] assms(4) o(1) by auto
    have eq: "appendBitRange d B src off sz = clearTail (B + sz) (appendTail s ds src (sb + j) (q + j) (sz - 8 * j) d2)"
      using w(1) unfolding appendBitRange_def Let_def B(3,4) o(3,4) if_not_P [OF False] by simp
    show ?thesis
    proof (cases "8 * j < sz")
      case True
      then show ?thesis using appendTail_spec [OF w(3) B(1,2) n(1,2) assms(3)] fin eq by auto
    next
      case False
      then have "appendTail s ds src (sb + j) (q + j) (sz - 8 * j) d2 = d2" "sz = 8 * j"
        using w(2) by (simp_all add: appendTail.simps)
      moreover have "B + 8 * j \<le> 8 * ((B + sz + 7) div 8)"
        unfolding \<open>sz = 8 * j\<close> using B(1,2) by presburger
      ultimately show ?thesis using fin [OF w(3)] eq by simp
    qed
  qed
qed

lemma storeBitRange_ok:
  assumes "builder_ok b" "b_bitsSz b + sz < 1024" "off + sz \<le> 8 * length src"
  shows "\<exists>b'. storeBitRange src off sz b = (Inr (), b') \<and> builder_ok b' \<and> b_refs b' = b_refs b \<and>
    builderBits b' = builderBits b @ bitsOf src off (off + sz)"
proof (cases "sz = 0")
  case True then show ?thesis using assms(1) by (simp add: storeBitRange_def act_simps bitsOf_def)
next
  case False
  then have "appended (b_data b) (b_bitsSz b) sz (\<lambda>k. bitAt src (off + k)) (appendBitRange (b_data b) (b_bitsSz b) src off sz)"
    using assms builder_ok_appended0 [OF assms(1)] by (intro appendBitRange_spec) auto
  from appended_builder [OF assms(1,2) this] show ?thesis
    using False assms by (auto simp: storeBitRange_def act_simps bitsOf_def intro!: nth_equalityI)
qed

subsection \<open>Runs of equal bits\<close>

lemma setOrClear_run:
  assumes "appended d B m (\<lambda>_. bt) d1" "B + m = 8 * q + r" "r + t \<le> 8" "q < 128"
    and mk: "\<And>j. j < 8 \<Longrightarrow> bit mk (7 - j) \<longleftrightarrow> r \<le> j \<and> j < r + t"
  shows "appended d B (m + t) (\<lambda>_. bt) (setOrClear bt q mk d1)"
proof -
  have l: "length d1 = 128" by (rule appended_length [OF assms(1)])
  have "bitAt (setOrClear bt q mk d1) k = (if k < B then bitAt d k else k < B + (m + t) \<and> bt)" if k: "k < 1024" for k
  proof -
    obtain kq kr where ke: "k = 8 * kq + kr" "kr < 8" "k div 8 = kq" "k mod 8 = kr" by (rule div8E)
    show ?thesis
    proof (cases "kq = q")
      case True
      have "bitAt (setOrClear bt q mk d1) k = (if r \<le> kr \<and> kr < r + t then bt else bitAt d1 k)"
        using True ke l assms(4) mk [OF ke(2)]
        by (auto simp: setOrClear_def bitAt_update bit_or_iff bit_and_iff bit_not_iff) (auto simp: bitAt_def)
      moreover have "r \<le> kr \<longleftrightarrow> B + m \<le> k" "kr < r + t \<longleftrightarrow> k < B + (m + t)"
        using True ke(1) assms(2) by auto
      ultimately show ?thesis using appendedD [OF assms(1) k] by auto
    next
      case False
      then have "bitAt (setOrClear bt q mk d1) k = bitAt d1 k"
        using ke l assms(4) by (simp add: setOrClear_def bitAt_update)
      moreover have "k < B + m \<longleftrightarrow> k < B + (m + t)"
        using False ke(1,2) assms(2,3) by (cases kq q rule: linorder_cases) auto
      ultimately show ?thesis using appendedD [OF assms(1) k] by auto
    qed
  qed
  then show ?thesis using l by (simp add: appended_def setOrClear_def)
qed

lemma putRun:
  assumes "appended d B m (\<lambda>_. bt) d1" "B + m = 8 * q" "q + n \<le> 128"
  shows "appended d B (m + 8 * n) (\<lambda>_. bt) (putBytes d1 q (replicate n (if bt then 0xFF else 0)))"
proof -
  have l: "length d1 = 128" by (rule appended_length [OF assms(1)])
  have all1: "bit (0xFF :: byte) j \<longleftrightarrow> j < 8" for j
  proof -
    have "(0xFF :: byte) = - 1" by simp
    then show ?thesis by (simp only: bit_minus_1_iff) (simp add: possible_bit_word)
  qed
  have rep: "i < 8 * n \<Longrightarrow> bitAt (replicate n (if bt then 0xFF else 0 :: byte)) i = bt" for i
    using all1 [of "7 - i mod 8"] by (auto simp: bitAt_def less_mult_imp_div_less mult.commute)
  have "bitAt (putBytes d1 q (replicate n (if bt then 0xFF else 0))) k =
      (if k < B then bitAt d k else k < B + (m + 8 * n) \<and> bt)" if k: "k < 1024" for k
    using bitAt_putBytes [of q "replicate n (if bt then 0xFF else 0)" d1 k] rep [of "k - 8 * q"]
      appendedD [OF assms(1) k] l assms(2,3) k by (auto split: if_splits)
  then show ?thesis using l assms(3) by (simp add: appended_def putBytes_def)
qed

lemma bit_runMask:
  assumes "n \<le> 8 - r" "r < 8" "j < 8"
  shows "bit (push_bit (8 - r - n) (push_bit n 1 - 1) :: byte) (7 - j) \<longleftrightarrow> r \<le> j \<and> j < r + n"
proof -
  have "(push_bit n 1 - 1 :: byte) = mask n" by (simp add: mask_eq_exp_minus_1 push_bit_eq_mult)
  then show ?thesis using assms by (auto simp: bit_push_bit_iff bit_mask_iff)
qed

lemma sameBitData_spec:
  assumes "appended d B 0 f d" "0 < n" "B + n < 1024"
  shows "appended d B n (\<lambda>_. bt) (sameBitData bt n B d)"
proof -
  obtain q r where B: "B = 8 * q + r" "r < 8" "B div 8 = q" "B mod 8 = r" by (rule div8E)
  define m where "m = (if r \<noteq> 0 then min n (8 - r) else 0)"
  define d1 where "d1 = (if r \<noteq> 0 then setOrClear bt q (push_bit (8 - r - m) (push_bit m 1 - 1)) d else d)"
  define q1 where "q1 = (if r \<noteq> 0 then q + 1 else q)"
  define full where "full = (n - m) div 8"
  define t where "t = (n - m) mod 8"
  define d2 where "d2 = putBytes d1 q1 (replicate full (if bt then 0xFF else 0))"
  define d3 where "d3 = (if t \<noteq> 0 then setOrClear bt (q1 + full) (maskTail t) d2 else d2)"
  have start: "appended d B 0 (\<lambda>_. bt) d" using assms(1) by (auto simp: appended_def)
  have q: "q < 128" using B(1) assms(3) by linarith
  have s1: "appended d B m (\<lambda>_. bt) d1"
    using setOrClear_run [OF start, of q r m "push_bit (8 - r - m) (push_bit m 1 - 1)"] start B q
      bit_runMask [of m r] by (auto simp: d1_def m_def)
  have parts: "n - m = 8 * full + t" "t < 8" unfolding full_def t_def by simp_all
  have le: "m \<le> n" by (simp add: m_def)
  have s3: "appended d B n (\<lambda>_. bt) d3"
  proof (cases "r \<noteq> 0 \<and> n < 8 - r")
    case True
    then have "m = n" "full = 0" "t = 0" by (simp_all add: m_def full_def t_def)
    then show ?thesis using s1 by (simp add: d3_def d2_def putBytes_def)
  next
    case False
    then have al: "B + m = 8 * q1" using B(1,2) by (auto simp: m_def q1_def min_def)
    have lim: "q1 + full \<le> 128" "t \<noteq> 0 \<Longrightarrow> q1 + full < 128" using al parts le assms(3) by linarith+
    have s2: "appended d B (m + 8 * full) (\<lambda>_. bt) d2" unfolding d2_def by (rule putRun [OF s1 al lim(1)])
    show ?thesis
    proof (cases "t = 0")
      case True
      have "n = m + 8 * full" using True parts le by linarith
      then show ?thesis using s2 True by (simp add: d3_def)
    next
      case False
      have "appended d B (m + 8 * full + t) (\<lambda>_. bt) (setOrClear bt (q1 + full) (maskTail t) d2)"
        by (rule setOrClear_run [OF s2, of _ 0]) (use al lim False parts in \<open>auto simp: bit_maskTail\<close>)
      moreover have "n = m + 8 * full + t" using parts le by linarith
      ultimately show ?thesis using False by (simp add: d3_def)
    qed
  qed
  have "sameBitData bt n B d = clearTail (B + n) d3"
    unfolding sameBitData_def Let_def B(3,4) m_def [symmetric]
    unfolding d1_def [symmetric] q1_def [symmetric] full_def [symmetric] t_def [symmetric]
    unfolding d2_def [symmetric] d3_def [symmetric] by (rule refl)
  then show ?thesis using appended_clearTail [OF s3 order_refl _ assms(3)] by simp
qed

lemma StoreSameBit_ok:
  assumes "builder_ok b" "b_bitsSz b + n < 1024"
  shows "\<exists>b'. StoreSameBit bt n b = (Inr (), b') \<and> builder_ok b' \<and> b_refs b' = b_refs b \<and>
    builderBits b' = builderBits b @ replicate n bt"
proof -
  have ext: "CanExtendBy b n 0" using assms by (auto simp: CanExtendBy_def builder_ok_def)
  show ?thesis
  proof (cases "n = 0")
    case True then show ?thesis using assms(1) ext by (simp add: StoreSameBit_def act_simps)
  next
    case False
    then have "appended (b_data b) (b_bitsSz b) n (\<lambda>_. bt) (sameBitData bt n (b_bitsSz b) (b_data b))"
      using sameBitData_spec [OF builder_ok_appended0 [OF assms(1)]] assms(2) by simp
    from appended_builder [OF assms this] show ?thesis
      using False ext by (simp add: StoreSameBit_def act_simps map_replicate_const)
  qed
qed

end
