(* ===== verification/Cell_Emit.thy ===== *)
theory Cell_Emit
  imports Cell_Append Cell_Slice_Ops
begin

section \<open>Encoders and decoders that compose\<close>

text \<open>
  Sequences of stores and loads.  \<open>emits m bs rs\<close>: with room in the builder, \<open>m\<close> appends the bits
  \<open>bs\<close> and the references \<open>rs\<close>.  \<open>reads m bs rs x\<close>: at the front of a slice, \<open>m\<close> consumes them and
  returns \<open>x\<close>.  The rules follow the structure of the code, one for each store and load and one for
  sequencing; \<open>emit_intros\<close> and \<open>read_intros\<close> collect them.
\<close>

named_theorems emit_intros \<open>what encoders append\<close>
named_theorems read_intros \<open>what decoders consume\<close>

definition emits :: "unit bld \<Rightarrow> bool list \<Rightarrow> cell list \<Rightarrow> bool" where
  "emits m bs rs \<longleftrightarrow> (\<forall>b. builder_ok b \<longrightarrow> b_bitsSz b + length bs < 1024 \<longrightarrow> length (b_refs b) + length rs \<le> 4 \<longrightarrow>
     (\<exists>b'. m b = (Inr (), b') \<and> builder_ok b' \<and> builderBits b' = builderBits b @ bs \<and> b_refs b' = b_refs b @ rs))"

lemma emitsD:
  assumes "emits m bs rs" "builder_ok b" "b_bitsSz b + length bs < 1024" "length (b_refs b) + length rs \<le> 4"
  obtains b' where "m b = (Inr (), b')" "builder_ok b'" "builderBits b' = builderBits b @ bs"
    "b_refs b' = b_refs b @ rs" "b_bitsSz b' = b_bitsSz b + length bs"
proof -
  obtain b' where "m b = (Inr (), b')" "builder_ok b'" "builderBits b' = builderBits b @ bs" "b_refs b' = b_refs b @ rs"
    using assms unfolding emits_def by blast
  moreover from this(3) have "b_bitsSz b' = b_bitsSz b + length bs" by (metis length_append length_builderBits)
  ultimately show thesis using that by blast
qed

lemma emits_fresh:
  assumes "emits m bs rs" "length bs < 1024" "length rs \<le> 4"
  obtains b where "m BeginCell = (Inr (), b)" "builder_ok b" "builderBits b = bs" "b_refs b = rs"
  by (rule emitsD [OF assms(1), of BeginCell]) (use assms that in auto)

lemma emitsI_bits:
  assumes "\<And>b. builder_ok b \<Longrightarrow> b_bitsSz b + length bs < 1024 \<Longrightarrow> \<exists>b'. m b = (Inr (), b') \<and> builder_ok b' \<and>
    b_refs b' = b_refs b \<and> builderBits b' = builderBits b @ bs"
  shows "emits m bs []"
  unfolding emits_def
proof (intro allI impI)
  fix b assume "builder_ok b" "b_bitsSz b + length bs < 1024"
  from assms [OF this] show "\<exists>b'. m b = (Inr (), b') \<and> builder_ok b' \<and> builderBits b' = builderBits b @ bs \<and> b_refs b' = b_refs b @ []"
    by auto
qed

lemma emits_ret [emit_intros]: "emits (ret ()) [] []"
  by (simp add: emits_def)

lemma emits_seq [emit_intros]:
  assumes "emits m bs rs" "emits n cs qs" shows "emits (seq m n) (bs @ cs) (rs @ qs)"
  unfolding emits_def
proof (intro allI impI)
  fix b assume b: "builder_ok b" "b_bitsSz b + length (bs @ cs) < 1024" "length (b_refs b) + length (rs @ qs) \<le> 4"
  obtain b1 where b1: "m b = (Inr (), b1)" "builder_ok b1" "builderBits b1 = builderBits b @ bs"
      "b_refs b1 = b_refs b @ rs" "b_bitsSz b1 = b_bitsSz b + length bs"
    by (rule emitsD [OF assms(1) b(1)]) (use b in auto)
  obtain b2 where b2: "n b1 = (Inr (), b2)" "builder_ok b2" "builderBits b2 = builderBits b1 @ cs"
      "b_refs b2 = b_refs b1 @ qs"
    by (rule emitsD [OF assms(2) b1(2)]) (use b b1 in auto)
  show "\<exists>b'. seq m n b = (Inr (), b') \<and> builder_ok b' \<and> builderBits b' = builderBits b @ bs @ cs \<and>
      b_refs b' = b_refs b @ rs @ qs"
    using b1 b2 by (simp add: seq_apply)
qed

lemma emits_if [emit_intros]:
  "(c \<Longrightarrow> emits m bs rs) \<Longrightarrow> (\<not> c \<Longrightarrow> emits n cs qs) \<Longrightarrow>
     emits (if c then m else n) (if c then bs else cs) (if c then rs else qs)"
  by simp

lemma emits_StoreUInt [emit_intros]:
  "sz \<le> 64 \<Longrightarrow> uint v < 2 ^ sz \<Longrightarrow> emits (StoreUInt v sz) (bitsInt sz (uint v)) []"
  by (rule emitsI_bits, rule StoreUInt_bits) simp_all

lemma emits_StoreBoolBit [emit_intros]: "emits (StoreBoolBit v) [v] []"
  by (rule emitsI_bits, rule StoreBoolBit_ok) simp_all

lemma emits_StoreBigInt [emit_intros]: "sz \<le> 257 \<Longrightarrow> fitsSigned sz v \<Longrightarrow> emits (StoreBigInt v sz) (bitsInt sz v) []"
  by (rule emitsI_bits, rule bigint_codec.store_enc) simp_all

lemma emits_StoreSlice [emit_intros]: "sz \<le> 8 * length d \<Longrightarrow> emits (StoreSlice d sz) (bitsOf d 0 sz) []"
  by (rule emitsI_bits, rule StoreSlice_ok) simp_all

lemma emits_StoreSameBit [emit_intros]: "emits (StoreSameBit v n) (replicate n v) []"
  by (rule emitsI_bits, rule StoreSameBit_ok) simp_all

lemma emits_storeBitRange [emit_intros]:
  "off + sz \<le> 8 * length src \<Longrightarrow> emits (storeBitRange src off sz) (bitsOf src off (off + sz)) []"
  by (rule emitsI_bits, rule storeBitRange_ok) simp_all

lemma builder_ok_refs: "builder_ok b \<Longrightarrow> length rs \<le> 4 \<Longrightarrow> builder_ok (b\<lparr>b_refs := rs\<rparr>)"
  by (simp add: builder_ok_def)

lemma builderBits_refs [simp]: "builderBits (b\<lparr>b_refs := rs\<rparr>) = builderBits b"
  by (simp add: builderBits_def)

lemma emits_storeRef [emit_intros]: "(chk \<Longrightarrow> Depth r < maxDepth) \<Longrightarrow> emits (storeRef (Some r) chk) [] [r]"
  by (auto simp: emits_def storeRef_def act_simps not_le intro!: builder_ok_refs)

lemma emits_StoreRef [emit_intros]: "Depth r < maxDepth \<Longrightarrow> emits (StoreRef (Some r)) [] [r]"
  and emits_StoreRefUncheckedDepth [emit_intros]: "emits (StoreRefUncheckedDepth (Some r)) [] [r]"
  unfolding StoreRef_def StoreRefUncheckedDepth_def by (rule emits_storeRef; simp)+

lemma bitsOf_dataSlice: "builder_ok b \<Longrightarrow> bitsOf (dataSlice b) 0 (b_bitsSz b) = builderBits b"
  unfolding builderBits_def bitsOf_def dataSlice_def usedBytes_def
  by (intro map_cong refl) (auto simp: bitAt_def builder_ok_def)

lemma emits_storeBuilder [emit_intros]:
  assumes "builder_ok x" "chk \<Longrightarrow> \<forall>r\<in>set (b_refs x). Depth r < maxDepth"
  shows "emits (storeBuilder x chk) (builderBits x) (b_refs x)"
  unfolding emits_def
proof (intro allI impI)
  fix b assume b: "builder_ok b" "b_bitsSz b + length (builderBits x) < 1024" "length (b_refs b) + length (b_refs x) \<le> 4"
  have "\<forall>r\<in>set rs. Depth r < maxDepth \<Longrightarrow> validateCellRefDepthLimit rs = Inr ()" for rs by (induction rs) auto
  then have v: "(if chk then lift_sum (validateCellRefDepthLimit (b_refs x)) else ret ()) b = (Inr (), b)"
    using assms(2) by simp
  let ?b = "b\<lparr>b_refs := b_refs b @ b_refs x\<rparr>"
  have len: "b_bitsSz x \<le> 8 * length (dataSlice x)"
    using assms(1) by (auto simp: dataSlice_def usedBytes_def builder_ok_def)
  have "b_bitsSz ?b + b_bitsSz x < 1024" using b(2) by simp
  from StoreSlice_ok [OF builder_ok_refs [OF b(1)] this len] b(3)
  obtain b' where "StoreSlice (dataSlice x) (b_bitsSz x) ?b = (Inr (), b')" "builder_ok b'"
      "b_refs b' = b_refs b @ b_refs x" "builderBits b' = builderBits b @ builderBits x"
    using bitsOf_dataSlice [OF assms(1)] by auto
  then show "\<exists>b'. storeBuilder x chk b = (Inr (), b') \<and> builder_ok b' \<and> builderBits b' = builderBits b @ builderBits x \<and>
      b_refs b' = b_refs b @ b_refs x"
    using b v by (simp add: storeBuilder_def bnd_apply seq_apply)
qed

subsection \<open>Slices into builders\<close>

lemma slice_len: "slice_ok c \<Longrightarrow> sl_bitStart c + BitsLeft c = sl_bitEnd c"
  by (simp add: slice_ok_def BitsLeft_def)

lemma length_sliceRefs: "slice_ok c \<Longrightarrow> length (sliceRefs c) = RefsNum c"
  by (auto simp: slice_ok_def sliceRefs_def RefsNum_def)

lemma ToBuilder_ok:
  assumes "slice_ok c" "RefsNum c \<le> 4"
  shows "builder_ok (ToBuilder c)" "builderBits (ToBuilder c) = sliceBits c" "b_refs (ToBuilder c) = sliceRefs c"
proof -
  have lt: "BitsLeft c < 1024" using assms(1) by (auto simp: slice_ok_def BitsLeft_def)
  obtain d where d: "loadSliceInto 128 (BitsLeft c) True c = (Inr d, c)" "length d = (BitsLeft c + 7) div 8"
    "bitsOf d 0 (BitsLeft c) = sliceBits c" "\<And>k. BitsLeft c \<le> k \<Longrightarrow> k < 8 * length d \<Longrightarrow> \<not> bitAt d k"
    by (rule loadSliceInto_ok [OF assms(1) order_refl, of 128 True]) (use lt in auto)
  have ld: "length d \<le> 128" using d(2) lt by simp
  have at: "bitAt (putBytes (replicate 128 0) 0 d) k \<longleftrightarrow> k < 8 * length d \<and> bitAt d k" if "k < 1024" for k
  proof -
    have "\<not> bitAt (replicate 128 0) k" using that by (simp add: bitAt_def)
    then show ?thesis using bitAt_putBytes [of 0 d "replicate 128 0" k] that ld by auto
  qed
  have data: "b_data (ToBuilder c) = putBytes (replicate 128 0) 0 d" "b_bitsSz (ToBuilder c) = BitsLeft c"
    using d(1) by (simp_all add: ToBuilder_def)
  show refs: "b_refs (ToBuilder c) = sliceRefs c" by (simp add: ToBuilder_def sliceRefs_def)
  show "builder_ok (ToBuilder c)"
    unfolding builder_ok_def data refs using lt ld d(4) assms length_sliceRefs [OF assms(1)]
    by (auto simp: at)
  have "BitsLeft c \<le> 8 * length d" using d(2) by simp
  then show "builderBits (ToBuilder c) = sliceBits c"
    unfolding builderBits_def data d(3) [symmetric] bitsOf_def using lt by (intro map_cong) (auto simp: at)
qed

lemma storeSliceFromSlice_ok:
  assumes "slice_ok s" "sz \<le> BitsLeft s" "builder_ok b" "b_bitsSz b + sz < 1024"
  obtains b' where "storeSliceFromSlice sz (b, s) = (Inr (), (b', s\<lparr>sl_bitStart := sl_bitStart s + sz\<rparr>))" "builder_ok b'"
    "b_refs b' = b_refs b" "builderBits b' = builderBits b @ take sz (sliceBits s)" "b_bitsSz b' = b_bitsSz b + sz"
proof -
  have "sl_bitStart s + sz \<le> 8 * length (cell_data (sl_cell s))"
    using assms(1,2) by (auto simp: slice_ok_def BitsLeft_def)
  from storeBitRange_ok [OF assms(3,4) this] obtain b' where b': "storeBitRange (cell_data (sl_cell s)) (sl_bitStart s) sz b = (Inr (), b')"
      "builder_ok b'" "b_refs b' = b_refs b"
      "builderBits b' = builderBits b @ bitsOf (cell_data (sl_cell s)) (sl_bitStart s) (sl_bitStart s + sz)" by blast
  have "bitsOf (cell_data (sl_cell s)) (sl_bitStart s) (sl_bitStart s + sz) = take sz (sliceBits s)"
    using assms(1,2) by (auto simp: bitsOf_def sliceBits_def take_map BitsLeft_def slice_ok_def take_upt)
  moreover have "b_bitsSz b' = b_bitsSz b + sz" using b'(4) by (metis length_append length_builderBits length_bitsOf add_diff_cancel_left')
  ultimately show thesis using b' assms(2) by (intro that [of b']) (simp_all add: storeSliceFromSlice_def)
qed

subsection \<open>The cell of a bit sequence\<close>

text \<open>A builder within its invariant is determined by its bits and references, and so is its cell.\<close>

definition packByte :: "bool list \<Rightarrow> byte" where
  "packByte bs = word_of_nat (uintOf (take 8 (bs @ replicate 8 False)))"

definition packBits :: "bool list \<Rightarrow> byte list" where
  "packBits bs = map (\<lambda>i. packByte (drop (8 * i) bs)) [0..<(length bs + 7) div 8]"

definition bitsCell :: "bool list \<Rightarrow> cell list \<Rightarrow> cell" where
  "bitsCell bs rs = Cell (packBits bs) (length bs) False 0 rs"

lemma bit_packByte: "j < 8 \<Longrightarrow> bit (packByte bs) (7 - j) \<longleftrightarrow> j < length bs \<and> bs ! j"
proof -
  assume "j < 8"
  moreover have "length (take 8 (bs @ replicate 8 False)) = 8" by simp
  then have "bit (packByte bs) (7 - j) \<longleftrightarrow> 7 - j < 8 \<and> take 8 (bs @ replicate 8 False) ! (8 - 1 - (7 - j))"
    unfolding packByte_def by (simp only: bit_of_nat_iff bit_uintOf) simp
  ultimately show ?thesis by (auto simp: nth_append)
qed

lemma bitAt_packBits: "k < 8 * ((length bs + 7) div 8) \<Longrightarrow> bitAt (packBits bs) k \<longleftrightarrow> k < length bs \<and> bs ! k"
proof -
  assume lt: "k < 8 * ((length bs + 7) div 8)"
  obtain q r where k: "k = 8 * q + r" "r < 8" "k div 8 = q" "k mod 8 = r" by (rule div8E)
  have q: "q < (length bs + 7) div 8" using lt k(1) by linarith
  then have "bitAt (packBits bs) k \<longleftrightarrow> r < length bs - 8 * q \<and> drop (8 * q) bs ! r"
    using bit_packByte [OF k(2), of "drop (8 * q) bs"] k by (simp add: bitAt_def packBits_def)
  then show ?thesis using k(1) by (auto simp: algebra_simps)
qed

lemma length_packBits [simp]: "length (packBits bs) = (length bs + 7) div 8"
  by (simp add: packBits_def)

lemma bitsOf_packBits: "bitsOf (packBits bs) 0 (length bs) = bs"
  by (rule nth_equalityI) (auto simp: bitsOf_def bitAt_packBits)

lemma builtCell_bits:
  assumes "builder_ok b" shows "builtCell b = bitsCell (builderBits b) (b_refs b)"
proof -
  have ok: "length (b_data b) = 128" "b_bitsSz b < 1024" "\<And>k. b_bitsSz b \<le> k \<Longrightarrow> k < 1024 \<Longrightarrow> \<not> bitAt (b_data b) k"
    using assms by (auto simp: builder_ok_def)
  have "take (usedBytes b) (b_data b) = packBits (builderBits b)"
  proof (rule bitsOf_bytes_eq)
    show len: "length (take (usedBytes b) (b_data b)) = length (packBits (builderBits b))"
      using ok by (simp add: usedBytes_def)
    have u: "length (take (usedBytes b) (b_data b)) = (b_bitsSz b + 7) div 8" using ok by (simp add: usedBytes_def)
    show "bitsOf (take (usedBytes b) (b_data b)) 0 (8 * length (take (usedBytes b) (b_data b))) =
        bitsOf (packBits (builderBits b)) 0 (8 * length (take (usedBytes b) (b_data b)))"
      unfolding u bitsOf_def
    proof (intro map_cong refl)
      fix k assume "k \<in> set [0..<8 * ((b_bitsSz b + 7) div 8)]"
      then have k: "k < 8 * ((b_bitsSz b + 7) div 8)" by simp
      then have "bitAt (take (usedBytes b) (b_data b)) k = bitAt (b_data b) k"
        using ok by (simp add: bitAt_def usedBytes_def less_mult_imp_div_less mult.commute)
      moreover have "(b_bitsSz b + 7) div 8 < 129" using ok(2) by (simp add: less_mult_imp_div_less)
      then have "k < 1024" using k by linarith
      ultimately show "bitAt (take (usedBytes b) (b_data b)) k = bitAt (packBits (builderBits b)) k"
        using k ok(3) [of k] by (cases "k < b_bitsSz b") (auto simp: bitAt_packBits builderBits_def)
    qed
  qed
  then show ?thesis by (simp add: builtCell_def bitsCell_def)
qed

lemma bitsCell_slice:
  assumes "length bs < 1024"
  shows "slice_ok (newSliceFromCell (bitsCell bs rs))" "sliceBits (newSliceFromCell (bitsCell bs rs)) = bs"
    "sliceRefs (newSliceFromCell (bitsCell bs rs)) = rs"
  using assms bitsOf_packBits [of bs]
  by (simp_all add: slice_ok_def sliceBits_def sliceRefs_def RefsNum_def bitsCell_def)

lemma bitsCell_sel [simp]: "cell_refs (bitsCell bs rs) = rs" "cell_bitsSz (bitsCell bs rs) = length bs"
  "\<not> cell_special (bitsCell bs rs)" "cell_levelMask (bitsCell bs rs) = 0"
  by (simp_all add: bitsCell_def)

subsection \<open>Decoders\<close>

definition consumed :: "nat \<Rightarrow> nat \<Rightarrow> slice \<Rightarrow> slice" where
  "consumed n k c = c\<lparr>sl_bitStart := sl_bitStart c + n, sl_refStart := sl_refStart c + k\<rparr>"

lemma consumed_0 [simp]: "consumed 0 0 c = c"
  by (simp add: consumed_def)

lemma consumed_consumed [simp]: "consumed n k (consumed m j c) = consumed (m + n) (j + k) c"
  by (simp add: consumed_def add.assoc)

lemma skipped_consumed: "skipped n c = consumed n 0 c"
  by (simp add: skipped_def consumed_def)

lemma consumed_ok:
  assumes "slice_ok c" "sliceBits c = bs @ rest" "sliceRefs c = rs @ rrest"
  shows "slice_ok (consumed (length bs) (length rs) c)" "sliceBits (consumed (length bs) (length rs) c) = rest"
    "sliceRefs (consumed (length bs) (length rs) c) = rrest"
    "BitsLeft (consumed (length bs) (length rs) c) = length rest" "RefsNum (consumed (length bs) (length rs) c) = length rrest"
proof -
  have n: "length bs \<le> BitsLeft c" "length rs \<le> RefsNum c"
    using arg_cong [OF assms(2), of length] arg_cong [OF assms(3), of length] length_sliceRefs [OF assms(1)] by simp_all
  show ok: "slice_ok (consumed (length bs) (length rs) c)"
    using assms(1) n by (auto simp: slice_ok_def consumed_def BitsLeft_def RefsNum_def)
  have "sliceBits (consumed (length bs) (length rs) c) = drop (length bs) (sliceBits c)"
    using n assms(1) by (simp add: consumed_def sliceBits_def drop_bitsOf slice_ok_def BitsLeft_def)
  then show b: "sliceBits (consumed (length bs) (length rs) c) = rest" using assms(2) by simp
  have "sliceRefs (consumed (length bs) (length rs) c) = drop (length rs) (sliceRefs c)"
    by (simp add: consumed_def sliceRefs_def RefsNum_def drop_take add.commute)
  then show r: "sliceRefs (consumed (length bs) (length rs) c) = rrest" using assms(3) by simp
  show "BitsLeft (consumed (length bs) (length rs) c) = length rest" "RefsNum (consumed (length bs) (length rs) c) = length rrest"
    using arg_cong [OF b, of length] arg_cong [OF r, of length] length_sliceRefs [OF ok] by simp_all
qed

definition reads :: "'a sl \<Rightarrow> bool list \<Rightarrow> cell list \<Rightarrow> 'a \<Rightarrow> bool" where
  "reads m bs rs x \<longleftrightarrow> (\<forall>c rest rrest. slice_ok c \<longrightarrow> sliceBits c = bs @ rest \<longrightarrow> sliceRefs c = rs @ rrest \<longrightarrow>
     m c = (Inr x, consumed (length bs) (length rs) c))"

lemma readsD:
  "reads m bs rs x \<Longrightarrow> slice_ok c \<Longrightarrow> sliceBits c = bs @ rest \<Longrightarrow> sliceRefs c = rs @ rrest \<Longrightarrow>
     m c = (Inr x, consumed (length bs) (length rs) c)"
  by (simp add: reads_def)

lemma readsI_bits:
  assumes "\<And>c rest. slice_ok c \<Longrightarrow> sliceBits c = bs @ rest \<Longrightarrow> m c = (Inr x, skipped (length bs) c)"
  shows "reads m bs [] x"
  using assms by (simp add: reads_def skipped_consumed)

lemma reads_ret [read_intros]: "reads (ret x) [] [] x"
  by (simp add: reads_def)

lemma reads_bnd [read_intros]:
  assumes "reads m bs rs x" "reads (k x) cs qs y" shows "reads (bnd m k) (bs @ cs) (rs @ qs) y"
  unfolding reads_def
proof (intro allI impI)
  fix c rest rrest assume c: "slice_ok c" "sliceBits c = (bs @ cs) @ rest" "sliceRefs c = (rs @ qs) @ rrest"
  then have b: "sliceBits c = bs @ (cs @ rest)" "sliceRefs c = rs @ (qs @ rrest)" by simp_all
  note d = consumed_ok [OF c(1) b]
  show "bnd m k c = (Inr y, consumed (length (bs @ cs)) (length (rs @ qs)) c)"
    using readsD [OF assms(1) c(1) b] readsD [OF assms(2) d(1,2,3)] by (simp add: bnd_apply)
qed

lemma reads_seq [read_intros]:
  "reads m bs rs x \<Longrightarrow> reads n cs qs y \<Longrightarrow> reads (seq m n) (bs @ cs) (rs @ qs) y"
  unfolding seq_def by (rule reads_bnd)

lemma reads_LoadUInt [read_intros]: "sz \<le> 64 \<Longrightarrow> uint v < 2 ^ sz \<Longrightarrow> reads (LoadUInt sz) (bitsInt sz (uint v)) [] v"
  by (rule readsI_bits, rule uint_codec.load_enc) auto

lemma reads_LoadBigInt [read_intros]: "sz \<le> 257 \<Longrightarrow> fitsSigned sz v \<Longrightarrow> reads (LoadBigInt sz) (bitsInt sz v) [] v"
  by (rule readsI_bits, rule bigint_codec.load_enc) auto

lemma reads_LoadBoolBit [read_intros]: "reads LoadBoolBit [v] [] v"
  by (rule readsI_bits, rule bool_codec.load_enc) auto

lemma reads_SkipBits [read_intros]: "reads (SkipBits (length bs)) bs [] ()"
  by (rule readsI_bits) (auto simp: SkipBits_def act_simps advance_def skipped_def dest!: front_le)

lemma sliceRefs_nth: "slice_ok c \<Longrightarrow> i < RefsNum c \<Longrightarrow> sliceRefs c ! i = cell_refs (sl_cell c) ! (sl_refStart c + i)"
  by (simp add: sliceRefs_def slice_ok_def RefsNum_def)

lemma refAndTraceAt_ok:
  "slice_ok c \<Longrightarrow> i < length (sliceRefs c) \<Longrightarrow> refAndTraceAt i c = (Inr (sliceRefs c ! i), c)"
  by (simp add: refAndTraceAt_def act_simps sliceRefs_nth length_sliceRefs)

lemma reads_LoadRefCell [read_intros]: "reads LoadRefCell [] [r] r"
  unfolding reads_def
proof (intro allI impI)
  fix c rest rrest assume c: "slice_ok c" "sliceBits c = [] @ rest" "sliceRefs c = [r] @ rrest"
  show "LoadRefCell c = (Inr r, consumed (length []) (length [r]) c)"
    using refAndTraceAt_ok [OF c(1), of 0] c(3)
    by (simp add: LoadRefCell_def loadRefCell_def act_simps advanceRef_def consumed_def)
qed

end
