(* ===== verification/Dict_Label.thy ===== *)
theory Dict_Label
  imports Cell_Emit
begin

section \<open>Dictionary labels\<close>

text \<open>
  \<^verbatim>\<open>dict_label.go\<close> and the label view of \<^verbatim>\<open>dict_core.go\<close>: the edge labels of dictionary nodes.  A label of \<open>l\<close> bits with at
  most \<open>n\<close> key bits left has up to three encodings; the writer takes the shortest, the readers accept
  all of them.  The reading and comparing loops work on chunks of up to 64 bits.
\<close>

definition ErrLabelExceedsKeyBits :: go_error where
  "ErrLabelExceedsKeyBits = OtherError ''label exceeds remaining key bits''"

definition Len64 :: "64 word \<Rightarrow> nat" where
  "Len64 x = bitLen (uint x)"

definition dictLabelSizeBits :: "nat \<Rightarrow> nat" where
  "dictLabelSizeBits maxLen = bitLen (int maxLen)"

subsection \<open>Reading labels\<close>

lemma SkipBits_less: "SkipBits n c = (Inr (), c1) \<Longrightarrow> 0 < n \<Longrightarrow> BitsLeft c1 < BitsLeft c"
  by (auto simp: SkipBits_def act_simps advance_def BitsLeft_def split: if_splits)

function unaryLoop :: "nat \<Rightarrow> nat \<Rightarrow> slice \<Rightarrow> (go_error + nat) \<times> slice" where
  "unaryLoop ln chunkSize loader =
     (let chunk = min chunkSize (BitsLeft loader) in
      if chunk = 0 then (Inl (CellError ErrNotEnoughData), loader)
      else case loadUintFast chunk True loader of
        (Inl e, _) \<Rightarrow> (Inl e, loader)
      | (Inr v, _) \<Rightarrow>
          let ones = LeadingZeros64 (NOT (push_bit (64 - chunk) v)) in
          if ones < chunk
          then bnd (SkipBits (ones + 1)) (\<lambda>_. ret (ln + ones)) loader
          else case SkipBits chunk loader of
            (Inl e, l1) \<Rightarrow> (Inl e, l1)
          | (Inr _, l1) \<Rightarrow> unaryLoop (ln + chunk) 64 l1)"
  by pat_completeness auto
termination
  by (relation "measure (\<lambda>(ln, chunkSize, loader). BitsLeft loader)") (auto dest!: SkipBits_less [OF sym])

declare unaryLoop.simps [simp del]

definition loadUnaryLength :: "nat sl" where
  "loadUnaryLength = bnd (LoadUInt 1) (\<lambda>first. if first = 0 then ret 0 else unaryLoop 1 8)"

definition appendKey :: "nat \<Rightarrow> builder \<Rightarrow> (nat \<times> builder) sl" where
  "appendKey ln key = (\<lambda>loader. case storeSliceFromSlice ln (key, loader) of
     (Inl e, (_, l1)) \<Rightarrow> (Inl e, l1)
   | (Inr _, (k1, l1)) \<Rightarrow> (Inr (ln, k1), l1))"

definition loadLabel :: "nat \<Rightarrow> builder \<Rightarrow> (nat \<times> builder) sl" where
  "loadLabel sz key = bnd (LoadUInt 1) (\<lambda>first.
     if first = 0
     then bnd loadUnaryLength (\<lambda>ln. if ln > sz then raise ErrLabelExceedsKeyBits else appendKey ln key)
     else bnd (LoadUInt 1) (\<lambda>second.
       let bitsLen = dictLabelSizeBits sz in
       if second = 0
       then bnd (LoadUInt bitsLen) (\<lambda>ln. if unat ln > sz then raise ErrLabelExceedsKeyBits else appendKey (unat ln) key)
       else bnd (LoadUInt 1) (\<lambda>bitType. bnd (LoadUInt bitsLen) (\<lambda>ln.
         if unat ln > sz then raise ErrLabelExceedsKeyBits
         else case StoreSameBit (bitType = 1) (unat ln) key of
           (Inl e, _) \<Rightarrow> raise e
         | (Inr _, k1) \<Rightarrow> ret (unat ln, k1)))))"

text \<open>A label as a window, over the node or over one of two constant cells.\<close>

definition dictSameCell :: "bool \<Rightarrow> cell" where
  "dictSameCell b = Cell (replicate 128 (if b then 0xFF else 0)) 1023 False 0 []"

record label_view =
  lv_len :: nat
  lv_label :: slice
  lv_static :: bool

definition labelDataView :: "nat \<Rightarrow> label_view sl" where
  "labelDataView ln = bnd getS (\<lambda>loader.
     if BitsLeft loader < ln then slErr ErrNotEnoughData
     else seq (SkipBits ln) (ret \<lparr>lv_len = ln,
       lv_label = loader\<lparr>sl_bitEnd := sl_bitStart loader + ln, sl_refStart := 0, sl_refEnd := 0\<rparr>, lv_static = False\<rparr>))"

definition readLabelView :: "nat \<Rightarrow> label_view sl" where
  "readLabelView sz = bnd (LoadUInt 1) (\<lambda>first.
     if first = 0
     then bnd loadUnaryLength (\<lambda>ln. if ln > sz then raise ErrLabelExceedsKeyBits else labelDataView ln)
     else bnd (LoadUInt 1) (\<lambda>second.
       let bitsLen = dictLabelSizeBits sz in
       if second = 0
       then bnd (LoadUInt bitsLen) (\<lambda>ln. if unat ln > sz then raise ErrLabelExceedsKeyBits else labelDataView (unat ln))
       else bnd (LoadUInt 1) (\<lambda>bitType. bnd (LoadUInt bitsLen) (\<lambda>ln.
         if unat ln > sz then raise ErrLabelExceedsKeyBits
         else ret \<lparr>lv_len = unat ln,
           lv_label = (newSliceFromCell (dictSameCell (bitType = 1)))\<lparr>sl_bitEnd := unat ln\<rparr>, lv_static = True\<rparr>))))"

subsection \<open>Comparing labels with keys\<close>

function commonLoop :: "slice \<Rightarrow> slice \<Rightarrow> nat \<Rightarrow> nat \<Rightarrow> go_error + nat" where
  "commonLoop a b limit matched =
     (if matched < limit then
        let chunk = min 64 (limit - matched) in
        case preloadSliceUIntAt a matched chunk of
          Inl e \<Rightarrow> Inl e
        | Inr aVal \<Rightarrow>
            (case preloadSliceUIntAt b matched chunk of
               Inl e \<Rightarrow> Inl e
             | Inr bVal \<Rightarrow> if aVal = bVal then commonLoop a b limit (matched + chunk)
                          else Inr (matched + (chunk - Len64 (aVal XOR bVal))))
      else Inr matched)"
  by pat_completeness auto
termination
  by (relation "measure (\<lambda>(a, b, limit, matched). limit - matched)") auto

declare commonLoop.simps [simp del]

definition commonSlicePrefix :: "slice \<Rightarrow> slice \<Rightarrow> nat \<Rightarrow> go_error + nat" where
  "commonSlicePrefix a b limit =
     (if BitsLeft a < limit then Inl (CellError ErrNotEnoughData) else commonLoop a b limit 0)"

text \<open>The label and the key, both advanced past the common part and the first differing bit.\<close>

definition consumeCommonPrefix :: "nat \<Rightarrow> (slice \<times> slice, nat) action" where
  "consumeCommonPrefix limit0 = (\<lambda>(label, key).
     let limit = min limit0 (BitsLeft key) in
     if limit = 0 then (Inr 0, (label, key))
     else case commonSlicePrefix label key limit of
       Inl e \<Rightarrow> (Inl e, (label, key))
     | Inr matched \<Rightarrow>
         let consumed = (if matched < limit then matched + 1 else matched) in
         (case SkipBits consumed label of
            (Inl e, l1) \<Rightarrow> (Inl e, (l1, key))
          | (Inr _, l1) \<Rightarrow>
              (case SkipBits consumed key of
                 (Inl e, k1) \<Rightarrow> (Inl e, (l1, k1))
               | (Inr _, k1) \<Rightarrow> (Inr matched, (l1, k1)))))"

function sameLoop :: "slice \<Rightarrow> bool \<Rightarrow> nat \<Rightarrow> nat \<Rightarrow> go_error + (nat \<times> nat)" where
  "sameLoop key b limit matched =
     (if matched < limit then
        let chunk = min 64 (limit - matched); want = sameBitsValue b chunk in
        case preloadSliceUIntAt key matched chunk of
          Inl e \<Rightarrow> Inl e
        | Inr v \<Rightarrow> if v = want then sameLoop key b limit (matched + chunk)
                   else let m = matched + (chunk - Len64 (v XOR want)) in Inr (m, m + 1)
      else Inr (matched, matched))"
  by pat_completeness auto
termination
  by (relation "measure (\<lambda>(key, b, limit, matched). limit - matched)") auto

declare sameLoop.simps [simp del]

definition consumeSameBitPrefix :: "64 word \<Rightarrow> nat \<Rightarrow> nat sl" where
  "consumeSameBitPrefix bit0 limit0 = bnd getS (\<lambda>key.
     let limit = min limit0 (BitsLeft key) in
     if limit = 0 then ret 0
     else case sameLoop key (bit0 \<noteq> 0) limit 0 of
       Inl e \<Rightarrow> raise e
     | Inr (matched, skip) \<Rightarrow> seq (SkipBits skip) (ret matched))"

text \<open>\<open>matchLabelPrefix\<close> reads a label and compares it with the key at once.\<close>

definition consumeLabel :: "nat \<Rightarrow> (slice \<times> slice, nat \<times> nat) action" where
  "consumeLabel ln = bnd (consumeCommonPrefix ln) (\<lambda>matched. ret (ln, matched))"

definition onLoader :: "'a sl \<Rightarrow> (slice \<times> slice, 'a) action" where
  "onLoader m = (\<lambda>(loader, key). case m loader of (r, l1) \<Rightarrow> (r, (l1, key)))"

definition onKey :: "'a sl \<Rightarrow> (slice \<times> slice, 'a) action" where
  "onKey m = (\<lambda>(loader, key). case m key of (r, k1) \<Rightarrow> (r, (loader, k1)))"

definition matchLabelPrefix :: "nat \<Rightarrow> (slice \<times> slice, nat \<times> nat) action" where
  "matchLabelPrefix sz =
     (let short = (\<lambda>ln. if ln > sz then raise ErrLabelExceedsKeyBits
            else bnd getS (\<lambda>(loader, key). if BitsLeft loader < ln then raise (CellError ErrNotEnoughData) else consumeLabel ln));
          bitsLen = dictLabelSizeBits sz
      in bnd (onLoader (LoadUInt 1)) (\<lambda>first.
           if first = 0 then bnd (onLoader loadUnaryLength) short
           else bnd (onLoader (LoadUInt 1)) (\<lambda>second.
             if second = 0 then bnd (onLoader (LoadUInt bitsLen)) (\<lambda>ln. short (unat ln))
             else bnd (onLoader (LoadUInt 1)) (\<lambda>bitType. bnd (onLoader (LoadUInt bitsLen)) (\<lambda>ln.
               if unat ln > sz then raise ErrLabelExceedsKeyBits
               else bnd (onKey (consumeSameBitPrefix bitType (unat ln))) (\<lambda>matched. ret (unat ln, matched)))))))"

text \<open>\<open>matchLabelView\<close>: how far a label matches the key, which side the key takes where they differ, and the key
  past that point.\<close>

definition matchLabelView :: "slice \<Rightarrow> nat \<Rightarrow> (nat \<times> bool \<times> bool) sl" where
  "matchLabelView label labelLen = bnd getS (\<lambda>key.
     let limit = min labelLen (BitsLeft key) in
     if limit = 0 then ret (0, False, False)
     else bnd (lift_sum (commonSlicePrefix label key limit)) (\<lambda>matched.
       if matched < limit
       then bnd (BitAt matched) (\<lambda>nxt. seq (SkipBits (matched + 1)) (ret (matched, nxt \<noteq> 0, True)))
       else seq (SkipBits matched) (ret (matched, False, False))))"

subsection \<open>Writing labels\<close>

function sameBitLoop :: "slice \<Rightarrow> bool \<Rightarrow> nat \<Rightarrow> nat \<Rightarrow> go_error + bool" where
  "sameBitLoop data want len offset =
     (if offset < len then
        let chunk = min 64 (len - offset) in
        case preloadSliceUIntAt data offset chunk of
          Inl e \<Rightarrow> Inl e
        | Inr v \<Rightarrow> if v \<noteq> sameBitsValue want chunk then Inr False else sameBitLoop data want len (offset + chunk)
      else Inr True)"
  by pat_completeness auto
termination
  by (relation "measure (\<lambda>(data, want, len, offset). len - offset)") auto

declare sameBitLoop.simps [simp del]

definition dictLabelSliceSameBit :: "slice \<Rightarrow> nat \<Rightarrow> go_error + (64 word \<times> bool)" where
  "dictLabelSliceSameBit data len =
     (if len = 0 then Inr (0, True)
      else case fst (BitAt 0 data) of
        Inl e \<Rightarrow> Inl e
      | Inr first \<Rightarrow>
          (case sameBitLoop data (first \<noteq> 0) len 0 of
             Inl e \<Rightarrow> Inl e
           | Inr same \<Rightarrow> Inr (if same then (ucast first, True) else (0, False))))"

definition storeDictSame :: "nat \<Rightarrow> nat \<Rightarrow> 64 word \<Rightarrow> unit bld" where
  "storeDictSame partSz bitsLen bit0 =
     seq (StoreUInt 3 2) (seq (StoreUInt bit0 1) (StoreUInt (word_of_nat partSz) bitsLen))"

text \<open>The label slice is consumed; no caller looks at it again, so only the builder is returned.\<close>

definition storeSliceBits :: "slice \<Rightarrow> nat \<Rightarrow> unit bld" where
  "storeSliceBits data ln = (\<lambda>b. case storeSliceFromSlice ln (b, data) of (r, (b1, _)) \<Rightarrow> (r, b1))"

definition storeDictLabel :: "slice \<Rightarrow> nat \<Rightarrow> unit bld" where
  "storeDictLabel data keyLen =
     (let ln = BitsLeft data in
      if ln = 0 then StoreUInt 0 2
      else let bitsLen = dictLabelSizeBits keyLen;
               longLen = 2 + bitsLen + ln; shortLength = 2 + 2 * ln; sameLength = 3 + bitsLen;
               rest = (if shortLength \<le> longLen
                       then seq (StoreUInt 0 1) (seq (StoreSameBit True ln) (seq (StoreUInt 0 1) (storeSliceBits data ln)))
                       else seq (StoreUInt 2 2) (seq (StoreUInt (word_of_nat ln) bitsLen) (storeSliceBits data ln)))
           in if sameLength < longLen \<and> sameLength < shortLength
              then bnd (lift_sum (dictLabelSliceSameBit data ln)) (\<lambda>(bit0, same).
                     if same then storeDictSame ln bitsLen bit0 else rest)
              else rest)"

subsection \<open>Specification\<close>

text \<open>The three encodings of a label, and the one the writer chooses.\<close>

definition shortLabel :: "bool list \<Rightarrow> bool list" where
  "shortLabel l = False # replicate (length l) True @ False # l"

definition longLabel :: "nat \<Rightarrow> bool list \<Rightarrow> bool list" where
  "longLabel n l = True # False # bitsInt (bitLen (int n)) (int (length l)) @ l"

definition sameLabel :: "nat \<Rightarrow> bool \<Rightarrow> nat \<Rightarrow> bool list" where
  "sameLabel n b k = True # True # b # bitsInt (bitLen (int n)) (int k)"

definition label_enc :: "nat \<Rightarrow> bool list \<Rightarrow> bool list \<Rightarrow> bool" where
  "label_enc n l bs \<longleftrightarrow> length l \<le> n \<and>
     (bs = shortLabel l \<or> bs = longLabel n l \<or> (\<exists>b. l = replicate (length l) b \<and> bs = sameLabel n b (length l)))"

definition labelBits :: "nat \<Rightarrow> bool list \<Rightarrow> bool list" where
  "labelBits n l =
     (let k = bitLen (int n); ln = length l in
      if ln > 1 \<and> k < 2 * ln - 1 \<and> l = replicate ln (hd l) then sameLabel n (hd l) ln
      else if ln \<le> k then shortLabel l else longLabel n l)"

subsection \<open>Readers accept every encoding\<close>

lemma bits1 [simp]: "bitsInt (Suc 0) 0 = [False]" "bitsInt (Suc 0) 1 = [True]"
  by (simp_all add: bitsInt_def)

lemma reads_bit: "reads (LoadUInt 1) [b] [] (of_bool b)"
  using reads_LoadUInt [of 1 "of_bool b"] by (cases b) simp_all

lemma bitLen_small: "n < 1024 \<Longrightarrow> bitLen (int n) \<le> 10"
  using bitLen_le [of "int n" 10] by simp

lemma reads_length:
  assumes "k \<le> n" "n < 1024"
  shows "reads (LoadUInt (dictLabelSizeBits n)) (bitsInt (bitLen (int n)) (int k)) [] (word_of_nat k)"
proof -
  have "int n < 2 ^ bitLen (int n)" using bitLen_le [of "int n" "bitLen (int n)"] by simp
  moreover have "uint (word_of_nat k :: 64 word) = int k" using assms by (simp add: unsigned_of_nat take_bit_nat_eq_self)
  ultimately show ?thesis
    using reads_LoadUInt [of "bitLen (int n)" "word_of_nat k"] bitLen_small [OF assms(2)] assms
    by (simp add: dictLabelSizeBits_def)
qed

lemma unat_length: "k < 1024 \<Longrightarrow> unat (word_of_nat k :: 64 word) = k"
  by (simp add: unsigned_of_nat take_bit_nat_eq_self)

lemma bit_not_chunk:
  assumes "length xs \<le> 64" "j < length xs"
  shows "bit (NOT (push_bit (64 - length xs) (word_of_nat (uintOf xs) :: 64 word))) (63 - j) \<longleftrightarrow> \<not> xs ! j"
proof -
  have "63 - j - (64 - length xs) = length xs - 1 - j" "64 - length xs \<le> 63 - j" "length xs - 1 - j < length xs" "63 - j < 64"
    using assms by simp_all
  then show ?thesis using assms bit_chunk [OF assms(1), of "length xs - 1 - j"]
    unfolding bit_not_iff bit_push_bit_iff by simp
qed

lemma leading_ones:
  assumes "length xs \<le> 64" "i < length xs" "\<not> xs ! i" "\<And>j. j < i \<Longrightarrow> xs ! j"
  shows "LeadingZeros64 (NOT (push_bit (64 - length xs) (word_of_nat (uintOf xs)))) = i"
  unfolding LeadingZeros64_def by (rule takeWhile_upt) (use assms in \<open>simp_all add: bit_not_chunk\<close>)

lemma takeWhile_upt_ge:
  assumes "m \<le> n" "\<And>j. j < m \<Longrightarrow> P j" shows "m \<le> length (takeWhile P [0..<n])"
proof -
  have "[0..<n] = [0..<m] @ [m..<n]" using assms(1) upt_add_eq_append [of 0 m "n - m"] by simp
  moreover have "takeWhile P ([0..<m] @ [m..<n]) = [0..<m] @ takeWhile P [m..<n]"
    using assms(2) by (intro takeWhile_append2) auto
  ultimately show ?thesis by simp
qed

lemma leading_all_ones:
  assumes "length xs \<le> 64" "list_all id xs"
  shows "length xs \<le> LeadingZeros64 (NOT (push_bit (64 - length xs) (word_of_nat (uintOf xs))))"
  unfolding LeadingZeros64_def
  by (rule takeWhile_upt_ge) (use assms in \<open>simp_all add: bit_not_chunk list_all_length\<close>)

lemma unaryLoop_ok:
  assumes "slice_ok c" "sliceBits c = replicate k True @ False # rest" "0 < cs" "cs \<le> 64"
  shows "unaryLoop ln cs c = (Inr (ln + k), consumed (k + 1) 0 c)"
  using assms
proof (induction k arbitrary: ln cs c rule: less_induct)
  case (less k)
  define n where "n = min cs (BitsLeft c)"
  have left: "BitsLeft c = k + 1 + length rest" using arg_cong [OF less.prems(2), of length] by simp
  have n: "0 < n" "n \<le> 64" "n \<le> BitsLeft c" using less.prems(3,4) left by (auto simp: n_def)
  let ?x = "take n (sliceBits c)"
  have len: "length ?x = n" using n(3) by simp
  have load: "loadUintFast n True c = (Inr (word_of_nat (uintOf ?x)), c)"
    using loadUintFast_ok [OF less.prems(1) n(2,3), of True] by simp
  show ?case
  proof (cases "k < n")
    case True
    have "?x ! j \<longleftrightarrow> j < k" if "j \<le> k" for j using that True less.prems(2) by (auto simp: nth_append)
    then have "LeadingZeros64 (NOT (push_bit (64 - n) (word_of_nat (uintOf ?x)))) = k"
      using leading_ones [of ?x k] len n True by simp
    moreover have "\<not> BitsLeft c < Suc k" using left by simp
    ultimately show ?thesis using True n(1) load unfolding unaryLoop.simps [of ln cs c] n_def [symmetric]
      by (simp add: Let_def act_simps SkipBits_def advance_def consumed_def)
  next
    case False
    have x: "?x = replicate n True" using False less.prems(2) by (simp add: min_def)
    have "\<not> LeadingZeros64 (NOT (push_bit (64 - n) (word_of_nat (uintOf ?x)))) < n"
      using leading_all_ones [of ?x] len n x by (simp add: list_all_iff not_less)
    then have step: "unaryLoop ln cs c = unaryLoop (ln + n) 64 (consumed n 0 c)"
      using n load unfolding unaryLoop.simps [of ln cs c] n_def [symmetric]
      by (simp add: Let_def act_simps SkipBits_def advance_def consumed_def)
    have "sliceBits c = replicate n True @ (replicate (k - n) True @ False # rest)"
      using less.prems(2) False by (metis append.assoc le_add_diff_inverse not_less replicate_add)
    from consumed_ok [OF less.prems(1) this, of "[]" "sliceRefs c"]
    have "slice_ok (consumed n 0 c)" "sliceBits (consumed n 0 c) = replicate (k - n) True @ False # rest" by simp_all
    from less.IH [OF _ this, of 64 "ln + n"] show ?thesis using step False n by simp
  qed
qed

lemma reads_loadUnaryLength: "reads loadUnaryLength (replicate k True @ [False]) [] k"
proof (cases k)
  case 0
  have "reads loadUnaryLength ([False] @ []) ([] @ []) 0"
    unfolding loadUnaryLength_def by (rule reads_bnd [OF reads_bit]) (simp add: reads_ret)
  then show ?thesis using 0 by simp
next
  case (Suc j)
  have "reads (unaryLoop 1 8) (replicate j True @ [False]) [] (1 + j)"
    unfolding reads_def by (auto simp: unaryLoop_ok)
  then have "reads loadUnaryLength ([True] @ (replicate j True @ [False])) ([] @ []) (1 + j)"
    unfolding loadUnaryLength_def by (intro reads_bnd [OF reads_bit]) simp
  then show ?thesis using Suc by simp
qed

lemma labelDataView_ok:
  assumes "slice_ok c" "sliceBits c = l @ rest"
  obtains lv where "labelDataView (length l) c = (Inr lv, consumed (length l) 0 c)" "lv_len lv = length l"
    "\<not> lv_static lv" "slice_ok (lv_label lv)" "sliceBits (lv_label lv) = l" "sliceRefs (lv_label lv) = []"
proof -
  have le: "length l \<le> BitsLeft c" using arg_cong [OF assms(2), of length] by simp
  let ?v = "c\<lparr>sl_bitEnd := sl_bitStart c + length l, sl_refStart := 0, sl_refEnd := 0\<rparr>"
  have "sliceBits ?v = take (length l) (sliceBits c)"
    using le assms(1) by (auto simp: sliceBits_def bitsOf_def BitsLeft_def slice_ok_def take_map take_upt)
  then show thesis
    using le assms by (intro that [of "\<lparr>lv_len = length l, lv_label = ?v, lv_static = False\<rparr>"])
      (auto simp: labelDataView_def act_simps SkipBits_def advance_def consumed_def slice_ok_def BitsLeft_def sliceRefs_def RefsNum_def)
qed

lemma dictSameCell_slice:
  assumes "k < 1024"
  shows "slice_ok ((newSliceFromCell (dictSameCell b))\<lparr>sl_bitEnd := k\<rparr>)"
    "sliceBits ((newSliceFromCell (dictSameCell b))\<lparr>sl_bitEnd := k\<rparr>) = replicate k b"
    "sliceRefs ((newSliceFromCell (dictSameCell b))\<lparr>sl_bitEnd := k\<rparr>) = []"
proof -
  have all1: "bit (0xFF :: byte) j \<longleftrightarrow> j < 8" for j
  proof -
    have "(0xFF :: byte) = - 1" by simp
    then show ?thesis by (simp only: bit_minus_1_iff) (simp add: possible_bit_word)
  qed
  have "bitAt (replicate 128 (if b then 0xFF else 0)) i = b" if "i < k" for i
    using that assms all1 [of "7 - i mod 8"] by (auto simp: bitAt_def)
  then show "sliceBits ((newSliceFromCell (dictSameCell b))\<lparr>sl_bitEnd := k\<rparr>) = replicate k b"
    by (auto simp: sliceBits_def dictSameCell_def bitsOf_def intro!: nth_equalityI)
qed (use assms in \<open>auto simp: slice_ok_def dictSameCell_def sliceRefs_def RefsNum_def newSliceFromCell_def\<close>)

text \<open>What the first bits of a label select, for any continuation of the reader.\<close>

lemma consumed_bits:
  assumes "slice_ok c" "sliceBits c = bs @ rest"
  shows "slice_ok (consumed (length bs) 0 c)" "sliceBits (consumed (length bs) 0 c) = rest" "sliceRefs (consumed (length bs) 0 c) = sliceRefs c"
  using consumed_ok [OF assms, of "[]"] by simp_all

lemma reads_bits: "reads m bs [] x \<Longrightarrow> slice_ok c \<Longrightarrow> sliceBits c = bs @ rest \<Longrightarrow> m c = (Inr x, consumed (length bs) 0 c)"
  using readsD [of m bs "[]" x c rest "sliceRefs c"] by simp

lemma label_short:
  assumes "slice_ok c" "sliceBits c = shortLabel l @ rest"
  shows "bnd (LoadUInt 1) (\<lambda>first. if first = 0 then bnd loadUnaryLength f else g first) c =
      f (length l) (consumed (length l + 2) 0 c)"
    "slice_ok (consumed (length l + 2) 0 c)" "sliceBits (consumed (length l + 2) 0 c) = l @ rest"
proof -
  have b: "sliceBits c = [False] @ ((replicate (length l) True @ [False]) @ (l @ rest))"
    using assms(2) by (simp add: shortLabel_def)
  note c1 = consumed_bits [OF assms(1) b]
  note c2 = consumed_bits [OF c1(1,2)]
  show "bnd (LoadUInt 1) (\<lambda>first. if first = 0 then bnd loadUnaryLength f else g first) c =
      f (length l) (consumed (length l + 2) 0 c)"
    using reads_bits [OF reads_bit assms(1) b] reads_bits [OF reads_loadUnaryLength c1(1,2)] by (simp add: bnd_apply)
  show "slice_ok (consumed (length l + 2) 0 c)" "sliceBits (consumed (length l + 2) 0 c) = l @ rest"
    using c2 by simp_all
qed

lemma label_long:
  assumes "slice_ok c" "sliceBits c = longLabel n l @ rest" "length l \<le> n" "n < 1024"
  defines "k \<equiv> 2 + bitLen (int n)"
  shows "bnd (LoadUInt 1) (\<lambda>first. if first = 0 then f else bnd (LoadUInt 1) (\<lambda>second.
      if second = 0 then bnd (LoadUInt (dictLabelSizeBits n)) g else h second)) c = g (word_of_nat (length l)) (consumed k 0 c)"
    "slice_ok (consumed k 0 c)" "sliceBits (consumed k 0 c) = l @ rest"
proof -
  let ?n = "bitsInt (bitLen (int n)) (int (length l))"
  have b: "sliceBits c = [True] @ ([False] @ (?n @ (l @ rest)))" using assms(2) by (simp add: longLabel_def)
  note c1 = consumed_bits [OF assms(1) b]
  note c2 = consumed_bits [OF c1(1,2)]
  note c3 = consumed_bits [OF c2(1,2)]
  show "bnd (LoadUInt 1) (\<lambda>first. if first = 0 then f else bnd (LoadUInt 1) (\<lambda>second.
      if second = 0 then bnd (LoadUInt (dictLabelSizeBits n)) g else h second)) c = g (word_of_nat (length l)) (consumed k 0 c)"
    using reads_bits [OF reads_bit assms(1) b] reads_bits [OF reads_bit c1(1,2)]
      reads_bits [OF reads_length [OF assms(3,4)] c2(1,2)] by (simp add: bnd_apply k_def)
  show "slice_ok (consumed k 0 c)" "sliceBits (consumed k 0 c) = l @ rest"
    using c3 by (simp_all add: k_def)
qed

lemma label_same:
  assumes "slice_ok c" "sliceBits c = sameLabel n b ln @ rest" "ln \<le> n" "n < 1024"
  defines "k \<equiv> 3 + bitLen (int n)"
  shows "bnd (LoadUInt 1) (\<lambda>first. if first = 0 then f else bnd (LoadUInt 1) (\<lambda>second.
      if second = 0 then g else bnd (LoadUInt 1) (\<lambda>t. bnd (LoadUInt (dictLabelSizeBits n)) (h t)))) c =
      h (of_bool b) (word_of_nat ln) (consumed k 0 c)"
    "slice_ok (consumed k 0 c)" "sliceBits (consumed k 0 c) = rest"
proof -
  let ?n = "bitsInt (bitLen (int n)) (int ln)"
  have b: "sliceBits c = [True] @ ([True] @ ([b] @ (?n @ rest)))" using assms(2) by (simp add: sameLabel_def)
  note c1 = consumed_bits [OF assms(1) b]
  note c2 = consumed_bits [OF c1(1,2)]
  note c3 = consumed_bits [OF c2(1,2)]
  note c4 = consumed_bits [OF c3(1,2)]
  show "bnd (LoadUInt 1) (\<lambda>first. if first = 0 then f else bnd (LoadUInt 1) (\<lambda>second.
      if second = 0 then g else bnd (LoadUInt 1) (\<lambda>t. bnd (LoadUInt (dictLabelSizeBits n)) (h t)))) c =
      h (of_bool b) (word_of_nat ln) (consumed k 0 c)"
    using reads_bits [OF reads_bit assms(1) b] reads_bits [OF reads_bit c1(1,2)] reads_bits [OF reads_bit c2(1,2)]
      reads_bits [OF reads_length [OF assms(3,4)] c3(1,2)] by (simp add: bnd_apply k_def numeral_3_eq_3)
  show "slice_ok (consumed k 0 c)" "sliceBits (consumed k 0 c) = rest"
    using c4 by (simp_all add: k_def numeral_3_eq_3)
qed

lemma label_lengths:
  "length (shortLabel l) = 2 * length l + 2" "length (longLabel n l) = 2 + bitLen (int n) + length l"
  "length (sameLabel n b k) = 3 + bitLen (int n)"
  by (simp_all add: shortLabel_def longLabel_def sameLabel_def)

lemma readLabelView_ok:
  assumes "slice_ok c" "sliceBits c = bs @ rest" "label_enc n l bs" "n < 1024"
  obtains lv where "readLabelView n c = (Inr lv, consumed (length bs) 0 c)" "lv_len lv = length l"
    "slice_ok (lv_label lv)" "sliceBits (lv_label lv) = l" "sliceRefs (lv_label lv) = []"
    "lv_static lv \<longleftrightarrow> (\<exists>b. bs = sameLabel n b (length l))"
proof -
  have len: "length l \<le> n" "length l < 1024" using assms(3,4) by (auto simp: label_enc_def)
  consider (s) "bs = shortLabel l" | (l) "bs = longLabel n l" | (e) b where "l = replicate (length l) b" "bs = sameLabel n b (length l)"
    using assms(3) by (auto simp: label_enc_def)
  then show thesis
  proof cases
    case s
    note h = label_short [OF assms(1) assms(2) [unfolded s]]
    obtain lv where lv: "labelDataView (length l) (consumed (length l + 2) 0 c) = (Inr lv, consumed (length l) 0 (consumed (length l + 2) 0 c))"
        "lv_len lv = length l" "\<not> lv_static lv" "slice_ok (lv_label lv)" "sliceBits (lv_label lv) = l" "sliceRefs (lv_label lv) = []"
      by (rule labelDataView_ok [OF h(2,3)])
    have "length l + 2 + length l = length bs" by (simp add: s label_lengths)
    moreover have "\<not> (\<exists>b. bs = sameLabel n b (length l))" by (simp add: s shortLabel_def sameLabel_def)
    moreover have "readLabelView n c = labelDataView (length l) (consumed (length l + 2) 0 c)"
      unfolding readLabelView_def h(1) using len(1) by simp
    ultimately show thesis using that lv by simp
  next
    case l
    note h = label_long [OF assms(1) assms(2) [unfolded l] len(1) assms(4)]
    obtain lv where lv: "labelDataView (length l) (consumed (2 + bitLen (int n)) 0 c) =
          (Inr lv, consumed (length l) 0 (consumed (2 + bitLen (int n)) 0 c))"
        "lv_len lv = length l" "\<not> lv_static lv" "slice_ok (lv_label lv)" "sliceBits (lv_label lv) = l" "sliceRefs (lv_label lv) = []"
      by (rule labelDataView_ok [OF h(2,3)])
    have "2 + bitLen (int n) + length l = length bs" by (simp add: l label_lengths)
    moreover have "\<not> (\<exists>b. bs = sameLabel n b (length l))" by (simp add: l longLabel_def sameLabel_def)
    moreover have "readLabelView n c = labelDataView (length l) (consumed (2 + bitLen (int n)) 0 c)"
      unfolding readLabelView_def Let_def h(1) using len unat_length [OF len(2)] by simp
    ultimately show thesis using that lv by simp
  next
    case e
    note h = label_same [OF assms(1) assms(2) [unfolded e(2)] len(1) assms(4)]
    have "3 + bitLen (int n) = length bs" by (simp add: e(2) label_lengths)
    moreover have "readLabelView n c = (Inr \<lparr>lv_len = length l, lv_label = (newSliceFromCell (dictSameCell b))\<lparr>sl_bitEnd := length l\<rparr>,
        lv_static = True\<rparr>, consumed (3 + bitLen (int n)) 0 c)"
      unfolding readLabelView_def Let_def h(1) using len unat_length [OF len(2)] by simp
    ultimately show thesis using dictSameCell_slice [OF len(2), of b] e by (intro that) auto
  qed
qed

lemma appendKey_ok:
  assumes "slice_ok c" "sliceBits c = l @ rest" "builder_ok key" "b_bitsSz key + length l < 1024"
  obtains key' where "appendKey (length l) key c = (Inr (length l, key'), consumed (length l) 0 c)" "builder_ok key'"
    "builderBits key' = builderBits key @ l" "b_refs key' = b_refs key"
proof -
  have le: "length l \<le> BitsLeft c" using arg_cong [OF assms(2), of length] by simp
  obtain b' where "storeSliceFromSlice (length l) (key, c) = (Inr (), (b', c\<lparr>sl_bitStart := sl_bitStart c + length l\<rparr>))" "builder_ok b'"
      "b_refs b' = b_refs key" "builderBits b' = builderBits key @ take (length l) (sliceBits c)"
    by (rule storeSliceFromSlice_ok [OF assms(1) le assms(3,4)])
  then show thesis using assms(2) by (intro that [of b']) (simp_all add: appendKey_def consumed_def)
qed

lemma loadLabel_ok:
  assumes "slice_ok c" "sliceBits c = bs @ rest" "label_enc n l bs" "n < 1024" "builder_ok key" "b_bitsSz key + length l < 1024"
  obtains key' where "loadLabel n key c = (Inr (length l, key'), consumed (length bs) 0 c)" "builder_ok key'"
    "builderBits key' = builderBits key @ l" "b_refs key' = b_refs key"
proof -
  have len: "length l \<le> n" "length l < 1024" using assms(3,4) by (auto simp: label_enc_def)
  consider (s) "bs = shortLabel l" | (l) "bs = longLabel n l" | (e) b where "l = replicate (length l) b" "bs = sameLabel n b (length l)"
    using assms(3) by (auto simp: label_enc_def)
  then show thesis
  proof cases
    case s
    note h = label_short [OF assms(1) assms(2) [unfolded s]]
    obtain key' where k: "appendKey (length l) key (consumed (length l + 2) 0 c) =
          (Inr (length l, key'), consumed (length l) 0 (consumed (length l + 2) 0 c))" "builder_ok key'"
        "builderBits key' = builderBits key @ l" "b_refs key' = b_refs key"
      by (rule appendKey_ok [OF h(2,3) assms(5,6)])
    have "length l + 2 + length l = length bs" by (simp add: s label_lengths)
    moreover have "loadLabel n key c = appendKey (length l) key (consumed (length l + 2) 0 c)"
      unfolding loadLabel_def h(1) using len(1) by simp
    ultimately show thesis using that k by simp
  next
    case l
    note h = label_long [OF assms(1) assms(2) [unfolded l] len(1) assms(4)]
    obtain key' where k: "appendKey (length l) key (consumed (2 + bitLen (int n)) 0 c) =
          (Inr (length l, key'), consumed (length l) 0 (consumed (2 + bitLen (int n)) 0 c))" "builder_ok key'"
        "builderBits key' = builderBits key @ l" "b_refs key' = b_refs key"
      by (rule appendKey_ok [OF h(2,3) assms(5,6)])
    have "2 + bitLen (int n) + length l = length bs" by (simp add: l label_lengths)
    moreover have "loadLabel n key c = appendKey (length l) key (consumed (2 + bitLen (int n)) 0 c)"
      unfolding loadLabel_def Let_def h(1) using len unat_length [OF len(2)] by simp
    ultimately show thesis using that k by simp
  next
    case e
    note h = label_same [OF assms(1) assms(2) [unfolded e(2)] len(1) assms(4)]
    obtain key' where k: "StoreSameBit b (length l) key = (Inr (), key')" "builder_ok key'" "b_refs key' = b_refs key"
        "builderBits key' = builderBits key @ replicate (length l) b"
      using StoreSameBit_ok [OF assms(5,6), of b] by blast
    have "loadLabel n key c = (Inr (length l, key'), consumed (3 + bitLen (int n)) 0 c)"
      unfolding loadLabel_def Let_def h(1) using len unat_length [OF len(2)] k(1) by simp
    moreover have "3 + bitLen (int n) = length bs" by (simp add: e(2) label_lengths)
    ultimately show thesis using that k e(1) by simp
  qed
qed

subsection \<open>Common prefixes\<close>

fun lcp :: "bool list \<Rightarrow> bool list \<Rightarrow> nat" where
  "lcp (x # xs) (y # ys) = (if x = y then Suc (lcp xs ys) else 0)"
| "lcp _ _ = 0"

lemma lcp_le: "lcp xs ys \<le> length xs" "lcp xs ys \<le> length ys"
  by (induction xs ys rule: lcp.induct) auto

lemma lcp_take: "take (lcp xs ys) xs = take (lcp xs ys) ys"
  by (induction xs ys rule: lcp.induct) auto

lemma lcp_append: "length xs = length ys \<Longrightarrow> lcp (xs @ us) (ys @ vs) = (if xs = ys then length xs + lcp us vs else lcp xs ys)"
  by (induction xs ys rule: list_induct2) auto

lemma lcp_diff: "lcp xs ys < length xs \<Longrightarrow> lcp xs ys < length ys \<Longrightarrow> xs ! lcp xs ys \<noteq> ys ! lcp xs ys"
  by (induction xs ys rule: lcp.induct) auto

lemma lcp_same: "j < lcp xs ys \<Longrightarrow> xs ! j = ys ! j"
  by (metis lcp_take nth_take)

lemma lcp_eq_length: "length xs = length ys \<Longrightarrow> lcp xs ys = length xs \<longleftrightarrow> xs = ys"
  by (induction xs ys rule: list_induct2) auto

lemma lcp_prefix: "lcp xs ys = length xs \<longleftrightarrow> prefix xs ys"
  by (induction xs ys rule: lcp.induct) auto

lemma Len64_top:
  assumes "bit w k" "\<And>j. k < j \<Longrightarrow> \<not> bit w j" shows "Len64 w = Suc k"
proof -
  have k: "k < 64" using assms(1) by (auto dest: bit_imp_le_length)
  have "take_bit (Suc k) (uint w) = uint w"
    by (rule bit_eqI) (use assms(2) in \<open>auto simp: bit_take_bit_iff bit_uint_iff less_Suc_eq_le intro: leI\<close>)
  then have "uint w < 2 ^ Suc k" by (metis take_bit_int_less_exp)
  then have "bitLen (uint w) \<le> Suc k" using bitLen_le [of "uint w" "Suc k"] by simp
  moreover have "\<not> bitLen (uint w) \<le> k"
  proof
    assume "bitLen (uint w) \<le> k"
    then have "take_bit k (uint w) = uint w" using bitLen_le [of "uint w" k] by (simp add: take_bit_int_eq_self)
    then have "\<not> bit (uint w) k" by (metis bit_take_bit_iff less_irrefl)
    then show False using assms(1) k by (simp add: bit_uint_iff)
  qed
  ultimately show ?thesis by (simp add: Len64_def)
qed

lemma Len64_mismatch:
  assumes "length xs = length ys" "length xs \<le> 64" "xs \<noteq> ys"
  shows "length xs - Len64 (word_of_nat (uintOf xs) XOR word_of_nat (uintOf ys)) = lcp xs ys"
proof -
  let ?i = "lcp xs ys"
  have i: "?i < length xs" using lcp_eq_length [OF assms(1)] assms(3) lcp_le(1) [of xs ys] by linarith
  have "Len64 (word_of_nat (uintOf xs) XOR word_of_nat (uintOf ys)) = Suc (length xs - 1 - ?i)"
  proof (rule Len64_top)
    show "bit (word_of_nat (uintOf xs) XOR word_of_nat (uintOf ys) :: 64 word) (length xs - 1 - ?i)"
      using i assms(1,2) lcp_diff [of xs ys] by (auto simp: bit_xor_iff bit_chunk)
    show "\<not> bit (word_of_nat (uintOf xs) XOR word_of_nat (uintOf ys) :: 64 word) j" if "length xs - 1 - ?i < j" for j
      using that assms(1,2) lcp_same [of "length xs - 1 - j" xs ys] i by (auto simp: bit_xor_iff bit_chunk)
  qed
  then show ?thesis using i by simp
qed

lemma commonLoop_ok:
  assumes "slice_ok a" "slice_ok b" "limit \<le> BitsLeft a" "limit \<le> BitsLeft b" "m \<le> limit"
  shows "commonLoop a b limit m = Inr (m + lcp (chunkBits a m (limit - m)) (chunkBits b m (limit - m)))"
  using assms
proof (induction a b limit m rule: commonLoop.induct)
  case (1 a b limit m)
  show ?case
  proof (cases "m < limit")
    case True
    define n where "n = min 64 (limit - m)"
    have n: "n \<le> 64" "0 < n" "m + n \<le> limit" using True by (auto simp: n_def)
    let ?x = "chunkBits a m n" and ?y = "chunkBits b m n"
    have len: "length ?x = n" "length ?y = n" using n 1(4,5) by simp_all
    have load: "preloadSliceUIntAt a m n = Inr (word_of_nat (uintOf ?x))" "preloadSliceUIntAt b m n = Inr (word_of_nat (uintOf ?y))"
      using 1(2-5) n by (intro preloadSliceUIntAt_ok; simp)+
    have eq: "(word_of_nat (uintOf ?x) :: 64 word) = word_of_nat (uintOf ?y) \<longleftrightarrow> ?x = ?y"
      using word_uintOf_eq [of ?x ?y] len n by simp
    have step: "commonLoop a b limit m = (if ?x = ?y then commonLoop a b limit (m + n) else Inr (m + lcp ?x ?y))"
      using True load eq Len64_mismatch [of ?x ?y] len n(1) unfolding commonLoop.simps [of a b limit m]
      by (simp add: Let_def flip: n_def)
    have sp: "chunkBits e m (limit - m) = chunkBits e m n @ chunkBits e (m + n) (limit - (m + n))" for e
      using chunk_split [of n "limit - m" m "sliceBits e"] n by (simp add: diff_diff_left)
    show ?thesis
    proof (cases "?x = ?y")
      case True
      have "commonLoop a b limit (m + n) = Inr (m + n + lcp (chunkBits a (m + n) (limit - (m + n))) (chunkBits b (m + n) (limit - (m + n))))"
        using 1(1) [OF \<open>m < limit\<close> n_def load(1) load(2)] True 1(2-5) n by simp
      then show ?thesis unfolding step sp using True len by (simp add: lcp_append)
    next
      case False
      then show ?thesis unfolding step sp using len by (simp add: lcp_append)
    qed
  next
    case False
    then show ?thesis using 1(6) by (subst commonLoop.simps) simp
  qed
qed

lemma commonSlicePrefix_ok:
  "slice_ok a \<Longrightarrow> slice_ok b \<Longrightarrow> limit \<le> BitsLeft a \<Longrightarrow> limit \<le> BitsLeft b \<Longrightarrow>
     commonSlicePrefix a b limit = Inr (lcp (take limit (sliceBits a)) (take limit (sliceBits b)))"
  using commonLoop_ok [of a b limit 0] by (simp add: commonSlicePrefix_def)

lemma lcp_take_left: "length l \<le> length k \<Longrightarrow> lcp l (take (length l) k) = lcp l k"
  by (induction l k rule: lcp.induct) auto

lemma SkipBits_ok: "n \<le> BitsLeft c \<Longrightarrow> SkipBits n c = (Inr (), consumed n 0 c)"
  by (simp add: SkipBits_def act_simps advance_def consumed_def)

lemma BitAt_ok: "slice_ok c \<Longrightarrow> i < BitsLeft c \<Longrightarrow> BitAt i c = (Inr (of_bool (sliceBits c ! i)), c)"
  using nth_sliceBits [of i c] unfolding BitAt_def
  by (auto simp: act_simps Let_def bitAt_def and_one_eq mod2_eq_if even_drop_bit_iff_not_bit)

lemma consumeCommonPrefix_ok:
  assumes "slice_ok label" "slice_ok key" "sliceBits label = l @ rest" "length l \<le> BitsLeft key"
  defines "p \<equiv> lcp l (sliceBits key)"
  shows "consumeCommonPrefix (length l) (label, key) =
    (Inr p, (consumed (if p < length l then p + 1 else p) 0 label, consumed (if p < length l then p + 1 else p) 0 key))"
proof (cases "l = []")
  case True then show ?thesis by (simp add: consumeCommonPrefix_def p_def)
next
  case False
  have le: "length l \<le> BitsLeft label" using arg_cong [OF assms(3), of length] by simp
  have c: "commonSlicePrefix label key (length l) = Inr p"
    using commonSlicePrefix_ok [OF assms(1,2) le assms(4)] lcp_take_left [of l "sliceBits key"] assms(3,4) by (simp add: p_def)
  have "p \<le> length l" by (simp add: p_def lcp_le)
  then have s: "SkipBits (if p < length l then p + 1 else p) label = (Inr (), consumed (if p < length l then p + 1 else p) 0 label)"
    "SkipBits (if p < length l then p + 1 else p) key = (Inr (), consumed (if p < length l then p + 1 else p) 0 key)"
    using le assms(4) by (auto intro!: SkipBits_ok)
  have m: "min (length l) (BitsLeft key) = length l" using assms(4) by simp
  show ?thesis unfolding consumeCommonPrefix_def split_beta fst_conv snd_conv m Let_def c using False s by simp
qed

lemma sameLoop_ok:
  assumes "slice_ok key" "limit \<le> BitsLeft key" "m \<le> limit"
  shows "sameLoop key b limit m =
    (let r = m + lcp (replicate (limit - m) b) (chunkBits key m (limit - m)) in Inr (r, if r < limit then r + 1 else r))"
  using assms
proof (induction key b limit m rule: sameLoop.induct)
  case (1 key b limit m)
  show ?case
  proof (cases "m < limit")
    case True
    define n where "n = min 64 (limit - m)"
    have n: "n \<le> 64" "0 < n" "m + n \<le> limit" using True by (auto simp: n_def)
    let ?x = "chunkBits key m n" and ?w = "replicate n b"
    have len: "length ?x = n" using n 1(3) by simp
    have load: "preloadSliceUIntAt key m n = Inr (word_of_nat (uintOf ?x))"
      using 1(2,3) n by (intro preloadSliceUIntAt_ok) simp_all
    have w: "sameBitsValue b n = word_of_nat (uintOf ?w)" using sameBitsValue_eq [of ?w b] n(1) by simp
    have eq: "(word_of_nat (uintOf ?x) :: 64 word) = word_of_nat (uintOf ?w) \<longleftrightarrow> ?w = ?x"
      using word_uintOf_eq [of ?x ?w] len n by auto
    have mm: "?w \<noteq> ?x \<Longrightarrow> n - Len64 (word_of_nat (uintOf ?x) XOR word_of_nat (uintOf ?w)) = lcp ?w ?x"
      using Len64_mismatch [of ?w ?x] len n(1) by (simp add: xor.commute)
    have step: "sameLoop key b limit m = (if ?w = ?x then sameLoop key b limit (m + n)
        else Inr (m + lcp ?w ?x, m + lcp ?w ?x + 1))"
      using True load eq mm w unfolding sameLoop.simps [of key b limit m]
      by (simp add: Let_def flip: n_def)
    have sp: "chunkBits key m (limit - m) = ?x @ chunkBits key (m + n) (limit - (m + n))"
        "replicate (limit - m) b = ?w @ replicate (limit - (m + n)) b"
      using chunk_split [of n "limit - m" m "sliceBits key"] n by (simp_all add: diff_diff_left flip: replicate_add)
    show ?thesis
    proof (cases "?w = ?x")
      case c: True
      have "sameLoop key b limit (m + n) = (let r = m + n + lcp (replicate (limit - (m + n)) b) (chunkBits key (m + n) (limit - (m + n))) in
          Inr (r, if r < limit then r + 1 else r))"
        using 1(1) [OF True n_def refl load] c eq w 1(2,3) n by simp
      then show ?thesis unfolding step sp using c len by (simp add: lcp_append Let_def)
    next
      case False
      have "lcp ?w ?x < n" using lcp_eq_length [of ?w ?x] lcp_le(1) [of ?w ?x] False len by (simp add: le_less)
      then show ?thesis unfolding step sp using False len n by (simp add: lcp_append Let_def)
    qed
  next
    case False
    then show ?thesis using 1(4) by (subst sameLoop.simps) (simp add: Let_def)
  qed
qed

lemma consumeSameBitPrefix_ok:
  fixes b :: bool
  assumes "slice_ok key" "ln \<le> BitsLeft key"
  defines "p \<equiv> lcp (replicate ln b) (sliceBits key)"
  shows "consumeSameBitPrefix (of_bool b) ln key = (Inr p, consumed (if p < ln then p + 1 else p) 0 key)"
proof (cases "ln = 0")
  case True then show ?thesis by (simp add: consumeSameBitPrefix_def act_simps p_def)
next
  case False
  have pe: "lcp (replicate ln b) (take ln (sliceBits key)) = p"
    using lcp_take_left [of "replicate ln b" "sliceBits key"] assms(2) by (simp add: p_def)
  have "p \<le> ln" using lcp_le(1) [of "replicate ln b" "sliceBits key"] by (simp add: p_def)
  then have "SkipBits (if p < ln then p + 1 else p) key = (Inr (), consumed (if p < ln then p + 1 else p) 0 key)"
    using assms(2) by (intro SkipBits_ok) auto
  then show ?thesis using sameLoop_ok [OF assms(1,2), of 0 b] pe False assms(2)
    by (simp add: consumeSameBitPrefix_def act_simps Let_def min_absorb1)
qed

lemma matchLabelView_ok:
  assumes "slice_ok label" "sliceBits label = l" "slice_ok key" "length l \<le> BitsLeft key"
  defines "p \<equiv> lcp l (sliceBits key)"
  shows "matchLabelView label (length l) key =
    (if p < length l then (Inr (p, sliceBits key ! p, True), consumed (p + 1) 0 key)
     else (Inr (p, False, False), consumed p 0 key))"
proof (cases "l = []")
  case True then show ?thesis by (simp add: matchLabelView_def act_simps p_def)
next
  case False
  have le: "length l \<le> BitsLeft label" using arg_cong [OF assms(2), of length] by simp
  have c: "commonSlicePrefix label key (length l) = Inr p"
    using commonSlicePrefix_ok [OF assms(1,3) le assms(4)] lcp_take_left [of l "sliceBits key"] assms(2,4) by (simp add: p_def)
  have "p \<le> length l" by (simp add: p_def lcp_le)
  then show ?thesis using c False assms(3,4) BitAt_ok [OF assms(3), of p]
    by (auto simp: matchLabelView_def act_simps Let_def min_absorb1 SkipBits_ok)
qed

subsection \<open>Reading and comparing at once\<close>

lemma consumeLabel_ok:
  assumes "slice_ok label" "slice_ok key" "sliceBits label = l @ rest" "length l \<le> BitsLeft key"
  defines "p \<equiv> lcp l (sliceBits key)"
  shows "consumeLabel (length l) (label, key) = (Inr (length l, p),
    (consumed (if p < length l then p + 1 else p) 0 label, consumed (if p < length l then p + 1 else p) 0 key))"
  unfolding consumeLabel_def bnd_apply consumeCommonPrefix_ok [OF assms(1-4)] p_def by simp

text \<open>The label's length, the length of the match, and the key past the label where it matches throughout.\<close>

definition label_match :: "bool list \<Rightarrow> slice \<Rightarrow> slice \<Rightarrow> (go_error + nat \<times> nat) \<times> slice \<times> slice \<Rightarrow> bool" where
  "label_match l loader key r \<longleftrightarrow> (let p = lcp l (sliceBits key) in
     fst r = Inr (length l, p) \<and> snd (snd r) = consumed (if p < length l then p + 1 else p) 0 key \<and>
     (p = length l \<longrightarrow> fst (snd r) = loader))"

lemma onLoader_apply: "onLoader m (c, key) = (case m c of (r, c1) \<Rightarrow> (r, (c1, key)))"
  by (simp add: onLoader_def)

lemma matchLabelPrefix_ok:
  assumes "slice_ok c" "sliceBits c = bs @ rest" "label_enc n l bs" "n < 1024" "slice_ok key" "length l \<le> BitsLeft key"
  shows "label_match l (consumed (length bs) 0 c) key (matchLabelPrefix n (c, key))"
proof -
  have len: "length l \<le> n" "length l < 1024" using assms(3,4) by (auto simp: label_enc_def)
  have ple: "lcp l (sliceBits key) \<le> length l" by (rule lcp_le)
  consider (s) "bs = shortLabel l" | (l) "bs = longLabel n l" | (e) b where "l = replicate (length l) b" "bs = sameLabel n b (length l)"
    using assms(3) by (auto simp: label_enc_def)
  then show ?thesis
  proof cases
    case s
    have b: "sliceBits c = [False] @ ((replicate (length l) True @ [False]) @ (l @ rest))"
      using assms(2) s by (simp add: shortLabel_def)
    note c1 = consumed_bits [OF assms(1) b]
    note c2 = consumed_bits [OF c1(1,2)]
    have "length l \<le> BitsLeft (consumed (length (replicate (length l) True @ [False])) 0 (consumed (length [False]) 0 c))"
      using arg_cong [OF c2(2), of length] by simp
    then have "matchLabelPrefix n (c, key) = consumeLabel (length l) (consumed (length l + 2) 0 c, key)"
      using reads_bits [OF reads_bit assms(1) b] reads_bits [OF reads_loadUnaryLength c1(1,2)] len
      by (simp add: matchLabelPrefix_def Let_def onLoader_apply act_simps)
    then show ?thesis using consumeLabel_ok [OF _ assms(5), of "consumed (length l + 2) 0 c" l rest] c2 assms(6) ple
      by (simp add: label_match_def Let_def s label_lengths mult_2)
  next
    case l
    let ?n = "bitsInt (bitLen (int n)) (int (length l))"
    have b: "sliceBits c = [True] @ ([False] @ (?n @ (l @ rest)))" using assms(2) l by (simp add: longLabel_def)
    note c1 = consumed_bits [OF assms(1) b]
    note c2 = consumed_bits [OF c1(1,2)]
    note c3 = consumed_bits [OF c2(1,2)]
    have "length l \<le> BitsLeft (consumed (length ?n) 0 (consumed (length [False]) 0 (consumed (length [True]) 0 c)))"
      using arg_cong [OF c3(2), of length] by simp
    then have "matchLabelPrefix n (c, key) = consumeLabel (length l) (consumed (2 + bitLen (int n)) 0 c, key)"
      using reads_bits [OF reads_bit assms(1) b] reads_bits [OF reads_bit c1(1,2)] len unat_length [OF len(2)]
        reads_bits [OF reads_length [OF len(1) assms(4)] c2(1,2)]
      by (simp add: matchLabelPrefix_def Let_def onLoader_apply act_simps)
    then show ?thesis using consumeLabel_ok [OF _ assms(5), of "consumed (2 + bitLen (int n)) 0 c" l rest] c3 assms(6) ple
      by (simp add: label_match_def Let_def l label_lengths)
  next
    case e
    let ?n = "bitsInt (bitLen (int n)) (int (length l))"
    have b: "sliceBits c = [True] @ ([True] @ ([b] @ (?n @ rest)))" using assms(2) e(2) by (simp add: sameLabel_def)
    note c1 = consumed_bits [OF assms(1) b]
    note c2 = consumed_bits [OF c1(1,2)]
    note c3 = consumed_bits [OF c2(1,2)]
    have "matchLabelPrefix n (c, key) = (Inr (length l, lcp l (sliceBits key)), (consumed (3 + bitLen (int n)) 0 c,
        consumed (if lcp l (sliceBits key) < length l then lcp l (sliceBits key) + 1 else lcp l (sliceBits key)) 0 key))"
      using reads_bits [OF reads_bit assms(1) b] reads_bits [OF reads_bit c1(1,2)] reads_bits [OF reads_bit c2(1,2)] len unat_length [OF len(2)]
        reads_bits [OF reads_length [OF len(1) assms(4)] c3(1,2)] consumeSameBitPrefix_ok [OF assms(5,6), of b] e(1)
      by (simp add: matchLabelPrefix_def Let_def onLoader_apply onKey_def act_simps numeral_3_eq_3)
    then show ?thesis using e(2) ple by (simp add: label_match_def label_lengths Let_def)
  qed
qed

subsection \<open>The writer\<close>

lemma sameBitLoop_ok:
  assumes "slice_ok data" "ln \<le> BitsLeft data" "off \<le> ln"
  shows "sameBitLoop data want ln off = Inr (chunkBits data off (ln - off) = replicate (ln - off) want)"
  using assms
proof (induction data want ln off rule: sameBitLoop.induct)
  case (1 data want ln off)
  show ?case
  proof (cases "off < ln")
    case True
    define n where "n = min 64 (ln - off)"
    have n: "n \<le> 64" "0 < n" "off + n \<le> ln" using True by (auto simp: n_def)
    let ?x = "chunkBits data off n" and ?w = "replicate n want"
    have len: "length ?x = n" using n 1(3) by simp
    have load: "preloadSliceUIntAt data off n = Inr (word_of_nat (uintOf ?x))"
      using 1(2,3) n by (intro preloadSliceUIntAt_ok) simp_all
    have w: "sameBitsValue want n = word_of_nat (uintOf ?w)" using sameBitsValue_eq [of ?w want] n(1) by simp
    have eq: "(word_of_nat (uintOf ?x) :: 64 word) = word_of_nat (uintOf ?w) \<longleftrightarrow> ?x = ?w"
      using word_uintOf_eq [of ?x ?w] len n by auto
    have step: "sameBitLoop data want ln off = (if ?x \<noteq> ?w then Inr False else sameBitLoop data want ln (off + n))"
      using True load eq w unfolding sameBitLoop.simps [of data want ln off] by (simp add: Let_def flip: n_def)
    have sp: "chunkBits data off (ln - off) = ?x @ chunkBits data (off + n) (ln - (off + n))"
        "replicate (ln - off) want = ?w @ replicate (ln - (off + n)) want"
      using chunk_split [of n "ln - off" off "sliceBits data"] n by (simp_all add: diff_diff_left flip: replicate_add)
    show ?thesis
    proof (cases "?x = ?w")
      case c: True
      have "sameBitLoop data want ln (off + n) = Inr (chunkBits data (off + n) (ln - (off + n)) = replicate (ln - (off + n)) want)"
        using 1(1) [OF True n_def load] c w 1(2,3) n by simp
      then show ?thesis unfolding step sp using c by simp
    next
      case False
      then show ?thesis unfolding step sp using len by simp
    qed
  next
    case False
    then show ?thesis using 1(4) by (subst sameBitLoop.simps) simp
  qed
qed

lemma dictLabelSliceSameBit_ok:
  assumes "slice_ok data" "sliceBits data = l" "l \<noteq> []"
  shows "dictLabelSliceSameBit data (length l) =
    Inr (if l = replicate (length l) (hd l) then (of_bool (hd l), True) else (0, False))"
proof -
  have left: "BitsLeft data = length l" using arg_cong [OF assms(2), of length] by simp
  have "fst (BitAt 0 data) = Inr (of_bool (hd l))"
    using BitAt_ok [OF assms(1), of 0] left assms(2,3) by (simp add: hd_conv_nth)
  moreover have "sameBitLoop data (hd l) (length l) 0 = Inr (l = replicate (length l) (hd l))"
    using sameBitLoop_ok [OF assms(1), of "length l" 0 "hd l"] left assms(2) by simp
  ultimately show ?thesis using assms(3) by (simp add: dictLabelSliceSameBit_def)
qed

lemma emits_storeSliceBits:
  assumes "slice_ok data" "sliceBits data = l" shows "emits (storeSliceBits data (length l)) l []"
proof (rule emitsI_bits)
  fix b assume b: "builder_ok b" "b_bitsSz b + length l < 1024"
  have le: "length l \<le> BitsLeft data" using arg_cong [OF assms(2), of length] by simp
  obtain b' where "storeSliceFromSlice (length l) (b, data) = (Inr (), (b', data\<lparr>sl_bitStart := sl_bitStart data + length l\<rparr>))" "builder_ok b'"
      "b_refs b' = b_refs b" "builderBits b' = builderBits b @ take (length l) (sliceBits data)"
    by (rule storeSliceFromSlice_ok [OF assms(1) le b])
  then show "\<exists>b'. storeSliceBits data (length l) b = (Inr (), b') \<and> builder_ok b' \<and> b_refs b' = b_refs b \<and>
      builderBits b' = builderBits b @ l"
    using assms(2) by (simp add: storeSliceBits_def)
qed

lemma emits_bit: "emits (StoreUInt (of_bool b) 1) [b] []"
  using emits_StoreUInt [of 1 "of_bool b"] by (cases b) simp_all

lemma bits2: "bitsInt 2 0 = [False, False]" "bitsInt 2 2 = [True, False]" "bitsInt 2 3 = [True, True]"
  by code_simp+

lemma emits_two: "emits (StoreUInt 0 2) [False, False] []" "emits (StoreUInt 2 2) [True, False] []" "emits (StoreUInt 3 2) [True, True] []"
  using emits_StoreUInt [of 2 0] emits_StoreUInt [of 2 2] emits_StoreUInt [of 2 3] by (simp_all add: bits2)

lemma emits_zero: "emits (StoreUInt 0 1) [False] []"
  using emits_bit [of False] by simp

lemma bnd_lift_Inr: "bnd (lift_sum (Inr x)) f = f x"
  by (rule ext) (simp add: bnd_apply)

lemma emits_length:
  assumes "k \<le> n" "n < 1024"
  shows "emits (StoreUInt (word_of_nat k) (bitLen (int n))) (bitsInt (bitLen (int n)) (int k)) []"
proof -
  have "int n < 2 ^ bitLen (int n)" using bitLen_le [of "int n" "bitLen (int n)"] by simp
  moreover have "uint (word_of_nat k :: 64 word) = int k" using assms by (simp add: unsigned_of_nat take_bit_nat_eq_self)
  ultimately show ?thesis
    using emits_StoreUInt [of "bitLen (int n)" "word_of_nat k"] bitLen_small [OF assms(2)] assms by simp
qed

lemma emits_storeDictLabel:
  assumes "slice_ok data" "sliceBits data = l" "length l \<le> n" "n < 1024"
  shows "emits (storeDictLabel data n) (labelBits n l) []"
proof (cases "l = []")
  case True
  then show ?thesis using emits_two(1) length_sliceBits [of data] assms(2)
    by (simp add: storeDictLabel_def labelBits_def shortLabel_def)
next
  case False
  have left: "BitsLeft data = length l" using arg_cong [OF assms(2), of length] by simp
  have "emits (seq (StoreUInt 0 1) (seq (StoreSameBit True (length l)) (seq (StoreUInt 0 1) (storeSliceBits data (length l)))))
      ([False] @ replicate (length l) True @ [False] @ l) ([] @ [] @ [] @ [])"
    by (intro emits_seq emits_zero emits_StoreSameBit emits_storeSliceBits assms)
  then have short: "emits (seq (StoreUInt 0 1) (seq (StoreSameBit True (length l)) (seq (StoreUInt 0 1) (storeSliceBits data (length l)))))
      (shortLabel l) []" by (simp add: shortLabel_def)
  have "emits (seq (StoreUInt 2 2) (seq (StoreUInt (word_of_nat (length l)) (bitLen (int n))) (storeSliceBits data (length l))))
      ([True, False] @ bitsInt (bitLen (int n)) (int (length l)) @ l) ([] @ [] @ [])"
    by (intro emits_seq emits_two emits_length emits_storeSliceBits assms)
  then have long: "emits (seq (StoreUInt 2 2) (seq (StoreUInt (word_of_nat (length l)) (bitLen (int n))) (storeSliceBits data (length l))))
      (longLabel n l) []" by (simp add: longLabel_def)
  have "emits (seq (StoreUInt 3 2) (seq (StoreUInt (of_bool b) 1) (StoreUInt (word_of_nat (length l)) (bitLen (int n)))))
      ([True, True] @ [b] @ bitsInt (bitLen (int n)) (int (length l))) ([] @ [] @ [])" for b
    by (intro emits_seq emits_two emits_length emits_bit assms)
  then have same: "emits (storeDictSame (length l) (bitLen (int n)) (of_bool b)) (sameLabel n b (length l)) []" for b
    by (simp add: sameLabel_def storeDictSame_def)
  have ln: "length l > 0" using False by simp
  show ?thesis
    using short long same [of "hd l"] dictLabelSliceSameBit_ok [OF assms(1,2) False] False ln left
    by (auto simp: storeDictLabel_def labelBits_def Let_def dictLabelSizeBits_def bnd_lift_Inr)
qed

text \<open>The writer's choice is an encoding, the shortest one, and it does not grow when the label is cut.\<close>

lemma replicate_hd: "l = replicate (length l) b \<Longrightarrow> l \<noteq> [] \<Longrightarrow> hd l = b"
  by (metis hd_replicate length_0_conv)

lemma label_enc_labelBits: "length l \<le> n \<Longrightarrow> label_enc n l (labelBits n l)"
  by (auto simp: labelBits_def label_enc_def Let_def)

lemma bitLen_pos: "0 < n \<Longrightarrow> 0 < bitLen (int n)"
  by (subst bitLen.simps) simp

lemma labelBits_shortest:
  assumes "label_enc n l bs" shows "length (labelBits n l) \<le> length bs"
proof -
  let ?k = "bitLen (int n)"
  have len: "length l \<le> n" using assms by (simp add: label_enc_def)
  have s: "length (labelBits n l) \<le> 2 * length l + 2" "length (labelBits n l) \<le> 2 + ?k + length l"
    by (auto simp: labelBits_def Let_def label_lengths)
  consider "bs = shortLabel l \<or> bs = longLabel n l" | b where "l = replicate (length l) b" "bs = sameLabel n b (length l)"
    using assms by (auto simp: label_enc_def)
  then show ?thesis
  proof cases
    case 1
    then show ?thesis using s by (auto simp: label_lengths)
  next
    case 2
    have "l = [] \<or> hd l = b" using replicate_hd [OF 2(1)] by blast
    moreover have "length l = 1 \<Longrightarrow> 0 < ?k" using bitLen_pos [of n] len by simp
    ultimately show ?thesis using 2
      by (cases "length l > 1 \<and> ?k < 2 * length l - 1") (auto simp: labelBits_def Let_def label_lengths)
  qed
qed

lemma bitLen_mono: "m \<le> n \<Longrightarrow> bitLen (int m) \<le> bitLen (int n)"
  using bitLen_le [of "int m" "bitLen (int n)"] bitLen_le [of "int n" "bitLen (int n)"] by simp

lemma labelBits_cut:
  assumes "label_enc n l bs" "m \<le> n" "length l' \<le> m" "length l' \<le> length l" "set l' \<subseteq> set l"
  shows "length (labelBits m l') \<le> length bs"
proof -
  have k: "bitLen (int m) \<le> bitLen (int n)" using assms(2) by (rule bitLen_mono)
  consider (s) "bs = shortLabel l" | (l) "bs = longLabel n l" | (e) b where "l = replicate (length l) b" "bs = sameLabel n b (length l)"
    using assms(1) by (auto simp: label_enc_def)
  then show ?thesis
  proof cases
    case s
    then show ?thesis using labelBits_shortest [of m l' "shortLabel l'"] assms(3,4) by (simp add: label_enc_def label_lengths)
  next
    case l
    then show ?thesis using labelBits_shortest [of m l' "longLabel m l'"] assms(3,4) k by (simp add: label_enc_def label_lengths)
  next
    case e
    have "set l \<subseteq> {b}" by (subst e(1)) auto
    then have "l' = replicate (length l') b" using assms(5) by (metis replicate_eqI singletonD subsetD)
    then have "label_enc m l' (sameLabel m b (length l'))" using assms(3) by (auto simp: label_enc_def)
    then show ?thesis using labelBits_shortest e(2) k by (fastforce simp: label_lengths)
  qed
qed

lemma labelBits_le: "length l \<le> n \<Longrightarrow> length (labelBits n l) \<le> 2 + bitLen (int n) + n"
  by (auto simp: labelBits_def Let_def label_lengths)

end
