(* ===== verification/Dict_Core.thy ===== *)
theory Dict_Core
  imports Dict_Label
begin

section \<open>Dictionary nodes\<close>

text \<open>
  \<^verbatim>\<open>dict_core.go\<close> and \<^verbatim>\<open>ref_view.go\<close>: a parsed node of a fixed-key dictionary, the checks on its shape, and the
  operations that rebuild it.  Traces and resolvers for library cells are off, so a special cell
  is always rejected.  Where the code compares pointers (\<open>label.cell != node.cell\<close>) the model has a flag:
  the label lies outside the node exactly when the node uses the same-bit form.  A replaced
  child is freshly built, so the test whether it is the old pointer always fails.
\<close>

definition sbind :: "go_error + 'a \<Rightarrow> ('a \<Rightarrow> go_error + 'b) \<Rightarrow> go_error + 'b" where
  "sbind m f = (case m of Inl e \<Rightarrow> Inl e | Inr x \<Rightarrow> f x)"

definition rn :: "('s, 'a) action \<Rightarrow> 's \<Rightarrow> go_error + ('a \<times> 's)" where
  "rn m s = (case m s of (Inl e, _) \<Rightarrow> Inl e | (Inr x, t) \<Rightarrow> Inr (x, t))"

lemma sbind_cong [fundef_cong]: "m = m' \<Longrightarrow> (\<And>x. m' = Inr x \<Longrightarrow> f x = g x) \<Longrightarrow> sbind m f = sbind m' g"
  by (auto simp: sbind_def split: sum.split)

lemma sbind_simps [simp]: "sbind (Inl e) f = Inl e" "sbind (Inr x) f = f x"
  by (simp_all add: sbind_def)

lemma rn_Inr: "m s = (Inr x, t) \<Longrightarrow> rn m s = Inr (x, t)"
  by (simp add: rn_def)

definition ErrInvalidDictForkNode :: go_error where
  "ErrInvalidDictForkNode = OtherError ''invalid dictionary fork node''"

definition ErrDictHasSpecialCells :: go_error where
  "ErrDictHasSpecialCells = OtherError ''has special cells in tree structure''"

definition ErrNoSuchKeyInDict :: go_error where
  "ErrNoSuchKeyInDict = OtherError ''no such key in dict''"

record fixedDictNode =
  fn_cell :: cell
  fn_loader :: slice
  fn_label :: slice
  fn_labelLen :: nat
  fn_static :: bool

definition parseFixedDictNode :: "cell \<Rightarrow> nat \<Rightarrow> go_error + fixedDictNode" where
  "parseFixedDictNode branch remaining =
     (let loader = newSliceFromCell branch in
      if cell_special branch
      then Inr \<lparr>fn_cell = branch, fn_loader = loader, fn_label = newSliceFromCell emptyCell, fn_labelLen = 0, fn_static = True\<rparr>
      else sbind (rn (readLabelView remaining) loader) (\<lambda>(lv, loader1).
        Inr \<lparr>fn_cell = branch, fn_loader = loader1, fn_label = lv_label lv, fn_labelLen = lv_len lv, fn_static = lv_static lv\<rparr>))"

definition isLeaf :: "fixedDictNode \<Rightarrow> nat \<Rightarrow> bool" where
  "isLeaf n remaining \<longleftrightarrow> fn_labelLen n = remaining"

definition nextKeyBits :: "fixedDictNode \<Rightarrow> nat \<Rightarrow> nat" where
  "nextKeyBits n remaining = remaining - fn_labelLen n - 1"

definition nodeRef :: "fixedDictNode \<Rightarrow> nat \<Rightarrow> go_error + cell" where
  "nodeRef n i = fst (refAndTraceAt i (fn_loader n))"

definition rejectSpecial :: "fixedDictNode \<Rightarrow> go_error + unit" where
  "rejectSpecial n = (if cell_special (fn_cell n) then Inl ErrDictHasSpecialCells else Inr ())"

definition validateForkShape :: "fixedDictNode \<Rightarrow> nat \<Rightarrow> bool \<Rightarrow> go_error + unit" where
  "validateForkShape n remaining lenient =
     (if fn_labelLen n \<ge> remaining then Inr ()
      else if lenient then (if RefsNum (fn_loader n) < 2 then Inl ErrInvalidDictForkNode else Inr ())
      else if BitsLeft (fn_loader n) \<noteq> 0 \<or> RefsNum (fn_loader n) \<noteq> 2 then Inl ErrInvalidDictForkNode
      else Inr ())"

text \<open>The way every walk enters a node: parse it, refuse special cells, check the shape of a fork.\<close>

definition openNode :: "cell \<Rightarrow> nat \<Rightarrow> go_error + fixedDictNode" where
  "openNode branch remaining =
     sbind (parseFixedDictNode branch remaining) (\<lambda>node.
     sbind (rejectSpecial node) (\<lambda>_.
     sbind (validateForkShape node remaining False) (\<lambda>_. Inr node)))"

subsection \<open>Canonical labels\<close>

definition canonicalLabelFast :: "fixedDictNode \<Rightarrow> nat \<Rightarrow> bool \<times> bool" where
  "canonicalLabelFast n maxLen =
     (let ln = fn_labelLen n; lengthBits = dictLabelSizeBits maxLen;
          sameOptimal = (ln > 1 \<and> lengthBits < 2 * ln - 1)
      in if fn_static n then (sameOptimal, True)
         else let isLong = (cell_data (fn_cell n) ! 0 AND 0x80 \<noteq> 0) in
           if isLong \<noteq> (lengthBits < ln) then (False, True)
           else if sameOptimal then (False, False)
           else (True, True))"

definition hasCanonicalLabel :: "fixedDictNode \<Rightarrow> nat \<Rightarrow> go_error + bool" where
  "hasCanonicalLabel n maxLen =
     (case canonicalLabelFast n maxLen of
        (canonical, True) \<Rightarrow> Inr canonical
      | (_, False) \<Rightarrow> sbind (dictLabelSliceSameBit (fn_label n) (fn_labelLen n)) (\<lambda>(_, same). Inr (\<not> same)))"

subsection \<open>Rebuilding a node\<close>

definition refreshLevelMaskForRefs :: "digest \<Rightarrow> cell \<Rightarrow> go_error + cell" where
  "refreshLevelMaskForRefs sha c =
     (case c of Cell d n special m refs \<Rightarrow>
        sbind (validateCellRefDepthLimit refs) (\<lambda>_.
          let mask = ordinaryLevelMask refs in
          if \<not> special then Inr (Cell d n special (setLevelMask mask) refs)
          else let c1 = (case computeType c of
                   MerkleProofCellType \<Rightarrow> (if length refs = 1 then Cell d n special (setLevelMask (drop_bit 1 (cell_levelMask (refs ! 0)))) refs else c)
                 | MerkleUpdateCellType \<Rightarrow> (if length refs = 2 then Cell d n special (setLevelMask (drop_bit 1 mask)) refs else c)
                 | _ \<Rightarrow> c)
            in sbind (validateCell sha c1) (\<lambda>_. Inr c1)))"

text \<open>The code first compares the new reference with the old one as pointers; a walk only gets here with a cell it has just built, so the
  test is never true.\<close>

definition refViewCloneWithRef :: "digest \<Rightarrow> cell \<Rightarrow> nat \<Rightarrow> cell \<Rightarrow> go_error + cell" where
  "refViewCloneWithRef sha c i ref =
     (case c of Cell d n special m refs \<Rightarrow>
        sbind (refreshLevelMaskForRefs sha (Cell d n special m (refs[i := ref]))) (withHashes sha))"

definition cloneWithRef :: "digest \<Rightarrow> fixedDictNode \<Rightarrow> nat \<Rightarrow> cell option \<Rightarrow> go_error + cell" where
  "cloneWithRef sha n i ref =
     (case ref of
        None \<Rightarrow> Inl (CellError ErrRefCannotBeNil)
      | Some r \<Rightarrow> if i \<ge> length (cell_refs (fn_cell n)) then Inl (CellError ErrNoMoreRefs)
                  else refViewCloneWithRef sha (fn_cell n) i r)"

definition storeDictNode :: "digest \<Rightarrow> slice \<Rightarrow> builder \<Rightarrow> nat \<Rightarrow> go_error + cell" where
  "storeDictNode sha label payload keyLen =
     sbind (rn (seq (storeDictLabel label keyLen) (storeBuilder payload False)) BeginCell) (\<lambda>(_, b). EndCellSpecial sha b False)"

definition forkPayload :: "cell option \<Rightarrow> cell option \<Rightarrow> go_error + builder" where
  "forkPayload left right =
     sbind (rn (seq (StoreRefUncheckedDepth left) (StoreRefUncheckedDepth right)) BeginCell) (\<lambda>(_, b). Inr b)"

definition rebuildNonCanonicalFixedForkWithRef :: "digest \<Rightarrow> fixedDictNode \<Rightarrow> nat \<Rightarrow> cell option \<Rightarrow> nat \<Rightarrow> go_error + cell" where
  "rebuildNonCanonicalFixedForkWithRef sha n i ref remaining =
     sbind (nodeRef n 0) (\<lambda>left. sbind (nodeRef n 1) (\<lambda>right.
       sbind (if i = 0 then forkPayload ref (Some right) else forkPayload (Some left) ref) (\<lambda>payload.
         storeDictNode sha (fn_label n) payload remaining)))"

text \<open>The last step of every mutating walk: keep a canonical label, or write it again.\<close>

definition replaceChild :: "digest \<Rightarrow> fixedDictNode \<Rightarrow> nat \<Rightarrow> nat \<Rightarrow> cell option \<Rightarrow> go_error + cell" where
  "replaceChild sha n keyOffset i ref =
     (let (canonical, decided) = canonicalLabelFast n keyOffset in
      sbind (if decided then Inr canonical else hasCanonicalLabel n keyOffset) (\<lambda>canonical.
        if canonical then cloneWithRef sha n i ref
        else rebuildNonCanonicalFixedForkWithRef sha n i ref keyOffset))"

definition splitLabel :: "fixedDictNode \<Rightarrow> nat \<Rightarrow> go_error + slice \<times> slice" where
  "splitLabel n matched =
     sbind (rn (SkipBits (matched + 1)) (fn_label n)) (\<lambda>(_, remainder).
       Inr ((fn_label n)\<lparr>sl_bitEnd := sl_bitStart (fn_label n) + matched\<rparr>, remainder))"

definition builderSliceView :: "builder \<Rightarrow> slice" where
  "builderSliceView b =
     \<lparr>sl_cell = Cell (dataSlice b) (b_bitsSz b) False 0 [], sl_bitStart = 0, sl_bitEnd = b_bitsSz b, sl_refStart = 0, sl_refEnd = 0\<rparr>"

definition mergedEdgeLabel :: "fixedDictNode \<Rightarrow> 64 word \<Rightarrow> slice \<Rightarrow> go_error + slice" where
  "mergedEdgeLabel n edge label =
     sbind (rn (seq (storeSliceBits (fn_label n) (fn_labelLen n)) (seq (StoreUInt edge 1) (storeSliceBits label (BitsLeft label)))) BeginCell)
       (\<lambda>(_, b). Inr (builderSliceView b))"

text \<open>A cell as a builder: the bits past the end of the last byte are cleared.\<close>

definition cellToBuilder :: "cell \<Rightarrow> builder" where
  "cellToBuilder c =
     (let d = putBytes (replicate 128 0) 0 (cell_data c); n = cell_bitsSz c in
      \<lparr>b_data = (if n mod 8 \<noteq> 0 then d[n div 8 := d ! (n div 8) AND push_bit (8 - n mod 8) 0xFF] else d),
       b_refs = cell_refs c, b_bitsSz = n\<rparr>)"

end
