(* ===== verification/Dict_Ops.thy ===== *)
theory Dict_Ops
  imports Dict_Core
begin

section \<open>Dictionary operations\<close>

text \<open>
  \<^verbatim>\<open>dict.go\<close>: lookup, insertion, deletion, the smallest and largest key, the list of all entries and the
  construction from a sorted batch.  The key slice is consumed by the walk and not returned.  The
  recursions end because a child is a proper part of its node; the key sizes are those of
  the callers, so the subtractions of key bits do not wrap.
\<close>

datatype DictSetMode = DictSetModeReplace | DictSetModeAdd | DictSetModeSet

record dictSetValue =
  dsv_builder :: "builder option"
  dsv_cell :: "cell option"

definition storeLeaf :: "digest \<Rightarrow> slice \<Rightarrow> builder option \<Rightarrow> nat \<Rightarrow> go_error + cell option" where
  "storeLeaf sha keyPfx value keyOffset =
     (case value of
        None \<Rightarrow> Inr None
      | Some v \<Rightarrow> sbind (storeDictNode sha keyPfx v keyOffset) (\<lambda>c. Inr (Some c)))"

definition storeSetLeaf :: "digest \<Rightarrow> slice \<Rightarrow> dictSetValue \<Rightarrow> nat \<Rightarrow> go_error + cell option" where
  "storeSetLeaf sha keyPfx value keyOffset =
     (case dsv_cell value of
        None \<Rightarrow> storeLeaf sha keyPfx (dsv_builder value) keyOffset
      | Some c \<Rightarrow> storeLeaf sha keyPfx (Some (cellToBuilder c)) keyOffset)"

definition storeFork :: "digest \<Rightarrow> slice \<Rightarrow> cell option \<Rightarrow> cell option \<Rightarrow> nat \<Rightarrow> go_error + cell" where
  "storeFork sha label left right keyOffset =
     sbind (forkPayload left right) (\<lambda>b. storeDictNode sha label b keyOffset)"

subsection \<open>Termination of the descents\<close>

text \<open>The loads of a node advance in it and never leave it.\<close>

definition onCell :: "cell \<Rightarrow> slice \<Rightarrow> bool" where
  "onCell c s \<longleftrightarrow> sl_cell s = c \<and> sl_refEnd s = length (cell_refs c)"

named_theorems on_cell \<open>loads that stay on their cell\<close>

lemma keeps_bndT: "keeps I m (\<lambda>_. True) \<Longrightarrow> (\<And>x. keeps I (f x) Q) \<Longrightarrow> keeps I (bnd m f) Q"
  by (rule keeps_bnd)

lemma keeps_getS: "keeps I getS (\<lambda>_. True)"
  by (simp add: keeps_def)

lemmas keepsT = keeps_getS keeps_getS_bnd keeps_bndT keeps_seq keeps_if keeps_ret keeps_raise keeps_sum_case keeps_prod_case

lemma onCell_advance [on_cell]: "keeps (onCell c) (advance n) (\<lambda>_. True)"
  and onCell_SkipBits [on_cell]: "keeps (onCell c) (SkipBits n) (\<lambda>_. True)"
  by (auto simp: keeps_def advance_def SkipBits_def act_simps onCell_def)

lemma onCell_loadUintFast [on_cell]: "keeps (onCell c) (loadUintFast n p) (\<lambda>_. True)"
  unfolding loadUintFast_def Let_def by (intro keepsT on_cell) auto

lemma onCell_LoadBigUInt [on_cell]: "keeps (onCell c) (LoadBigUInt n) (\<lambda>_. True)"
  unfolding LoadBigUInt_def readBigNumber_def loadSliceInto_def by (intro keepsT on_cell) auto

lemma onCell_onCopy: "keeps (onCell c) m (\<lambda>_. True) \<Longrightarrow> keeps (onCell c) (onCopy m) (\<lambda>_. True)"
  by (fastforce simp: keeps_def onCopy_def split: prod.split sum.split)

lemma onCell_LoadUInt [on_cell]: "keeps (onCell c) (LoadUInt n) (\<lambda>_. True)"
  unfolding LoadUInt_def by (intro keepsT on_cell onCell_onCopy) auto

lemma onCell_unaryLoop [on_cell]: "keeps (onCell c) (unaryLoop ln cs) (\<lambda>_. True)"
proof (rule keepsI)
  fix s assume "onCell c s"
  then show "onCell c (snd (unaryLoop ln cs s))"
  proof (induction ln cs s rule: unaryLoop.induct)
    case (1 ln cs s)
    have skip: "SkipBits n s = (r, t) \<Longrightarrow> onCell c t" for n r t
      using keepsD1 [OF onCell_SkipBits [of c n], of s] 1(2) by simp
    have stop: "onCell c (snd (bnd (SkipBits n) (\<lambda>_. ret x) s))" for n x
      using skip [of n] by (auto simp: bnd_apply split: prod.split sum.split)
    show ?case
      unfolding unaryLoop.simps [of ln cs s] Let_def
      by (auto simp: 1(2) stop split: sum.split prod.split dest: skip intro!: 1(1) [OF refl])
  qed
qed simp

lemma onCell_loadUnaryLength [on_cell]: "keeps (onCell c) loadUnaryLength (\<lambda>_. True)"
  unfolding loadUnaryLength_def by (intro keepsT on_cell) auto

lemma onCell_labelDataView [on_cell]: "keeps (onCell c) (labelDataView n) (\<lambda>_. True)"
  unfolding labelDataView_def by (intro keepsT on_cell) auto

lemma onCell_readLabelView [on_cell]: "keeps (onCell c) (readLabelView n) (\<lambda>_. True)"
  unfolding readLabelView_def Let_def by (intro keepsT on_cell) auto

lemma onCell_appendKey [on_cell]: "keeps (onCell c) (appendKey n key) (\<lambda>_. True)"
  unfolding appendKey_def keeps_def storeSliceFromSlice_def onCell_def
  by (auto simp: Let_def split: prod.splits sum.splits if_splits)

lemma onCell_loadLabel [on_cell]: "keeps (onCell c) (loadLabel n key) (\<lambda>_. True)"
  unfolding loadLabel_def Let_def by (intro keepsT on_cell) auto

lemma refAndTraceAt_size:
  assumes "fst (refAndTraceAt i s) = Inr r" "onCell c s" shows "size r < size c"
proof -
  have "sl_refStart s + i < length (cell_refs c)" "r = cell_refs c ! (sl_refStart s + i)"
    using assms by (auto simp: refAndTraceAt_def act_simps RefsNum_def onCell_def split: if_splits)
  then show ?thesis by (simp add: size_ref)
qed

lemma openNode_size:
  assumes "openNode c n = Inr node" "nodeRef node i = Inr r" shows "size r < size c"
proof (rule refAndTraceAt_size)
  show "fst (refAndTraceAt i (fn_loader node)) = Inr r" using assms(2) by (simp add: nodeRef_def)
  have "onCell c (newSliceFromCell c)" by (simp add: onCell_def)
  then show "onCell c (fn_loader node)"
    using assms(1) keepsD1 [OF onCell_readLabelView [of c n], of "newSliceFromCell c"]
    by (auto simp: openNode_def sbind_def parseFixedDictNode_def rn_def Let_def split: sum.splits if_splits prod.splits)
qed

lemma rn_onCell: "keeps (onCell c) m (\<lambda>_. True) \<Longrightarrow> rn m (newSliceFromCell c) = Inr (x, s) \<Longrightarrow> onCell c s"
  using keepsD1 [of "onCell c" m "\<lambda>_. True" "newSliceFromCell c"] by (auto simp: rn_def onCell_def split: sum.splits prod.splits)

lemma keeps_fst: "keeps I m Q \<Longrightarrow> keeps (\<lambda>p. I (fst p)) (onLoader m) Q"
  by (force simp: keeps_def onLoader_def split: prod.split)

lemma keeps_fst_onKey: "keeps (\<lambda>p. I (fst p)) (onKey m) (\<lambda>_. True)"
  by (force simp: keeps_def onKey_def split: prod.split)

lemma onCell_consumeLabel: "keeps (\<lambda>p. onCell c (fst p)) (consumeLabel n) (\<lambda>_. True)"
proof -
  have "keeps (\<lambda>p. onCell c (fst p)) (consumeCommonPrefix n) (\<lambda>_. True)"
  proof (rule keepsI)
    fix p :: "slice \<times> slice" assume p: "onCell c (fst p)"
    have "SkipBits k (fst p) = (r, t) \<Longrightarrow> onCell c t" for k r t
      using keepsD1 [OF onCell_SkipBits [of c k], of "fst p"] p by simp
    then show "onCell c (fst (snd (consumeCommonPrefix n p)))"
      using p by (auto simp: consumeCommonPrefix_def Let_def split: sum.split prod.split)
  qed simp
  then show ?thesis unfolding consumeLabel_def by (intro keepsT) auto
qed

lemma matchLabelPrefix_onCell:
  assumes "rn (matchLabelPrefix n) (newSliceFromCell c, key) = Inr (x, (s, key1))" shows "onCell c s"
proof -
  have "keeps (\<lambda>p. onCell c (fst p)) (matchLabelPrefix n) (\<lambda>_. True)"
    unfolding matchLabelPrefix_def Let_def
    by (intro keepsT keeps_fst keeps_fst_onKey on_cell onCell_consumeLabel) auto
  from keepsD1 [OF this, of "(newSliceFromCell c, key)"] assms
  show ?thesis by (auto simp: rn_def onCell_def split: sum.splits prod.splits)
qed

subsection \<open>Insertion\<close>

definition mustLoadBit :: "slice \<Rightarrow> go_error + nat \<times> slice" where
  "mustLoadBit pfx = (case LoadUInt 1 pfx of (Inl _, _) \<Rightarrow> Inl GoPanic | (Inr v, p1) \<Rightarrow> Inr (unat v, p1))"

text \<open>The key leaves the edge at bit \<open>matched\<close>: the node keeps its payload under the rest of its label, the new leaf
  stands beside it, and a fork holds both.\<close>

definition splitEdge ::
    "digest \<Rightarrow> fixedDictNode \<Rightarrow> slice \<Rightarrow> nat \<Rightarrow> dictSetValue \<Rightarrow> nat \<Rightarrow> bool \<Rightarrow> go_error + cell" where
  "splitEdge sha node pfx keyOffset value matched isNewRight =
     sbind (splitLabel node matched) (\<lambda>(prefixLabel, labelRemainder).
     sbind (rn (seq (storeDictLabel labelRemainder (keyOffset - (matched + 1)))
                    (storeBuilder (ToBuilder (fn_loader node)) False)) BeginCell) (\<lambda>(_, oldChild).
     sbind (storeSetLeaf sha pfx value (keyOffset - (matched + 1))) (\<lambda>newChild.
     sbind (EndCellSpecial sha oldChild False) (\<lambda>oldChildCell.
       if isNewRight then storeFork sha prefixLabel (Some oldChildCell) newChild keyOffset
       else storeFork sha prefixLabel newChild (Some oldChildCell) keyOffset))))"

function dict_set ::
    "digest \<Rightarrow> cell option \<Rightarrow> slice \<Rightarrow> nat \<Rightarrow> dictSetValue \<Rightarrow> DictSetMode \<Rightarrow> go_error + cell option \<times> slice option \<times> bool" where
  "dict_set sha None pfx keyOffset value mode =
     (if mode = DictSetModeReplace then Inr (None, None, False)
      else sbind (storeSetLeaf sha pfx value keyOffset) (\<lambda>leaf. Inr (leaf, None, True)))"
| "dict_set sha (Some branch) pfx keyOffset value mode =
     sbind (openNode branch keyOffset) (\<lambda>node.
     sbind (rn (matchLabelView (fn_label node) (fn_labelLen node)) pfx) (\<lambda>((bitsMatches, isNewRight, _), pfx1).
       if bitsMatches = fn_labelLen node then
         if BitsLeft pfx1 = 0 then
           if mode = DictSetModeAdd then Inr (Some (fn_cell node), Some (fn_loader node), False)
           else sbind (storeSetLeaf sha (fn_label node) value keyOffset) (\<lambda>leaf. Inr (leaf, Some (fn_loader node), True))
         else
           sbind (mustLoadBit pfx1) (\<lambda>(refIdx, pfx2).
           sbind (nodeRef node refIdx) (\<lambda>ref.
           sbind (dict_set sha (Some ref) pfx2 (keyOffset - (bitsMatches + 1)) value mode) (\<lambda>(ref1, oldValue, changed).
             if \<not> changed then Inr (Some (fn_cell node), oldValue, False)
             else sbind (replaceChild sha node keyOffset refIdx ref1) (\<lambda>cloned. Inr (Some cloned, oldValue, True)))))
       else if mode = DictSetModeReplace then Inr (Some (fn_cell node), None, False)
       else sbind (splitEdge sha node pfx1 keyOffset value bitsMatches isNewRight) (\<lambda>c. Inr (Some c, None, True))))"
  by pat_completeness auto
termination
  by (relation "measure (\<lambda>(sha, branch, _). case branch of None \<Rightarrow> 0 | Some c \<Rightarrow> size c)") (auto dest: openNode_size)

subsection \<open>Deletion\<close>

text \<open>The neighbour of a removed leaf takes over the edge: its label grows by the fork's label and one bit.\<close>

definition mergeNeighbour :: "digest \<Rightarrow> fixedDictNode \<Rightarrow> nat \<Rightarrow> nat \<Rightarrow> nat \<Rightarrow> go_error + cell option" where
  "mergeNeighbour sha node keyOffset nextKeyOffset otherIdx =
     sbind (nodeRef node otherIdx) (\<lambda>otherRef.
     sbind (openNode otherRef nextKeyOffset) (\<lambda>otherNode.
     sbind (mergedEdgeLabel node (word_of_nat otherIdx) (fn_label otherNode)) (\<lambda>mergedLabel.
       storeLeaf sha mergedLabel (Some (ToBuilder (fn_loader otherNode))) keyOffset)))"

function lookupDelete :: "digest \<Rightarrow> cell \<Rightarrow> slice \<Rightarrow> nat \<Rightarrow> go_error + slice option \<times> cell option \<times> bool" where
  "lookupDelete sha branch pfx keyOffset =
     sbind (openNode branch keyOffset) (\<lambda>node.
     sbind (rn (consumeCommonPrefix (fn_labelLen node)) (fn_label node, pfx)) (\<lambda>(bitsMatches, (_, pfx1)).
       if bitsMatches < fn_labelLen node then Inr (None, None, False)
       else if BitsLeft pfx1 = 0 then Inr (Some (fn_loader node), None, True)
       else
         sbind (mustLoadBit pfx1) (\<lambda>(refIdx, pfx2).
         sbind (nodeRef node refIdx) (\<lambda>ref.
         sbind (lookupDelete sha ref pfx2 (keyOffset - (bitsMatches + 1))) (\<lambda>(removed, newChild, changed).
           if \<not> changed then Inr (None, None, False)
           else case newChild of
             None \<Rightarrow> sbind (mergeNeighbour sha node keyOffset (keyOffset - (bitsMatches + 1)) (1 - refIdx)) (\<lambda>merged.
                       Inr (removed, merged, True))
           | Some _ \<Rightarrow> sbind (replaceChild sha node keyOffset refIdx newChild) (\<lambda>cloned. Inr (removed, Some cloned, True)))))))"
  by pat_completeness auto
termination
  by (relation "measure (\<lambda>(sha, branch, _). size branch)") (auto dest: openNode_size)

subsection \<open>Lookup\<close>

definition badFork :: "slice \<Rightarrow> bool \<Rightarrow> bool" where
  "badFork s lenient \<longleftrightarrow> (sl_bitStart s \<noteq> sl_bitEnd s \<or> RefsNum s \<noteq> 2) \<and> (\<not> lenient \<or> RefsNum s < 2)"

function findKeySliceInto :: "cell \<Rightarrow> slice \<Rightarrow> bool \<Rightarrow> go_error + slice" where
  "findKeySliceInto branch lKey lenient =
     (if cell_special branch then Inl ErrDictHasSpecialCells
      else let remaining = BitsLeft lKey in
        sbind (rn (matchLabelPrefix remaining) (newSliceFromCell branch, lKey)) (\<lambda>r. case r of ((sz, matched), (branchSlice, key1)) \<Rightarrow>
          if matched \<noteq> sz then
            (if sz < remaining then
               sbind (rn (readLabelView remaining) (newSliceFromCell branch)) (\<lambda>(_, check).
                 if badFork check lenient then Inl ErrInvalidDictForkNode else Inl ErrNoSuchKeyInDict)
             else Inl ErrNoSuchKeyInDict)
          else if remaining = sz then Inr branchSlice
          else if badFork branchSlice lenient then Inl ErrInvalidDictForkNode
          else
            sbind (rn (LoadUInt 1) key1) (\<lambda>(idx, key2).
            sbind (fst (refAndTraceAt (unat idx) branchSlice)) (\<lambda>next1. findKeySliceInto next1 key2 lenient))))"
  by pat_completeness auto
termination
  by (relation "measure (\<lambda>(branch, _). size branch)") (auto dest: matchLabelPrefix_onCell refAndTraceAt_size)

declare lookupDelete.simps [simp del] findKeySliceInto.simps [simp del] dict_set.simps [simp del]

subsection \<open>The smallest and the largest key\<close>

function minMaxLoop :: "bool \<Rightarrow> bool \<Rightarrow> cell \<Rightarrow> nat \<Rightarrow> builder \<Rightarrow> go_error + builder \<times> slice" where
  "minMaxLoop fetchMax invertFirst branch remaining key =
     (if cell_special branch then Inl ErrDictHasSpecialCells
      else sbind (rn (loadLabel remaining key) (newSliceFromCell branch)) (\<lambda>r. case r of ((labelLen, key1), loader) \<Rightarrow>
        if labelLen < remaining \<and> (BitsLeft loader \<noteq> 0 \<or> RefsNum loader \<noteq> 2) then Inl ErrInvalidDictForkNode
        else if remaining - labelLen = 0 then Inr (key1, loader)
        else let b = (if BitsUsed key1 = 0 \<and> invertFirst then \<not> fetchMax else fetchMax) in
          sbind (rn (StoreBoolBit b) key1) (\<lambda>(_, key2).
          sbind (fst (refAndTraceAt (if b then 1 else 0) loader)) (\<lambda>next1.
            minMaxLoop fetchMax invertFirst next1 (remaining - labelLen - 1) key2))))"
  by pat_completeness auto
termination
  by (relation "measure (\<lambda>(_, _, branch, _). size branch)") (auto dest: rn_onCell [OF onCell_loadLabel] refAndTraceAt_size)

subsection \<open>All entries\<close>

lemma LoadRefCell_onCell: "rn LoadRefCell s = Inr (r, s1) \<Longrightarrow> onCell c s \<Longrightarrow> size r < size c \<and> onCell c s1"
  using refAndTraceAt_size [of 0 s r c]
  by (auto simp: rn_def LoadRefCell_def loadRefCell_def act_simps advanceRef_def onCell_def refAndTraceAt_def split: prod.splits sum.splits if_splits)

definition mustStoreBit :: "bool \<Rightarrow> builder \<Rightarrow> go_error + builder" where
  "mustStoreBit v b = (case StoreUInt (of_bool v) 1 b of (Inl _, _) \<Rightarrow> Inl GoPanic | (Inr _, b1) \<Rightarrow> Inr b1)"

text \<open>The walk shares one key builder: every level appends to it, and rolls it back after each child.\<close>

function mapInner :: "digest \<Rightarrow> nat \<Rightarrow> bool \<Rightarrow> (slice \<times> slice) list \<Rightarrow> nat \<Rightarrow> cell \<Rightarrow> builder \<Rightarrow> go_error + (slice \<times> slice) list \<times> builder" where
  "mapInner sha keySz skipPruned out leftKeySz c keyPrefix =
     (if cell_special c
      then if skipPruned \<and> computeType c = PrunedCellType then Inr (out, keyPrefix) else Inl ErrDictHasSpecialCells
      else sbind (rn (loadLabel leftKeySz keyPrefix) (newSliceFromCell c)) (\<lambda>r. case r of ((sz, key1), loader) \<Rightarrow>
        if BitsUsed key1 < keySz then
          let saved = BitsUsed key1 in
          sbind (rn LoadRefCell loader) (\<lambda>r1. case r1 of (left, loader1) \<Rightarrow>
          sbind (mustStoreBit False key1) (\<lambda>key2.
          sbind (mapInner sha keySz skipPruned out (leftKeySz - (1 + sz)) left key2) (\<lambda>(out1, key3).
          sbind (rn LoadRefCell loader1) (\<lambda>(right, _).
          sbind (mustStoreBit True (truncateBits saved key3)) (\<lambda>key4.
          sbind (mapInner sha keySz skipPruned out1 (leftKeySz - (1 + sz)) right key4) (\<lambda>(out2, key5).
            Inr (out2, truncateBits saved key5)))))))
        else sbind (ToSlice sha key1) (\<lambda>k. Inr (out @ [(k, loader)], key1))))"
  by pat_completeness auto
termination
  by (relation "measure (\<lambda>(_, _, _, _, _, c, _). size c)") (auto dest: rn_onCell [OF onCell_loadLabel] LoadRefCell_onCell)

declare minMaxLoop.simps [simp del] mapInner.simps [simp del]

end
