(* ===== verification/Dict_Tree.thy ===== *)
theory Dict_Tree
  imports Dict_Label "HOL-Library.List_Lexorder"
begin

section \<open>The abstract dictionary: Patricia trees\<close>

text \<open>
  What a dictionary of \<open>n\<close>-bit keys is before it is laid out in cells: a binary tree with labelled edges.
  Insertion and deletion update the map that the tree denotes, the tree is determined by that
  map, and its entries in order are the map's graph sorted by key.
\<close>

datatype 'v dtree = DLeaf "bool list" 'v | DFork "bool list" "'v dtree" "'v dtree"

fun dwf :: "nat \<Rightarrow> 'v dtree \<Rightarrow> bool" where
  "dwf n (DLeaf l v) \<longleftrightarrow> length l = n"
| "dwf n (DFork l a b) \<longleftrightarrow> length l < n \<and> dwf (n - Suc (length l)) a \<and> dwf (n - Suc (length l)) b"

fun dlookup :: "'v dtree \<Rightarrow> bool list \<Rightarrow> 'v option" where
  "dlookup (DLeaf l v) k = (if k = l then Some v else None)"
| "dlookup (DFork l a b) k =
     (if length l < length k \<and> take (length l) k = l
      then dlookup (if k ! length l then b else a) (drop (Suc (length l)) k) else None)"

fun dlabel :: "'v dtree \<Rightarrow> bool list" where
  "dlabel (DLeaf l v) = l"
| "dlabel (DFork l a b) = l"

fun dcut :: "nat \<Rightarrow> 'v dtree \<Rightarrow> 'v dtree" where
  "dcut p (DLeaf l v) = DLeaf (drop p l) v"
| "dcut p (DFork l a b) = DFork (drop p l) a b"

fun dextend :: "bool list \<Rightarrow> 'v dtree \<Rightarrow> 'v dtree" where
  "dextend q (DLeaf l v) = DLeaf (q @ l) v"
| "dextend q (DFork l a b) = DFork (q @ l) a b"

definition dfork :: "bool list \<Rightarrow> bool \<Rightarrow> 'v dtree \<Rightarrow> 'v dtree \<Rightarrow> 'v dtree" where
  "dfork l x t other = (if x then DFork l other t else DFork l t other)"

definition dsplit :: "'v dtree \<Rightarrow> nat \<Rightarrow> bool list \<Rightarrow> 'v \<Rightarrow> 'v dtree" where
  "dsplit t p k v = dfork (take p (dlabel t)) (k ! p) (DLeaf (drop (Suc p) k) v) (dcut (Suc p) t)"

fun dinsert :: "bool list \<Rightarrow> 'v \<Rightarrow> 'v dtree \<Rightarrow> 'v dtree" where
  "dinsert k v (DLeaf l w) =
     (let p = lcp l k in if p = length l then DLeaf l v else dsplit (DLeaf l w) p k v)"
| "dinsert k v (DFork l a b) =
     (let p = lcp l k in
      if p = length l
      then if k ! p then DFork l a (dinsert (drop (Suc p) k) v b) else DFork l (dinsert (drop (Suc p) k) v a) b
      else dsplit (DFork l a b) p k v)"

fun ddelete :: "bool list \<Rightarrow> 'v dtree \<Rightarrow> 'v dtree option" where
  "ddelete k (DLeaf l v) = (if k = l then None else Some (DLeaf l v))"
| "ddelete k (DFork l a b) =
     (if length l < length k \<and> take (length l) k = l
      then if k ! length l
        then (case ddelete (drop (Suc (length l)) k) b of
                None \<Rightarrow> Some (dextend (l @ [False]) a) | Some b' \<Rightarrow> Some (DFork l a b'))
        else (case ddelete (drop (Suc (length l)) k) a of
                None \<Rightarrow> Some (dextend (l @ [True]) b) | Some a' \<Rightarrow> Some (DFork l a' b))
      else Some (DFork l a b))"

fun dentries :: "'v dtree \<Rightarrow> (bool list \<times> 'v) list" where
  "dentries (DLeaf l v) = [(l, v)]"
| "dentries (DFork l a b) =
     map (\<lambda>(k, v). (l @ False # k, v)) (dentries a) @ map (\<lambda>(k, v). (l @ True # k, v)) (dentries b)"

subsection \<open>Lookup\<close>

lemma dlookup_child [simp]: "dlookup (DFork l a b) (l @ x # k) = dlookup (if x then b else a) k"
  by (simp add: nth_append)

lemma dlookup_forkE:
  assumes "dlookup (DFork l a b) k = Some v"
  obtains x k' where "k = l @ x # k'" "dlookup (if x then b else a) k' = Some v"
proof -
  have "length l < length k" "take (length l) k = l" "dlookup (if k ! length l then b else a) (drop (Suc (length l)) k) = Some v"
    using assms by (auto split: if_splits)
  moreover from this have "k = l @ k ! length l # drop (Suc (length l)) k" by (metis append_take_drop_id Cons_nth_drop_Suc)
  ultimately show thesis using that by blast
qed

lemma dlookup_length: "dwf n t \<Longrightarrow> dlookup t k = Some v \<Longrightarrow> length k = n"
proof (induction t arbitrary: n k)
  case (DFork l a b)
  from DFork.prems(2) obtain x k' where k: "k = l @ x # k'" "dlookup (if x then b else a) k' = Some v" by (rule dlookup_forkE)
  then have "length k' = n - Suc (length l)" using DFork by (cases x) auto
  then show ?case using k DFork.prems(1) by simp
qed (auto split: if_splits)

lemma dlookup_some: "dwf n t \<Longrightarrow> \<exists>k v. dlookup t k = Some v"
proof (induction t arbitrary: n)
  case (DFork l a b)
  then obtain k v where "dlookup a k = Some v" by fastforce
  then have "dlookup (DFork l a b) (l @ False # k) = Some v" by (simp only: dlookup_child) simp
  then show ?case by blast
qed auto

lemma dlookup_dextend [simp]: "dlookup (dextend q t) (q @ k) = dlookup t k"
  by (cases t) (auto simp: nth_append)

lemma dlookup_dextend_None: "\<not> prefix q k \<Longrightarrow> dlookup (dextend q t) k = None"
proof (cases t)
  case (DFork l a b)
  assume "\<not> prefix q k"
  then have "take (length q + length l) k \<noteq> q @ l" by (metis append_take_drop_id append.assoc prefixI)
  then show ?thesis using DFork by simp
qed auto

lemma dextend_dcut: "p \<le> length (dlabel t) \<Longrightarrow> dextend (take p (dlabel t)) (dcut p t) = t"
  by (cases t) auto

lemma dwf_dextend [simp]: "dwf (length q + n) (dextend q t) \<longleftrightarrow> dwf n t"
  by (cases t) auto

lemma dwf_label: "dwf n t \<Longrightarrow> length (dlabel t) \<le> n"
  by (cases t) auto

lemma dwf_dcut: "dwf n t \<Longrightarrow> p \<le> length (dlabel t) \<Longrightarrow> dwf (n - p) (dcut p t)"
  using dwf_dextend [of "take p (dlabel t)" "n - p" "dcut p t"] dextend_dcut [of p t] dwf_label [of n t] by (simp add: min_absorb2)

lemma dextend_dextend: "dextend p (dextend q t) = dextend (p @ q) t"
  by (cases t) auto

text \<open>A fork denotes the union of its children under their prefixes.\<close>

lemma dlookup_fork:
  fixes a b :: "'v dtree"
  shows "dlookup (DFork l a b) k =
     (if prefix (l @ [False]) k then dlookup (dextend (l @ [False]) a) k
      else if prefix (l @ [True]) k then dlookup (dextend (l @ [True]) b) k else None)"
proof (cases "\<exists>x k'. k = l @ x # k'")
  case True
  then obtain x k' where k: "k = l @ x # k'" by blast
  have "dlookup (dextend (l @ [y]) t) (l @ y # k') = dlookup t k'" for y and t :: "'v dtree"
    using dlookup_dextend [of "l @ [y]" t k'] by simp
  then show ?thesis unfolding k dlookup_child by (cases x) simp_all
next
  case False
  then have "dlookup (DFork l a b) k = None" by (metis dlookup_forkE option.exhaust)
  moreover have "\<not> prefix (l @ [x]) k" for x using False by (auto simp: prefix_def)
  ultimately show ?thesis by simp
qed

lemma dextend_child: "dlookup (dextend (l @ [z]) t) (l @ y # j) = (if y = z then dlookup t j else None)"
  using dlookup_dextend [of "l @ [z]" t j] dlookup_dextend_None [of "l @ [z]" "l @ y # j" t] by (auto simp: prefix_def)

lemma fork_ext:
  assumes "\<And>y j. F (l @ y # j) = G (l @ y # j)" "\<And>j. (\<forall>y i. j \<noteq> l @ y # i) \<Longrightarrow> F j = G j"
  shows "F = G"
  using assms by (metis ext)

lemma off_fork:
  assumes "\<forall>y i. j \<noteq> l @ y # i"
  shows "dlookup (DFork l a b) j = None" "dlookup (dextend (l @ [z]) t) j = None"
proof -
  show "dlookup (DFork l a b) j = None" using assms by (metis dlookup_forkE option.exhaust)
  show "dlookup (dextend (l @ [z]) t) j = None" by (rule dlookup_dextend_None) (use assms in \<open>auto simp: prefix_def\<close>)
qed

subsection \<open>Insertion\<close>

lemma lcp_less:
  assumes "lcp l k \<noteq> length l" "length l \<le> length k"
  shows "lcp l k < length l" "lcp l k < length k" "k ! lcp l k \<noteq> l ! lcp l k" "take (lcp l k) k = take (lcp l k) l"
  using assms lcp_le(1) [of l k] lcp_diff [of l k] lcp_take [of l k] by auto

lemma dfork_eq:
  "dlookup (dfork l x t u) = (\<lambda>k. if prefix (l @ [x]) k then dlookup (dextend (l @ [x]) t) k
     else if prefix (l @ [\<not> x]) k then dlookup (dextend (l @ [\<not> x]) u) k else None)"
proof
  fix k
  have "\<not> (prefix (l @ [True]) k \<and> prefix (l @ [False]) k)" by (auto simp: prefix_def)
  then show "dlookup (dfork l x t u) k = (if prefix (l @ [x]) k then dlookup (dextend (l @ [x]) t) k
      else if prefix (l @ [\<not> x]) k then dlookup (dextend (l @ [\<not> x]) u) k else None)"
    by (cases x) (auto simp: dfork_def dlookup_fork simp del: dlookup.simps)
qed

lemma dextend_leaf: "p < length k \<Longrightarrow> dextend (take p k @ [k ! p]) (DLeaf (drop (Suc p) k) v) = DLeaf k v"
  by (simp add: id_take_nth_drop [symmetric])

lemma dlookup_dsplit:
  assumes "lcp (dlabel t) k \<noteq> length (dlabel t)" "length (dlabel t) \<le> length k"
  shows "dlookup (dsplit t (lcp (dlabel t) k) k v) = (dlookup t)(k \<mapsto> v)"
proof
  fix j
  let ?l = "dlabel t" and ?p = "lcp (dlabel t) k"
  note p = lcp_less [OF assms]
  have edge: "take ?p ?l @ [\<not> k ! ?p] = take (Suc ?p) ?l" using p by (simp add: take_Suc_conv_app_nth)
  have new: "dextend (take ?p ?l @ [k ! ?p]) (DLeaf (drop (Suc ?p) k) v) = DLeaf k v"
    using dextend_leaf [OF p(2), of v] p(4) by simp
  have old: "dextend (take ?p ?l @ [\<not> k ! ?p]) (dcut (Suc ?p) t) = t"
    unfolding edge using p(1) by (intro dextend_dcut) simp
  have kp: "prefix (take ?p ?l @ [k ! ?p]) k"
    using p by (metis prefixI append.assoc append_Cons append_Nil id_take_nth_drop)
  have "dlookup t j = None" if "\<not> prefix (take ?p ?l @ [\<not> k ! ?p]) j"
    using dlookup_dextend_None [OF that, of "dcut (Suc ?p) t"] unfolding old .
  moreover have "\<not> prefix (take ?p ?l @ [\<not> k ! ?p]) j" if "prefix (take ?p ?l @ [k ! ?p]) j"
    using that by (auto simp: prefix_def)
  ultimately show "dlookup (dsplit t ?p k v) j = ((dlookup t)(k \<mapsto> v)) j"
    unfolding dsplit_def dfork_eq new old using kp by (auto simp: fun_upd_apply)
qed

lemma dwf_dsplit:
  assumes "dwf n t" "length k = n" "lcp (dlabel t) k \<noteq> length (dlabel t)"
  shows "dwf n (dsplit t (lcp (dlabel t) k) k v)"
proof -
  note p = lcp_less [OF assms(3)]
  have "length (dlabel t) \<le> length k" using dwf_label [OF assms(1)] assms(2) by simp
  note p = p [OF this]
  have "dwf (n - Suc (lcp (dlabel t) k)) (dcut (Suc (lcp (dlabel t) k)) t)" using dwf_dcut [OF assms(1)] p(1) by simp
  then show ?thesis using p assms(2) by (auto simp: dsplit_def dfork_def)
qed

lemma dinsert_dwf: "dwf n t \<Longrightarrow> length k = n \<Longrightarrow> dwf n (dinsert k v t)"
proof (induction t arbitrary: n k)
  case (DFork l a b)
  have "dwf n (dsplit (DFork l a b) (lcp l k) k v)" if "lcp l k \<noteq> length l"
    using dwf_dsplit [OF DFork.prems] that by simp
  then show ?case using DFork by (auto simp: Let_def)
next
  case (DLeaf l w)
  then show ?case using dwf_dsplit [of n "DLeaf l w" k v] by (auto simp: Let_def)
qed

lemma dlookup_dinsert: "dwf n t \<Longrightarrow> length k = n \<Longrightarrow> dlookup (dinsert k v t) = (dlookup t)(k \<mapsto> v)"
proof (induction t arbitrary: n k)
  case (DLeaf l w)
  show ?case
  proof (cases "lcp l k = length l")
    case True
    then have "k = l" using DLeaf lcp_eq_length [of l k] by simp
    then show ?thesis using True by (auto simp: Let_def)
  next
    case False
    then show ?thesis using dlookup_dsplit [of "DLeaf l w" k v] DLeaf by (simp add: Let_def del: dlookup.simps)
  qed
next
  case (DFork l a b)
  show ?case
  proof (cases "lcp l k = length l")
    case False
    then show ?thesis using dlookup_dsplit [of "DFork l a b" k v] DFork.prems by (simp add: Let_def del: dlookup.simps)
  next
    case True
    have lt: "length l < length k" using DFork.prems by simp
    obtain r where r: "k = l @ r" using True lcp_prefix [of l k] by (auto elim: prefixE)
    then obtain x k' where k: "k = l @ x # k'" using lt by (cases r) auto
    have wf: "dwf (length k') a" "dwf (length k') b" using DFork.prems k by auto
    have IH: "dlookup (dinsert k' v a) = (dlookup a)(k' \<mapsto> v)" "dlookup (dinsert k' v b) = (dlookup b)(k' \<mapsto> v)"
      using DFork.IH wf by blast+
    have "dlookup (if x then DFork l a (dinsert k' v b) else DFork l (dinsert k' v a) b) = (dlookup (DFork l a b))(k \<mapsto> v)"
      using IH k by (intro fork_ext [of _ l]) (auto simp: off_fork simp del: dlookup.simps)
    moreover have "dinsert k v (DFork l a b) = (if x then DFork l a (dinsert k' v b) else DFork l (dinsert k' v a) b)"
      using True k by (simp add: Let_def nth_append)
    ultimately show ?thesis by (simp only:)
  qed
qed

subsection \<open>Deletion\<close>

definition olookup :: "'v dtree option \<Rightarrow> bool list \<Rightarrow> 'v option" where
  "olookup t = (case t of None \<Rightarrow> Map.empty | Some u \<Rightarrow> dlookup u)"

lemma olookup_simps [simp]: "olookup None = Map.empty" "olookup (Some t) = dlookup t"
  by (simp_all add: olookup_def)

lemma ddelete_forkD:
  assumes "ddelete k (DFork l a b) = Some u"
  shows "u = DFork l a b \<or> (\<exists>x. u = dextend (l @ [x]) (if x then b else a)) \<or>
    (\<exists>j c. ddelete j b = Some c \<and> u = DFork l a c) \<or> (\<exists>j c. ddelete j a = Some c \<and> u = DFork l c b)"
proof (cases "length l < length k \<and> take (length l) k = l")
  case False
  then show ?thesis using assms by auto
next
  case True
  define j where "j = drop (Suc (length l)) k"
  show ?thesis
  proof (cases "k ! length l")
    case x: True
    then have "(case ddelete j b of None \<Rightarrow> dextend (l @ [False]) a | Some c \<Rightarrow> DFork l a c) = u"
      using True assms by (simp add: j_def split: option.splits)
    then show ?thesis by (cases "ddelete j b") (auto intro: exI [of _ False])
  next
    case x: False
    then have "(case ddelete j a of None \<Rightarrow> dextend (l @ [True]) b | Some c \<Rightarrow> DFork l c b) = u"
      using True assms by (simp add: j_def split: option.splits)
    then show ?thesis by (cases "ddelete j a") (auto intro: exI [of _ True])
  qed
qed

lemma ddelete_dwf:
  fixes t :: "'v dtree"
  shows "dwf n t \<Longrightarrow> ddelete k t = Some u \<Longrightarrow> dwf n u"
proof (induction t arbitrary: n k u)
  case (DFork l a b)
  have ext: "dwf n (dextend (l @ [x]) c)" if "dwf (n - Suc (length l)) c" for x and c :: "'v dtree"
    using dwf_dextend [of "l @ [x]" "n - Suc (length l)" c] that DFork.prems(1) by simp
  note wf = DFork.prems(1) [simplified]
  from ddelete_forkD [OF DFork.prems(2)] consider "u = DFork l a b" | x where "u = dextend (l @ [x]) (if x then b else a)"
    | j c where "ddelete j b = Some c" "u = DFork l a c" | j c where "ddelete j a = Some c" "u = DFork l c b" by blast
  then show ?case
  proof cases
    case 2
    then show ?thesis using ext wf by simp
  next
    case (3 j c)
    then show ?thesis using DFork.IH(2) [of _ j c] wf by simp
  next
    case (4 j c)
    then show ?thesis using DFork.IH(1) [of _ j c] wf by simp
  qed (use DFork.prems(1) in simp)
qed (auto split: if_splits)

lemma dlookup_ddelete: "dwf n t \<Longrightarrow> length k = n \<Longrightarrow> olookup (ddelete k t) = (dlookup t)(k := None)"
proof (induction t arbitrary: n k)
  case (DFork l a b)
  show ?case
  proof (cases "take (length l) k = l")
    case False
    then have "dlookup (DFork l a b) k = None" by simp
    then have "(dlookup (DFork l a b))(k := None) = dlookup (DFork l a b)" by (rule fun_upd_idem)
    then show ?thesis using False by (simp del: dlookup.simps)
  next
    case True
    have lt: "length l < length k" using DFork.prems by simp
    then obtain x k' where k: "k = l @ x # k'" using True by (metis append_take_drop_id Cons_nth_drop_Suc)
    have wf: "dwf (length k') a" "dwf (length k') b" using DFork.prems k by auto
    define c where "c = (if x then b else a)"
    have IH: "olookup (ddelete k' c) = (dlookup c)(k' := None)"
      unfolding c_def using DFork.IH(1) [OF wf(1) refl] DFork.IH(2) [OF wf(2) refl] by (simp split: if_split del: fun_upd_apply)
    have "olookup (Some (case ddelete k' c of None \<Rightarrow> dextend (l @ [\<not> x]) (if x then a else b) | Some c' \<Rightarrow> (if x then DFork l a c' else DFork l c' b))) =
        (dlookup (DFork l a b))(k := None)"
    proof (cases "ddelete k' c")
      case None
      have none: "dlookup c j = None" if "j \<noteq> k'" for j using fun_cong [OF IH, of j] None that by simp
      show ?thesis using None none k
        by (intro fork_ext [of _ l]) (auto simp: off_fork dextend_child c_def simp del: dlookup.simps)
    next
      case (Some c')
      have "dlookup c' = (dlookup c)(k' := None)" using IH Some by simp
      then show ?thesis using Some k by (intro fork_ext [of _ l]) (auto simp: off_fork c_def simp del: dlookup.simps)
    qed
    moreover have "ddelete k (DFork l a b) = Some (case ddelete k' c of
        None \<Rightarrow> dextend (l @ [\<not> x]) (if x then a else b) | Some c' \<Rightarrow> (if x then DFork l a c' else DFork l c' b))"
      using k by (cases x) (auto simp: c_def nth_append split: option.split)
    ultimately show ?thesis by (simp only:)
  qed
qed auto

subsection \<open>A map has one tree\<close>

lemma fork_both:
  assumes "dwf n (DFork l a b)"
  obtains j v where "dlookup (DFork l a b) (l @ x # j) = Some v"
proof -
  obtain j v where "dlookup (if x then b else a) j = Some v"
    using dlookup_some [of "n - Suc (length l)" "if x then b else a"] assms by (cases x) auto
  then show thesis using that [of j v] by (simp only: dlookup_child)
qed

lemma fork_labels:
  assumes "dwf n (DFork l a b)" "dwf n (DFork m c d)" "dlookup (DFork l a b) = dlookup (DFork m c d)"
  shows "length m \<le> length l"
proof (rule ccontr)
  assume lt: "\<not> length m \<le> length l"
  have "x = m ! length l" for x
  proof -
    obtain j v where "dlookup (DFork l a b) (l @ x # j) = Some v" by (rule fork_both [OF assms(1)])
    then obtain y i where "l @ x # j = m @ y # i" unfolding assms(3) by (rule dlookup_forkE)
    then have "(l @ x # j) ! length l = (m @ y # i) ! length l" by (rule arg_cong)
    then show ?thesis using lt by (simp add: nth_append)
  qed
  from this [of True] this [of False] show False by simp
qed

lemma leaf_fork: "dwf n (DFork m c d) \<Longrightarrow> dlookup (DLeaf l v) \<noteq> dlookup (DFork m c d)"
proof
  assume wf: "dwf n (DFork m c d)" and eq: "dlookup (DLeaf l v) = dlookup (DFork m c d)"
  obtain j w where "dlookup (DFork m c d) (m @ True # j) = Some w" by (rule fork_both [OF wf])
  moreover obtain i u where "dlookup (DFork m c d) (m @ False # i) = Some u" by (rule fork_both [OF wf])
  ultimately have "m @ True # j = l" "m @ False # i = l" by (auto simp flip: eq split: if_splits)
  then show False by auto
qed

lemma dtree_unique: "dwf n t \<Longrightarrow> dwf n u \<Longrightarrow> dlookup t = dlookup u \<Longrightarrow> t = u"
proof (induction t arbitrary: n u)
  case (DLeaf l v)
  show ?case
  proof (cases u)
    case (DLeaf m w)
    then show ?thesis using fun_cong [OF \<open>dlookup (DLeaf l v) = dlookup u\<close>, of l] by (auto split: if_splits)
  next
    case (DFork m c d)
    then show ?thesis using leaf_fork [of n m c d l v] DLeaf.prems by metis
  qed
next
  case (DFork l a b)
  show ?case
  proof (cases u)
    case (DLeaf m w)
    then show ?thesis using leaf_fork [of n l a b m w] DFork.prems by metis
  next
    case u: (DFork m c d)
    have eq: "dlookup (DFork l a b) = dlookup (DFork m c d)" and wf: "dwf n (DFork m c d)" using DFork.prems unfolding u by blast+
    have len: "length m = length l"
      using fork_labels [OF DFork.prems(1) wf eq] fork_labels [OF wf DFork.prems(1) eq [symmetric]] by simp
    obtain j v where "dlookup (DFork l a b) (l @ True # j) = Some v" by (rule fork_both [OF DFork.prems(1)])
    then obtain y i where "l @ True # j = m @ y # i" unfolding eq by (rule dlookup_forkE)
    then have lm: "l = m" using len by (metis append_eq_append_conv)
    have "dlookup (if x then b else a) k = dlookup (if x then d else c) k" for x k
      using fun_cong [OF eq, of "l @ x # k"] unfolding lm dlookup_child .
    from this [of False] this [of True] have "dlookup a = dlookup c" "dlookup b = dlookup d" by auto
    moreover have "dwf (n - Suc (length l)) a" "dwf (n - Suc (length l)) b" "dwf (n - Suc (length l)) c" "dwf (n - Suc (length l)) d"
      using DFork.prems(1) wf lm by simp_all
    ultimately show ?thesis using DFork.IH u lm by blast
  qed
qed

subsection \<open>Entries in order\<close>

lemma dentries_length: "dwf n t \<Longrightarrow> (k, v) \<in> set (dentries t) \<Longrightarrow> length k = n"
  by (induction t arbitrary: n k) (fastforce split: prod.splits)+

lemma dentries_lookup: "(k, v) \<in> set (dentries t) \<longleftrightarrow> dlookup t k = Some v"
proof (induction t arbitrary: k)
  case (DFork l a b)
  have "(k, v) \<in> set (dentries (DFork l a b)) \<longleftrightarrow> (\<exists>x j. k = l @ x # j \<and> dlookup (if x then b else a) j = Some v)"
    using DFork by (force split: prod.splits)
  also have "\<dots> \<longleftrightarrow> dlookup (DFork l a b) k = Some v"
    by (metis dlookup_child dlookup_forkE)
  finally show ?case .
qed auto

lemma sorted_dentries: "sorted_wrt (<) (map fst (dentries t))"
proof (induction t)
  case (DFork l a b)
  have "sorted_wrt (<) (map fst (map (\<lambda>(k, v). (l @ x # k, v)) es))" if "sorted_wrt (<) (map fst es)" for x and es :: "(bool list \<times> 'a) list"
  proof -
    have "map fst (map (\<lambda>(k, v). (l @ x # k, v)) es) = map (\<lambda>k. l @ x # k) (map fst es)" by (simp add: case_prod_unfold)
    moreover have "l @ x # k < l @ x # j \<longleftrightarrow> k < j" for k j :: "bool list" by (induction l) simp_all
    ultimately show ?thesis using that by (simp only: sorted_wrt_map)
  qed
  moreover have "l @ False # k < l @ True # j" for k j :: "bool list" by (induction l) simp_all
  ultimately show ?case using DFork by (auto simp: sorted_wrt_append split: prod.splits)
qed simp

end
