(* ===== verification/Dict_Layout.thy ===== *)
theory Dict_Layout
  imports Dict_Ops Dict_Tree
begin

section \<open>Trees laid out in cells\<close>

text \<open>
  The relation between Patricia trees and the cells that hold them, and what the node operations do to
  it.  The locale \<open>label_code\<close> is the freedom a dictionary has in its labels: any set of encodings between
  the one the writer chooses and all that the readers accept.  Its lemmas hold for
  dictionaries with arbitrary labels and, at the other end, for canonical ones.
\<close>

type_synonym dval = "bool list \<times> cell list"

type_synonym label_rel = "nat \<Rightarrow> bool list \<Rightarrow> bool list \<Rightarrow> bool"

definition canon_enc :: label_rel where
  "canon_enc n l bs \<longleftrightarrow> length l \<le> n \<and> bs = labelBits n l"

definition laid :: "label_rel \<Rightarrow> nat \<Rightarrow> bool list \<Rightarrow> cell \<Rightarrow> bool list \<Rightarrow> cell list \<Rightarrow> bool" where
  "laid E n l c pb pr \<longleftrightarrow> (\<exists>bs. E n l bs \<and> c = bitsCell (bs @ pb) pr \<and> length (bs @ pb) < 1024 \<and> length pr \<le> 4)"

fun dnode :: "label_rel \<Rightarrow> nat \<Rightarrow> dval dtree \<Rightarrow> cell \<Rightarrow> bool" where
  "dnode E n (DLeaf l v) c \<longleftrightarrow> laid E n l c (fst v) (snd v)"
| "dnode E n (DFork l a b) c \<longleftrightarrow> (\<exists>ca cb. laid E n l c [] [ca, cb] \<and>
     dnode E (n - Suc (length l)) a ca \<and> dnode E (n - Suc (length l)) b cb)"

text \<open>A value fits a dictionary of \<open>N\<close>-bit keys when the longest label leaves room for it and its references stay
  within the depth limit below \<open>N\<close> forks.\<close>

definition dval_ok :: "nat \<Rightarrow> dval \<Rightarrow> bool" where
  "dval_ok N v \<longleftrightarrow> 2 + bitLen (int N) + N + length (fst v) < 1024 \<and> length (snd v) \<le> 4 \<and>
     (\<forall>r\<in>set (snd v). plain r \<and> treeDepth r + N < 1024)"

definition dt_ok :: "nat \<Rightarrow> dval dtree \<Rightarrow> bool" where
  "dt_ok N t \<longleftrightarrow> (\<forall>v\<in>set_dtree t. dval_ok N v)"

lemma dt_ok_simps [simp]: "dt_ok N (DLeaf l v) \<longleftrightarrow> dval_ok N v" "dt_ok N (DFork l a b) \<longleftrightarrow> dt_ok N a \<and> dt_ok N b"
  by (auto simp: dt_ok_def)

lemma dt_ok_dcut [simp]: "dt_ok N (dcut p t) \<longleftrightarrow> dt_ok N t"
  by (cases t) auto

lemma dt_ok_dextend [simp]: "dt_ok N (dextend q t) \<longleftrightarrow> dt_ok N t"
  by (cases t) auto

lemma dt_ok_dinsert: "dt_ok N t \<Longrightarrow> dval_ok N v \<Longrightarrow> dt_ok N (dinsert k v t)"
  by (induction t arbitrary: k) (auto simp: Let_def dsplit_def dfork_def)

lemma dt_ok_ddelete: "dt_ok N t \<Longrightarrow> ddelete k t = Some u \<Longrightarrow> dt_ok N u"
proof (induction t arbitrary: k u)
  case (DFork l a b)
  from ddelete_forkD [OF DFork.prems(2)] consider "u = DFork l a b" | x where "u = dextend (l @ [x]) (if x then b else a)"
    | j c where "ddelete j b = Some c" "u = DFork l a c" | j c where "ddelete j a = Some c" "u = DFork l c b" by blast
  then show ?case
  proof cases
    case (3 j c)
    then show ?thesis using DFork.IH(2) [of j c] DFork.prems(1) by simp
  next
    case (4 j c)
    then show ?thesis using DFork.IH(1) [of j c] DFork.prems(1) by simp
  qed (use DFork.prems(1) in simp_all)
qed (auto split: if_splits)

lemma laid_plain:
  assumes "laid E n l c pb pr" "\<forall>r\<in>set pr. plain r \<and> treeDepth r < d"
  shows "plain c" "treeDepth c \<le> d"
  using assms by (auto simp: laid_def bitsCell_def list_all_iff Suc_le_eq)

lemma dnode_plain:
  "dnode E n t c \<Longrightarrow> dwf n t \<Longrightarrow> dt_ok N t \<Longrightarrow> n \<le> N \<Longrightarrow> N < 1024 \<Longrightarrow> plain c \<and> treeDepth c + N \<le> 1024 + n"
proof (induction t arbitrary: n c)
  case (DLeaf l v)
  then have "\<forall>r\<in>set (snd v). plain r \<and> treeDepth r < 1024 - N" by (auto simp: dval_ok_def less_diff_conv)
  with laid_plain [of E n l c "fst v" "snd v" "1024 - N"] show ?case using DLeaf by auto
next
  case (DFork l a b)
  then obtain ca cb where c: "laid E n l c [] [ca, cb]" "dnode E (n - Suc (length l)) a ca" "dnode E (n - Suc (length l)) b cb" by auto
  have "plain ca \<and> treeDepth ca + N \<le> 1024 + (n - Suc (length l))" "plain cb \<and> treeDepth cb + N \<le> 1024 + (n - Suc (length l))"
    using DFork.IH(1) [OF c(2)] DFork.IH(2) [OF c(3)] DFork.prems by simp_all
  then have "\<forall>r\<in>set [ca, cb]. plain r \<and> treeDepth r < 1024 + n - N" using DFork.prems(2) by auto
  from laid_plain [OF c(1) this] show ?case using DFork.prems(4,5) by auto
qed

lemma dnode_child_plain:
  "dnode E m t c \<Longrightarrow> dwf m t \<Longrightarrow> dt_ok N t \<Longrightarrow> m < N \<Longrightarrow> N < 1024 \<Longrightarrow> plain c \<and> treeDepth c < 1024"
  using dnode_plain [of E m t c N] by auto

subsection \<open>Finalising\<close>

lemma EndCellSpecial_bits:
  assumes "builder_ok b" "builderBits b = bs" "b_refs b = rs" "\<forall>r\<in>set rs. plain r \<and> treeDepth r < 1024"
  shows "EndCellSpecial sha b False = Inr (bitsCell bs rs)"
proof -
  have "plainBuilder b" using assms by (simp add: plainBuilder_def list_all_iff)
  then show ?thesis using finalize_plain(1) [of b sha] builtCell_bits [OF assms(1)] assms by (simp add: EndCellSpecial_def)
qed

lemma storeDictNode_ok:
  assumes "slice_ok label" "sliceBits label = l" "length l \<le> n" "n < 1024" "builder_ok payload"
    "length (labelBits n l @ builderBits payload) < 1024" "\<forall>r\<in>set (b_refs payload). plain r \<and> treeDepth r < 1024"
  shows "storeDictNode sha label payload n = Inr (bitsCell (labelBits n l @ builderBits payload) (b_refs payload))"
proof -
  have "emits (seq (storeDictLabel label n) (storeBuilder payload False)) (labelBits n l @ builderBits payload) ([] @ b_refs payload)"
    by (intro emits_seq emits_storeDictLabel emits_storeBuilder assms) simp
  moreover have "length (b_refs payload) \<le> 4" using assms(5) by (simp add: builder_ok_def)
  ultimately obtain b where "seq (storeDictLabel label n) (storeBuilder payload False) BeginCell = (Inr (), b)" "builder_ok b"
      "builderBits b = labelBits n l @ builderBits payload" "b_refs b = b_refs payload"
    using assms(6) by (elim emits_fresh) auto
  then show ?thesis using EndCellSpecial_bits assms(7) by (simp add: storeDictNode_def rn_def)
qed

lemma forkPayload_ok:
  obtains b where "forkPayload (Some x) (Some y) = Inr b" "builder_ok b" "builderBits b = []" "b_refs b = [x, y]"
proof -
  have "emits (seq (StoreRefUncheckedDepth (Some x)) (StoreRefUncheckedDepth (Some y))) ([] @ []) ([x] @ [y])"
    by (intro emits_seq emits_StoreRefUncheckedDepth)
  then obtain b where "seq (StoreRefUncheckedDepth (Some x)) (StoreRefUncheckedDepth (Some y)) BeginCell = (Inr (), b)" "builder_ok b"
      "builderBits b = []" "b_refs b = [x, y]"
    by (elim emits_fresh) auto
  then show thesis using that by (simp add: forkPayload_def rn_def)
qed

lemma bit_push_mask: "bit (push_bit s (0xFF :: byte)) i \<longleftrightarrow> s \<le> i \<and> i < 8"
proof -
  have "(0xFF :: byte) = - 1" by simp
  then show ?thesis by (simp only: bit_push_bit_iff bit_minus_1_iff) (auto simp: possible_bit_word)
qed

lemma cellToBuilder_ok:
  assumes "length vb < 1024" "length vr \<le> 4"
  shows "builder_ok (cellToBuilder (bitsCell vb vr))" "builderBits (cellToBuilder (bitsCell vb vr)) = vb" "b_refs (cellToBuilder (bitsCell vb vr)) = vr"
proof -
  let ?n = "length vb"
  define d where "d = putBytes (replicate 128 (0 :: byte)) 0 (packBits vb)"
  have len: "(?n + 7) div 8 \<le> 128" using assms(1) by simp
  have at: "bitAt d k \<longleftrightarrow> k < ?n \<and> vb ! k" if "k < 1024" for k
  proof -
    have "\<not> bitAt (replicate 128 0) k" using that by (simp add: bitAt_def)
    then show ?thesis using bitAt_putBytes [of 0 "packBits vb" "replicate 128 0" k] that len bitAt_packBits [of k vb]
      by (auto simp: d_def)
  qed
  have "bit (d ! (?n div 8)) i \<Longrightarrow> 8 - ?n mod 8 \<le> i \<and> i < 8" if "?n mod 8 \<noteq> 0" for i
  proof -
    assume b: "bit (d ! (?n div 8)) i"
    then have i: "i < 8" using bit_imp_le_length by fastforce
    let ?k = "8 * (?n div 8) + (7 - i)"
    have k: "?k div 8 = ?n div 8" "?k mod 8 = 7 - i" by simp_all
    have "bitAt d ?k" unfolding bitAt_def k using b i by simp
    moreover have "?n div 8 < 128" using assms(1) by (simp add: less_mult_imp_div_less)
    then have "?k < 1024" by linarith
    ultimately have "?k < ?n" using at by blast
    then have "7 - i < ?n mod 8" using mult_div_mod_eq [of 8 ?n] by linarith
    then show ?thesis using i by linarith
  qed
  then have "d ! (?n div 8) AND push_bit (8 - ?n mod 8) 0xFF = d ! (?n div 8)" if "?n mod 8 \<noteq> 0"
    using that by (intro bit_word_eqI) (auto simp only: bit_and_iff bit_push_mask)
  then have data: "b_data (cellToBuilder (bitsCell vb vr)) = d"
    by (simp add: cellToBuilder_def bitsCell_def Let_def d_def [symmetric])
  have sz: "b_bitsSz (cellToBuilder (bitsCell vb vr)) = ?n" by (simp add: cellToBuilder_def Let_def)
  show refs: "b_refs (cellToBuilder (bitsCell vb vr)) = vr" by (simp add: cellToBuilder_def Let_def)
  show "builder_ok (cellToBuilder (bitsCell vb vr))"
    using assms at len by (auto simp: builder_ok_def data sz refs d_def)
  show "builderBits (cellToBuilder (bitsCell vb vr)) = vb"
    unfolding builderBits_def data sz bitsOf_def using assms(1) at by (intro nth_equalityI) auto
qed


subsection \<open>Opening a node\<close>

definition opened :: "nat \<Rightarrow> bool list \<Rightarrow> bool list \<Rightarrow> bool list \<Rightarrow> cell list \<Rightarrow> fixedDictNode \<Rightarrow> bool" where
  "opened n l bs pb pr node \<longleftrightarrow> label_enc n l bs \<and> fn_cell node = bitsCell (bs @ pb) pr \<and> fn_labelLen node = length l \<and>
     slice_ok (fn_label node) \<and> sliceBits (fn_label node) = l \<and>
     slice_ok (fn_loader node) \<and> sliceBits (fn_loader node) = pb \<and> sliceRefs (fn_loader node) = pr \<and>
     (fn_static node \<longleftrightarrow> (\<exists>b. bs = sameLabel n b (length l)))"

lemma openNode_ok:
  assumes "label_enc n l bs" "n < 1024" "length (bs @ pb) < 1024" "length l < n \<Longrightarrow> pb = [] \<and> length pr = 2"
  obtains node where "openNode (bitsCell (bs @ pb) pr) n = Inr node" "opened n l bs pb pr node"
proof -
  let ?c = "bitsCell (bs @ pb) pr"
  note s = bitsCell_slice [OF assms(3), of pr]
  obtain lv where lv: "readLabelView n (newSliceFromCell ?c) = (Inr lv, consumed (length bs) 0 (newSliceFromCell ?c))" "lv_len lv = length l"
    "slice_ok (lv_label lv)" "sliceBits (lv_label lv) = l" "lv_static lv \<longleftrightarrow> (\<exists>b. bs = sameLabel n b (length l))"
    by (rule readLabelView_ok [OF s(1,2) assms(1,2)])
  note c = consumed_bits [OF s(1,2)]
  define node where "node = \<lparr>fn_cell = ?c, fn_loader = consumed (length bs) 0 (newSliceFromCell ?c), fn_label = lv_label lv,
    fn_labelLen = lv_len lv, fn_static = lv_static lv\<rparr>"
  have op: "opened n l bs pb pr node" using assms(1) lv c s by (simp add: opened_def node_def)
  have "parseFixedDictNode ?c n = Inr node" using lv(1) by (simp add: parseFixedDictNode_def Let_def rn_Inr node_def)
  moreover have "BitsLeft (fn_loader node) = length pb" "RefsNum (fn_loader node) = length pr"
    using op length_sliceBits [of "fn_loader node"] length_sliceRefs [of "fn_loader node"] by (auto simp: opened_def)
  then have "validateForkShape node n False = Inr ()"
    using assms(4) op by (auto simp: validateForkShape_def opened_def)
  moreover have "rejectSpecial node = Inr ()" by (simp add: rejectSpecial_def node_def)
  ultimately have "openNode ?c n = Inr node" by (simp add: openNode_def)
  then show thesis using op that by blast
qed

lemma opened_ref: "opened n l bs pb pr node \<Longrightarrow> i < length pr \<Longrightarrow> nodeRef node i = Inr (pr ! i)"
  by (simp add: nodeRef_def opened_def refAndTraceAt_ok)

lemma opened_payload:
  assumes "opened n l bs pb pr node" "length pr \<le> 4"
  shows "builder_ok (ToBuilder (fn_loader node))" "builderBits (ToBuilder (fn_loader node)) = pb" "b_refs (ToBuilder (fn_loader node)) = pr"
proof -
  have "RefsNum (fn_loader node) \<le> 4" using assms length_sliceRefs [of "fn_loader node"] by (auto simp: opened_def)
  then show "builder_ok (ToBuilder (fn_loader node))" "builderBits (ToBuilder (fn_loader node)) = pb" "b_refs (ToBuilder (fn_loader node)) = pr"
    using ToBuilder_ok [of "fn_loader node"] assms(1) by (auto simp: opened_def)
qed

text \<open>A replaced reference in a plain cell.\<close>

lemma withHashes_plain: "plain c \<Longrightarrow> treeDepth c \<le> 1024 \<Longrightarrow> withHashes sha c = Inr c"
  using cellInfo_plain [of c sha] by (auto simp: withHashes_def)

lemma clone_ok:
  assumes "\<forall>r\<in>set (rs[i := x]). plain r \<and> treeDepth r < 1024"
  shows "refViewCloneWithRef sha (bitsCell bs rs) i x = Inr (bitsCell bs (rs[i := x]))"
proof -
  have pl: "list_all plain (rs[i := x])" "\<forall>r\<in>set (rs[i := x]). treeDepth r < 1024" using assms by (auto simp: list_all_iff)
  have "plain (bitsCell bs (rs[i := x]))" "treeDepth (bitsCell bs (rs[i := x])) \<le> 1024"
    using assms by (auto simp: bitsCell_def list_all_iff Suc_le_eq)
  then show ?thesis
    using validateCellRefDepthLimit_plain [OF pl] ordinaryLevelMask_plain [OF pl(1)] withHashes_plain
    by (simp add: refViewCloneWithRef_def refreshLevelMaskForRefs_def bitsCell_def setLevelMask_def Let_def)
qed

lemma cloneWithRef_ok:
  assumes "opened n l bs [] pr node" "i < length pr" "\<forall>r\<in>set (pr[i := x]). plain r \<and> treeDepth r < 1024"
  shows "cloneWithRef sha node i (Some x) = Inr (bitsCell bs (pr[i := x]))"
  using assms clone_ok [of pr i x sha bs] by (simp add: cloneWithRef_def opened_def)

lemma rebuild_ok:
  assumes "opened n l bs [] [ca, cb] node" "n < 1024" "length bs < 1024" "i < 2" "\<forall>r\<in>set ([ca, cb][i := x]). plain r \<and> treeDepth r < 1024"
  shows "rebuildNonCanonicalFixedForkWithRef sha node i (Some x) n = Inr (bitsCell (labelBits n l) ([ca, cb][i := x]))"
proof -
  have enc: "label_enc n l bs" and lab: "slice_ok (fn_label node)" "sliceBits (fn_label node) = l" using assms(1) by (auto simp: opened_def)
  obtain b where b: "(if i = 0 then forkPayload (Some x) (Some cb) else forkPayload (Some ca) (Some x)) = Inr b" "builder_ok b" "builderBits b = []"
    "b_refs b = [ca, cb][i := x]"
  proof (cases "i = 0")
    case True
    obtain b where "forkPayload (Some x) (Some cb) = Inr b" "builder_ok b" "builderBits b = []" "b_refs b = [x, cb]" by (rule forkPayload_ok)
    then show thesis using that [of b] True by simp
  next
    case False
    then have "i = 1" using assms(4) by simp
    obtain b where "forkPayload (Some ca) (Some x) = Inr b" "builder_ok b" "builderBits b = []" "b_refs b = [ca, x]" by (rule forkPayload_ok)
    then show thesis using that [of b] \<open>i = 1\<close> by simp
  qed
  have "length l \<le> n" using enc by (simp add: label_enc_def)
  moreover have "length (labelBits n l) < 1024" using labelBits_shortest [OF enc] assms(3) by simp
  ultimately have "storeDictNode sha (fn_label node) b n = Inr (bitsCell (labelBits n l) ([ca, cb][i := x]))"
    using storeDictNode_ok [OF lab _ assms(2) b(2), of sha] b assms(5) by simp
  then show ?thesis using b(1) opened_ref [OF assms(1), of 0] opened_ref [OF assms(1), of 1]
    by (simp add: rebuildNonCanonicalFixedForkWithRef_def)
qed

subsection \<open>The canonical form is recognised\<close>

lemma first_bit:
  assumes "bs \<noteq> []" shows "cell_data (bitsCell bs rs) ! 0 AND 0x80 \<noteq> 0 \<longleftrightarrow> hd bs"
proof -
  have "0 < (length bs + 7) div 8" using assms by (cases bs) auto
  then have "cell_data (bitsCell bs rs) ! 0 = packByte bs" by (simp add: bitsCell_def packBits_def)
  moreover have "(0x80 :: byte) = push_bit 7 1" by simp
  then have "x AND 0x80 \<noteq> 0 \<longleftrightarrow> bit x 7" for x :: byte
    by (simp only: and_exp_eq_0_iff_not_bit push_bit_of_1) simp
  ultimately show ?thesis using bit_packByte [of 0 bs] assms by (simp add: hd_conv_nth)
qed

lemma label_forms [simp]:
  "shortLabel l \<noteq> longLabel n m" "shortLabel l \<noteq> sameLabel n b k" "longLabel n l \<noteq> sameLabel j b k"
  "longLabel n m \<noteq> shortLabel l" "sameLabel n b k \<noteq> shortLabel l" "sameLabel j b k \<noteq> longLabel n l"
  by (simp_all add: shortLabel_def longLabel_def sameLabel_def)

lemma canonical_test:
  assumes "opened n l bs [] pr node" "n < 1024"
  shows "(let (canonical, decided) = canonicalLabelFast node n in if decided then Inr canonical else hasCanonicalLabel node n) =
    Inr (bs = labelBits n l)"
proof -
  let ?k = "bitLen (int n)" and ?ln = "length l"
  define opt where "opt \<longleftrightarrow> ?ln > 1 \<and> ?k < 2 * ?ln - 1"
  have node: "label_enc n l bs" "fn_cell node = bitsCell bs pr" "fn_labelLen node = ?ln" "slice_ok (fn_label node)" "sliceBits (fn_label node) = l"
    "fn_static node \<longleftrightarrow> (\<exists>b. bs = sameLabel n b ?ln)"
    using assms(1) by (auto simp: opened_def)
  have lab: "labelBits n l = (if opt \<and> l = replicate ?ln (hd l) then sameLabel n (hd l) ?ln else if ?ln \<le> ?k then shortLabel l else longLabel n l)"
    by (auto simp: labelBits_def opt_def Let_def)
  consider (s) "bs = shortLabel l" | (l) "bs = longLabel n l" | (e) b where "l = replicate ?ln b" "bs = sameLabel n b ?ln"
    using node(1) by (auto simp: label_enc_def)
  then show ?thesis
  proof cases
    case e
    then have "opt \<Longrightarrow> hd l = b" using replicate_hd [of l b] by (cases l) (auto simp: opt_def)
    then have "(bs = labelBits n l) = opt" using e lab by auto
    moreover have "canonicalLabelFast node n = (opt, True)"
      using e node by (auto simp: canonicalLabelFast_def Let_def opt_def dictLabelSizeBits_def)
    ultimately show ?thesis by simp
  next
    case s
    have "fn_static node = False" using node(6) s by auto
    moreover have "cell_data (fn_cell node) ! 0 AND 0x80 = 0" using first_bit [of bs pr] s node(2) by (simp add: shortLabel_def)
    ultimately have fast: "canonicalLabelFast node n = (if ?k < ?ln then (False, True) else if opt then (False, False) else (True, True))"
      using node(3) by (simp add: canonicalLabelFast_def Let_def opt_def dictLabelSizeBits_def)
    have "l \<noteq> []" if opt using that by (auto simp: opt_def)
    then show ?thesis using fast s lab dictLabelSliceSameBit_ok [OF node(4,5)] node(3)
      by (auto simp: hasCanonicalLabel_def)
  next
    case l
    have "fn_static node = False" using node(6) l by auto
    moreover have "cell_data (fn_cell node) ! 0 AND 0x80 \<noteq> 0" using first_bit [of bs pr] l node(2) by (simp add: longLabel_def)
    ultimately have fast: "canonicalLabelFast node n = (if \<not> ?k < ?ln then (False, True) else if opt then (False, False) else (True, True))"
      using node(3) by (simp add: canonicalLabelFast_def Let_def opt_def dictLabelSizeBits_def)
    have "l \<noteq> []" if opt using that by (auto simp: opt_def)
    then show ?thesis using fast l lab dictLabelSliceSameBit_ok [OF node(4,5)] node(3)
      by (auto simp: hasCanonicalLabel_def)
  qed
qed

lemma replaceChild_ok:
  assumes "opened n l bs [] [ca, cb] node" "n < 1024" "length bs < 1024" "i < 2" "\<forall>r\<in>set ([ca, cb][i := x]). plain r \<and> treeDepth r < 1024"
  shows "replaceChild sha node n i (Some x) = Inr (bitsCell (labelBits n l) ([ca, cb][i := x]))"
proof -
  have "(case canonicalLabelFast node n of (canonical, decided) \<Rightarrow> if decided then Inr canonical else hasCanonicalLabel node n) =
      Inr (bs = labelBits n l)"
    using canonical_test [OF assms(1,2)] by simp
  moreover have "cloneWithRef sha node i (Some x) = Inr (bitsCell bs ([ca, cb][i := x]))"
    using cloneWithRef_ok [OF assms(1) _ assms(5)] assms(4) by simp
  ultimately show ?thesis using rebuild_ok [OF assms, of sha]
    by (auto simp: replaceChild_def split: prod.splits)
qed

subsection \<open>Payloads\<close>

fun dpay :: "label_rel \<Rightarrow> nat \<Rightarrow> dval dtree \<Rightarrow> bool list \<Rightarrow> cell list \<Rightarrow> bool" where
  "dpay E n (DLeaf l v) pb pr \<longleftrightarrow> v = (pb, pr)"
| "dpay E n (DFork l a b) pb pr \<longleftrightarrow> pb = [] \<and>
     (\<exists>ca cb. pr = [ca, cb] \<and> dnode E (n - Suc (length l)) a ca \<and> dnode E (n - Suc (length l)) b cb)"

lemma dnode_iff: "dnode E n t c \<longleftrightarrow> (\<exists>pb pr. laid E n (dlabel t) c pb pr \<and> dpay E n t pb pr)"
  by (cases t) auto

lemma dpay_dcut: "p \<le> length (dlabel t) \<Longrightarrow> dpay E (n - p) (dcut p t) pb pr \<longleftrightarrow> dpay E n t pb pr"
  by (cases t) (auto simp: Suc_diff_le)

lemma dpay_dextend: "dpay E (length q + n) (dextend q t) pb pr \<longleftrightarrow> dpay E n t pb pr"
  by (cases t) auto

lemma dlabel_dcut [simp]: "dlabel (dcut p t) = drop p (dlabel t)" "dlabel (dextend q t) = q @ dlabel t"
  by (cases t; simp)+

lemma dpay_depth:
  assumes "dpay E n t pb pr" "dwf n t" "dt_ok N t" "n \<le> N" "N < 1024" "r \<in> set pr"
  shows "plain r \<and> treeDepth r + N + length (dlabel t) < 1024 + n"
proof (cases t)
  case (DLeaf l v)
  then show ?thesis using assms by (auto simp: dval_ok_def)
next
  case (DFork l a b)
  then obtain ca cb where c: "pr = [ca, cb]" "dnode E (n - Suc (length l)) a ca" "dnode E (n - Suc (length l)) b cb" using assms(1) by auto
  have "plain ca \<and> treeDepth ca + N \<le> 1024 + (n - Suc (length l))" "plain cb \<and> treeDepth cb + N \<le> 1024 + (n - Suc (length l))"
    using dnode_plain [OF c(2), of N] dnode_plain [OF c(3), of N] assms DFork by simp_all
  then show ?thesis using assms(2,6) c(1) DFork by auto
qed

lemma dpay_fork: "dpay E n t pb pr \<Longrightarrow> dwf n t \<Longrightarrow> length (dlabel t) < n \<Longrightarrow> pb = [] \<and> length pr = 2"
  by (cases t) auto

subsection \<open>Values\<close>

definition val_is :: "dictSetValue \<Rightarrow> dval \<Rightarrow> bool" where
  "val_is d v \<longleftrightarrow> (case dsv_cell d of
     Some c \<Rightarrow> c = bitsCell (fst v) (snd v)
   | None \<Rightarrow> (\<exists>b. dsv_builder d = Some b \<and> builder_ok b \<and> builderBits b = fst v \<and> b_refs b = snd v))"

definition slice_is :: "slice \<Rightarrow> dval \<Rightarrow> bool" where
  "slice_is s v \<longleftrightarrow> slice_ok s \<and> sliceBits s = fst v \<and> sliceRefs s = snd v"

lemma labelBits_room:
  assumes "dval_ok N v" "length l \<le> n" "n \<le> N"
  shows "length (labelBits n l @ fst v) < 1024" "length (labelBits n l) < 1024"
  using labelBits_le [OF assms(2)] bitLen_mono [OF assms(3)] assms(1,3) by (simp_all add: dval_ok_def)

lemma storeSetLeaf_ok:
  assumes "val_is d v" "dval_ok N v" "slice_ok pfx" "sliceBits pfx = l" "length l \<le> n" "n \<le> N" "N < 1024"
  shows "storeSetLeaf sha pfx d n = Inr (Some (bitsCell (labelBits n l @ fst v) (snd v)))"
proof -
  have v: "length (fst v) < 1024" "length (snd v) \<le> 4" "\<forall>r\<in>set (snd v). plain r \<and> treeDepth r < 1024"
    using assms(2) by (auto simp: dval_ok_def)
  obtain b where b: "builder_ok b" "builderBits b = fst v" "b_refs b = snd v" "storeSetLeaf sha pfx d n = storeLeaf sha pfx (Some b) n"
  proof (cases "dsv_cell d")
    case None
    then show thesis using assms(1) that by (auto simp: val_is_def storeSetLeaf_def)
  next
    case (Some c)
    then show thesis using assms(1) cellToBuilder_ok [OF v(1,2)] by (intro that [of "cellToBuilder c"]) (auto simp: val_is_def storeSetLeaf_def)
  qed
  have "storeDictNode sha pfx b n = Inr (bitsCell (labelBits n l @ fst v) (snd v))"
    using storeDictNode_ok [OF assms(3,4,5) _ b(1), of sha] labelBits_room [OF assms(2,5,6)] v(3) b assms(6,7) by simp
  then show ?thesis using b(4) by (simp add: storeLeaf_def)
qed

text \<open>The two halves of a split edge, and the fork above them.\<close>

lemma sliceBits_prefix:
  assumes "slice_ok s" "p \<le> BitsLeft s"
  shows "slice_ok (s\<lparr>sl_bitEnd := sl_bitStart s + p\<rparr>)" "sliceBits (s\<lparr>sl_bitEnd := sl_bitStart s + p\<rparr>) = take p (sliceBits s)"
  using assms by (auto simp: slice_ok_def sliceBits_def bitsOf_def BitsLeft_def take_map take_upt)

lemma splitEdge_ok:
  assumes op: "opened n l bs pb pr node" and p: "p < length l" and n: "n \<le> N" "N < 1024"
    and room: "length (bs @ pb) < 1024" "length pr \<le> 4" "\<forall>r\<in>set pr. plain r \<and> treeDepth r < 1023"
    and pfx: "slice_ok pfx" "sliceBits pfx = k" "length k = n - Suc p" and v: "val_is d v" "dval_ok N v"
  defines "old \<equiv> bitsCell (labelBits (n - Suc p) (drop (Suc p) l) @ pb) pr"
    and "new \<equiv> bitsCell (labelBits (n - Suc p) k @ fst v) (snd v)"
  shows "splitEdge sha node pfx n d p right = Inr (bitsCell (labelBits n (take p l)) (if right then [old, new] else [new, old]))"
proof -
  have enc: "label_enc n l bs" and lab: "slice_ok (fn_label node)" "sliceBits (fn_label node) = l" using op by (auto simp: opened_def)
  have len: "length l \<le> n" "BitsLeft (fn_label node) = length l" using enc lab length_sliceBits [of "fn_label node"] by (auto simp: label_enc_def)
  have sp: "splitLabel node p = Inr ((fn_label node)\<lparr>sl_bitEnd := sl_bitStart (fn_label node) + p\<rparr>, consumed (Suc p) 0 (fn_label node))"
    using p len by (simp add: splitLabel_def rn_Inr [OF SkipBits_ok])
  have rest: "slice_ok (consumed (Suc p) 0 (fn_label node))" "sliceBits (consumed (Suc p) 0 (fn_label node)) = drop (Suc p) l"
    using consumed_bits [OF lab(1), of "take (Suc p) l" "drop (Suc p) l"] lab(2) p by simp_all
  note pre = sliceBits_prefix [OF lab(1), of p]
  have cutlen: "length (labelBits (n - Suc p) (drop (Suc p) l)) \<le> length bs" "length (labelBits n (take p l)) \<le> length bs"
    using labelBits_cut [OF enc, of "n - Suc p" "drop (Suc p) l"] labelBits_cut [OF enc, of n "take p l"] p len
      set_drop_subset [of "Suc p" l] set_take_subset [of p l] by auto
  note pay = opened_payload [OF op room(2)]
  have "emits (seq (storeDictLabel (consumed (Suc p) 0 (fn_label node)) (n - Suc p)) (storeBuilder (ToBuilder (fn_loader node)) False))
      (labelBits (n - Suc p) (drop (Suc p) l) @ builderBits (ToBuilder (fn_loader node))) ([] @ b_refs (ToBuilder (fn_loader node)))"
    using n p len by (intro emits_seq emits_storeDictLabel emits_storeBuilder rest pay) auto
  then obtain ob where ob: "seq (storeDictLabel (consumed (Suc p) 0 (fn_label node)) (n - Suc p)) (storeBuilder (ToBuilder (fn_loader node)) False) BeginCell = (Inr (), ob)"
      "builder_ok ob" "builderBits ob = labelBits (n - Suc p) (drop (Suc p) l) @ pb" "b_refs ob = pr"
    using pay cutlen room by (elim emits_fresh) auto
  have oldc: "EndCellSpecial sha ob False = Inr old"
    unfolding old_def by (rule EndCellSpecial_bits) (use ob room in auto)
  have newc: "storeSetLeaf sha pfx d (n - Suc p) = Inr (Some new)"
    unfolding new_def by (rule storeSetLeaf_ok [OF v pfx(1,2)]) (use pfx n in auto)
  have "N \<noteq> 0" using p len n by auto
  then have "\<forall>r\<in>set (snd v). plain r \<and> treeDepth r < 1023" using v(2) by (auto simp: dval_ok_def)
  then have kids: "\<forall>r\<in>set (if right then [old, new] else [new, old]). plain r \<and> treeDepth r < 1024"
    using room(3) by (auto simp: old_def new_def bitsCell_def list_all_iff)
  obtain fb where fb: "forkPayload (Some (if right then old else new)) (Some (if right then new else old)) = Inr fb"
      "builder_ok fb" "builderBits fb = []" "b_refs fb = [if right then old else new, if right then new else old]" by (rule forkPayload_ok)
  have "storeDictNode sha ((fn_label node)\<lparr>sl_bitEnd := sl_bitStart (fn_label node) + p\<rparr>) fb n =
      Inr (bitsCell (labelBits n (take p l) @ builderBits fb) (b_refs fb))"
    using pre p len lab n cutlen room fb kids by (intro storeDictNode_ok) auto
  then show ?thesis using sp ob(1) oldc newc fb by (cases right) (simp_all add: splitEdge_def rn_def storeFork_def)
qed

subsection \<open>Merging two edges\<close>

lemma builderSliceView_ok:
  assumes "builder_ok b"
  shows "slice_ok (builderSliceView b)" "sliceBits (builderSliceView b) = builderBits b"
proof -
  show "sliceBits (builderSliceView b) = builderBits b"
    using bitsOf_dataSlice [OF assms] by (simp add: builderSliceView_def sliceBits_def)
  show "slice_ok (builderSliceView b)"
    using assms by (auto simp: builderSliceView_def slice_ok_def dataSlice_def usedBytes_def builder_ok_def)
qed

lemma mergedEdgeLabel_ok:
  assumes "opened n l bs pb pr node" "slice_ok s" "sliceBits s = l'" "length (l @ y # l') < 1024"
  obtains m where "mergedEdgeLabel node (of_bool y) s = Inr m" "slice_ok m" "sliceBits m = l @ y # l'"
proof -
  have lab: "slice_ok (fn_label node)" "sliceBits (fn_label node) = l" "fn_labelLen node = length l" using assms(1) by (auto simp: opened_def)
  have left: "BitsLeft s = length l'" using assms(3) length_sliceBits [of s] by simp
  have "emits (seq (storeSliceBits (fn_label node) (length l)) (seq (StoreUInt (of_bool y) 1) (storeSliceBits s (length l')))) (l @ [y] @ l') ([] @ [] @ [])"
    by (intro emits_seq emits_storeSliceBits emits_bit lab assms)
  then obtain b where "seq (storeSliceBits (fn_label node) (length l)) (seq (StoreUInt (of_bool y) 1) (storeSliceBits s (length l'))) BeginCell = (Inr (), b)"
      "builder_ok b" "builderBits b = l @ y # l'"
    using assms(4) by (elim emits_fresh) auto
  then show thesis using builderSliceView_ok [of b] lab(3) left
    by (intro that [of "builderSliceView b"]) (simp_all add: mergedEdgeLabel_def rn_def)
qed

lemma dpay_room: "dpay E n t pb pr \<Longrightarrow> dt_ok N t \<Longrightarrow> 2 + bitLen (int N) + N + length pb < 1024"
proof -
  have "dt_ok N t \<Longrightarrow> 2 + bitLen (int N) + N < 1024" for t by (induction t) (auto simp: dval_ok_def)
  then show "dpay E n t pb pr \<Longrightarrow> dt_ok N t \<Longrightarrow> ?thesis" by (cases t) (auto simp: dval_ok_def)
qed

end
