(* ===== verification/Dict_Refine.thy ===== *)
theory Dict_Refine
  imports Dict_Layout
begin

section \<open>The operations on cells implement the abstract dictionary\<close>

text \<open>
  Insertion, deletion and lookup on laid out trees follow the operations on Patricia trees, for any
  admissible choice of label encodings.
\<close>

definition mode_changes :: "DictSetMode \<Rightarrow> bool \<Rightarrow> bool" where
  "mode_changes mode present \<longleftrightarrow> (case mode of DictSetModeSet \<Rightarrow> True | DictSetModeAdd \<Rightarrow> \<not> present | DictSetModeReplace \<Rightarrow> present)"

lemma consumed_take:
  assumes "slice_ok s" "sliceBits s = k" "p \<le> length k"
  shows "slice_ok (consumed p 0 s)" "sliceBits (consumed p 0 s) = drop p k" "BitsLeft (consumed p 0 s) = length k - p"
proof -
  have "sliceBits s = take p k @ drop p k" "length (take p k) = p" using assms by simp_all
  from consumed_bits [OF assms(1) this(1)] this(2)
  show "slice_ok (consumed p 0 s)" "sliceBits (consumed p 0 s) = drop p k" by simp_all
  then show "BitsLeft (consumed p 0 s) = length k - p" using length_sliceBits [of "consumed p 0 s"] by simp
qed

lemma mustLoadBit_ok:
  assumes "slice_ok s" "sliceBits s = x # k"
  shows "mustLoadBit s = Inr (of_bool x, consumed 1 0 s)"
  using reads_bits [OF reads_bit assms(1), of x k] assms(2) by (simp add: mustLoadBit_def)

text \<open>What an insertion returns: the new root, the value it found, and whether anything changed.\<close>

definition set_post ::
    "label_rel \<Rightarrow> nat \<Rightarrow> dval dtree \<Rightarrow> cell \<Rightarrow> bool list \<Rightarrow> dval \<Rightarrow> DictSetMode \<Rightarrow> go_error + cell option \<times> slice option \<times> bool \<Rightarrow> bool" where
  "set_post E n t c k v mode r \<longleftrightarrow> (let chg = mode_changes mode (dlookup t k \<noteq> None) in
     \<exists>c' old. r = Inr (Some c', old, chg) \<and> dnode E n (if chg then dinsert k v t else t) c' \<and> (chg \<or> c' = c) \<and>
       rel_option slice_is old (dlookup t k))"

lemma dlookup_mismatch: "length (dlabel t) \<le> length k \<Longrightarrow> lcp (dlabel t) k \<noteq> length (dlabel t) \<Longrightarrow> dlookup t k = None"
proof (cases t)
  case (DFork l a b)
  assume ne: "lcp (dlabel t) k \<noteq> length (dlabel t)"
  have "take (length l) k \<noteq> l"
  proof
    assume "take (length l) k = l"
    then have "prefix l k" by (metis take_is_prefix)
    then show False using ne DFork lcp_prefix by simp
  qed
  then show ?thesis using DFork by simp
next
  case (DLeaf l v)
  assume "lcp (dlabel t) k \<noteq> length (dlabel t)"
  then show ?thesis using DLeaf lcp_eq_length [of l k] by auto
qed

lemma dinsert_mismatch: "lcp (dlabel t) k \<noteq> length (dlabel t) \<Longrightarrow> dinsert k v t = dsplit t (lcp (dlabel t) k) k v"
  by (cases t) (simp_all add: Let_def)

definition del_post ::
    "label_rel \<Rightarrow> nat \<Rightarrow> dval dtree \<Rightarrow> bool list \<Rightarrow> go_error + slice option \<times> cell option \<times> bool \<Rightarrow> bool" where
  "del_post E n t k r \<longleftrightarrow> (case dlookup t k of
     None \<Rightarrow> r = Inr (None, None, False)
   | Some v \<Rightarrow> \<exists>s root. r = Inr (Some s, root, True) \<and> slice_is s v \<and> rel_option (dnode E n) (ddelete k t) root)"

definition find_post :: "dval dtree \<Rightarrow> bool list \<Rightarrow> go_error + slice \<Rightarrow> bool" where
  "find_post t k r \<longleftrightarrow> (case dlookup t k of None \<Rightarrow> r = Inl ErrNoSuchKeyInDict | Some v \<Rightarrow> \<exists>s. r = Inr s \<and> slice_is s v)"

lemma goodFork:
  assumes "slice_ok s" "sliceBits s = []" "length (sliceRefs s) = 2" shows "\<not> badFork s lenient"
proof -
  have "BitsLeft s = 0" "RefsNum s = 2" using assms length_sliceBits [of s] length_sliceRefs [of s] by simp_all
  then show ?thesis using assms(1) by (simp add: badFork_def slice_ok_def BitsLeft_def)
qed

locale label_code =
  fixes E :: label_rel
  assumes canonical_code: "length l \<le> n \<Longrightarrow> E n l (labelBits n l)"
    and accepted: "E n l bs \<Longrightarrow> label_enc n l bs"
begin

lemma laidI:
  "length l \<le> n \<Longrightarrow> length (labelBits n l @ pb) < 1024 \<Longrightarrow> length pr \<le> 4 \<Longrightarrow> laid E n l (bitsCell (labelBits n l @ pb) pr) pb pr"
  unfolding laid_def using canonical_code by blast

lemma dnode_open:
  assumes "dnode E n t c" "dwf n t" "n < 1024"
  obtains node bs pb pr where "openNode c n = Inr node" "opened n (dlabel t) bs pb pr node" "fn_cell node = c"
    "length (bs @ pb) < 1024" "length pr \<le> 4" "dpay E n t pb pr"
proof -
  obtain pb pr where "laid E n (dlabel t) c pb pr" and pay: "dpay E n t pb pr" using assms(1) dnode_iff by blast
  then obtain bs where bs: "label_enc n (dlabel t) bs" "c = bitsCell (bs @ pb) pr" "length (bs @ pb) < 1024" "length pr \<le> 4"
    using accepted by (auto simp: laid_def)
  obtain node where "openNode c n = Inr node" "opened n (dlabel t) bs pb pr node"
    unfolding bs(2) by (rule openNode_ok [OF bs(1) assms(3) bs(3)]) (use dpay_fork [OF pay assms(2)] in auto)
  moreover from this(2) bs(2) have "fn_cell node = c" by (simp add: opened_def)
  ultimately show thesis using that bs pay by blast
qed

lemma split_node:
  assumes "opened n (dlabel t) bs pb pr node" "length (bs @ pb) < 1024" "length pr \<le> 4" "dpay E n t pb pr"
    and t: "dwf n t" "dt_ok N t" "n \<le> N" "N < 1024"
    and k: "slice_ok pfx" "sliceBits pfx = k" "length k = n" and v: "val_is d v" "dval_ok N v"
    and ne: "lcp (dlabel t) k \<noteq> length (dlabel t)"
  defines "p \<equiv> lcp (dlabel t) k"
  shows "\<exists>c. splitEdge sha node (consumed (p + 1) 0 pfx) n d p (k ! p) = Inr c \<and> dnode E n (dsplit t p k v) c"
proof -
  have len: "length (dlabel t) \<le> length k" using dwf_label [OF t(1)] k(3) by simp
  note p = lcp_less [OF ne len, folded p_def]
  let ?m = "n - Suc p"
  define old new where "old = bitsCell (labelBits ?m (drop (Suc p) (dlabel t)) @ pb) pr"
    and "new = bitsCell (labelBits ?m (drop (Suc p) k) @ fst v) (snd v)"
  have refs: "\<forall>r\<in>set pr. plain r \<and> treeDepth r < 1023"
    using dpay_depth [OF assms(4) t] t(3) p(1) by fastforce
  have "Suc p \<le> length k" using p(2) by simp
  note pfx = consumed_take [OF k(1,2) this]
  have "splitEdge sha node (consumed (Suc p) 0 pfx) n d p (k ! p) =
      Inr (bitsCell (labelBits n (take p (dlabel t))) (if k ! p then [old, new] else [new, old]))"
    unfolding old_def new_def
    by (rule splitEdge_ok [OF assms(1) p(1) t(3,4) assms(2,3) refs pfx(1,2) _ v]) (use k(3) in simp)
  moreover have enc: "label_enc n (dlabel t) bs" using assms(1) by (simp add: opened_def)
  have cut: "length (labelBits ?m (drop (Suc p) (dlabel t))) \<le> length bs" "length (labelBits n (take p (dlabel t))) \<le> length bs"
    using labelBits_cut [OF enc, of ?m "drop (Suc p) (dlabel t)"] labelBits_cut [OF enc, of n "take p (dlabel t)"] p len k(3)
      set_drop_subset [of "Suc p" "dlabel t"] set_take_subset [of p "dlabel t"] by auto
  have "laid E ?m (drop (Suc p) (dlabel t)) old pb pr"
    unfolding old_def using cut assms(2,3) len k(3) by (intro laidI) auto
  then have "dnode E ?m (dcut (Suc p) t) old"
    using assms(4) dpay_dcut [of "Suc p" t E n pb pr] p(1) by (auto simp: dnode_iff)
  moreover have "laid E ?m (drop (Suc p) k) new (fst v) (snd v)"
    unfolding new_def using labelBits_room [OF v(2), of "drop (Suc p) k" ?m] v(2) k(3) t(3) by (intro laidI) (auto simp: dval_ok_def)
  then have "dnode E ?m (DLeaf (drop (Suc p) k) v) new" by simp
  moreover have "laid E n (take p (dlabel t)) (bitsCell (labelBits n (take p (dlabel t))) [x, y]) [] [x, y]" for x y
    using laidI [of "take p (dlabel t)" n "[]" "[x, y]"] cut(2) assms(2) len k(3) by simp
  ultimately show ?thesis using p(1) by (auto simp: dsplit_def dfork_def min_absorb2)
qed

text \<open>A child is replaced in a fork.\<close>

lemma replace_node:
  assumes "opened n l bs [] [ca, cb] node" "length bs < 1024" "length l < n" "n \<le> N" "N < 1024"
    and kids: "dnode E (n - Suc (length l)) a ca" "dnode E (n - Suc (length l)) b cb" "dwf (n - Suc (length l)) a" "dwf (n - Suc (length l)) b"
      "dt_ok N a" "dt_ok N b"
    and x: "dnode E (n - Suc (length l)) u c" "dwf (n - Suc (length l)) u" "dt_ok N u"
  shows "\<exists>c'. replaceChild sha node n (of_bool right) (Some c) = Inr c' \<and> dnode E n (dfork l right u (if right then a else b)) c'"
proof -
  have m: "n - Suc (length l) < N" using assms(3,4) by simp
  have pl: "plain ca \<and> treeDepth ca < 1024" "plain cb \<and> treeDepth cb < 1024" "plain c \<and> treeDepth c < 1024"
    using dnode_child_plain m assms(5) kids x by blast+
  let ?rs = "[ca, cb][of_bool right := c]"
  have "\<forall>r\<in>set ?rs. plain r \<and> treeDepth r < 1024" using pl by (cases right) auto
  then have r: "replaceChild sha node n (of_bool right) (Some c) = Inr (bitsCell (labelBits n l) ?rs)"
    using assms(2,4,5) by (intro replaceChild_ok [OF assms(1)]) auto
  have enc: "label_enc n l bs" using assms(1) by (simp add: opened_def)
  have "laid E n l (bitsCell (labelBits n l) ?rs) [] ?rs"
    using laidI [of l n "[]" ?rs] labelBits_shortest [OF enc] assms(2,3) by simp
  then have "dnode E n (dfork l right u (if right then a else b)) (bitsCell (labelBits n l) ?rs)"
    using kids x by (cases right) (auto simp: dfork_def)
  then show ?thesis using r by blast
qed

lemma set_mismatch:
  assumes c: "dnode E n t c" "dwf n t" "dt_ok N t" "n \<le> N" "N < 1024"
    and k: "slice_ok pfx" "sliceBits pfx = k" "length k = n" and v: "val_is d v" "dval_ok N v"
    and ne: "lcp (dlabel t) k \<noteq> length (dlabel t)"
  shows "set_post E n t c k v mode (dict_set sha (Some c) pfx n d mode)"
proof -
  let ?p = "lcp (dlabel t) k"
  have n: "n < 1024" using c by simp
  obtain node bs pb pr where node: "openNode c n = Inr node" "opened n (dlabel t) bs pb pr node" "fn_cell node = c"
    "length (bs @ pb) < 1024" "length pr \<le> 4" "dpay E n t pb pr"
    by (rule dnode_open [OF c(1,2) n])
  have lab: "slice_ok (fn_label node)" "sliceBits (fn_label node) = dlabel t" "fn_labelLen node = length (dlabel t)"
    using node(2) by (auto simp: opened_def)
  have len: "length (dlabel t) \<le> length k" using dwf_label [OF c(2)] k(3) by simp
  have left: "BitsLeft pfx = n" using k length_sliceBits [of pfx] by simp
  note p = lcp_less [OF ne len]
  have "matchLabelView (fn_label node) (fn_labelLen node) pfx = (Inr (?p, k ! ?p, True), consumed (?p + 1) 0 pfx)"
    using matchLabelView_ok [OF lab(1,2) k(1)] left len k p(1) lab(3) by simp
  then have m: "rn (matchLabelView (fn_label node) (fn_labelLen node)) pfx = Inr ((?p, k ! ?p, True), consumed (?p + 1) 0 pfx)" by (rule rn_Inr)
  obtain c' where "splitEdge sha node (consumed (?p + 1) 0 pfx) n d ?p (k ! ?p) = Inr c'" "dnode E n (dsplit t ?p k v) c'"
    using split_node [OF node(2,4,5,6) c(2-5) k v ne] by blast
  moreover have "?p \<noteq> fn_labelLen node" using ne lab(3) by simp
  ultimately show ?thesis
    using node(1,3) m dlookup_mismatch [OF len ne] dinsert_mismatch [OF ne, of v] c(1)
    by (cases mode) (simp_all add: set_post_def dict_set.simps mode_changes_def)
qed

lemma dict_set_refines:
  assumes "dnode E n t c" "dwf n t" "dt_ok N t" "n \<le> N" "N < 1024"
    and "slice_ok pfx" "sliceBits pfx = k" "length k = n" and v: "val_is d v" "dval_ok N v"
  shows "set_post E n t c k v mode (dict_set sha (Some c) pfx n d mode)"
  using assms(1-8)
proof (induction t arbitrary: n c pfx k)
  case (DLeaf l w)
  show ?case
  proof (cases "lcp l k = length l")
    case False
    then show ?thesis using set_mismatch [OF DLeaf.prems v] by simp
  next
    case True
    have n: "n < 1024" "length l = n" using DLeaf.prems by simp_all
    then have kl: "k = l" using True DLeaf.prems(8) lcp_eq_length [of l k] by simp
    obtain node bs pb pr where node: "openNode c n = Inr node" "opened n (dlabel (DLeaf l w)) bs pb pr node" "fn_cell node = c" "dpay E n (DLeaf l w) pb pr"
      by (rule dnode_open [OF DLeaf.prems(1,2) n(1)])
    have lab: "slice_ok (fn_label node)" "sliceBits (fn_label node) = l" "fn_labelLen node = length l" "slice_is (fn_loader node) w"
      using node(2,4) by (auto simp: opened_def slice_is_def)
    have left: "BitsLeft pfx = n" using DLeaf.prems(7,8) length_sliceBits [of pfx] by simp
    have "matchLabelView (fn_label node) (fn_labelLen node) pfx = (Inr (length l, False, False), consumed n 0 pfx)"
      using matchLabelView_ok [OF lab(1,2) DLeaf.prems(6)] left n True DLeaf.prems(7) lab(3) by simp
    then have m: "rn (matchLabelView (fn_label node) (fn_labelLen node)) pfx = Inr ((length l, False, False), consumed n 0 pfx)" by (rule rn_Inr)
    have "BitsLeft (consumed n 0 pfx) = 0" using consumed_take(3) [OF DLeaf.prems(6,7), of n] DLeaf.prems(8) by simp
    moreover have "storeSetLeaf sha (fn_label node) d n = Inr (Some (bitsCell (labelBits n l @ fst v) (snd v)))"
      by (rule storeSetLeaf_ok [OF v lab(1,2)]) (use n DLeaf.prems in auto)
    moreover have "laid E n l (bitsCell (labelBits n l @ fst v) (snd v)) (fst v) (snd v)"
      using labelBits_room [OF v(2), of l n] n v(2) DLeaf.prems(4) by (intro laidI) (auto simp: dval_ok_def)
    ultimately show ?thesis using node(1,3) m lab n True kl DLeaf.prems(1)
      by (cases mode) (simp_all add: set_post_def dict_set.simps mode_changes_def Let_def)
  qed
next
  case (DFork l a b)
  show ?case
  proof (cases "lcp l k = length l")
    case False
    then show ?thesis using set_mismatch [OF DFork.prems v] by simp
  next
    case True
    have n: "n < 1024" "length l < n" using DFork.prems by simp_all
    obtain x j where k: "k = l @ x # j" using True lcp_prefix [of l k] n(2) DFork.prems(8) by (metis append_Nil2 list.exhaust nat_neq_iff prefixE)
    obtain node bs pb pr where node: "openNode c n = Inr node" "opened n (dlabel (DFork l a b)) bs pb pr node" "fn_cell node = c"
        "length (bs @ pb) < 1024" "dpay E n (DFork l a b) pb pr"
      by (rule dnode_open [OF DFork.prems(1,2) n(1)])
    then obtain ca cb where kids: "pb = []" "pr = [ca, cb]" "dnode E (n - Suc (length l)) a ca" "dnode E (n - Suc (length l)) b cb" by auto
    have op: "opened n l bs [] [ca, cb] node" using node(2) kids by simp
    have lab: "slice_ok (fn_label node)" "sliceBits (fn_label node) = l" "fn_labelLen node = length l" using op by (auto simp: opened_def)
    have left: "BitsLeft pfx = n" using DFork.prems(7,8) length_sliceBits [of pfx] by simp
    have "matchLabelView (fn_label node) (fn_labelLen node) pfx = (Inr (length l, False, False), consumed (length l) 0 pfx)"
      using matchLabelView_ok [OF lab(1,2) DFork.prems(6)] left n True DFork.prems(7) lab(3) by simp
    then have m: "rn (matchLabelView (fn_label node) (fn_labelLen node)) pfx = Inr ((length l, False, False), consumed (length l) 0 pfx)" by (rule rn_Inr)
    have "length l \<le> length k" "Suc (length l) \<le> length k" using k by simp_all
    note p1 = consumed_take [OF DFork.prems(6,7) this(1)] and p2 = consumed_take [OF DFork.prems(6,7) this(2)]
    have bit: "mustLoadBit (consumed (length l) 0 pfx) = Inr (of_bool x, consumed (Suc (length l)) 0 pfx)"
      using mustLoadBit_ok [OF p1(1), of x j] p1(2) k by simp
    let ?u = "if x then b else a" and ?c = "if x then cb else ca" and ?m = "n - Suc (length l)"
    have ref: "nodeRef node (of_bool x) = Inr ?c" using opened_ref [OF op, of "of_bool x"] by (cases x) simp_all
    have IH: "set_post E ?m ?u ?c j v mode (dict_set sha (Some ?c) (consumed (Suc (length l)) 0 pfx) ?m d mode)"
      using DFork.IH [of ?m] kids DFork.prems p2 k by (cases x) auto
    have look: "dlookup (DFork l a b) k = dlookup ?u j" unfolding k by (rule dlookup_child)
    have ins: "dinsert k v (DFork l a b) = dfork l x (dinsert j v ?u) (if x then a else b)"
      using True k by (cases x) (simp_all add: Let_def nth_append dfork_def)
    have step: "dict_set sha (Some c) pfx n d mode =
        sbind (dict_set sha (Some ?c) (consumed (Suc (length l)) 0 pfx) ?m d mode) (\<lambda>(ref1, oldValue, changed).
          if \<not> changed then Inr (Some (fn_cell node), oldValue, False)
          else sbind (replaceChild sha node n (of_bool x) ref1) (\<lambda>cloned. Inr (Some cloned, oldValue, True)))"
      unfolding dict_set.simps(2) [of sha c pfx n d mode]
      using node(1,3) m bit ref lab(3) p1(3) n k DFork.prems(8) by simp
    obtain c1 old where r: "dict_set sha (Some ?c) (consumed (Suc (length l)) 0 pfx) ?m d mode = Inr (Some c1, old, mode_changes mode (dlookup ?u j \<noteq> None))"
        "dnode E ?m (if mode_changes mode (dlookup ?u j \<noteq> None) then dinsert j v ?u else ?u) c1" "rel_option slice_is old (dlookup ?u j)"
      using IH unfolding set_post_def Let_def by blast
    show ?thesis
    proof (cases "mode_changes mode (dlookup ?u j \<noteq> None)")
      case False
      then show ?thesis unfolding set_post_def Let_def look step r(1) using DFork.prems(1) r(3) node(3) by simp
    next
      case chg: True
      have wf: "dwf ?m ?u" "dt_ok N ?u" "length j = ?m" using DFork.prems k by (cases x; auto)+
      have "\<exists>c'. replaceChild sha node n (of_bool x) (Some c1) = Inr c' \<and> dnode E n (dfork l x (dinsert j v ?u) (if x then a else b)) c'"
        by (rule replace_node [OF op _ n(2) DFork.prems(4,5) kids(3,4)])
          (use node(4) kids(1) chg r(2) dinsert_dwf [OF wf(1,3)] dt_ok_dinsert [OF wf(2) v(2)] DFork.prems(2,3) in simp_all)
      then show ?thesis unfolding set_post_def Let_def look step r(1) ins using chg r(3) by auto
    qed
  qed
qed

lemma merge_node:
  fixes y :: bool
  assumes "opened n l bs [] [ca, cb] node" "length l < n" "n \<le> N" "N < 1024"
    and kids: "dnode E (n - Suc (length l)) a ca" "dnode E (n - Suc (length l)) b cb" "dwf (n - Suc (length l)) a" "dwf (n - Suc (length l)) b"
      "dt_ok N a" "dt_ok N b"
  defines "u \<equiv> if y then b else a"
  shows "\<exists>c. mergeNeighbour sha node n (n - Suc (length l)) (of_bool y) = Inr (Some c) \<and> dnode E n (dextend (l @ [y]) u) c"
proof -
  let ?m = "n - Suc (length l)" and ?c = "if y then cb else ca"
  have u: "dnode E ?m u ?c" "dwf ?m u" "dt_ok N u" using kids by (auto simp: u_def)
  have n: "?m < 1024" "n < 1024" using assms(3,4) by simp_all
  obtain other bs' pb pr where o: "openNode ?c ?m = Inr other" "opened ?m (dlabel u) bs' pb pr other" "length pr \<le> 4" "dpay E ?m u pb pr"
    by (rule dnode_open [OF u(1,2) n(1)])
  have lab: "slice_ok (fn_label other)" "sliceBits (fn_label other) = dlabel u" using o(2) by (auto simp: opened_def)
  let ?l = "l @ y # dlabel u"
  have len: "length ?l \<le> n" using dwf_label [OF u(2)] assms(2) by simp
  then have lt: "length (l @ y # dlabel u) < 1024" using n(2) by simp
  obtain m where m: "mergedEdgeLabel node (of_bool y) (fn_label other) = Inr m" "slice_ok m" "sliceBits m = ?l"
    by (rule mergedEdgeLabel_ok [OF assms(1) lab lt])
  note pay = opened_payload [OF o(2,3)]
  have room: "length (labelBits n ?l @ pb) < 1024"
    using labelBits_le [OF len] bitLen_mono [OF assms(3)] dpay_room [OF o(4) u(3)] assms(3) by simp
  have "\<forall>r\<in>set pr. plain r \<and> treeDepth r < 1024" using dpay_depth [OF o(4) u(2,3) _ assms(4)] assms(3) by fastforce
  then have "storeDictNode sha m (ToBuilder (fn_loader other)) n = Inr (bitsCell (labelBits n ?l @ pb) pr)"
    using storeDictNode_ok [OF m(2,3) len n(2) pay(1), of sha] pay room by simp
  moreover have "nodeRef node (of_bool y) = Inr ?c" using opened_ref [OF assms(1), of "of_bool y"] by (cases y) simp_all
  moreover have "(word_of_nat (of_bool y) :: 64 word) = of_bool y" by simp
  ultimately have "mergeNeighbour sha node n ?m (of_bool y) = Inr (Some (bitsCell (labelBits n ?l @ pb) pr))"
    using o(1) m(1) by (simp add: mergeNeighbour_def storeLeaf_def)
  moreover have "laid E n ?l (bitsCell (labelBits n ?l @ pb) pr) pb pr" using laidI [OF len room o(3)] .
  moreover have "length (l @ [y]) + ?m = n" using assms(2) by simp
  then have "dpay E n (dextend (l @ [y]) u) pb pr" using o(4) dpay_dextend [of E "l @ [y]" ?m u pb pr] by simp
  ultimately show ?thesis by (auto simp: dnode_iff)
qed

lemma del_mismatch:
  assumes "openNode c n = Inr node" "opened n (dlabel t) bs pb pr node" "dwf n t"
    and k: "slice_ok pfx" "sliceBits pfx = k" "length k = n" and ne: "lcp (dlabel t) k \<noteq> length (dlabel t)"
  shows "lookupDelete sha c pfx n = Inr (None, None, False)"
proof -
  have lab: "slice_ok (fn_label node)" "sliceBits (fn_label node) = dlabel t @ []" "fn_labelLen node = length (dlabel t)"
    using assms(2) by (auto simp: opened_def)
  have len: "length (dlabel t) \<le> BitsLeft pfx" using dwf_label [OF assms(3)] k length_sliceBits [of pfx] by simp
  have "lcp (dlabel t) (sliceBits pfx) < fn_labelLen node" using ne lab(3) k(2) lcp_le(1) [of "dlabel t" k] by simp
  then show ?thesis
    unfolding lookupDelete.simps [of sha c] using assms(1) consumeCommonPrefix_ok [OF lab(1) k(1) lab(2) len] lab(3) by (simp add: rn_def)
qed

lemma del_match:
  assumes "opened n l bs pb pr node" "slice_ok pfx" "sliceBits pfx = k" "lcp l k = length l"
  shows "rn (consumeCommonPrefix (fn_labelLen node)) (fn_label node, pfx) =
    Inr (length l, (consumed (length l) 0 (fn_label node), consumed (length l) 0 pfx))"
proof -
  have lab: "slice_ok (fn_label node)" "sliceBits (fn_label node) = l @ []" "fn_labelLen node = length l" using assms(1) by (auto simp: opened_def)
  have "length l \<le> BitsLeft pfx" using assms(3,4) lcp_le(2) [of l k] length_sliceBits [of pfx] by simp
  then show ?thesis using consumeCommonPrefix_ok [OF lab(1) assms(2) lab(2)] assms(3,4) lab(3) by (intro rn_Inr) simp
qed

lemma lookupDelete_refines:
  assumes "dnode E n t c" "dwf n t" "dt_ok N t" "n \<le> N" "N < 1024"
    and "slice_ok pfx" "sliceBits pfx = k" "length k = n"
  shows "del_post E n t k (lookupDelete sha c pfx n)"
  using assms
proof (induction t arbitrary: n c pfx k)
  case (DLeaf l w)
  have n: "n < 1024" "length l = n" using DLeaf.prems by simp_all
  obtain node bs pb pr where node: "openNode c n = Inr node" "opened n (dlabel (DLeaf l w)) bs pb pr node" "dpay E n (DLeaf l w) pb pr"
    by (rule dnode_open [OF DLeaf.prems(1,2) n(1)])
  show ?case
  proof (cases "lcp l k = length l")
    case False
    then have "lookupDelete sha c pfx n = Inr (None, None, False)" using del_mismatch [OF node(1,2) DLeaf.prems(2,6-8)] by simp
    moreover have "dlookup (DLeaf l w) k = None" by (rule dlookup_mismatch) (use False n DLeaf.prems(8) in auto)
    ultimately show ?thesis by (simp add: del_post_def del: dlookup.simps)
  next
    case True
    have op: "opened n l bs pb pr node" using node(2) by simp
    have kl: "k = l" using True DLeaf.prems(8) n lcp_eq_length [of l k] by simp
    have "BitsLeft (consumed (length l) 0 pfx) = 0" using consumed_take(3) [OF DLeaf.prems(6,7), of n] n DLeaf.prems(8) by simp
    moreover have "slice_is (fn_loader node) w" "fn_labelLen node = length l" using op node(3) by (auto simp: opened_def slice_is_def)
    ultimately show ?thesis unfolding lookupDelete.simps [of sha c] using node(1) del_match [OF op DLeaf.prems(6,7) True] kl by (simp add: del_post_def)
  qed
next
  case (DFork l a b)
  have n: "n < 1024" "length l < n" using DFork.prems by simp_all
  obtain node bs pb pr where node: "openNode c n = Inr node" "opened n (dlabel (DFork l a b)) bs pb pr node"
      "length (bs @ pb) < 1024" "dpay E n (DFork l a b) pb pr"
    by (rule dnode_open [OF DFork.prems(1,2) n(1)])
  show ?case
  proof (cases "lcp l k = length l")
    case False
    then have "lookupDelete sha c pfx n = Inr (None, None, False)" using del_mismatch [OF node(1,2) DFork.prems(2,6-8)] by simp
    moreover have "dlookup (DFork l a b) k = None" by (rule dlookup_mismatch) (use False n DFork.prems(8) in auto)
    ultimately show ?thesis by (simp add: del_post_def del: dlookup.simps)
  next
    case True
    obtain x j where k: "k = l @ x # j" using True lcp_prefix [of l k] n(2) DFork.prems(8) by (metis append_Nil2 list.exhaust nat_neq_iff prefixE)
    obtain ca cb where kids: "pb = []" "pr = [ca, cb]" "dnode E (n - Suc (length l)) a ca" "dnode E (n - Suc (length l)) b cb"
      using node(4) by auto
    have op: "opened n l bs [] [ca, cb] node" using node(2) kids by simp
    have ll: "fn_labelLen node = length l" using op by (simp add: opened_def)
    have "length l \<le> length k" "Suc (length l) \<le> length k" using k by simp_all
    note p1 = consumed_take [OF DFork.prems(6,7) this(1)] and p2 = consumed_take [OF DFork.prems(6,7) this(2)]
    have bit: "mustLoadBit (consumed (length l) 0 pfx) = Inr (of_bool x, consumed (Suc (length l)) 0 pfx)"
      using mustLoadBit_ok [OF p1(1), of x j] p1(2) k by simp
    let ?u = "if x then b else a" and ?c = "if x then cb else ca" and ?m = "n - Suc (length l)"
    have ref: "nodeRef node (of_bool x) = Inr ?c" using opened_ref [OF op, of "of_bool x"] by (cases x) simp_all
    have IH: "del_post E ?m ?u j (lookupDelete sha ?c (consumed (Suc (length l)) 0 pfx) ?m)"
      using DFork.IH [of ?m] kids DFork.prems p2 k by (cases x) auto
    have look: "dlookup (DFork l a b) k = dlookup ?u j" unfolding k by (rule dlookup_child)
    have flip: "1 - of_bool x = (of_bool (\<not> x) :: nat)" by simp
    have step: "lookupDelete sha c pfx n =
        sbind (lookupDelete sha ?c (consumed (Suc (length l)) 0 pfx) ?m) (\<lambda>(removed, newChild, changed).
          if \<not> changed then Inr (None, None, False)
          else case newChild of
            None \<Rightarrow> sbind (mergeNeighbour sha node n (n - (length l + 1)) (1 - of_bool x)) (\<lambda>merged. Inr (removed, merged, True))
          | Some _ \<Rightarrow> sbind (replaceChild sha node n (of_bool x) newChild) (\<lambda>cloned. Inr (removed, Some cloned, True)))"
      unfolding lookupDelete.simps [of sha c pfx n]
      using node(1) del_match [OF op DFork.prems(6,7) True] bit ref ll p1(3) k DFork.prems(8) by simp
    have del: "ddelete k (DFork l a b) = Some (case ddelete j ?u of
        None \<Rightarrow> dextend (l @ [\<not> x]) (if \<not> x then b else a) | Some c' \<Rightarrow> dfork l x c' (if x then a else b))"
      using k by (cases x) (auto simp: nth_append dfork_def split: option.split)
    show ?thesis
    proof (cases "dlookup ?u j")
      case None
      then have "lookupDelete sha ?c (consumed (Suc (length l)) 0 pfx) ?m = Inr (None, None, False)" using IH by (simp add: del_post_def)
      then show ?thesis using None by (simp add: del_post_def look step del: dlookup.simps)
    next
      case (Some v)
      then obtain s root where r: "lookupDelete sha ?c (consumed (Suc (length l)) 0 pfx) ?m = Inr (Some s, root, True)" "slice_is s v"
          "rel_option (dnode E ?m) (ddelete j ?u) root"
        using IH by (auto simp: del_post_def)
      have wf: "dwf ?m ?u" "dt_ok N ?u" using DFork.prems by (cases x; auto)+
      show ?thesis
      proof (cases root)
        case root: None
        have nb: "\<exists>c. mergeNeighbour sha node n ?m (of_bool (\<not> x)) = Inr (Some c) \<and> dnode E n (dextend (l @ [\<not> x]) (if \<not> x then b else a)) c"
          by (rule merge_node [OF op n(2) DFork.prems(4,5) kids(3,4)]) (use DFork.prems in auto)
        then show ?thesis using r root Some del flip by (auto simp: del_post_def look step simp del: dlookup.simps)
      next
        case root: (Some c1)
        then obtain u where u: "ddelete j ?u = Some u" "dnode E ?m u c1" using r(3) by (auto elim: option.rel_cases)
        have "\<exists>c'. replaceChild sha node n (of_bool x) (Some c1) = Inr c' \<and> dnode E n (dfork l x u (if x then a else b)) c'"
          by (rule replace_node [OF op _ n(2) DFork.prems(4,5) kids(3,4)])
            (use node(3) kids(1) u ddelete_dwf [OF wf(1) u(1)] dt_ok_ddelete [OF wf(2) u(1)] DFork.prems(2,3) in simp_all)
        then show ?thesis using r root Some del u by (auto simp: del_post_def look step simp del: dlookup.simps)
      qed
    qed
  qed
qed

lemma dnode_cell:
  assumes "dnode E n t c" "dwf n t"
  obtains bs pb pr where "label_enc n (dlabel t) bs" "c = bitsCell (bs @ pb) pr" "length (bs @ pb) < 1024" "dpay E n t pb pr"
    "length (dlabel t) < n \<longrightarrow> pb = [] \<and> length pr = 2"
proof -
  obtain pb pr where "laid E n (dlabel t) c pb pr" and pay: "dpay E n t pb pr" using assms(1) dnode_iff by blast
  then obtain bs where "label_enc n (dlabel t) bs" "c = bitsCell (bs @ pb) pr" "length (bs @ pb) < 1024"
    using accepted by (auto simp: laid_def)
  then show thesis using that pay dpay_fork [OF pay assms(2)] by blast
qed

lemma find_mismatch:
  assumes "dnode E n t c" "dwf n t" "n < 1024" and k: "slice_ok pfx" "sliceBits pfx = k" "length k = n"
    and ne: "lcp (dlabel t) k \<noteq> length (dlabel t)"
  shows "findKeySliceInto c pfx lenient = Inl ErrNoSuchKeyInDict"
proof -
  obtain bs pb pr where c: "label_enc n (dlabel t) bs" "c = bitsCell (bs @ pb) pr" "length (bs @ pb) < 1024"
      "length (dlabel t) < n \<longrightarrow> pb = [] \<and> length pr = 2"
    by (rule dnode_cell [OF assms(1,2)])
  have left: "BitsLeft pfx = n" using k length_sliceBits [of pfx] by simp
  note s = bitsCell_slice [OF c(3), of pr, folded c(2)]
  have "length (dlabel t) \<le> BitsLeft pfx" using left dwf_label [OF assms(2)] by simp
  from matchLabelPrefix_ok [OF s(1,2) c(1) assms(3) k(1) this]
  obtain q where q: "matchLabelPrefix n (newSliceFromCell c, pfx) = (Inr (length (dlabel t), lcp (dlabel t) k), q)"
    by (cases "matchLabelPrefix n (newSliceFromCell c, pfx)") (auto simp: label_match_def Let_def k(2))
  have "\<not> cell_special c" using c(2) by simp
  moreover have "\<exists>lv s'. rn (readLabelView n) (newSliceFromCell c) = Inr (lv, s') \<and> (length (dlabel t) < n \<longrightarrow> \<not> badFork s' lenient)"
  proof -
    obtain lv where "readLabelView n (newSliceFromCell c) = (Inr lv, consumed (length bs) 0 (newSliceFromCell c))"
      by (rule readLabelView_ok [OF s(1,2) c(1) assms(3)])
    then show ?thesis using consumed_bits [OF s(1,2)] c(4) s(3) goodFork by (auto simp: rn_def)
  qed
  ultimately show ?thesis
    unfolding findKeySliceInto.simps [of c pfx] Let_def left using q ne by (cases q) (auto simp: rn_def)
qed

lemma find_match:
  assumes "dnode E n t c" "dwf n t" "n < 1024" and k: "slice_ok pfx" "sliceBits pfx = k" "length k = n"
    and eq: "lcp (dlabel t) k = length (dlabel t)"
  obtains s pb pr where "rn (matchLabelPrefix n) (newSliceFromCell c, pfx) = Inr ((length (dlabel t), length (dlabel t)), (s, consumed (length (dlabel t)) 0 pfx))"
    "slice_is s (pb, pr)" "dpay E n t pb pr" "\<not> cell_special c"
proof -
  obtain bs pb pr where c: "label_enc n (dlabel t) bs" "c = bitsCell (bs @ pb) pr" "length (bs @ pb) < 1024" "dpay E n t pb pr"
    by (rule dnode_cell [OF assms(1,2)])
  have left: "BitsLeft pfx = n" using k length_sliceBits [of pfx] by simp
  note s = bitsCell_slice [OF c(3), of pr, folded c(2)]
  have "length (dlabel t) \<le> BitsLeft pfx" using left dwf_label [OF assms(2)] by simp
  from matchLabelPrefix_ok [OF s(1,2) c(1) assms(3) k(1) this]
  have "matchLabelPrefix n (newSliceFromCell c, pfx) =
      (Inr (length (dlabel t), length (dlabel t)), (consumed (length bs) 0 (newSliceFromCell c), consumed (length (dlabel t)) 0 pfx))"
    by (cases "matchLabelPrefix n (newSliceFromCell c, pfx)") (auto simp: label_match_def Let_def k(2) eq prod_eq_iff)
  then show thesis
    using consumed_bits [OF s(1,2)] c s(3) by (intro that [of "consumed (length bs) 0 (newSliceFromCell c)" pb pr]) (auto simp: rn_def slice_is_def)
qed

lemma find_refines:
  assumes "dnode E n t c" "dwf n t" "n < 1024" and "slice_ok pfx" "sliceBits pfx = k" "length k = n"
  shows "find_post t k (findKeySliceInto c pfx lenient)"
  using assms
proof (induction t arbitrary: n c pfx k)
  case (DLeaf l w)
  have n: "length l = n" using DLeaf.prems by simp
  have left: "BitsLeft pfx = n" using DLeaf.prems(5,6) length_sliceBits [of pfx] by simp
  show ?case
  proof (cases "lcp l k = length l")
    case False
    then have "dlookup (DLeaf l w) k = None" using dlookup_mismatch [of "DLeaf l w" k] n DLeaf.prems(6) by simp
    then show ?thesis using find_mismatch [OF DLeaf.prems] False by (simp add: find_post_def del: dlookup.simps)
  next
    case True
    then have kl: "k = l" using n DLeaf.prems(6) lcp_eq_length [of l k] by simp
    have "lcp (dlabel (DLeaf l w)) k = length (dlabel (DLeaf l w))" using True by simp
    from find_match [OF DLeaf.prems this]
    obtain s pb pr where "rn (matchLabelPrefix n) (newSliceFromCell c, pfx) = Inr ((n, n), (s, consumed n 0 pfx))" "slice_is s w" "\<not> cell_special c"
      using n by (metis dlabel.simps(1) dpay.simps(1))
    then show ?thesis unfolding findKeySliceInto.simps [of c pfx] Let_def left using kl by (simp add: find_post_def)
  qed
next
  case (DFork l a b)
  have n: "length l < n" using DFork.prems by simp
  have left: "BitsLeft pfx = n" using DFork.prems(5,6) length_sliceBits [of pfx] by simp
  show ?case
  proof (cases "lcp l k = length l")
    case False
    then have "dlookup (DFork l a b) k = None" using dlookup_mismatch [of "DFork l a b" k] n DFork.prems(6) by simp
    then show ?thesis using find_mismatch [OF DFork.prems] False by (simp add: find_post_def del: dlookup.simps)
  next
    case True
    obtain x j where k: "k = l @ x # j" using True lcp_prefix [of l k] n DFork.prems(6) by (metis append_Nil2 list.exhaust nat_neq_iff prefixE)
    have "lcp (dlabel (DFork l a b)) k = length (dlabel (DFork l a b))" using True by simp
    from find_match [OF DFork.prems this]
    obtain s ca cb where m: "rn (matchLabelPrefix n) (newSliceFromCell c, pfx) = Inr ((length l, length l), (s, consumed (length l) 0 pfx))"
        "slice_is s ([], [ca, cb])" "\<not> cell_special c" "dnode E (n - Suc (length l)) a ca" "dnode E (n - Suc (length l)) b cb"
      by (metis dlabel.simps(2) dpay.simps(2))
    have "length l \<le> length k" "Suc (length l) \<le> length k" using k by simp_all
    note p1 = consumed_take [OF DFork.prems(4,5) this(1)] and p2 = consumed_take [OF DFork.prems(4,5) this(2)]
    have bit: "rn (LoadUInt 1) (consumed (length l) 0 pfx) = Inr (of_bool x, consumed (Suc (length l)) 0 pfx)"
      using reads_bits [OF reads_bit p1(1), of x j] p1(2) k by (simp add: rn_def)
    let ?u = "if x then b else a" and ?c = "if x then cb else ca" and ?m = "n - Suc (length l)"
    have ref: "fst (refAndTraceAt (unat (of_bool x :: 64 word)) s) = Inr ?c"
      using m(2) refAndTraceAt_ok [of s "of_bool x"] by (cases x) (auto simp: slice_is_def)
    have good: "\<not> badFork s lenient" using m(2) goodFork by (auto simp: slice_is_def)
    have "findKeySliceInto c pfx lenient = findKeySliceInto ?c (consumed (Suc (length l)) 0 pfx) lenient"
      unfolding findKeySliceInto.simps [of c pfx] Let_def left using m bit ref good n by simp
    moreover have "find_post ?u j (findKeySliceInto ?c (consumed (Suc (length l)) 0 pfx) lenient)"
      using DFork.IH [of ?m] m DFork.prems p2 k by (cases x) auto
    moreover have "dlookup (DFork l a b) k = dlookup ?u j" unfolding k by (rule dlookup_child)
    ultimately show ?thesis by (simp add: find_post_def del: dlookup.simps)
  qed
qed

end

end
