(* ===== verification/Dict_Walk.thy ===== *)
theory Dict_Walk
  imports Dict_Refine
begin

section \<open>Walks over a dictionary\<close>

text \<open>
  The smallest and largest key and the list of all entries.  Both walks collect the key in one builder;
  the walk over all entries shortens it again on the way back.
\<close>

subsection \<open>Shortening a builder\<close>

lemma bitAt_clearTail:
  assumes "length d = 128" "n < 1024" "k < 1024"
  shows "bitAt (clearTail n d) k \<longleftrightarrow> bitAt d k \<and> (k div 8 = n div 8 \<longrightarrow> n mod 8 \<noteq> 0 \<longrightarrow> k mod 8 < n mod 8)"
proof -
  have "n div 8 < 128" using assms(2) by (simp add: less_mult_imp_div_less)
  then show ?thesis using bit_maskTail [of "n mod 8" "k mod 8"] assms(1)
    by (auto simp: clearTail_def Let_def bitAt_def nth_list_update bit_and_iff)
qed

lemma truncateBits_ok:
  assumes "builder_ok b" "n \<le> b_bitsSz b"
  shows "builder_ok (truncateBits n b)" "builderBits (truncateBits n b) = take n (builderBits b)" "b_refs (truncateBits n b) = b_refs b"
proof -
  have b: "length (b_data b) = 128" "b_bitsSz b < 1024" "\<And>k. b_bitsSz b \<le> k \<Longrightarrow> k < 1024 \<Longrightarrow> \<not> bitAt (b_data b) k" "length (b_refs b) \<le> 4"
    using assms(1) by (auto simp: builder_ok_def)
  show "b_refs (truncateBits n b) = b_refs b" by (simp add: truncateBits_def Let_def)
  have "length (b_data (truncateBits n b)) = 128 \<and> b_bitsSz (truncateBits n b) = n \<and>
      (\<forall>k<1024. bitAt (b_data (truncateBits n b)) k \<longleftrightarrow> k < n \<and> bitAt (b_data b) k)"
  proof (cases "n = b_bitsSz b")
    case True
    then have "truncateBits n b = b" by (simp add: truncateBits_def)
    moreover have "bitAt (b_data b) k \<Longrightarrow> k < 1024 \<Longrightarrow> k < n" for k using b(3) [of k] True by (meson not_le)
    ultimately show ?thesis using b(1) True by auto
  next
    case False
    define from1 to1 d1 where "from1 = (if n mod 8 \<noteq> 0 then n div 8 + 1 else n div 8)" and "to1 = (b_bitsSz b + 7) div 8"
      and "d1 = clearTail n (b_data b)"
    let ?d = "if from1 < to1 then putBytes d1 from1 (replicate (to1 - from1) 0) else d1"
    have t: "b_data (truncateBits n b) = ?d" "b_bitsSz (truncateBits n b) = n"
      using False assms(2) by (simp_all add: truncateBits_def Let_def from1_def to1_def d1_def)
    have l1: "length d1 = 128" using b(1) by (simp add: d1_def clearTail_def Let_def)
    have to: "to1 \<le> 128" using b(2) by (simp add: to1_def)
    have "bitAt ?d k \<longleftrightarrow> k < n \<and> bitAt (b_data b) k" if k: "k < 1024" for k
    proof -
      obtain q r where e: "n = 8 * q + r" "r < 8" "n div 8 = q" "n mod 8 = r" by (rule div8E)
      obtain kq kr where ke: "k = 8 * kq + kr" "kr < 8" "k div 8 = kq" "k mod 8 = kr" by (rule div8E)
      have d1: "bitAt d1 k \<longleftrightarrow> bitAt (b_data b) k \<and> (kq = q \<longrightarrow> r \<noteq> 0 \<longrightarrow> kr < r)"
        unfolding d1_def using bitAt_clearTail [OF b(1) _ k, of n] assms(2) b(2) e ke by simp
      have zero: "bitAt ?d k \<longleftrightarrow> \<not> (from1 \<le> kq \<and> kq < to1) \<and> bitAt d1 k"
      proof (cases "from1 < to1")
        case True
        have "bitAt (putBytes d1 from1 (replicate (to1 - from1) 0)) k =
            (if 8 * from1 \<le> k \<and> k < 8 * to1 then bitAt (replicate (to1 - from1) 0) (k - 8 * from1) else bitAt d1 k)"
          using bitAt_putBytes [of from1 "replicate (to1 - from1) 0" d1 k] True to l1 k by simp
        moreover have "8 * from1 \<le> k \<longleftrightarrow> from1 \<le> kq" "k < 8 * to1 \<longleftrightarrow> kq < to1" using ke(1,2) by linarith+
        moreover have "\<not> bitAt (replicate (to1 - from1) 0) (k - 8 * from1)" if "k < 8 * to1" "8 * from1 \<le> k"
        proof -
          have "(k - 8 * from1) div 8 < to1 - from1" using that by (simp add: less_mult_imp_div_less)
          then show ?thesis by (simp add: bitAt_def)
        qed
        ultimately show ?thesis using True by auto
      qed auto
      have past: "bitAt (b_data b) k \<Longrightarrow> kq < to1"
      proof -
        assume "bitAt (b_data b) k"
        then have "k < b_bitsSz b" using b(3) k by (meson not_le)
        then have "k div 8 < to1" unfolding to1_def by (simp add: less_mult_imp_div_less)
        then show "kq < to1" using ke by simp
      qed
      have from1: "from1 = (if r \<noteq> 0 then q + 1 else q)" using e by (simp add: from1_def)
      have "k < n \<longleftrightarrow> kq < q \<or> kq = q \<and> kr < r" using e(1,2) ke(1,2) by linarith
      then show ?thesis unfolding zero d1 using past from1 by auto
    qed
    moreover have "length ?d = 128" using l1 to by auto
    ultimately show ?thesis using t by simp
  qed
  then have r: "length (b_data (truncateBits n b)) = 128" "b_bitsSz (truncateBits n b) = n"
      "\<And>k. k < 1024 \<Longrightarrow> bitAt (b_data (truncateBits n b)) k \<longleftrightarrow> k < n \<and> bitAt (b_data b) k" by auto
  show "builder_ok (truncateBits n b)"
    using r assms(2) b \<open>b_refs (truncateBits n b) = b_refs b\<close> by (simp add: builder_ok_def)
  show "builderBits (truncateBits n b) = take n (builderBits b)"
    unfolding builderBits_def bitsOf_def r(2) using r(3) assms(2) b(2) by (auto simp: take_map take_upt)
qed

subsection \<open>Smallest and largest key\<close>

definition okey :: "bool \<Rightarrow> bool list \<Rightarrow> bool list" where
  "okey invert k = (case k of [] \<Rightarrow> [] | x # xs \<Rightarrow> (if invert then (\<not> x) # xs else x # xs))"

definition before :: "bool \<Rightarrow> bool \<Rightarrow> bool list \<Rightarrow> bool list \<Rightarrow> bool" where
  "before fetchMax invert k k' \<longleftrightarrow> (if fetchMax then okey invert k' \<le> okey invert k else okey invert k \<le> okey invert k')"

lemma lex_diff: "\<not> x \<Longrightarrow> y \<Longrightarrow> p @ x # k < p @ y # (j :: bool list)"
  by (induction p) simp_all

lemma before_diff: "x = (if p = [] \<and> invert then \<not> fetchMax else fetchMax) \<Longrightarrow> before fetchMax invert (p @ x # k) (p @ (\<not> x) # j)"
  using lex_diff [of False True "tl p" k j] lex_diff [of False True "tl p" j k]
  by (cases p; cases fetchMax; cases invert) (auto simp: before_def okey_def intro: less_imp_le)

lemma rn_emits:
  assumes "emits m bs []" "builder_ok b" "b_bitsSz b + length bs < 1024"
  obtains b' where "rn m b = Inr ((), b')" "builder_ok b'" "builderBits b' = builderBits b @ bs" "b_refs b' = b_refs b"
proof -
  have "length (b_refs b) \<le> 4" using assms(2) by (simp add: builder_ok_def)
  then obtain b' where "m b = (Inr (), b')" "builder_ok b'" "builderBits b' = builderBits b @ bs" "b_refs b' = b_refs b @ []"
    using emitsD [OF assms] by auto
  then show thesis using that [of b'] by (simp add: rn_Inr)
qed

definition min_post :: "bool \<Rightarrow> bool \<Rightarrow> dval dtree \<Rightarrow> bool list \<Rightarrow> go_error + builder \<times> slice \<Rightarrow> bool" where
  "min_post fetchMax invert t p r \<longleftrightarrow> (\<exists>key s k v. r = Inr (key, s) \<and> builder_ok key \<and> b_refs key = [] \<and> builderBits key = p @ k \<and>
     dlookup t k = Some v \<and> slice_is s v \<and> (\<forall>k'. dlookup t k' \<noteq> None \<longrightarrow> before fetchMax invert (p @ k) (p @ k')))"

context label_code
begin

lemma loadLabel_node:
  assumes "dnode E n t c" "dwf n t" "n < 1024" "builder_ok key" "b_bitsSz key + n < 1024"
  obtains key' s pb pr where "rn (loadLabel n key) (newSliceFromCell c) = Inr ((length (dlabel t), key'), s)" "\<not> cell_special c"
    "builder_ok key'" "builderBits key' = builderBits key @ dlabel t" "b_refs key' = b_refs key" "slice_is s (pb, pr)" "dpay E n t pb pr"
proof -
  obtain bs pb pr where c: "label_enc n (dlabel t) bs" "c = bitsCell (bs @ pb) pr" "length (bs @ pb) < 1024" "dpay E n t pb pr"
    by (rule dnode_cell [OF assms(1,2)])
  note s = bitsCell_slice [OF c(3), of pr, folded c(2)]
  have "b_bitsSz key + length (dlabel t) < 1024" using assms(5) dwf_label [OF assms(2)] by simp
  from loadLabel_ok [OF s(1,2) c(1) assms(3,4) this]
  obtain key' where "loadLabel n key (newSliceFromCell c) = (Inr (length (dlabel t), key'), consumed (length bs) 0 (newSliceFromCell c))" "builder_ok key'"
    "builderBits key' = builderBits key @ dlabel t" "b_refs key' = b_refs key" .
  then show thesis using consumed_bits [OF s(1,2)] s(3) c
    by (intro that [of key' "consumed (length bs) 0 (newSliceFromCell c)" pb pr]) (auto simp: rn_def slice_is_def)
qed

lemma minMax_refines:
  assumes "dnode E n t c" "dwf n t" "n < 1024" "builder_ok key" "b_refs key = []" "b_bitsSz key + n < 1024"
  shows "min_post fetchMax invert t (builderBits key) (minMaxLoop fetchMax invert c n key)"
  using assms
proof (induction t arbitrary: n c key)
  case (DLeaf l w)
  from loadLabel_node [OF DLeaf.prems(1-4,6)]
  obtain key' s where "rn (loadLabel n key) (newSliceFromCell c) = Inr ((length l, key'), s)" "\<not> cell_special c"
      "builder_ok key'" "builderBits key' = builderBits key @ l" "b_refs key' = []" "slice_is s w"
    using DLeaf.prems(5) by (metis dlabel.simps(1) dpay.simps(1))
  moreover from this(1,2) have "minMaxLoop fetchMax invert c n key = Inr (key', s)"
    unfolding minMaxLoop.simps [of _ _ c] using DLeaf.prems(2) by simp
  ultimately show ?case unfolding min_post_def
    by (intro exI [of _ key'] exI [of _ s] exI [of _ l] exI [of _ w]) (simp add: before_def)
next
  case (DFork l a b)
  have n: "length l < n" using DFork.prems(2) by simp
  from loadLabel_node [OF DFork.prems(1-4,6)]
  obtain key' s ca cb where k: "rn (loadLabel n key) (newSliceFromCell c) = Inr ((length l, key'), s)" "\<not> cell_special c"
      "builder_ok key'" "builderBits key' = builderBits key @ l" "b_refs key' = []" "slice_is s ([], [ca, cb])"
      "dnode E (n - Suc (length l)) a ca" "dnode E (n - Suc (length l)) b cb"
    using DFork.prems(5) by (metis dlabel.simps(2) dpay.simps(2))
  define x where "x = (if BitsUsed key' = 0 \<and> invert then \<not> fetchMax else fetchMax)"
  have sz: "b_bitsSz key' = b_bitsSz key + length l" using k(4) by (metis length_append length_builderBits)
  obtain key2 where k2: "rn (StoreBoolBit x) key' = Inr ((), key2)" "builder_ok key2" "builderBits key2 = builderBits key' @ [x]" "b_refs key2 = []"
    using rn_emits [OF emits_StoreBoolBit k(3)] sz DFork.prems(6) n k(5) by auto
  have sz2: "b_bitsSz key2 = b_bitsSz key + length l + 1" using arg_cong [OF k2(3), of length] sz by simp
  let ?c = "if x then cb else ca" and ?u = "if x then b else a" and ?m = "n - Suc (length l)"
  have shape: "BitsLeft s = 0" "RefsNum s = 2"
    using k(6) length_sliceBits [of s] length_sliceRefs [of s] by (simp_all add: slice_is_def)
  have ref: "fst (refAndTraceAt (if x then 1 else 0) s) = Inr ?c"
    using k(6) refAndTraceAt_ok [of s "if x then 1 else 0"] by (cases x) (auto simp: slice_is_def)
  have step: "minMaxLoop fetchMax invert c n key = minMaxLoop fetchMax invert ?c ?m key2"
    unfolding minMaxLoop.simps [of _ _ c] using k(1,2) k2(1) ref shape n by (simp add: Let_def x_def [symmetric])
  have "dnode E ?m ?u ?c" "dwf ?m ?u" using k DFork.prems(2) by auto
  then have "min_post fetchMax invert ?u (builderBits key2) (minMaxLoop fetchMax invert ?c ?m key2)"
    using DFork.IH [of ?m _ key2] k2 sz2 n DFork.prems(3,6) by (cases x) auto
  then obtain kb sl j v where r: "minMaxLoop fetchMax invert ?c ?m key2 = Inr (kb, sl)" "builder_ok kb" "b_refs kb = []"
      "builderBits kb = builderBits key2 @ j" "dlookup ?u j = Some v" "slice_is sl v"
      "\<And>k'. dlookup ?u k' \<noteq> None \<Longrightarrow> before fetchMax invert (builderBits key2 @ j) (builderBits key2 @ k')"
    unfolding min_post_def by blast
  let ?p = "builderBits key"
  have bits: "builderBits key2 = ?p @ l @ [x]" using k(4) k2(3) by simp
  have xe: "x = (if ?p @ l = [] \<and> invert then \<not> fetchMax else fetchMax)"
    using arg_cong [OF k(4), of length] by (auto simp: x_def BitsUsed_def simp flip: length_0_conv)
  have "before fetchMax invert (?p @ l @ x # j) (?p @ k')" if some: "dlookup (DFork l a b) k' \<noteq> None" for k'
  proof -
    obtain y i w where k': "k' = l @ y # i" "dlookup (if y then b else a) i = Some w" using some by (auto elim: dlookup_forkE simp del: dlookup.simps)
    show ?thesis
    proof (cases "y = x")
      case True
      then show ?thesis using r(7) [of i] k' bits by simp
    next
      case False
      then show ?thesis using before_diff [OF xe, of j i] k' by (cases x; cases y) auto
    qed
  qed
  moreover have "dlookup (DFork l a b) (l @ x # j) = Some v" using r(5) by (simp only: dlookup_child)
  ultimately show ?case unfolding min_post_def step using r(1-4,6) bits
    by (intro exI [of _ kb] exI [of _ sl] exI [of _ "l @ x # j"] exI [of _ v]) (simp del: dlookup.simps)
qed

end

subsection \<open>All entries\<close>

definition entry_is :: "bool list \<Rightarrow> slice \<times> slice \<Rightarrow> bool list \<times> dval \<Rightarrow> bool" where
  "entry_is p e kv \<longleftrightarrow> slice_is (fst e) (p @ fst kv, []) \<and> slice_is (snd e) (snd kv)"

definition map_post :: "dval dtree \<Rightarrow> bool list \<Rightarrow> (slice \<times> slice) list \<Rightarrow> go_error + (slice \<times> slice) list \<times> builder \<Rightarrow> bool" where
  "map_post t p out r \<longleftrightarrow> (\<exists>es key. r = Inr (out @ es, key) \<and> builder_ok key \<and> b_refs key = [] \<and> builderBits key = p @ dlabel t \<and>
     list_all2 (entry_is p) es (dentries t))"

lemma entry_shift: "list_all2 (entry_is (p @ l @ [x])) es ds \<Longrightarrow> list_all2 (entry_is p) es (map (\<lambda>(k, v). (l @ x # k, v)) ds)"
  by (induction rule: list_all2_induct) (auto simp: entry_is_def)

lemma ToSlice_plain:
  assumes "builder_ok b" "b_refs b = []"
  obtains s where "ToSlice sha b = Inr s" "slice_is s (builderBits b, [])"
proof -
  have "plainBuilder b" using assms by (simp add: plainBuilder_def)
  then have "ToSlice sha b = Inr (newSliceFromCell (bitsCell (builderBits b) []))"
    using finalize_plain(2) [of b sha] builtCell_bits [OF assms(1)] assms(2) by (simp add: ToSlice_def)
  moreover have "length (builderBits b) < 1024" using assms(1) by (simp add: builder_ok_def)
  ultimately show thesis using that bitsCell_slice [of "builderBits b" "[]"] by (simp add: slice_is_def)
qed

lemma mustStoreBit_ok:
  assumes "builder_ok b" "b_bitsSz b < 1023"
  obtains b' where "mustStoreBit x b = Inr b'" "builder_ok b'" "builderBits b' = builderBits b @ [x]" "b_refs b' = b_refs b"
proof -
  obtain b' where "rn (StoreUInt (of_bool x) 1) b = Inr ((), b')" "builder_ok b'" "builderBits b' = builderBits b @ [x]" "b_refs b' = b_refs b"
    using rn_emits [OF emits_bit assms(1), of x] assms(2) by auto
  then show thesis using that [of b'] by (auto simp: rn_def mustStoreBit_def split: prod.splits sum.splits)
qed

lemma LoadRefCell_ok:
  assumes "slice_is s (bs, r # rs)" obtains s1 where "rn LoadRefCell s = Inr (r, s1)" "slice_is s1 (bs, rs)"
proof -
  have s: "slice_ok s" "sliceBits s = [] @ bs" "sliceRefs s = [r] @ rs" using assms by (simp_all add: slice_is_def)
  show thesis
    using readsD [OF reads_LoadRefCell s] consumed_ok [OF s] by (intro that [of "consumed 0 1 s"]) (simp_all add: rn_def slice_is_def)
qed

context label_code
begin

lemma mapInner_refines:
  assumes "dnode E n t c" "dwf n t" "builder_ok key" "b_refs key = []" "b_bitsSz key + n = keySz" "keySz < 1024"
  shows "map_post t (builderBits key) out (mapInner sha keySz skip out n c key)"
  using assms
proof (induction t arbitrary: n c key out)
  case (DLeaf l w)
  have lt: "n < 1024" "b_bitsSz key + n < 1024" using DLeaf.prems by simp_all
  from loadLabel_node [OF DLeaf.prems(1,2) lt(1) DLeaf.prems(3) lt(2)]
  obtain key' s where k: "rn (loadLabel n key) (newSliceFromCell c) = Inr ((length l, key'), s)" "\<not> cell_special c"
      "builder_ok key'" "builderBits key' = builderBits key @ l" "b_refs key' = []" "slice_is s w"
    using DLeaf.prems(4) by (metis dlabel.simps(1) dpay.simps(1))
  obtain ks where ks: "ToSlice sha key' = Inr ks" "slice_is ks (builderBits key', [])" by (rule ToSlice_plain [OF k(3,5)])
  have "b_bitsSz key' = b_bitsSz key + length l" using k(4) by (metis length_append length_builderBits)
  then have "\<not> BitsUsed key' < keySz" using DLeaf.prems(2,5) by (simp add: BitsUsed_def)
  then show ?case unfolding mapInner.simps [of _ _ _ _ _ c] map_post_def using k ks
    by (intro exI [of _ "[(ks, s)]"] exI [of _ key']) (simp add: entry_is_def)
next
  case (DFork l a b)
  have n: "length l < n" "n < 1024" "b_bitsSz key + n < 1024" using DFork.prems by simp_all
  from loadLabel_node [OF DFork.prems(1,2) n(2) DFork.prems(3) n(3)]
  obtain key' s ca cb where k: "rn (loadLabel n key) (newSliceFromCell c) = Inr ((length l, key'), s)" "\<not> cell_special c"
      "builder_ok key'" "builderBits key' = builderBits key @ l" "b_refs key' = []" "slice_is s ([], [ca, cb])"
      "dnode E (n - Suc (length l)) a ca" "dnode E (n - Suc (length l)) b cb"
    using DFork.prems(4) by (metis dlabel.simps(2) dpay.simps(2))
  let ?p = "builderBits key" and ?m = "n - Suc (length l)"
  have sz: "b_bitsSz key' = b_bitsSz key + length l" using k(4) by (metis length_append length_builderBits)
  obtain s1 where s1: "rn LoadRefCell s = Inr (ca, s1)" "slice_is s1 ([], [cb])" by (rule LoadRefCell_ok [OF k(6)])
  obtain s2 where s2: "rn LoadRefCell s1 = Inr (cb, s2)" by (rule LoadRefCell_ok [OF s1(2)])
  have wf: "dwf ?m a" "dwf ?m b" using DFork.prems(2) by simp_all
  have sub: "\<exists>key2. mustStoreBit x kb = Inr key2 \<and> builder_ok key2 \<and> b_refs key2 = [] \<and> builderBits key2 = ?p @ l @ [x] \<and> b_bitsSz key2 + ?m = keySz"
    if kb: "builder_ok kb" "b_refs kb = []" "builderBits kb = ?p @ l" for kb x
  proof -
    have "b_bitsSz kb = b_bitsSz key + length l" using kb(3) by (metis length_append length_builderBits)
    moreover from this obtain key2 where "mustStoreBit x kb = Inr key2" "builder_ok key2" "builderBits key2 = builderBits kb @ [x]" "b_refs key2 = b_refs kb"
      using mustStoreBit_ok [OF kb(1), of x] n by auto
    moreover from this(3) have "b_bitsSz key2 = Suc (b_bitsSz kb)" by (metis length_append_singleton length_builderBits)
    ultimately show ?thesis using kb n DFork.prems(5) by (intro exI [of _ key2]) auto
  qed
  have rollback: "builder_ok (truncateBits (BitsUsed key') kb) \<and> b_refs (truncateBits (BitsUsed key') kb) = [] \<and> builderBits (truncateBits (BitsUsed key') kb) = ?p @ l"
    if kb: "builder_ok kb" "b_refs kb = []" "builderBits kb = (?p @ l @ [x]) @ q" for kb x q
  proof -
    have "b_bitsSz kb = b_bitsSz key + length l + 1 + length q" using arg_cong [OF kb(3), of length] by simp
    then show ?thesis using truncateBits_ok [OF kb(1), of "BitsUsed key'"] kb sz by (simp add: BitsUsed_def)
  qed
  obtain key2 where k2: "mustStoreBit False key' = Inr key2" "builder_ok key2" "b_refs key2 = []" "builderBits key2 = ?p @ l @ [False]" "b_bitsSz key2 + ?m = keySz"
    using sub [OF k(3,5,4)] by blast
  from DFork.IH(1) [OF k(7) wf(1) k2(2,3,5) DFork.prems(6), of out]
  obtain es1 key3 where m1: "mapInner sha keySz skip out ?m ca key2 = Inr (out @ es1, key3)" "builder_ok key3" "b_refs key3 = []"
      "builderBits key3 = (?p @ l @ [False]) @ dlabel a" "list_all2 (entry_is (?p @ l @ [False])) es1 (dentries a)"
    unfolding map_post_def k2(4) by blast
  note t3 = rollback [OF m1(2,3,4)]
  obtain key4 where k4: "mustStoreBit True (truncateBits (BitsUsed key') key3) = Inr key4" "builder_ok key4" "b_refs key4 = []"
      "builderBits key4 = ?p @ l @ [True]" "b_bitsSz key4 + ?m = keySz"
    using sub t3 by blast
  from DFork.IH(2) [OF k(8) wf(2) k4(2,3,5) DFork.prems(6), of "out @ es1"]
  obtain es2 key5 where m2: "mapInner sha keySz skip (out @ es1) ?m cb key4 = Inr ((out @ es1) @ es2, key5)" "builder_ok key5" "b_refs key5 = []"
      "builderBits key5 = (?p @ l @ [True]) @ dlabel b" "list_all2 (entry_is (?p @ l @ [True])) es2 (dentries b)"
    unfolding map_post_def k4(4) by blast
  note t5 = rollback [OF m2(2,3,4)]
  have "mapInner sha keySz skip out n c key = Inr (out @ es1 @ es2, truncateBits (BitsUsed key') key5)"
    unfolding mapInner.simps [of _ _ _ _ _ c] using k(1,2) s1(1) s2 k2(1) k4(1) m1(1) m2(1) sz n DFork.prems(5) by (simp add: Let_def BitsUsed_def)
  moreover have "list_all2 (entry_is ?p) (es1 @ es2) (dentries (DFork l a b))"
    using entry_shift [OF m1(5)] entry_shift [OF m2(5)] by (simp add: list_all2_appendI)
  ultimately show ?case unfolding map_post_def using t5
    by (intro exI [of _ "es1 @ es2"] exI [of _ "truncateBits (BitsUsed key') key5"]) simp
qed

end

end
