(* ===== verification/Dict_Api.thy ===== *)
theory Dict_Api
  imports Dict_Walk
begin

section \<open>The type Dictionary\<close>

text \<open>
  The exported operations of \<^verbatim>\<open>dict.go\<close> as actions on a dictionary: a key size and a root, empty or a cell.  Keys come as cells, as
  the front of a slice, as bytes or as integers; all forms reach the same walks.  A nil receiver is not
  modelled; the wrapping of error texts is dropped.
\<close>

record dictionary =
  dd_keySz :: nat
  dd_root :: "cell option"

type_synonym 'a dict = "(dictionary, 'a) action"

definition NewDict :: "nat \<Rightarrow> dictionary" where
  "NewDict keySz = \<lparr>dd_keySz = keySz, dd_root = None\<rparr>"

definition AsDict :: "cell \<Rightarrow> nat \<Rightarrow> dictionary" where
  "AsDict c keySz = \<lparr>dd_keySz = keySz, dd_root = Some c\<rparr>"

definition maxDictKeyBits :: nat where
  "maxDictKeyBits = 1023"

definition validateDictKeySize :: "nat \<Rightarrow> go_error + unit" where
  "validateDictKeySize keySz = (if keySz > maxDictKeyBits then Inl (OtherError ''dict key size exceeds 1023 bits'') else Inr ())"

definition setRoot :: "bool \<Rightarrow> cell option \<Rightarrow> unit dict" where
  "setRoot changed root = (if changed then modifyS (\<lambda>d. d\<lparr>dd_root := root\<rparr>) else ret ())"

definition IsEmpty :: "dictionary \<Rightarrow> bool" where
  "IsEmpty d \<longleftrightarrow> (case dd_root d of None \<Rightarrow> True | Some c \<Rightarrow> cell_bitsSz c = 0 \<and> cell_refs c = [])"

subsection \<open>Keys\<close>

definition errKeySize :: go_error where
  "errKeySize = OtherError ''incorrect key size''"

definition errBadKey :: go_error where
  "errBadKey = OtherError ''invalid key size''"

definition withCellKey :: "go_error \<Rightarrow> cell option \<Rightarrow> (slice \<Rightarrow> 'a dict) \<Rightarrow> 'a dict" where
  "withCellKey e key f = bnd getS (\<lambda>d. case key of
     None \<Rightarrow> raise e
   | Some k \<Rightarrow> if cell_bitsSz k \<noteq> dd_keySz d then raise e else f (newSliceFromCell k))"

definition fixedDictKeySlice :: "slice \<Rightarrow> nat \<Rightarrow> go_error + slice" where
  "fixedDictKeySlice key bits =
     (if BitsLeft key < bits then Inl errKeySize
      else Inr (key\<lparr>sl_bitEnd := sl_bitStart key + bits, sl_refEnd := sl_refStart key\<rparr>))"

definition withSliceKey :: "slice \<Rightarrow> (slice \<Rightarrow> 'a dict) \<Rightarrow> 'a dict" where
  "withSliceKey key f = bnd getS (\<lambda>d. bnd (lift_sum (fixedDictKeySlice key (dd_keySz d))) f)"

text \<open>A byte key is viewed as a cell without data copies; the key size is narrowed to 16 bits there.\<close>

definition bytesKeySlice :: "byte list \<Rightarrow> nat \<Rightarrow> slice" where
  "bytesKeySlice key bits =
     (let sz = bits mod 2 ^ 16 in
      \<lparr>sl_cell = Cell key sz False 0 [], sl_bitStart = 0, sl_bitEnd = sz, sl_refStart = 0, sl_refEnd = 0\<rparr>)"

definition initFixedDictBytesKeySlice :: "byte list \<Rightarrow> nat \<Rightarrow> go_error + slice" where
  "initFixedDictBytesKeySlice key bits =
     (if bits > maxDictKeyBits then Inl (OtherError ''dict key size exceeds 1023 bits'')
      else if length key * 8 < bits then Inl errKeySize
      else Inr (bytesKeySlice key bits))"

definition withBytesKey :: "byte list \<Rightarrow> (slice \<Rightarrow> 'a dict) \<Rightarrow> 'a dict" where
  "withBytesKey key f = bnd getS (\<lambda>d. if length key * 8 < dd_keySz d then raise errKeySize else f (bytesKeySlice key (dd_keySz d)))"

text \<open>An unsigned key is stored after the leading zeros of a wide dictionary.\<close>

definition initUintKeyBuilder :: "64 word \<Rightarrow> nat \<Rightarrow> go_error + builder" where
  "initUintKeyBuilder key bits =
     (if bits > 1023 then Inl (CellError ErrTooBigSize)
      else sbind (if bits \<le> 64 then rn (StoreUInt key bits) BeginCell
                  else rn (StoreUInt key 64) (BeginCell\<lparr>b_bitsSz := bits - 64\<rparr>)) (\<lambda>(_, b). Inr b))"

definition withUintKey :: "64 word \<Rightarrow> (slice \<Rightarrow> 'a dict) \<Rightarrow> 'a dict" where
  "withUintKey key f = bnd getS (\<lambda>d. bnd (lift_sum (initUintKeyBuilder key (dd_keySz d))) (\<lambda>b. f (builderSliceView b)))"

subsection \<open>Insertion\<close>

definition loadValueAndSetBySliceKey :: "digest \<Rightarrow> dictSetValue \<Rightarrow> DictSetMode \<Rightarrow> slice \<Rightarrow> (slice option \<times> bool) dict" where
  "loadValueAndSetBySliceKey sha value mode keySlice = bnd getS (\<lambda>d.
     bnd (lift_sum (dict_set sha (dd_root d) keySlice (dd_keySz d) value mode)) (\<lambda>(newRoot, oldValue, changed).
       seq (setRoot changed newRoot) (ret (oldValue, changed))))"

definition setValueWithModeSlice :: "digest \<Rightarrow> dictSetValue \<Rightarrow> DictSetMode \<Rightarrow> slice \<Rightarrow> bool dict" where
  "setValueWithModeSlice sha value mode keySlice = bnd getS (\<lambda>d.
     bnd (lift_sum (dict_set sha (dd_root d) keySlice (dd_keySz d) value mode)) (\<lambda>(newRoot, _, changed).
       seq (setRoot changed newRoot) (ret changed)))"

abbreviation cellValue :: "cell \<Rightarrow> dictSetValue" where
  "cellValue c \<equiv> \<lparr>dsv_builder = None, dsv_cell = Some c\<rparr>"

abbreviation builderValue :: "builder \<Rightarrow> dictSetValue" where
  "builderValue b \<equiv> \<lparr>dsv_builder = Some b, dsv_cell = None\<rparr>"

definition builderOp :: "builder option \<Rightarrow> (dictSetValue \<Rightarrow> 'a dict) \<Rightarrow> 'a dict" where
  "builderOp value f = (case value of None \<Rightarrow> raise (OtherError ''value builder is nil'') | Some b \<Rightarrow> f (builderValue b))"

definition SetWithMode :: "digest \<Rightarrow> cell option \<Rightarrow> cell option \<Rightarrow> DictSetMode \<Rightarrow> bool dict" where
  "SetWithMode sha key value mode =
     (case value of
        None \<Rightarrow> raise (OtherError ''value is nil'')
      | Some v \<Rightarrow> withCellKey errBadKey key (setValueWithModeSlice sha (cellValue v) mode))"

definition SetBuilderWithMode :: "digest \<Rightarrow> cell option \<Rightarrow> builder option \<Rightarrow> DictSetMode \<Rightarrow> bool dict" where
  "SetBuilderWithMode sha key value mode =
     withCellKey errBadKey key (\<lambda>k. builderOp value (\<lambda>v. setValueWithModeSlice sha v mode k))"

definition SetBuilderBySliceKeyWithMode :: "digest \<Rightarrow> slice \<Rightarrow> builder option \<Rightarrow> DictSetMode \<Rightarrow> bool dict" where
  "SetBuilderBySliceKeyWithMode sha key value mode =
     builderOp value (\<lambda>v. bnd getS (\<lambda>d. case fixedDictKeySlice key (dd_keySz d) of
       Inl _ \<Rightarrow> raise errBadKey
     | Inr k \<Rightarrow> setValueWithModeSlice sha v mode k))"

definition SetBuilderByBytesKeyWithMode :: "digest \<Rightarrow> byte list \<Rightarrow> builder option \<Rightarrow> DictSetMode \<Rightarrow> bool dict" where
  "SetBuilderByBytesKeyWithMode sha key value mode =
     withBytesKey key (\<lambda>k. builderOp value (\<lambda>v. setValueWithModeSlice sha v mode k))"

definition SetBuilderByUintKeyWithMode :: "digest \<Rightarrow> 64 word \<Rightarrow> builder option \<Rightarrow> DictSetMode \<Rightarrow> bool dict" where
  "SetBuilderByUintKeyWithMode sha key value mode =
     builderOp value (\<lambda>v. withUintKey key (setValueWithModeSlice sha v mode))"

definition LoadValueAndSetWithMode :: "digest \<Rightarrow> cell option \<Rightarrow> cell option \<Rightarrow> DictSetMode \<Rightarrow> (slice option \<times> bool) dict" where
  "LoadValueAndSetWithMode sha key value mode =
     (case value of
        None \<Rightarrow> raise (OtherError ''value is nil'')
      | Some v \<Rightarrow> withCellKey errKeySize key (loadValueAndSetBySliceKey sha (cellValue v) mode))"

definition LoadValueAndSetBuilderWithMode :: "digest \<Rightarrow> cell option \<Rightarrow> builder option \<Rightarrow> DictSetMode \<Rightarrow> (slice option \<times> bool) dict" where
  "LoadValueAndSetBuilderWithMode sha key value mode =
     withCellKey errKeySize key (\<lambda>k. builderOp value (\<lambda>v. loadValueAndSetBySliceKey sha v mode k))"

definition LoadValueAndSetBuilderBySliceKeyWithMode :: "digest \<Rightarrow> slice \<Rightarrow> builder option \<Rightarrow> DictSetMode \<Rightarrow> (slice option \<times> bool) dict" where
  "LoadValueAndSetBuilderBySliceKeyWithMode sha key value mode =
     builderOp value (\<lambda>v. withSliceKey key (loadValueAndSetBySliceKey sha v mode))"

subsection \<open>Deletion\<close>

text \<open>A nil root has nothing to delete.\<close>

definition lookupDeleteRoot :: "digest \<Rightarrow> cell option \<Rightarrow> slice \<Rightarrow> nat \<Rightarrow> go_error + slice option \<times> cell option \<times> bool" where
  "lookupDeleteRoot sha root pfx keyOffset =
     (case root of None \<Rightarrow> Inr (None, None, False) | Some c \<Rightarrow> lookupDelete sha c pfx keyOffset)"

definition deleteBySliceKey :: "digest \<Rightarrow> slice \<Rightarrow> bool dict" where
  "deleteBySliceKey sha keySlice = bnd getS (\<lambda>d.
     bnd (lift_sum (lookupDeleteRoot sha (dd_root d) keySlice (dd_keySz d))) (\<lambda>(_, newRoot, changed).
       seq (setRoot changed newRoot) (ret changed)))"

definition Delete :: "digest \<Rightarrow> cell option \<Rightarrow> unit dict" where
  "Delete sha key = withCellKey errKeySize key (\<lambda>k. bnd (deleteBySliceKey sha k) (\<lambda>_. ret ()))"

definition dictSet :: "digest \<Rightarrow> cell option \<Rightarrow> cell option \<Rightarrow> unit dict" where
  "dictSet sha key value =
     (if value = None then Delete sha key else bnd (SetWithMode sha key value DictSetModeSet) (\<lambda>_. ret ()))"

definition DeleteBySliceKey :: "digest \<Rightarrow> slice \<Rightarrow> bool dict" where
  "DeleteBySliceKey sha key = withSliceKey key (deleteBySliceKey sha)"

definition DeleteByBytesKey :: "digest \<Rightarrow> byte list \<Rightarrow> unit dict" where
  "DeleteByBytesKey sha key = withBytesKey key (\<lambda>k. bnd (deleteBySliceKey sha k) (\<lambda>_. ret ()))"

definition sameDictRoot :: "digest \<Rightarrow> cell option \<Rightarrow> cell option \<Rightarrow> bool" where
  "sameDictRoot sha a b =
     (case (a, b) of
        (Some x, Some y) \<Rightarrow> HashKeyAt sha x DataCellMaxLevel = HashKeyAt sha y DataCellMaxLevel
      | _ \<Rightarrow> a = None \<and> b = None)"

definition loadValueAndDeleteBySliceKey :: "digest \<Rightarrow> slice \<Rightarrow> slice dict" where
  "loadValueAndDeleteBySliceKey sha keySlice = bnd getS (\<lambda>d.
     bnd (lift_sum (lookupDeleteRoot sha (dd_root d) keySlice (dd_keySz d))) (\<lambda>(removed, newRoot, changed).
       case removed of
         Some s \<Rightarrow> if \<not> changed \<or> sameDictRoot sha (dd_root d) newRoot then raise ErrNoSuchKeyInDict
                    else seq (setRoot True newRoot) (ret s)
       | None \<Rightarrow> raise ErrNoSuchKeyInDict))"

definition LoadValueAndDelete :: "digest \<Rightarrow> cell option \<Rightarrow> slice dict" where
  "LoadValueAndDelete sha key = withCellKey errKeySize key (loadValueAndDeleteBySliceKey sha)"

definition LoadValueAndDeleteBySliceKey :: "digest \<Rightarrow> slice \<Rightarrow> slice dict" where
  "LoadValueAndDeleteBySliceKey sha key = withSliceKey key (loadValueAndDeleteBySliceKey sha)"

definition LoadValueAndDeleteByBytesKeyInto :: "digest \<Rightarrow> byte list \<Rightarrow> slice dict" where
  "LoadValueAndDeleteByBytesKeyInto sha key =
     bnd getS (\<lambda>d. bnd (lift_sum (initFixedDictBytesKeySlice key (dd_keySz d))) (loadValueAndDeleteBySliceKey sha))"

definition LoadValueAndDeleteByUintKeyInto :: "digest \<Rightarrow> 64 word \<Rightarrow> slice dict" where
  "LoadValueAndDeleteByUintKeyInto sha key = withUintKey key (loadValueAndDeleteBySliceKey sha)"

subsection \<open>Lookup\<close>

definition findKeyRoot :: "slice \<Rightarrow> slice dict" where
  "findKeyRoot key = bnd getS (\<lambda>d. case dd_root d of
     None \<Rightarrow> raise ErrNoSuchKeyInDict
   | Some c \<Rightarrow> lift_sum (findKeySliceInto c key False))"

definition LoadValueInto :: "cell option \<Rightarrow> slice dict" where
  "LoadValueInto key = withCellKey errKeySize key findKeyRoot"

definition LoadValueBySliceKeyInto :: "slice \<Rightarrow> slice dict" where
  "LoadValueBySliceKeyInto key = withSliceKey key findKeyRoot"

definition LoadValueByBytesKeyInto :: "byte list \<Rightarrow> slice dict" where
  "LoadValueByBytesKeyInto key = withBytesKey key findKeyRoot"

definition LoadValueByUintKeyInto :: "64 word \<Rightarrow> slice dict" where
  "LoadValueByUintKeyInto key = bnd getS (\<lambda>d. case initUintKeyBuilder key (dd_keySz d) of
     Inl _ \<Rightarrow> raise GoPanic
   | Inr b \<Rightarrow> findKeyRoot (builderSliceView b))"

definition LoadMinMax :: "digest \<Rightarrow> bool \<Rightarrow> bool \<Rightarrow> (cell \<times> slice) dict" where
  "LoadMinMax sha fetchMax invertFirst = bnd getS (\<lambda>d. case dd_root d of
     None \<Rightarrow> raise ErrNoSuchKeyInDict
   | Some c \<Rightarrow> bnd (lift_sum (minMaxLoop fetchMax invertFirst c (dd_keySz d) BeginCell)) (\<lambda>(key, value).
       bnd (lift_sum (EndCell sha key)) (\<lambda>k. ret (k, value))))"

definition LoadMinMaxAndDelete :: "digest \<Rightarrow> bool \<Rightarrow> bool \<Rightarrow> (cell \<times> slice) dict" where
  "LoadMinMaxAndDelete sha fetchMax invertFirst = bnd getS (\<lambda>d.
     if dd_root d = None then raise ErrNoSuchKeyInDict
     else bnd (LoadMinMax sha fetchMax invertFirst) (\<lambda>(key, value).
       bnd (lift_sum (lookupDeleteRoot sha (dd_root d) (newSliceFromCell key) (dd_keySz d))) (\<lambda>(_, newRoot, changed).
         if \<not> changed then raise ErrNoSuchKeyInDict
         else seq (setRoot True newRoot) (ret (key, value)))))"

definition LoadAll :: "digest \<Rightarrow> bool \<Rightarrow> (slice \<times> slice) list dict" where
  "LoadAll sha skipPruned = bnd getS (\<lambda>d. case dd_root d of
     None \<Rightarrow> ret []
   | Some c \<Rightarrow> bnd (lift_sum (mapInner sha (dd_keySz d) skipPruned [] (dd_keySz d) c BeginCell)) (\<lambda>(out, _). ret out))"

subsection \<open>Dictionaries in slices and builders\<close>

definition loadMaybeRefCell :: "cell option sl" where
  "loadMaybeRefCell = bnd LoadBoolBit (\<lambda>has. if \<not> has then ret None else bnd LoadRefCell (\<lambda>r. ret (Some r)))"

definition LoadDict :: "nat \<Rightarrow> dictionary sl" where
  "LoadDict keySz = bnd loadMaybeRefCell (\<lambda>root.
     if root = None then ret (NewDict keySz)
     else bnd (lift_sum (validateDictKeySize keySz)) (\<lambda>_. ret \<lparr>dd_keySz = keySz, dd_root = root\<rparr>))"

definition LoadOptionalDict :: "nat \<Rightarrow> dictionary option sl" where
  "LoadOptionalDict keySz = bnd (lift_sum (validateDictKeySize keySz)) (\<lambda>_. bnd loadMaybeRefCell (\<lambda>root.
     ret (case root of None \<Rightarrow> None | Some c \<Rightarrow> Some (AsDict c keySz))))"

definition StoreDict :: "dictionary option \<Rightarrow> unit bld" where
  "StoreDict d = StoreMaybeRef (case d of None \<Rightarrow> None | Some x \<Rightarrow> dd_root x)"

end
