(* ===== verification/Dict_Map.thy ===== *)
theory Dict_Map
  imports Dict_Api
begin

section \<open>A dictionary is a finite map with one representation\<close>

text \<open>
  The contract of the type \<open>dictionary\<close>: which map from bit strings to values a dictionary holds, for
  every admissible choice of label encodings, what each operation does to that map, and that with
  canonical labels the map determines the root cell.
\<close>

definition dict_rep :: "label_rel \<Rightarrow> dictionary \<Rightarrow> (bool list \<rightharpoonup> dval) \<Rightarrow> bool" where
  "dict_rep E d m \<longleftrightarrow> dd_keySz d < 1024 \<and> (case dd_root d of
     None \<Rightarrow> m = Map.empty
   | Some c \<Rightarrow> \<exists>t. dnode E (dd_keySz d) t c \<and> dwf (dd_keySz d) t \<and> dt_ok (dd_keySz d) t \<and> dlookup t = m)"

text \<open>A key slice and a value for a dictionary.\<close>

definition key_is :: "dictionary \<Rightarrow> slice \<Rightarrow> bool list \<Rightarrow> bool" where
  "key_is d s k \<longleftrightarrow> slice_ok s \<and> sliceBits s = k \<and> length k = dd_keySz d"

definition value_is :: "dictionary \<Rightarrow> dictSetValue \<Rightarrow> dval \<Rightarrow> bool" where
  "value_is d value v \<longleftrightarrow> val_is value v \<and> dval_ok (dd_keySz d) v"

lemma dict_rep_empty: "keySz < 1024 \<Longrightarrow> dict_rep E (NewDict keySz) Map.empty"
  by (simp add: dict_rep_def NewDict_def)

lemma dict_rep_cases:
  assumes "dict_rep E d m"
  obtains (empty) "dd_root d = None" "m = Map.empty" "dd_keySz d < 1024"
  | (root) c t where "dd_root d = Some c" "dnode E (dd_keySz d) t c" "dwf (dd_keySz d) t" "dt_ok (dd_keySz d) t" "m = dlookup t" "dd_keySz d < 1024"
  using assms by (cases "dd_root d") (auto simp: dict_rep_def)

lemma dict_rep_root:
  "dd_keySz d < 1024 \<Longrightarrow> dd_root d = Some c \<Longrightarrow> dnode E (dd_keySz d) t c \<Longrightarrow> dwf (dd_keySz d) t \<Longrightarrow> dt_ok (dd_keySz d) t \<Longrightarrow>
   dict_rep E d (dlookup t)"
  by (auto simp: dict_rep_def)

lemma dict_rep_length: "dict_rep E d m \<Longrightarrow> m k = Some v \<Longrightarrow> length k = dd_keySz d"
  by (erule dict_rep_cases) (auto dest: dlookup_length)

lemma setRoot_run: "setRoot changed root d = (Inr (), if changed then d\<lparr>dd_root := root\<rparr> else d)"
  by (simp add: setRoot_def act_simps)

text \<open>What the insertion of \<open>v\<close> under \<open>k\<close> does.\<close>

definition set_result :: "label_rel \<Rightarrow> dictionary \<Rightarrow> (bool list \<rightharpoonup> dval) \<Rightarrow> bool list \<Rightarrow> dval \<Rightarrow> DictSetMode \<Rightarrow>
    (go_error + slice option \<times> bool) \<times> dictionary \<Rightarrow> bool" where
  "set_result E d m k v mode r \<longleftrightarrow> (\<exists>old d'. r = (Inr (old, mode_changes mode (m k \<noteq> None)), d') \<and>
     rel_option slice_is old (m k) \<and> dd_keySz d' = dd_keySz d \<and>
     (if mode_changes mode (m k \<noteq> None) then dict_rep E d' (m(k \<mapsto> v)) else d' = d))"

context label_code
begin

lemma set_empty:
  assumes "dict_rep E d m" "dd_root d = None" "key_is d s k" "value_is d value v"
  shows "set_result E d m k v mode (loadValueAndSetBySliceKey sha value mode s d)"
proof -
  let ?n = "dd_keySz d"
  let ?leaf = "bitsCell (labelBits ?n k @ fst v) (snd v)"
  have m: "m = Map.empty" and lt: "?n < 1024" using assms(1,2) by (auto simp: dict_rep_def)
  have k: "slice_ok s" "sliceBits s = k" "length k = ?n" using assms(3) by (simp_all add: key_is_def)
  have v: "val_is value v" "dval_ok ?n v" using assms(4) by (simp_all add: value_is_def)
  have store: "storeSetLeaf sha s value ?n = Inr (Some ?leaf)"
    using storeSetLeaf_ok [OF v k(1,2), of ?n] k(3) lt by simp
  have "length (labelBits ?n k @ fst v) < 1024" using labelBits_room [OF v(2), of k ?n] k(3) by simp
  then have "laid E ?n k ?leaf (fst v) (snd v)"
    using k(3) v(2) by (intro laidI) (auto simp: dval_ok_def)
  then have "dict_rep E (d\<lparr>dd_root := Some ?leaf\<rparr>) (dlookup (DLeaf k v))"
    using lt k(3) v(2) by (intro dict_rep_root [of _ ?leaf]) simp_all
  moreover have "dlookup (DLeaf k v) = m(k \<mapsto> v)" using m by (auto simp: fun_eq_iff)
  ultimately show ?thesis
    using assms(2) m store
    by (cases mode) (auto simp: set_result_def loadValueAndSetBySliceKey_def act_simps dict_set.simps setRoot_run mode_changes_def)
qed

lemma set_result:
  assumes "dict_rep E d m" "key_is d s k" "value_is d value v"
  shows "set_result E d m k v mode (loadValueAndSetBySliceKey sha value mode s d)"
  using assms(1)
proof (cases rule: dict_rep_cases)
  case empty
  then show ?thesis using set_empty assms by blast
next
  case (root c t)
  let ?n = "dd_keySz d"
  let ?chg = "mode_changes mode (dlookup t k \<noteq> None)"
  have k: "slice_ok s" "sliceBits s = k" "length k = ?n" using assms(2) by (simp_all add: key_is_def)
  have v: "val_is value v" "dval_ok ?n v" using assms(3) by (simp_all add: value_is_def)
  have "set_post E ?n t c k v mode (dict_set sha (Some c) s ?n value mode)"
    using root(6) by (intro dict_set_refines [OF root(2-4) _ _ k v]) simp_all
  then obtain c' old where r: "dict_set sha (Some c) s ?n value mode = Inr (Some c', old, ?chg)"
      "dnode E ?n (if ?chg then dinsert k v t else t) c'" "rel_option slice_is old (dlookup t k)"
    by (auto simp: set_post_def Let_def)
  have "dict_rep E (d\<lparr>dd_root := Some c'\<rparr>) ((dlookup t)(k \<mapsto> v))" if ?chg
  proof -
    have "dict_rep E (d\<lparr>dd_root := Some c'\<rparr>) (dlookup (dinsert k v t))"
      using r(2) that root k(3) v(2) by (intro dict_rep_root [of _ c']) (simp_all add: dinsert_dwf dt_ok_dinsert)
    then show ?thesis using dlookup_dinsert [OF root(3) k(3), of v] by simp
  qed
  then show ?thesis
    using r(1,3) root(1,5) by (auto simp: set_result_def loadValueAndSetBySliceKey_def act_simps setRoot_run)
qed

end

lemma setValueWithModeSlice_load:
  "setValueWithModeSlice sha value mode s d =
     (case loadValueAndSetBySliceKey sha value mode s d of (Inl e, d') \<Rightarrow> (Inl e, d') | (Inr (_, changed), d') \<Rightarrow> (Inr changed, d'))"
  by (auto simp: setValueWithModeSlice_def loadValueAndSetBySliceKey_def act_simps setRoot_run split: sum.splits prod.splits)

subsection \<open>Deletion, lookup and traversal\<close>

definition del_result :: "label_rel \<Rightarrow> dictionary \<Rightarrow> (bool list \<rightharpoonup> dval) \<Rightarrow> bool list \<Rightarrow> (go_error + bool) \<times> dictionary \<Rightarrow> bool" where
  "del_result E d m k r \<longleftrightarrow> (\<exists>d'. r = (Inr (m k \<noteq> None), d') \<and> dd_keySz d' = dd_keySz d \<and> dict_rep E d' (m(k := None)))"

context label_code
begin

lemma del_result:
  assumes "dict_rep E d m" "key_is d s k"
  shows "del_result E d m k (deleteBySliceKey sha s d)"
  using assms(1)
proof (cases rule: dict_rep_cases)
  case empty
  then show ?thesis
    using assms(1) by (simp add: del_result_def deleteBySliceKey_def lookupDeleteRoot_def act_simps setRoot_run)
next
  case (root c t)
  let ?n = "dd_keySz d"
  have k: "slice_ok s" "sliceBits s = k" "length k = ?n" using assms(2) by (simp_all add: key_is_def)
  have post: "del_post E ?n t k (lookupDelete sha c s ?n)"
    using root(6) by (intro lookupDelete_refines [OF root(2-4) _ _ k]) simp_all
  show ?thesis
  proof (cases "m k")
    case None
    then have "m(k := None) = m" by auto
    moreover have "lookupDelete sha c s ?n = Inr (None, None, False)" using post None root(5) by (simp add: del_post_def)
    ultimately show ?thesis
      using root(1) None assms(1) by (simp add: del_result_def deleteBySliceKey_def lookupDeleteRoot_def act_simps setRoot_run)
  next
    case (Some v)
    then obtain r root' where r: "lookupDelete sha c s ?n = Inr (Some r, root', True)" "rel_option (dnode E ?n) (ddelete k t) root'"
      using post root(5) by (auto simp: del_post_def)
    have eq: "m(k := None) = olookup (ddelete k t)" using dlookup_ddelete [OF root(3) k(3)] root(5) by simp
    have "dict_rep E (d\<lparr>dd_root := root'\<rparr>) (olookup (ddelete k t))"
    proof (cases "ddelete k t")
      case None
      then show ?thesis using r(2) root(6) by (simp add: dict_rep_def)
    next
      case (Some u)
      then obtain c' where "root' = Some c'" "dnode E ?n u c'" using r(2) by (auto simp: option_rel_Some1)
      then show ?thesis
        using Some root ddelete_dwf [OF root(3) Some] dt_ok_ddelete [OF root(4) Some] dict_rep_root [of "d\<lparr>dd_root := root'\<rparr>" c' E u] by simp
    qed
    then show ?thesis
      using root(1) r(1) Some by (simp add: eq del_result_def deleteBySliceKey_def lookupDeleteRoot_def act_simps setRoot_run)
  qed
qed

lemma find_result:
  assumes "dict_rep E d m" "key_is d s k"
  shows "case m k of None \<Rightarrow> findKeyRoot s d = (Inl ErrNoSuchKeyInDict, d)
    | Some v \<Rightarrow> \<exists>r. findKeyRoot s d = (Inr r, d) \<and> slice_is r v"
  using assms(1)
proof (cases rule: dict_rep_cases)
  case empty
  then show ?thesis by (simp add: findKeyRoot_def act_simps)
next
  case (root c t)
  have "find_post t k (findKeySliceInto c s False)"
    using assms(2) by (intro find_refines [OF root(2,3,6)]) (simp_all add: key_is_def)
  then show ?thesis using root(1,5) by (auto simp: find_post_def findKeyRoot_def act_simps split: option.splits)
qed

lemma all_result:
  assumes "dict_rep E d m"
  shows "\<exists>es. LoadAll sha skip d = (Inr es, d) \<and> (\<exists>kvs. list_all2 (entry_is []) es kvs \<and> sorted_wrt (<) (map fst kvs) \<and>
    (\<forall>k v. (k, v) \<in> set kvs \<longleftrightarrow> m k = Some v))"
  using assms
proof (cases rule: dict_rep_cases)
  case empty
  then show ?thesis by (simp add: LoadAll_def act_simps)
next
  case (root c t)
  have "map_post t (builderBits BeginCell) [] (mapInner sha (dd_keySz d) skip [] (dd_keySz d) c BeginCell)"
    using root(6) by (intro mapInner_refines [OF root(2,3)]) simp_all
  then show ?thesis
    using root(1,5) by (auto simp: map_post_def LoadAll_def act_simps dentries_lookup sorted_dentries intro!: exI [of _ "dentries t"])
qed

end

subsection \<open>The smallest and the largest entry\<close>

lemma EndCell_key: "builder_ok b \<Longrightarrow> b_refs b = [] \<Longrightarrow> EndCell sha b = Inr (bitsCell (builderBits b) [])"
  using finalize_plain(2) [of b sha] builtCell_bits [of b] by (simp add: plainBuilder_def)

lemma bitsCell_key: "length k < 1024 \<Longrightarrow> slice_ok (newSliceFromCell (bitsCell k [])) \<and> sliceBits (newSliceFromCell (bitsCell k [])) = k"
  using bitsCell_slice [of k "[]"] by simp

definition extreme :: "bool \<Rightarrow> bool \<Rightarrow> (bool list \<rightharpoonup> dval) \<Rightarrow> bool list \<Rightarrow> dval \<Rightarrow> bool" where
  "extreme fetchMax invert m k v \<longleftrightarrow> m k = Some v \<and> (\<forall>k'. m k' \<noteq> None \<longrightarrow> before fetchMax invert k k')"

context label_code
begin

lemma min_result:
  assumes "dict_rep E d m" "m \<noteq> Map.empty"
  shows "\<exists>k v s. LoadMinMax sha fetchMax invert d = (Inr (bitsCell k [], s), d) \<and> extreme fetchMax invert m k v \<and> slice_is s v"
  using assms(1)
proof (cases rule: dict_rep_cases)
  case empty
  then show ?thesis using assms(2) by simp
next
  case (root c t)
  have "min_post fetchMax invert t (builderBits BeginCell) (minMaxLoop fetchMax invert c (dd_keySz d) BeginCell)"
    using root(6) by (intro minMax_refines [OF root(2,3)]) simp_all
  then obtain key s k v where r: "minMaxLoop fetchMax invert c (dd_keySz d) BeginCell = Inr (key, s)" "builder_ok key" "b_refs key = []"
      "builderBits key = k" "extreme fetchMax invert m k v" "slice_is s v"
    using root(5) by (auto simp: min_post_def extreme_def)
  then show ?thesis
    using root(1) EndCell_key [OF r(2,3), of sha]
    by (intro exI [of _ k] exI [of _ v] exI [of _ s]) (simp add: LoadMinMax_def act_simps)
qed

lemma min_delete_result:
  assumes "dict_rep E d m" "m \<noteq> Map.empty"
  shows "\<exists>k v s d'. LoadMinMaxAndDelete sha fetchMax invert d = (Inr (bitsCell k [], s), d') \<and> extreme fetchMax invert m k v \<and> slice_is s v \<and>
    dd_keySz d' = dd_keySz d \<and> dict_rep E d' (m(k := None))"
proof -
  obtain k v s where r: "LoadMinMax sha fetchMax invert d = (Inr (bitsCell k [], s), d)" "extreme fetchMax invert m k v" "slice_is s v"
    using min_result [OF assms] by blast
  have mk: "m k = Some v" using r(2) by (simp add: extreme_def)
  have "dd_root d \<noteq> None" "dd_keySz d < 1024" using assms by (auto simp: dict_rep_def)
  moreover have "key_is d (newSliceFromCell (bitsCell k [])) k"
    using bitsCell_key [of k] dict_rep_length [OF assms(1) mk] \<open>dd_keySz d < 1024\<close> by (simp add: key_is_def)
  from del_result [OF assms(1) this, of sha] mk
  obtain d' where "deleteBySliceKey sha (newSliceFromCell (bitsCell k [])) d = (Inr True, d')" "dd_keySz d' = dd_keySz d" "dict_rep E d' (m(k := None))"
    by (auto simp: del_result_def)
  ultimately show ?thesis
    using r by (intro exI [of _ k] exI [of _ v] exI [of _ s] exI [of _ d'])
      (auto simp: LoadMinMaxAndDelete_def deleteBySliceKey_def act_simps setRoot_run split: sum.splits if_splits)
qed

end

interpretation any_label: label_code label_enc
  by unfold_locales (auto intro: label_enc_labelBits)

interpretation canon_label: label_code canon_enc
  by unfold_locales (auto simp: canon_enc_def intro: label_enc_labelBits)

subsection \<open>Canonical dictionaries\<close>

lemma dnode_canon_unique: "dnode canon_enc n t c \<Longrightarrow> dnode canon_enc n t c' \<Longrightarrow> c = c'"
proof (induction t arbitrary: n c c')
  case (DFork l a b)
  from DFork.prems obtain x y x' y' where "dnode canon_enc (n - Suc (length l)) a x" "dnode canon_enc (n - Suc (length l)) a x'"
      "dnode canon_enc (n - Suc (length l)) b y" "dnode canon_enc (n - Suc (length l)) b y'"
      "laid canon_enc n l c [] [x, y]" "laid canon_enc n l c' [] [x', y']" by auto
  moreover from this have "x = x'" "y = y'" using DFork.IH by blast+
  ultimately show ?case by (auto simp: laid_def canon_enc_def)
qed (auto simp: laid_def canon_enc_def)

lemma dict_rep_unique:
  assumes "dict_rep canon_enc d m" "dict_rep canon_enc d' m" "dd_keySz d = dd_keySz d'"
  shows "d = d'"
proof -
  have "dd_root d = dd_root d'"
    using assms(1)
  proof (cases rule: dict_rep_cases)
    case empty
    then show ?thesis using assms(2) by (auto simp: dict_rep_def dest: dlookup_some split: option.splits)
  next
    case (root c t)
    then have "m \<noteq> Map.empty" using dlookup_some by fastforce
    then obtain c' t' where "dd_root d' = Some c'" "dnode canon_enc (dd_keySz d) t' c'" "dwf (dd_keySz d) t'" "m = dlookup t'"
      using assms(2,3) by (auto simp: dict_rep_def split: option.splits)
    moreover from this have "t = t'" using root dtree_unique by metis
    ultimately show ?thesis using root dnode_canon_unique by metis
  qed
  then show ?thesis using assms(3) by simp
qed

text \<open>Canonical labels are one of the accepted encodings.\<close>

lemma dict_rep_canon: "dict_rep canon_enc d m \<Longrightarrow> dict_rep label_enc d m"
proof -
  have mono: "dnode canon_enc n t c \<Longrightarrow> dnode label_enc n t c" for n t c
    by (induction t arbitrary: n c) (fastforce simp: laid_def canon_enc_def intro: label_enc_labelBits)+
  show "dict_rep canon_enc d m \<Longrightarrow> dict_rep label_enc d m"
    by (auto simp: dict_rep_def intro: mono split: option.splits)
qed

subsection \<open>Histories of updates\<close>

datatype ('k, 'v) update = Put 'k 'v | Del 'k

definition runUpdates :: "('k \<Rightarrow> 'v \<Rightarrow> 'd \<Rightarrow> 'd) \<Rightarrow> ('k \<Rightarrow> 'd \<Rightarrow> 'd) \<Rightarrow> ('k, 'v) update list \<Rightarrow> 'd \<Rightarrow> 'd" where
  "runUpdates put del = fold (\<lambda>u. case u of Put k v \<Rightarrow> put k v | Del k \<Rightarrow> del k)"

definition mapUpdates :: "('k, 'v) update list \<Rightarrow> ('k \<rightharpoonup> 'v) \<Rightarrow> ('k \<rightharpoonup> 'v)" where
  "mapUpdates = runUpdates (\<lambda>k v m. m(k \<mapsto> v)) (\<lambda>k m. m(k := None))"

definition update_ok :: "('k \<Rightarrow> bool) \<Rightarrow> ('v \<Rightarrow> bool) \<Rightarrow> ('k, 'v) update \<Rightarrow> bool" where
  "update_ok okk okv u \<longleftrightarrow> (case u of Put k v \<Rightarrow> okk k \<and> okv v | Del k \<Rightarrow> okk k)"

lemma update_run:
  "runUpdates put del [] d = d"
  "runUpdates put del (Put k v # us) d = runUpdates put del us (put k v d)"
  "runUpdates put del (Del k # us) d = runUpdates put del us (del k d)"
  "mapUpdates [] m = m"
  "mapUpdates (Put k v # us) m = mapUpdates us (m(k \<mapsto> v))"
  "mapUpdates (Del k # us) m = mapUpdates us (m(k := None))"
  by (simp_all add: runUpdates_def mapUpdates_def)

locale canonical_map =
  fixes Rep :: "'d \<Rightarrow> ('k \<rightharpoonup> 'v) \<Rightarrow> bool" and okk :: "'k \<Rightarrow> bool" and okv :: "'v \<Rightarrow> bool"
    and put :: "'k \<Rightarrow> 'v \<Rightarrow> 'd \<Rightarrow> 'd" and del :: "'k \<Rightarrow> 'd \<Rightarrow> 'd"
  assumes put_rep: "okk k \<Longrightarrow> okv v \<Longrightarrow> Rep d m \<Longrightarrow> Rep (put k v d) (m(k \<mapsto> v))"
    and del_rep: "okk k \<Longrightarrow> Rep d m \<Longrightarrow> Rep (del k d) (m(k := None))"
    and rep_unique: "Rep d m \<Longrightarrow> Rep d' m \<Longrightarrow> d = d'"
begin

lemma run_rep: "Rep d m \<Longrightarrow> \<forall>u\<in>set us. update_ok okk okv u \<Longrightarrow> Rep (runUpdates put del us d) (mapUpdates us m)"
proof (induction us arbitrary: d m)
  case (Cons u us)
  have us: "\<forall>u\<in>set us. update_ok okk okv u" and u: "update_ok okk okv u" using Cons.prems(2) by simp_all
  show ?case
  proof (cases u)
    case (Put k v)
    then show ?thesis
      unfolding Put update_run using u Put Cons.prems(1) by (intro Cons.IH [OF _ us] put_rep) (simp_all add: update_ok_def)
  next
    case (Del k)
    then show ?thesis
      unfolding Del update_run using u Del Cons.prems(1) by (intro Cons.IH [OF _ us] del_rep) (simp_all add: update_ok_def)
  qed
qed (simp add: update_run)

lemma history_free:
  assumes "Rep d m" "\<forall>u\<in>set us \<union> set vs. update_ok okk okv u" "mapUpdates us m = mapUpdates vs m"
  shows "runUpdates put del us d = runUpdates put del vs d"
  using run_rep [OF assms(1), of us] run_rep [OF assms(1), of vs] assms(2,3) by (auto intro: rep_unique)

lemma put_del: "Rep d m \<Longrightarrow> okk k \<Longrightarrow> okv v \<Longrightarrow> m k = None \<Longrightarrow> del k (put k v d) = d"
  using history_free [of d m "[Put k v, Del k]" "[]"] by (simp add: update_run update_ok_def fun_upd_idem)

end

text \<open>\<open>Set\<close> and \<open>Delete\<close> with the key and the value given as cells are such updates.\<close>

definition setCell :: "digest \<Rightarrow> bool list \<Rightarrow> dval \<Rightarrow> dictionary \<Rightarrow> dictionary" where
  "setCell sha k v d = snd (dictSet sha (Some (bitsCell k [])) (Some (bitsCell (fst v) (snd v))) d)"

definition deleteCell :: "digest \<Rightarrow> bool list \<Rightarrow> dictionary \<Rightarrow> dictionary" where
  "deleteCell sha k d = snd (Delete sha (Some (bitsCell k [])) d)"

lemma withCellKey_run:
  "length k = dd_keySz d \<Longrightarrow> withCellKey e (Some (bitsCell k [])) f d = f (newSliceFromCell (bitsCell k [])) d"
  by (simp add: withCellKey_def act_simps bitsCell_def)

lemma key_is_cell: "dict_rep E d m \<Longrightarrow> length k = dd_keySz d \<Longrightarrow> key_is d (newSliceFromCell (bitsCell k [])) k"
  using bitsCell_key [of k] by (simp add: key_is_def dict_rep_def)

context label_code
begin

lemma Set_result:
  assumes "dict_rep E d m" "length k = dd_keySz d" "dval_ok (dd_keySz d) v"
  obtains d' where "dictSet sha (Some (bitsCell k [])) (Some (bitsCell (fst v) (snd v))) d = (Inr (), d')"
    "dd_keySz d' = dd_keySz d" "dict_rep E d' (m(k \<mapsto> v))"
proof -
  let ?s = "newSliceFromCell (bitsCell k [])" and ?v = "cellValue (bitsCell (fst v) (snd v))"
  have "value_is d ?v v" using assms(3) by (simp add: value_is_def val_is_def)
  from set_result [OF assms(1) key_is_cell [OF assms(1,2)] this, of DictSetModeSet sha]
  obtain old d' where "loadValueAndSetBySliceKey sha ?v DictSetModeSet ?s d = (Inr (old, True), d')"
      "dd_keySz d' = dd_keySz d" "dict_rep E d' (m(k \<mapsto> v))"
    by (auto simp: set_result_def mode_changes_def)
  then show thesis
    using that [of d'] assms(2) by (simp add: dictSet_def SetWithMode_def act_simps withCellKey_run setValueWithModeSlice_load)
qed

lemma Delete_result:
  assumes "dict_rep E d m" "length k = dd_keySz d"
  obtains d' where "Delete sha (Some (bitsCell k [])) d = (Inr (), d')" "dd_keySz d' = dd_keySz d" "dict_rep E d' (m(k := None))"
  using del_result [OF assms(1) key_is_cell [OF assms], of sha] assms(2)
  by (auto simp: del_result_def Delete_def withCellKey_run act_simps)

end

interpretation canon_map: canonical_map
  "\<lambda>d m. dd_keySz d = n \<and> dict_rep canon_enc d m" "\<lambda>k. length k = n" "dval_ok n" "setCell sha" "deleteCell sha" for n sha
proof unfold_locales
  fix k :: "bool list" and v d m assume "length k = n" "dval_ok n v" "dd_keySz d = n \<and> dict_rep canon_enc d m"
  then show "dd_keySz (setCell sha k v d) = n \<and> dict_rep canon_enc (setCell sha k v d) (m(k \<mapsto> v))"
    using canon_label.Set_result [of d m k v sha] by (fastforce simp: setCell_def)
next
  fix k :: "bool list" and d m assume "length k = n" "dd_keySz d = n \<and> dict_rep canon_enc d m"
  then show "dd_keySz (deleteCell sha k d) = n \<and> dict_rep canon_enc (deleteCell sha k d) (m(k := None))"
    using canon_label.Delete_result [of d m k sha] by (fastforce simp: deleteCell_def)
qed (auto intro: dict_rep_unique)

subsection \<open>Dictionaries inside cells\<close>

definition maybeBits :: "cell option \<Rightarrow> bool list \<times> cell list" where
  "maybeBits r = (case r of None \<Rightarrow> ([False], []) | Some c \<Rightarrow> ([True], [c]))"

lemma emits_storeMaybeRef:
  assumes "\<And>c. r = Some c \<Longrightarrow> Depth c < maxDepth"
  shows "emits (StoreMaybeRef r) (fst (maybeBits r)) (snd (maybeBits r))"
proof (cases r)
  case None
  then show ?thesis using emits_zero by (simp add: StoreMaybeRef_def storeMaybeRef_def maybeBits_def)
next
  case (Some c)
  have "\<exists>b'. StoreMaybeRef r b = (Inr (), b') \<and> builder_ok b' \<and> builderBits b' = builderBits b @ [True] \<and> b_refs b' = b_refs b @ [c]"
    if b: "builder_ok b" "b_bitsSz b + 1 < 1024" "length (b_refs b) + 1 \<le> 4" for b
  proof -
    obtain b1 where b1: "StoreUInt 1 1 b = (Inr (), b1)" "builder_ok b1" "builderBits b1 = builderBits b @ [True]" "b_refs b1 = b_refs b"
      using emitsD [OF emits_bit [of True] b(1)] b(2,3) by auto
    have "StoreMaybeRef r b = (Inr (), b1\<lparr>b_refs := b_refs b @ [c]\<rparr>)"
      using b(2,3) b1(1,4) Some assms [of c] by (simp add: StoreMaybeRef_def storeMaybeRef_def act_simps)
    moreover have "builder_ok (b1\<lparr>b_refs := b_refs b @ [c]\<rparr>)" using b1(2) b(3) by (simp add: builder_ok_def)
    moreover have "builderBits (b1\<lparr>b_refs := b_refs b @ [c]\<rparr>) = builderBits b1" by (simp add: builderBits_def)
    ultimately show ?thesis using b1(3) by simp
  qed
  then show ?thesis using Some by (simp add: emits_def maybeBits_def)
qed

lemma reads_loadMaybeRefCell: "reads loadMaybeRefCell (fst (maybeBits r)) (snd (maybeBits r)) r"
proof (cases r)
  case None
  have "reads loadMaybeRefCell ([False] @ []) ([] @ []) None"
    unfolding loadMaybeRefCell_def by (rule reads_bnd [OF reads_LoadBoolBit]) (simp add: reads_ret)
  then show ?thesis using None by (simp add: maybeBits_def)
next
  case (Some c)
  have "reads (bnd LoadRefCell (\<lambda>r. ret (Some r))) ([] @ []) ([c] @ []) (Some c)" by (rule reads_bnd [OF reads_LoadRefCell reads_ret])
  then have "reads loadMaybeRefCell ([True] @ []) ([] @ [c]) (Some c)"
    unfolding loadMaybeRefCell_def by (intro reads_bnd [OF reads_LoadBoolBit]) simp
  then show ?thesis using Some by (simp add: maybeBits_def)
qed

lemma reads_LoadDict:
  assumes "dd_keySz d < 1024"
  shows "reads (LoadDict (dd_keySz d)) (fst (maybeBits (dd_root d))) (snd (maybeBits (dd_root d))) d"
proof -
  have "reads (if dd_root d = None then ret (NewDict (dd_keySz d))
      else bnd (lift_sum (validateDictKeySize (dd_keySz d))) (\<lambda>_. ret \<lparr>dd_keySz = dd_keySz d, dd_root = dd_root d\<rparr>)) [] [] d"
    using assms reads_ret [of d]
    by (cases d; cases "dd_root d") (simp_all add: NewDict_def validateDictKeySize_def maxDictKeyBits_def bnd_lift_Inr ret_def)
  then have "reads (LoadDict (dd_keySz d)) (fst (maybeBits (dd_root d)) @ []) (snd (maybeBits (dd_root d)) @ []) d"
    unfolding LoadDict_def by (intro reads_bnd [OF reads_loadMaybeRefCell [of "dd_root d"]])
  then show ?thesis by simp
qed

lemma dict_rep_plain:
  assumes "dict_rep E d m" "dd_root d = Some c" shows "plain c" "treeDepth c \<le> 1024"
  using assms dnode_plain [of E "dd_keySz d" _ c "dd_keySz d"] by (force simp: dict_rep_def)+

end
