(* ===== verification/Dict_Props.thy ===== *)
theory Dict_Props
  imports Dict_Map
begin

section \<open>Properties of dictionaries\<close>

text \<open>
  Every property holds for dictionaries that use any label encoding the readers accept, and for those
  with canonical labels, which the operations then keep.
\<close>

lemma dict_codes: "E \<in> {label_enc, canon_enc} \<Longrightarrow> label_code E"
  using any_label.label_code_axioms canon_label.label_code_axioms by blast

text \<open>A dictionary of 4-bit keys with two entries, for the witnesses.\<close>

definition demoKey :: "nat \<Rightarrow> bool list" where
  "demoKey i = [odd (i div 8), odd (i div 4), odd (i div 2), odd i]"

definition demoMap :: "bool list \<rightharpoonup> dval" where
  "demoMap = Map.empty(demoKey 2 \<mapsto> ([False, True], []), demoKey 11 \<mapsto> ([True], []))"

definition demoDict :: dictionary where
  "demoDict = setCell sha256 (demoKey 11) ([True], []) (setCell sha256 (demoKey 2) ([False, True], []) (NewDict 4))"

lemma demoKey_simps [simp]: "length (demoKey i) = 4" "demoKey 3 \<noteq> demoKey 2" "demoKey 3 \<noteq> demoKey 11" "demoKey 2 \<noteq> demoKey 11" "demoKey 9 \<noteq> demoKey 2"
    "demoKey 9 \<noteq> demoKey 11" "demoMap (demoKey 3) = None" "demoMap (demoKey 11) = Some ([True], [])"
  by (simp_all add: demoKey_def demoMap_def)

lemma demoVal: "length bs < 500 \<Longrightarrow> dval_ok 4 (bs, [])"
  using bitLen_le [of 4 3] by (simp add: dval_ok_def)

lemma demoDict_rep: "dd_keySz demoDict = 4" "dict_rep canon_enc demoDict demoMap"
proof -
  have "dd_keySz (NewDict 4) = 4 \<and> dict_rep canon_enc (NewDict 4) Map.empty" using dict_rep_empty by (simp add: NewDict_def)
  note d = canon_map.put_rep [where sha = sha256, OF demoKey_simps(1) demoVal this]
  have "dd_keySz demoDict = 4 \<and> dict_rep canon_enc demoDict demoMap"
    unfolding demoDict_def demoMap_def
    by (rule canon_map.put_rep [OF demoKey_simps(1) demoVal d [of "[False, True]" 2]]) simp_all
  then show "dd_keySz demoDict = 4" "dict_rep canon_enc demoDict demoMap" by simp_all
qed

lemma demoKey_is: "key_is demoDict (newSliceFromCell (bitsCell (demoKey i) [])) (demoKey i)"
  using key_is_cell [OF demoDict_rep(2)] by (simp add: demoDict_rep(1))

text \<open>C2: an insertion through \<open>loadValueAndSetBySliceKey\<close>, whose walk \<open>set\<close> all setters share, implements the update of the map a dictionary
  holds, in each mode: the value is stored exactly when the mode allows it (add only when absent, replace only when present, set always), the old value is returned, and otherwise the dictionary is
  unchanged.  The edges it splits and the forks it rebuilds keep the encoding of the labels well formed.\<close>

theorem dict_set_map:
  assumes "E \<in> {label_enc, canon_enc}" "dict_rep E d m" "key_is d s k" "value_is d value v"
  shows "\<exists>old d'. loadValueAndSetBySliceKey sha value mode s d = (Inr (old, mode_changes mode (m k \<noteq> None)), d') \<and>
    rel_option slice_is old (m k) \<and> dd_keySz d' = dd_keySz d \<and>
    (if mode_changes mode (m k \<noteq> None) then dict_rep E d' (m(k \<mapsto> v)) else d' = d)"
  using label_code.set_result [OF dict_codes [OF assms(1)] assms(2-4), of mode sha] by (simp add: set_result_def)

theorem dict_set_map_witness:
  "\<exists>old d'. loadValueAndSetBySliceKey sha256 (cellValue (bitsCell [True] [])) DictSetModeAdd (newSliceFromCell (bitsCell (demoKey 3) [])) demoDict =
    (Inr (old, True), d') \<and> dict_rep canon_enc d' (demoMap(demoKey 3 \<mapsto> ([True], [])))"
proof -
  have "value_is demoDict (cellValue (bitsCell [True] [])) ([True], [])"
    by (simp add: value_is_def val_is_def demoDict_rep(1) demoVal)
  from dict_set_map [OF _ demoDict_rep(2) demoKey_is [of 3] this, of sha256 DictSetModeAdd] show ?thesis
    by (auto simp: mode_changes_def)
qed

text \<open>C3: a dictionary does not remember how it was made.  Two sequences of \<open>Set\<close> and \<open>Delete\<close> calls on a new dictionary that end in the same map
  end in the same root cell, so in the same hash; in particular the order of insertions does not matter and deleting an
  inserted entry restores the tree.\<close>

theorem dict_history:
  assumes "n < 1024" "\<forall>u\<in>set us \<union> set vs. update_ok (\<lambda>k. length k = n) (dval_ok n) u"
    and "mapUpdates us Map.empty = mapUpdates vs Map.empty"
  shows "runUpdates (setCell sha) (deleteCell sha) us (NewDict n) = runUpdates (setCell sha) (deleteCell sha) vs (NewDict n)"
  using assms by (intro canon_map.history_free [of _ n Map.empty]) (simp_all add: dict_rep_empty, simp add: NewDict_def)

theorem dict_history_witness:
  "runUpdates (setCell sha256) (deleteCell sha256)
      [Put (demoKey 2) ([False], []), Put (demoKey 9) ([], []), Put (demoKey 11) ([True], []), Del (demoKey 9)] (NewDict 4) =
   runUpdates (setCell sha256) (deleteCell sha256) [Put (demoKey 11) ([True], []), Put (demoKey 2) ([False], [])] (NewDict 4)"
proof -
  have "mapUpdates [Put (demoKey 2) ([False], []), Put (demoKey 9) ([], []), Put (demoKey 11) ([True], []), Del (demoKey 9)] Map.empty =
      mapUpdates [Put (demoKey 11) ([True], []), Put (demoKey 2) ([False], [])] Map.empty"
    by (auto simp: update_run demoKey_def fun_eq_iff)
  then show ?thesis by (intro dict_history) (simp_all add: update_ok_def demoVal)
qed

text \<open>C6: a deletion removes the key from the map, reports whether it was there, and merges the edge left over into its parent so that
  the labels stay well formed; the last entry leaves the empty dictionary.\<close>

theorem dict_delete_map:
  assumes "E \<in> {label_enc, canon_enc}" "dict_rep E d m" "key_is d s k"
  shows "\<exists>d'. deleteBySliceKey sha s d = (Inr (m k \<noteq> None), d') \<and> dd_keySz d' = dd_keySz d \<and> dict_rep E d' (m(k := None)) \<and>
    (dom m \<subseteq> {k} \<longrightarrow> dd_root d' = None)"
proof -
  obtain d' where d': "deleteBySliceKey sha s d = (Inr (m k \<noteq> None), d')" "dd_keySz d' = dd_keySz d" "dict_rep E d' (m(k := None))"
    using label_code.del_result [OF dict_codes [OF assms(1)] assms(2,3), of sha] by (auto simp: del_result_def)
  moreover have "dd_root d' = None" if "dom m \<subseteq> {k}"
  proof -
    have "m(k := None) = Map.empty" using that by (metis Diff_eq_empty_iff dom_eq_empty_conv dom_fun_upd)
    with d'(3) show ?thesis by (metis dict_rep_cases dlookup_some option.distinct(1))
  qed
  ultimately show ?thesis by blast
qed

theorem dict_delete_map_witness:
  "\<exists>d'. deleteBySliceKey sha256 (newSliceFromCell (bitsCell (demoKey 11) [])) demoDict = (Inr True, d') \<and>
    dict_rep canon_enc d' (demoMap(demoKey 11 := None))"
  using dict_delete_map [OF _ demoDict_rep(2) demoKey_is [of 11], of sha256] by auto

text \<open>C9: the iterative lookup, which matches each label against the key without copying it, returns the value of the key,
  or \<open>ErrNoSuchKeyInDict\<close> when the map has none, and leaves the dictionary as it is; a key of another length is an error.\<close>

theorem dict_lookup_map:
  assumes "E \<in> {label_enc, canon_enc}" "dict_rep E d m"
  shows "if length k \<noteq> dd_keySz d then LoadValueInto (Some (bitsCell k [])) d = (Inl errKeySize, d)
    else case m k of None \<Rightarrow> LoadValueInto (Some (bitsCell k [])) d = (Inl ErrNoSuchKeyInDict, d)
      | Some v \<Rightarrow> \<exists>r. LoadValueInto (Some (bitsCell k [])) d = (Inr r, d) \<and> slice_is r v"
proof (cases "length k = dd_keySz d")
  case True
  from label_code.find_result [OF dict_codes [OF assms(1)] assms(2) key_is_cell [OF assms(2) True]] True
  show ?thesis by (auto simp: LoadValueInto_def withCellKey_run split: option.splits)
next
  case False
  then show ?thesis by (simp add: LoadValueInto_def withCellKey_def act_simps bitsCell_def)
qed

theorem dict_lookup_map_witness:
  "\<exists>r. LoadValueInto (Some (bitsCell (demoKey 11) [])) demoDict = (Inr r, demoDict) \<and> slice_is r ([True], [])"
  using dict_lookup_map [OF _ demoDict_rep(2), of "demoKey 11"] demoDict_rep(1) by simp

text \<open>C10: \<open>LoadAll\<close> lists each entry of the map once, keys in ascending order, although the walk shares one key builder that it cuts back after each child.\<close>

theorem dict_load_all:
  assumes "E \<in> {label_enc, canon_enc}" "dict_rep E d m"
  shows "\<exists>es kvs. LoadAll sha skip d = (Inr es, d) \<and> list_all2 (entry_is []) es kvs \<and> sorted_wrt (<) (map fst kvs) \<and>
    (\<forall>k v. (k, v) \<in> set kvs \<longleftrightarrow> m k = Some v)"
  using label_code.all_result [OF dict_codes [OF assms(1)] assms(2), of sha skip] by blast

theorem dict_load_all_witness: "\<exists>es. LoadAll sha256 False demoDict = (Inr es, demoDict) \<and> es \<noteq> []"
proof -
  obtain es kvs where "LoadAll sha256 False demoDict = (Inr es, demoDict)" "list_all2 (entry_is []) es kvs" "(demoKey 11, ([True], [])) \<in> set kvs"
    using dict_load_all [OF _ demoDict_rep(2), of sha256 False] by auto
  then show ?thesis by auto
qed

text \<open>C11: \<open>LoadMinMaxAndDelete\<close> returns and removes the entry with the smallest or the largest key, keys compared as unsigned numbers or, with the first bit
  inverted, as signed ones.\<close>

theorem dict_pop_extreme:
  assumes "E \<in> {label_enc, canon_enc}" "dict_rep E d m" "m \<noteq> Map.empty"
  shows "\<exists>k v s d'. LoadMinMaxAndDelete sha fetchMax invertFirst d = (Inr (bitsCell k [], s), d') \<and> m k = Some v \<and> slice_is s v \<and>
    (\<forall>k'. m k' \<noteq> None \<longrightarrow> before fetchMax invertFirst k k') \<and> dd_keySz d' = dd_keySz d \<and> dict_rep E d' (m(k := None))"
  using label_code.min_delete_result [OF dict_codes [OF assms(1)] assms(2,3), of sha fetchMax invertFirst] unfolding extreme_def by blast

theorem dict_pop_extreme_witness: "\<exists>r d'. LoadMinMaxAndDelete sha256 True False demoDict = (Inr r, d')"
proof -
  have "demoMap \<noteq> Map.empty" by (simp add: demoMap_def)
  from dict_pop_extreme [OF _ demoDict_rep(2) this, of sha256 True False] show ?thesis by blast
qed

text \<open>C12: a dictionary, empty or not, whose root has a depth below 1024, as a reference must, is stored with \<open>StoreDict\<close> after other content, bits and up to three references to ordinary cells, as long as a bit is free.  In the
  finalised cell, \<open>LoadDict\<close> behind that content reads the same dictionary back and consumes exactly what was stored.\<close>

theorem dict_in_cell:
  assumes "E \<in> {label_enc, canon_enc}" "dict_rep E d m" "\<And>c. dd_root d = Some c \<Longrightarrow> treeDepth c < 1024"
    and "plainBuilder b" "length (b_refs b) < 4" "b_bitsSz b < 1023"
  shows "\<exists>b' c s. StoreDict (Some d) b = (Inr (), b') \<and> EndCell sha b' = Inr c \<and>
    LoadDict (dd_keySz d) (consumed (b_bitsSz b) (length (b_refs b)) (newSliceFromCell c)) = (Inr d, s) \<and> sliceBits s = [] \<and> sliceRefs s = []"
proof -
  let ?bs = "fst (maybeBits (dd_root d))" and ?rs = "snd (maybeBits (dd_root d))"
  have ok: "builder_ok b" using assms(4) by (simp add: plainBuilder_def)
  have root: "plain c \<and> treeDepth c < 1024 \<and> Depth c < maxDepth" if "dd_root d = Some c" for c
    using dict_rep_plain [OF assms(2) that] assms(3) [OF that] Depth_plain [of c] by (simp add: maxDepth_def)
  have len: "length ?bs = 1" "length ?rs \<le> 1" by (auto simp: maybeBits_def split: option.splits)
  obtain b' where b': "StoreDict (Some d) b = (Inr (), b')" "builder_ok b'" "builderBits b' = builderBits b @ ?bs" "b_refs b' = b_refs b @ ?rs"
    using emitsD [OF emits_storeMaybeRef [of "dd_root d"] ok] root assms(5,6) len by (auto simp: StoreDict_def)
  let ?c = "bitsCell (builderBits b @ ?bs) (b_refs b @ ?rs)"
  have "plainBuilder b'" using b' root assms(4) by (auto simp: plainBuilder_def maybeBits_def split: option.splits)
  then have "EndCell sha b' = Inr ?c" using finalize_plain(2) [of b' sha] builtCell_bits [OF b'(2)] b'(3,4) by simp
  moreover have bits: "length (builderBits b) = b_bitsSz b" by (simp add: builderBits_def bitsOf_def)
  have s: "slice_ok (newSliceFromCell ?c)" "sliceBits (newSliceFromCell ?c) = builderBits b @ ?bs" "sliceRefs (newSliceFromCell ?c) = b_refs b @ ?rs"
    using bitsCell_slice [of "builderBits b @ ?bs" "b_refs b @ ?rs"] bits len assms(5,6) by auto
  let ?s = "consumed (b_bitsSz b) (length (b_refs b)) (newSliceFromCell ?c)"
  have s1: "slice_ok ?s" "sliceBits ?s = ?bs @ []" "sliceRefs ?s = ?rs @ []" using consumed_ok [OF s] bits by simp_all
  have "dd_keySz d < 1024" using assms(2) by (simp add: dict_rep_def)
  from readsD [OF reads_LoadDict [OF this] s1] consumed_ok [OF s1] b'(1) calculation show ?thesis by auto
qed

lemma dlookup_values: "v \<in> set_dtree t \<Longrightarrow> \<exists>k. dlookup t k = Some v"
proof (induction t)
  case (DFork l a b)
  then obtain k x where "dlookup (if x then b else a) k = Some v" by (auto split: if_splits) (metis (full_types))+
  then have "dlookup (DFork l a b) (l @ x # k) = Some v" by simp
  then show ?case ..
qed auto

lemma demoDict_depth:
  assumes "dd_root demoDict = Some c" shows "treeDepth c < 1024"
proof -
  obtain t where t: "dnode canon_enc 4 t c" "dwf 4 t" "dlookup t = demoMap"
    using demoDict_rep assms by (auto simp: dict_rep_def)
  have "dval_ok 5 v" if "demoMap k = Some v" for k v
    using that bitLen_le [of 5 3] by (auto simp: demoMap_def dval_ok_def split: if_splits)
  then have "dt_ok 5 t" using dlookup_values t(3) by (fastforce simp: dt_ok_def)
  from dnode_plain [OF t(1,2) this] show ?thesis by simp
qed

theorem dict_in_cell_witness:
  "\<exists>b' c s. StoreDict (Some demoDict) (BeginCell\<lparr>b_refs := [emptyCell]\<rparr>) = (Inr (), b') \<and> EndCell sha256 b' = Inr c \<and>
    LoadDict 4 (consumed 0 1 (newSliceFromCell c)) = (Inr demoDict, s) \<and> demoMap \<noteq> Map.empty"
proof -
  have "builder_ok BeginCell" by simp
  then have "plainBuilder (BeginCell\<lparr>b_refs := [emptyCell]\<rparr>)" by (auto simp: plainBuilder_def builder_ok_def emptyCell_def)
  from dict_in_cell [OF _ demoDict_rep(2) demoDict_depth this, of sha256] show ?thesis
    by (auto simp: demoDict_rep(1) demoMap_def)
qed

text \<open>C13: of the short, long and same-bit forms of an edge label the writer appends the shortest, whatever bits
  the builder holds already.\<close>

theorem label_writer:
  assumes "slice_ok data" "BitsLeft data \<le> n" "n < 1024" "builder_ok b" "b_bitsSz b + length (labelBits n (sliceBits data)) < 1024"
  shows "\<exists>b'. storeDictLabel data n b = (Inr (), b') \<and> builder_ok b' \<and> builderBits b' = builderBits b @ labelBits n (sliceBits data) \<and>
    label_enc n (sliceBits data) (labelBits n (sliceBits data)) \<and>
    (\<forall>bs. label_enc n (sliceBits data) bs \<longrightarrow> length (labelBits n (sliceBits data)) \<le> length bs)"
proof -
  have len: "length (sliceBits data) \<le> n" using assms(2) length_sliceBits [of data] by simp
  have "length (b_refs b) + length [] \<le> 4" using assms(4) by (simp add: builder_ok_def)
  from emitsD [OF emits_storeDictLabel [OF assms(1) refl len assms(3)] assms(4,5) this]
  obtain b' where "storeDictLabel data n b = (Inr (), b')" "builder_ok b'" "builderBits b' = builderBits b @ labelBits n (sliceBits data)" by metis
  then show ?thesis using label_enc_labelBits [OF len] labelBits_shortest by blast
qed

theorem label_writer_witness:
  "\<exists>b'. storeDictLabel (newSliceFromCell (bitsCell [True, True, True] [])) 8 BeginCell = (Inr (), b') \<and>
    builderBits b' = labelBits 8 [True, True, True]"
proof -
  have s: "slice_ok (newSliceFromCell (bitsCell [True, True, True] []))" "sliceBits (newSliceFromCell (bitsCell [True, True, True] [])) = [True, True, True]"
    using bitsCell_key [of "[True, True, True]"] by simp_all
  have "length (labelBits 8 [True, True, True]) \<le> 8" using labelBits_shortest [of 8 "[True, True, True]" "shortLabel [True, True, True]"]
    by (simp add: label_enc_def shortLabel_def)
  then show ?thesis using label_writer [OF s(1), of 8 BeginCell] s(2) length_sliceBits [of "newSliceFromCell (bitsCell [True, True, True] [])"] by auto
qed

text \<open>C14: the three readers agree on every encoding of a label.  \<open>readLabelView\<close> returns a view with its bits and \<open>loadLabel\<close> appends them to a key, both with the cursor left behind the encoding.
  \<open>matchLabelPrefix\<close> reports the length of the label and of its common prefix with a key.  When the whole label matches it leaves the cursor behind the encoding and the key behind the match; otherwise the key is left
  behind the first bit that differs, and nothing is said of how far the label was read.\<close>

theorem label_readers:
  assumes "label_enc n l bs" "n < 1024" "slice_ok c" "sliceBits c = bs @ rest"
    and "builder_ok key" "b_bitsSz key + length l < 1024" and "slice_ok k" "length l \<le> BitsLeft k"
  shows "(\<exists>lv. readLabelView n c = (Inr lv, consumed (length bs) 0 c) \<and> lv_len lv = length l \<and> sliceBits (lv_label lv) = l) \<and>
    (\<exists>key'. loadLabel n key c = (Inr (length l, key'), consumed (length bs) 0 c) \<and> builderBits key' = builderBits key @ l) \<and>
    (\<exists>c' k'. matchLabelPrefix n (c, k) = (Inr (length l, lcp l (sliceBits k)), (c', k')) \<and>
      (if prefix l (sliceBits k) then c' = consumed (length bs) 0 c \<and> k' = consumed (length l) 0 k
       else k' = consumed (lcp l (sliceBits k) + 1) 0 k))"
proof -
  obtain lv where "readLabelView n c = (Inr lv, consumed (length bs) 0 c)" "lv_len lv = length l" "sliceBits (lv_label lv) = l"
    by (rule readLabelView_ok [OF assms(3,4,1,2)])
  moreover obtain key' where "loadLabel n key c = (Inr (length l, key'), consumed (length bs) 0 c)" "builderBits key' = builderBits key @ l"
    by (rule loadLabel_ok [OF assms(3,4,1,2,5,6)])
  moreover have "label_match l (consumed (length bs) 0 c) k (matchLabelPrefix n (c, k))"
    by (rule matchLabelPrefix_ok [OF assms(3,4,1,2,7,8)])
  moreover have "lcp l (sliceBits k) = length l \<longleftrightarrow> prefix l (sliceBits k)" "lcp l (sliceBits k) \<le> length l" using lcp_prefix lcp_le(1) by blast+
  ultimately show ?thesis unfolding label_match_def Let_def
    by (cases "matchLabelPrefix n (c, k)"; cases "snd (matchLabelPrefix n (c, k))") (auto split: if_splits)
qed

theorem label_readers_witness:
  "\<exists>lv. readLabelView 4 (newSliceFromCell (bitsCell (longLabel 4 [True, False]) [])) =
     (Inr lv, consumed (length (longLabel 4 [True, False])) 0 (newSliceFromCell (bitsCell (longLabel 4 [True, False]) []))) \<and> sliceBits (lv_label lv) = [True, False]"
proof -
  have "length (longLabel 4 [True, False]) < 1024" using bitLen_le [of 4 3] by (simp add: longLabel_def)
  then have s: "slice_ok (newSliceFromCell (bitsCell (longLabel 4 [True, False]) []))"
      "sliceBits (newSliceFromCell (bitsCell (longLabel 4 [True, False]) [])) = longLabel 4 [True, False] @ []"
    using bitsCell_key by auto
  have e: "label_enc 4 [True, False] (longLabel 4 [True, False])" by (simp add: label_enc_def)
  have k: "slice_ok (newSliceFromCell (bitsCell [True, True] []))" "length [True, False] \<le> BitsLeft (newSliceFromCell (bitsCell [True, True] []))"
    using bitsCell_key [of "[True, True]"] length_sliceBits [of "newSliceFromCell (bitsCell [True, True] [])"] by simp_all
  show ?thesis using label_readers [OF e _ s, of BeginCell, OF _ _ _ k] by auto
qed

text \<open>C15: the test that lets a rebuilt fork reuse its label bits, with its shortcut on the first bits, accepts exactly the encoding the
  writer would choose.\<close>

theorem canonical_label_test:
  assumes "label_enc n l bs" "n < 1024" "length bs < 1024" "length l < n"
  shows "\<exists>node. openNode (bitsCell bs [x, y]) n = Inr node \<and>
    (let (canonical, decided) = canonicalLabelFast node n in if decided then Inr canonical else hasCanonicalLabel node n) =
    Inr (bs = labelBits n l)"
proof -
  obtain node where "openNode (bitsCell (bs @ []) [x, y]) n = Inr node" "opened n l bs [] [x, y] node"
    by (rule openNode_ok [OF assms(1,2), of "[]" "[x, y]"]) (use assms(3) in auto)
  then show ?thesis using canonical_test [OF _ assms(2)] by auto
qed

theorem canonical_label_test_witness:
  "\<exists>node. openNode (bitsCell (longLabel 4 [True, False]) [emptyCell, emptyCell]) 4 = Inr node"
proof -
  have "length (longLabel 4 [True, False]) < 1024" using bitLen_le [of 4 3] by (simp add: longLabel_def)
  then show ?thesis using canonical_label_test [of 4 "[True, False]" "longLabel 4 [True, False]" emptyCell emptyCell] by (auto simp: label_enc_def)
qed

end
