(* ===== verification/Math_Spec.thy ===== *)
theory Math_Spec
  imports Op_Div
begin

section \<open>What the division opcodes compute\<close>

text \<open>
  A specification of the division families by rounding, dividend, divisor and results wanted, and the
  proof that every opcode of Op_Div meets it.
\<close>

datatype rounding = RFloor | RNearest | RCeil

definition roundQuot :: "rounding \<Rightarrow> int \<Rightarrow> int \<Rightarrow> int" where
  "roundQuot rd n d = (case rd of RFloor \<Rightarrow> n div d | RNearest \<Rightarrow> (2 * n + d) div (2 * d) | RCeil \<Rightarrow> - ((- n) div d))"

lemma DivFloor_spec:
  assumes "y \<noteq> 0" shows "DivFloor x y = (x div y, x mod y)"
proof (cases "y > 0")
  case True
  then show ?thesis by (simp add: DivFloor_def bigDivMod_def not_less)
next
  case False
  then have y: "- y > 0" using assms by simp
  have "x div y = (- x) div (- y)" "x mod y = - ((- x) mod (- y))" by simp_all
  moreover have "x mod - y \<noteq> 0 \<Longrightarrow> 0 < x mod - y" using pos_mod_sign [OF y, of x] by linarith
  ultimately show ?thesis
    using False y zdiv_zminus1_eq_if [of "- y" x] zmod_zminus1_eq_if [of x "- y"]
    by (auto simp: DivFloor_def bigDivMod_def Let_def)
qed

lemma bigDiv_spec: "0 < y \<Longrightarrow> bigDiv x y = x div y"
  by (simp add: bigDiv_def bigDivMod_def)

lemma DivCeil_spec:
  assumes "y \<noteq> 0" shows "DivCeil x y = - ((- x) div y)"
proof (cases "y > 0")
  case True
  then show ?thesis
    using zdiv_zminus1_eq_if [of y x] by (cases "x = 0") (auto simp: DivCeil_def bigDivMod_def Let_def)
next
  case False
  moreover have "(- x) div y = x div (- y)" using div_minus_minus [of x "- y"] by simp
  ultimately show ?thesis using assms by (simp add: DivCeil_def bigDivMod_def Let_def)
qed

lemma half_up: 
  assumes "0 < b" shows "(2 * a + b) div (2 * b) = a div b + (if 2 * (a mod b) \<ge> b then 1 else (0 :: int))"
proof -
  define q r where "q = a div b" and "r = a mod b"
  have "a = b * q + r" unfolding q_def r_def by simp
  then have eq: "2 * a + b = (2 * (a mod b) + b) + (a div b) * (2 * b)" unfolding q_def [symmetric] r_def [symmetric] by (simp add: algebra_simps)
  have "(2 * a + b) div (2 * b) = a div b + (2 * (a mod b) + b) div (2 * b)"
    unfolding eq using assms by simp
  moreover have r: "0 \<le> r" "r < b" using assms by (simp_all add: r_def)
  then have "(2 * r + b) div (2 * b) = (if 2 * r \<ge> b then 1 else 0)"
    by (auto intro!: int_div_pos_eq [of _ _ _ "2 * r - b"] div_pos_pos_trivial)
  ultimately show ?thesis by (simp add: r_def)
qed

lemma half_up_neg:
  assumes "0 < b" shows "(b - 2 * a) div (2 * b) = - (a div b) - (if 2 * (a mod b) > b then 1 else (0 :: int))"
  using half_up [OF assms, of "- a"] assms pos_mod_bound [of b a] pos_mod_sign [of b a]
  by (auto simp: zdiv_zminus1_eq_if zmod_zminus1_eq_if algebra_simps)

lemma DivRound_cases:
  assumes "0 < a" "0 < b"
  shows "DivRound a b = (2 * a + b) div (2 * b)" "DivRound (- a) (- b) = (2 * a + b) div (2 * b)"
    "DivRound (- a) b = (b - 2 * a) div (2 * b)" "DivRound a (- b) = (b - 2 * a) div (2 * b)"
proof -
  define q r where "q = a div b" and "r = a mod b"
  have a: "a = q * b + r" unfolding q_def r_def by simp
  have r: "0 \<le> r" "r < b" using assms(2) by (simp_all add: r_def)
  then have d: "(q * b + r) div b = q" "(q * b + r) mod b = r" by simp_all
  have s: "0 < q * b + r" using assms(1) a by simp
  show "DivRound a b = (2 * a + b) div (2 * b)" "DivRound (- a) (- b) = (2 * a + b) div (2 * b)"
    unfolding half_up [OF assms(2)] unfolding a d using s assms(2) r by (auto simp: DivRound_def bigQuoRem_def Let_def d)
  show "DivRound (- a) b = (b - 2 * a) div (2 * b)" "DivRound a (- b) = (b - 2 * a) div (2 * b)"
    unfolding half_up_neg [OF assms(2)] unfolding a d using s assms(2) r by (auto simp: DivRound_def bigQuoRem_def Let_def d)
qed

lemma DivRound_spec:
  assumes "y \<noteq> 0" shows "DivRound x y = (2 * x + y) div (2 * y)"
proof -
  have neg: "(- n) div (- d) = n div d" for n d :: int by simp
  consider "x = 0" | "x > 0" "y > 0" | "x < 0" "y < 0" | "x < 0" "y > 0" | "x > 0" "y < 0" using assms by linarith
  then show ?thesis
  proof cases
    case 1
    then show ?thesis using assms neg [of "- y" "2 * (- y)"] by (cases "y > 0") (simp_all add: DivRound_def bigQuoRem_def div_pos_pos_trivial)
  next
    case 2 then show ?thesis using DivRound_cases(1) by simp
  next
    case 3 then show ?thesis using DivRound_cases(2) [of "- x" "- y"] neg [of "2 * x + y" "2 * y"] by simp
  next
    case 4 then show ?thesis using DivRound_cases(3) [of "- x" y] by (simp add: add.commute)
  next
    case 5 then show ?thesis using DivRound_cases(4) [of x "- y"] neg [of "2 * x + y" "2 * y"] by (simp add: algebra_simps)
  qed
qed

lemma rounded: "y \<noteq> 0 \<Longrightarrow> fst (DivFloor x y) = roundQuot RFloor x y" "y \<noteq> 0 \<Longrightarrow> snd (DivFloor x y) = x - y * roundQuot RFloor x y"
    "y \<noteq> 0 \<Longrightarrow> DivRound x y = roundQuot RNearest x y" "y \<noteq> 0 \<Longrightarrow> DivCeil x y = roundQuot RCeil x y" "0 < y \<Longrightarrow> bigDiv x y = roundQuot RFloor x y"
  by (simp_all add: roundQuot_def DivFloor_spec DivRound_spec DivCeil_spec bigDiv_spec minus_mult_div_eq_mod)

subsection \<open>Specifications of the opcodes\<close>

text \<open>\<open>True\<close> asks for the quotient, \<open>False\<close> for the remainder.\<close>

definition divSpec :: "rounding \<Rightarrow> bool list \<Rightarrow> int \<Rightarrow> int \<Rightarrow> go_error + int list" where
  "divSpec rd outs n d =
     (if d = 0 then Inl errIntOverflow else Inr (map (\<lambda>wantQ. if wantQ then roundQuot rd n d else n - d * roundQuot rd n d) outs))"

definition shiftSpec :: "int \<Rightarrow> go_error + int list \<Rightarrow> go_error + int list" where
  "shiftSpec z r = (if z < 0 \<or> z > 256 then Inl errRangeCheck else r)"

definition on1 :: "(int \<Rightarrow> 'a) \<Rightarrow> int list \<Rightarrow> 'a" where
  "on1 f xs = f (xs ! 0)"

definition on2 :: "(int \<Rightarrow> int \<Rightarrow> 'a) \<Rightarrow> int list \<Rightarrow> 'a" where
  "on2 f xs = f (xs ! 0) (xs ! 1)"

definition on3 :: "(int \<Rightarrow> int \<Rightarrow> int \<Rightarrow> 'a) \<Rightarrow> int list \<Rightarrow> 'a" where
  "on3 f xs = f (xs ! 0) (xs ! 1) (xs ! 2)"

definition on4 :: "(int \<Rightarrow> int \<Rightarrow> int \<Rightarrow> int \<Rightarrow> 'a) \<Rightarrow> int list \<Rightarrow> 'a" where
  "on4 f xs = f (xs ! 0) (xs ! 1) (xs ! 2) (xs ! 3)"

text \<open>Every opcode with the number of its operands and its results, operands listed from the deepest to the top.\<close>

definition compoundSpecs :: "(simple_op \<times> nat \<times> (int list \<Rightarrow> go_error + int list)) list" where
  "compoundSpecs = [
     (DIV, 2, on2 (\<lambda>x y. divSpec RFloor [True] x y)),
     (MOD, 2, on2 (\<lambda>x y. divSpec RFloor [False] x y)),
     (DIVMOD, 2, on2 (\<lambda>x y. divSpec RFloor [True, False] x y)),
     (ADDDIVMOD, 3, on3 (\<lambda>x w z. divSpec RFloor [True, False] (x + w) z)),
     (DIVR, 2, on2 (\<lambda>x y. divSpec RNearest [True] x y)),
     (MODR, 2, on2 (\<lambda>x y. divSpec RNearest [False] x y)),
     (DIVMODR, 2, on2 (\<lambda>x y. divSpec RNearest [True, False] x y)),
     (ADDDIVMODR, 3, on3 (\<lambda>x w z. divSpec RNearest [True, False] (x + w) z)),
     (DIVC, 2, on2 (\<lambda>x y. divSpec RCeil [True] x y)),
     (MODC, 2, on2 (\<lambda>x y. divSpec RCeil [False] x y)),
     (DIVMODC, 2, on2 (\<lambda>x y. divSpec RCeil [True, False] x y)),
     (ADDDIVMODC, 3, on3 (\<lambda>x w z. divSpec RCeil [True, False] (x + w) z)),
     (ADDRSHIFTMOD, 3, on3 (\<lambda>x w z. shiftSpec z (divSpec RFloor [True, False] (x + w) (2 ^ nat z)))),
     (MODPOW2, 2, on2 (\<lambda>x y. shiftSpec y (divSpec RFloor [False] x (2 ^ nat y)))),
     (RSHIFTMOD, 2, on2 (\<lambda>x y. shiftSpec y (divSpec RFloor [True, False] x (2 ^ nat y)))),
     (ADDRSHIFTMODR, 3, on3 (\<lambda>x w z. shiftSpec z (divSpec RNearest [True, False] (x + w) (2 ^ nat z)))),
     (MODPOW2R, 2, on2 (\<lambda>x y. shiftSpec y (divSpec RNearest [False] x (2 ^ nat y)))),
     (RSHIFTMODR, 2, on2 (\<lambda>x y. shiftSpec y (divSpec RNearest [True, False] x (2 ^ nat y)))),
     (ADDRSHIFTMODC, 3, on3 (\<lambda>x w z. shiftSpec z (divSpec RCeil [True, False] (x + w) (2 ^ nat z)))),
     (MODPOW2C, 2, on2 (\<lambda>x y. shiftSpec y (divSpec RCeil [False] x (2 ^ nat y)))),
     (RSHIFTMODC, 2, on2 (\<lambda>x y. shiftSpec y (divSpec RCeil [True, False] x (2 ^ nat y)))),
     (MULADDDIVMOD, 4, on4 (\<lambda>x y w z. divSpec RFloor [True, False] (x * y + w) z)),
     (MULDIV, 3, on3 (\<lambda>x y z. divSpec RFloor [True] (x * y) z)),
     (MULMOD, 3, on3 (\<lambda>x y z. divSpec RFloor [False] (x * y) z)),
     (MULDIVMOD, 3, on3 (\<lambda>x y z. divSpec RFloor [True, False] (x * y) z)),
     (MULADDRSHIFTMOD, 4, on4 (\<lambda>x y w z. shiftSpec z (divSpec RFloor [True, False] (x * y + w) (2 ^ nat z)))),
     (MULRSHIFT, 3, on3 (\<lambda>x y z. shiftSpec z (divSpec RFloor [True] (x * y) (2 ^ nat z)))),
     (MULMODPOW2_VAR, 3, on3 (\<lambda>x y z. shiftSpec z (divSpec RFloor [False] (x * y) (2 ^ nat z)))),
     (MULRSHIFTMOD_VAR, 3, on3 (\<lambda>x y z. shiftSpec z (divSpec RFloor [True, False] (x * y) (2 ^ nat z)))),
     (MULADDDIVMODR, 4, on4 (\<lambda>x y w z. divSpec RNearest [True, False] (x * y + w) z)),
     (MULDIVR, 3, on3 (\<lambda>x y z. divSpec RNearest [True] (x * y) z)),
     (MULMODR, 3, on3 (\<lambda>x y z. divSpec RNearest [False] (x * y) z)),
     (MULDIVMODR, 3, on3 (\<lambda>x y z. divSpec RNearest [True, False] (x * y) z)),
     (MULADDRSHIFTRMOD, 4, on4 (\<lambda>x y w z. shiftSpec z (divSpec RNearest [True, False] (x * y + w) (2 ^ nat z)))),
     (MULRSHIFTR, 3, on3 (\<lambda>x y z. shiftSpec z (divSpec RNearest [True] (x * y) (2 ^ nat z)))),
     (MULMODPOW2R_VAR, 3, on3 (\<lambda>x y z. shiftSpec z (divSpec RNearest [False] (x * y) (2 ^ nat z)))),
     (MULRSHIFTRMOD_VAR, 3, on3 (\<lambda>x y z. shiftSpec z (divSpec RNearest [True, False] (x * y) (2 ^ nat z)))),
     (MULADDDIVMODC, 4, on4 (\<lambda>x y w z. divSpec RCeil [True, False] (x * y + w) z)),
     (MULDIVC, 3, on3 (\<lambda>x y z. divSpec RCeil [True] (x * y) z)),
     (MULMODC, 3, on3 (\<lambda>x y z. divSpec RCeil [False] (x * y) z)),
     (MULDIVMODC, 3, on3 (\<lambda>x y z. divSpec RCeil [True, False] (x * y) z)),
     (MULADDRSHIFTCMOD, 4, on4 (\<lambda>x y w z. shiftSpec z (divSpec RCeil [True, False] (x * y + w) (2 ^ nat z)))),
     (MULRSHIFTC, 3, on3 (\<lambda>x y z. shiftSpec z (divSpec RCeil [True] (x * y) (2 ^ nat z)))),
     (MULMODPOW2C_VAR, 3, on3 (\<lambda>x y z. shiftSpec z (divSpec RCeil [False] (x * y) (2 ^ nat z)))),
     (MULRSHIFTCMOD_VAR, 3, on3 (\<lambda>x y z. shiftSpec z (divSpec RCeil [True, False] (x * y) (2 ^ nat z)))),
     (LSHIFTADDDIVMOD, 4, on4 (\<lambda>x w z y. shiftSpec y (divSpec RFloor [True, False] (x * 2 ^ nat y + w) z))),
     (LSHIFTDIV, 3, on3 (\<lambda>x y z. shiftSpec z (divSpec RFloor [True] (x * 2 ^ nat z) y))),
     (LSHIFTMOD, 3, on3 (\<lambda>x y z. shiftSpec z (divSpec RFloor [False] (x * 2 ^ nat z) y))),
     (LSHIFTDIVMOD, 3, on3 (\<lambda>x y z. shiftSpec z (divSpec RFloor [True, False] (x * 2 ^ nat z) y))),
     (LSHIFTADDDIVMODR, 4, on4 (\<lambda>x w z y. shiftSpec y (divSpec RNearest [True, False] (x * 2 ^ nat y + w) z))),
     (LSHIFTDIVR, 3, on3 (\<lambda>x y z. shiftSpec z (divSpec RNearest [True] (x * 2 ^ nat z) y))),
     (LSHIFTMODR, 3, on3 (\<lambda>x y z. shiftSpec z (divSpec RNearest [False] (x * 2 ^ nat z) y))),
     (LSHIFTDIVMODR, 3, on3 (\<lambda>x y z. shiftSpec z (divSpec RNearest [True, False] (x * 2 ^ nat z) y))),
     (LSHIFTADDDIVMODC, 4, on4 (\<lambda>x w z y. shiftSpec y (divSpec RCeil [True, False] (x * 2 ^ nat y + w) z))),
     (LSHIFTDIVC, 3, on3 (\<lambda>x y z. shiftSpec z (divSpec RCeil [True] (x * 2 ^ nat z) y))),
     (LSHIFTMODC, 3, on3 (\<lambda>x y z. shiftSpec z (divSpec RCeil [False] (x * 2 ^ nat z) y))),
     (LSHIFTDIVMODC, 3, on3 (\<lambda>x y z. shiftSpec z (divSpec RCeil [True, False] (x * 2 ^ nat z) y))),
     (RSHIFTR, 2, on2 (\<lambda>x y. shiftSpec y (divSpec RNearest [True] x (2 ^ nat y)))),
     (RSHIFTC, 2, on2 (\<lambda>x y. shiftSpec y (divSpec RCeil [True] x (2 ^ nat y))))]"

definition compoundCodeSpecs :: "64 word \<Rightarrow> (arg_op \<times> nat \<times> (int list \<Rightarrow> go_error + int list)) list" where
  "compoundCodeSpecs args = [
     (modPow2CodeOp, 1, on1 (\<lambda>x. divSpec RFloor [False] x (2 ^ bytePlusOneValue args))),
     (rshiftCodeModOp, 1, on1 (\<lambda>x. divSpec RFloor [True, False] x (2 ^ bytePlusOneValue args))),
     (mulAddRShiftCodeModOp, 3, on3 (\<lambda>x y w. divSpec RFloor [True, False] (x * y + w) (2 ^ bytePlusOneValue args))),
     (mulRShiftCodeOp, 2, on2 (\<lambda>x y. divSpec RFloor [True] (x * y) (2 ^ bytePlusOneValue args))),
     (mulModPow2CodeOp, 2, on2 (\<lambda>x y. divSpec RFloor [False] (x * y) (2 ^ bytePlusOneValue args))),
     (mulRShiftCodeModOp, 2, on2 (\<lambda>x y. divSpec RFloor [True, False] (x * y) (2 ^ bytePlusOneValue args))),
     (modPow2RCodeOp, 1, on1 (\<lambda>x. divSpec RNearest [False] x (2 ^ bytePlusOneValue args))),
     (rshiftRCodeModOp, 1, on1 (\<lambda>x. divSpec RNearest [True, False] x (2 ^ bytePlusOneValue args))),
     (rshiftRCodeOp, 1, on1 (\<lambda>x. divSpec RNearest [True] x (2 ^ bytePlusOneValue args))),
     (mulAddRShiftRCodeModOp, 3, on3 (\<lambda>x y w. divSpec RNearest [True, False] (x * y + w) (2 ^ bytePlusOneValue args))),
     (mulRShiftRCodeOp, 2, on2 (\<lambda>x y. divSpec RNearest [True] (x * y) (2 ^ bytePlusOneValue args))),
     (mulModPow2RCodeOp, 2, on2 (\<lambda>x y. divSpec RNearest [False] (x * y) (2 ^ bytePlusOneValue args))),
     (mulRShiftRCodeModOp, 2, on2 (\<lambda>x y. divSpec RNearest [True, False] (x * y) (2 ^ bytePlusOneValue args))),
     (modPow2CCodeOp, 1, on1 (\<lambda>x. divSpec RCeil [False] x (2 ^ bytePlusOneValue args))),
     (rshiftCCodeModOp, 1, on1 (\<lambda>x. divSpec RCeil [True, False] x (2 ^ bytePlusOneValue args))),
     (rshiftCCodeOp, 1, on1 (\<lambda>x. divSpec RCeil [True] x (2 ^ bytePlusOneValue args))),
     (mulAddRShiftCCodeModOp, 3, on3 (\<lambda>x y w. divSpec RCeil [True, False] (x * y + w) (2 ^ bytePlusOneValue args))),
     (mulRShiftCCodeOp, 2, on2 (\<lambda>x y. divSpec RCeil [True] (x * y) (2 ^ bytePlusOneValue args))),
     (mulModPow2CCodeOp, 2, on2 (\<lambda>x y. divSpec RCeil [False] (x * y) (2 ^ bytePlusOneValue args))),
     (mulRShiftCCodeModOp, 2, on2 (\<lambda>x y. divSpec RCeil [True, False] (x * y) (2 ^ bytePlusOneValue args))),
     (addrShiftModOp, 2, on2 (\<lambda>x w. divSpec RFloor [True, False] (x + w) (2 ^ bytePlusOneValue args))),
     (addrShiftRModOp, 2, on2 (\<lambda>x w. divSpec RNearest [True, False] (x + w) (2 ^ bytePlusOneValue args))),
     (addrShiftCModOp, 2, on2 (\<lambda>x w. divSpec RCeil [True, False] (x + w) (2 ^ bytePlusOneValue args))),
     (newLshiftDivCodeOp 0xD0 0 0, 3, on3 (\<lambda>x w z. divSpec RFloor [True, False] (x * 2 ^ bytePlusOneValue args + w) z)),
     (newLshiftDivCodeOp 0xD1 0 1, 3, on3 (\<lambda>x w z. divSpec RNearest [True, False] (x * 2 ^ bytePlusOneValue args + w) z)),
     (newLshiftDivCodeOp 0xD2 0 2, 3, on3 (\<lambda>x w z. divSpec RCeil [True, False] (x * 2 ^ bytePlusOneValue args + w) z)),
     (newLshiftDivCodeOp 0xD4 1 0, 2, on2 (\<lambda>x z. divSpec RFloor [True] (x * 2 ^ bytePlusOneValue args) z)),
     (newLshiftDivCodeOp 0xD5 1 1, 2, on2 (\<lambda>x z. divSpec RNearest [True] (x * 2 ^ bytePlusOneValue args) z)),
     (newLshiftDivCodeOp 0xD6 1 2, 2, on2 (\<lambda>x z. divSpec RCeil [True] (x * 2 ^ bytePlusOneValue args) z)),
     (newLshiftDivCodeOp 0xD8 2 0, 2, on2 (\<lambda>x z. divSpec RFloor [False] (x * 2 ^ bytePlusOneValue args) z)),
     (newLshiftDivCodeOp 0xD9 2 1, 2, on2 (\<lambda>x z. divSpec RNearest [False] (x * 2 ^ bytePlusOneValue args) z)),
     (newLshiftDivCodeOp 0xDA 2 2, 2, on2 (\<lambda>x z. divSpec RCeil [False] (x * 2 ^ bytePlusOneValue args) z)),
     (newLshiftDivCodeOp 0xDC 3 0, 2, on2 (\<lambda>x z. divSpec RFloor [True, False] (x * 2 ^ bytePlusOneValue args) z)),
     (newLshiftDivCodeOp 0xDD 3 1, 2, on2 (\<lambda>x z. divSpec RNearest [True, False] (x * 2 ^ bytePlusOneValue args) z)),
     (newLshiftDivCodeOp 0xDE 3 2, 2, on2 (\<lambda>x z. divSpec RCeil [True, False] (x * 2 ^ bytePlusOneValue args) z))]"


text \<open>The results are pushed in order; each push checks the 257-bit range.\<close>

definition pushInts :: "int list \<Rightarrow> unit vm" where
  "pushInts rs = for_each rs pushInt"

definition meets :: "unit vm \<Rightarrow> nat \<Rightarrow> (int list \<Rightarrow> go_error + int list) \<Rightarrow> bool" where
  "meets m n f \<longleftrightarrow> (\<forall>s st xs. length xs = n \<longrightarrow> st_Stack s = st @ map VInt xs \<longrightarrow>
     (case f xs of
        Inl e \<Rightarrow> fst (m s) = Inl e
      | Inr rs \<Rightarrow> m s = pushInts rs (s\<lparr>st_Stack := st\<rparr>)))"

lemma meets_numeral:
  "(\<And>s st x. st_Stack s = st @ [VInt x] \<Longrightarrow> (case f x of Inl e \<Rightarrow> fst (m s) = Inl e | Inr rs \<Rightarrow> m s = pushInts rs (s\<lparr>st_Stack := st\<rparr>))) \<Longrightarrow> meets m 1 (on1 f)"
  "(\<And>s st x y. st_Stack s = st @ [VInt x, VInt y] \<Longrightarrow> (case g x y of Inl e \<Rightarrow> fst (m s) = Inl e | Inr rs \<Rightarrow> m s = pushInts rs (s\<lparr>st_Stack := st\<rparr>))) \<Longrightarrow> meets m 2 (on2 g)"
  "(\<And>s st x y z. st_Stack s = st @ [VInt x, VInt y, VInt z] \<Longrightarrow> (case h x y z of Inl e \<Rightarrow> fst (m s) = Inl e | Inr rs \<Rightarrow> m s = pushInts rs (s\<lparr>st_Stack := st\<rparr>))) \<Longrightarrow> meets m 3 (on3 h)"
  "(\<And>s st x y z w. st_Stack s = st @ [VInt x, VInt y, VInt z, VInt w] \<Longrightarrow> (case k x y z w of Inl e \<Rightarrow> fst (m s) = Inl e | Inr rs \<Rightarrow> m s = pushInts rs (s\<lparr>st_Stack := st\<rparr>))) \<Longrightarrow> meets m 4 (on4 k)"
  by (auto simp: meets_def on1_def on2_def on3_def on4_def numeral_2_eq_2 numeral_3_eq_3 eval_nat_numeral length_Suc_conv)

text \<open>How the pieces of an opcode run on a stack that holds its operands.\<close>

lemma op_run [simp]:
  "st_Stack s \<noteq> [] \<Longrightarrow> last (st_Stack s) = VInt x \<Longrightarrow> bnd popInt f s = f (Some x) (s\<lparr>st_Stack := butlast (st_Stack s)\<rparr>)"
  "st_Stack s \<noteq> [] \<Longrightarrow> last (st_Stack s) = VInt x \<Longrightarrow> bnd popIntRead f s = f (Some x) (s\<lparr>st_Stack := butlast (st_Stack s)\<rparr>)"
  "st_Stack s \<noteq> [] \<Longrightarrow> last (st_Stack s) = VInt x \<Longrightarrow> bnd popIntFinite g s = g x (s\<lparr>st_Stack := butlast (st_Stack s)\<rparr>)"
  "st_Stack s \<noteq> [] \<Longrightarrow> last (st_Stack s) = VInt x \<Longrightarrow> bnd (popIntRange 0 256) g s =
     (if x < 0 \<or> x > 256 then (Inl errRangeCheck, s\<lparr>st_Stack := butlast (st_Stack s)\<rparr>) else g x (s\<lparr>st_Stack := butlast (st_Stack s)\<rparr>))"
  "length (st_Stack s) \<ge> nat n \<Longrightarrow> seq (checkStackDepth n) k s = k s"
  "bnd getS b s = b s s" "requireFinite (Some v) h = h v" "finitePair (Some v) (Some w) p = p v w" "legacyLeftShiftOperand gv (Some v) sh = Some v"
  by (auto simp: popInt_def popIntRead_def popIntFinite_def popIntRange_def PopInt_def PopIntRead_def PopIntFinite_def PopIntRange_def
      PopAny_def lift_field_apply act_simps is_int64_def checkStackDepth_def requireFinite_def finitePair_def legacyLeftShiftOperand_def)

lemma pushed: "pushInt v = pushInts [v]" "pushTwo v w = pushInts [v, w]"
  by (rule ext; simp add: pushInts_def pushTwo_def act_simps split: prod.splits sum.splits)+

lemmas meet_simps = SimpleOP_def NewArgOP_def divSpec_def shiftSpec_def rounded pushed butlast_append Let_def case_prod_beta roundDivMod_def

lemma compoundSpecs_met: "(op, n, f) \<in> set compoundSpecs \<Longrightarrow> meets (so_Action op) n f"
proof -
  have "list_all (\<lambda>(op, n, f). meets (so_Action op) n f) compoundSpecs"
    unfolding compoundSpecs_def list.pred_inject prod.case div_simple_defs
    by (intro conjI TrueI meets_numeral; simp add: meet_simps)
  then show "(op, n, f) \<in> set compoundSpecs \<Longrightarrow> meets (so_Action op) n f" by (auto simp: list_all_iff)
qed

lemma compoundCodeSpecs_met: "(op, n, f) \<in> set (compoundCodeSpecs args) \<Longrightarrow> meets (ao_Action op args) n f"
proof -
  have "list_all (\<lambda>(op, n, f). meets (ao_Action op args) n f) (compoundCodeSpecs args)"
    unfolding compoundCodeSpecs_def list.pred_inject prod.case div_arg_defs
    by (intro conjI TrueI meets_numeral; simp add: meet_simps)
  then show "(op, n, f) \<in> set (compoundCodeSpecs args) \<Longrightarrow> meets (ao_Action op args) n f" by (auto simp: list_all_iff)
qed

end
