(* ===== verification/Math_Props.thy ===== *)
theory Math_Props
  imports Complex_Main Math_Spec Vm_Props
begin

section \<open>Properties of the arithmetic opcodes\<close>

text \<open>
  The division helpers against real division, and the opcodes of the division families against the tables of
  theory Math_Spec.
\<close>

lemma real_round: "(y :: int) \<noteq> 0 \<Longrightarrow> \<lfloor>real_of_int x / real_of_int y + 1 / 2\<rfloor> = (2 * x + y) div (2 * y)"
proof -
  assume "y \<noteq> 0"
  then have "real_of_int x / real_of_int y + 1 / 2 = real_of_int (2 * x + y) / real_of_int (2 * y)" by (simp add: field_simps)
  then show ?thesis by (simp only: floor_divide_of_int_eq)
qed

lemma real_ceil: "\<lceil>real_of_int x / real_of_int y\<rceil> = - ((- x) div y)"
  using floor_divide_of_int_eq [of "- x" y] by (simp add: ceiling_def)

text \<open>C16: for a divisor other than zero, of either sign, \<open>DivFloor\<close> gives the real quotient rounded down and the
  remainder that goes with it, \<open>DivRound\<close> the quotient rounded to the nearest integer with halves rounded up, and \<open>DivCeil\<close> the
  quotient rounded up.\<close>

theorem division_rounding:
  assumes "y \<noteq> 0"
  shows "DivFloor x y = (\<lfloor>real_of_int x / real_of_int y\<rfloor>, x - y * \<lfloor>real_of_int x / real_of_int y\<rfloor>) \<and>
    DivRound x y = \<lfloor>real_of_int x / real_of_int y + 1 / 2\<rfloor> \<and>
    DivCeil x y = \<lceil>real_of_int x / real_of_int y\<rceil>"
  by (simp add: DivFloor_spec DivRound_spec DivCeil_spec real_round real_ceil floor_divide_of_int_eq assms minus_mult_div_eq_mod)

theorem division_rounding_witness:
  "DivFloor (-7) 2 = (-4, 1) \<and> DivRound (-7) 2 = -3 \<and> DivCeil 7 (-2) = -3 \<and>
   DivRound (-7) 2 = \<lfloor>real_of_int (-7) / real_of_int 2 + 1 / 2\<rfloor>"
proof -
  have "DivFloor (-7) 2 = (-4, 1)" "DivRound (-7) 2 = -3" "DivCeil 7 (-2) = -3" by code_simp+
  then show ?thesis using division_rounding [of 2 "-7"] by simp
qed

text \<open>C17: each of the 59 division opcodes without an immediate operand, on a stack that ends with its operands
  as finite integers, takes them off and pushes the results its entry in the table asks for, each checked for the 257-bit range; a
  zero divisor gives an integer overflow, and a shift outside 0 to 256 a range check error.\<close>

theorem compound_division:
  assumes "(op, n, f) \<in> set compoundSpecs" "length xs = n" "st_Stack s = st @ map VInt xs"
  shows "case f xs of
      Inl e \<Rightarrow> fst (so_Action op s) = Inl e
    | Inr rs \<Rightarrow> so_Action op s = pushInts rs (s\<lparr>st_Stack := st\<rparr>)"
  using compoundSpecs_met [OF assms(1)] assms(2, 3) by (auto simp: meets_def)

theorem compound_division_witness:
  "so_Action MULDIVMODC (demoState 9 [VNull, VInt 7, VInt (-5), VInt 4]) = pushInts [-8, -3] (demoState 9 [VNull])"
proof -
  have "(MULDIVMODC, 3, on3 (\<lambda>x y z. divSpec RCeil [True, False] (x * y) z)) \<in> set compoundSpecs"
    by (simp add: compoundSpecs_def)
  from compound_division [OF this, of "[7, -5, 4]" "demoState 9 [VNull, VInt 7, VInt (-5), VInt 4]" "[VNull]"]
  show ?thesis by (simp add: on3_def divSpec_def roundQuot_def demoState_def NewExecutionState_def Let_def)
qed

text \<open>C18: the same for the 35 division opcodes whose shift is an immediate byte, which stands for 1 to
  256.  For every value of the byte, with finite operands on the stack: where the table gives an error (a zero divisor) the
  opcode fails with that error; otherwise it takes the operands off and pushes the results of the table one after the other, and
  each push fails with an integer overflow if its result is outside the signed 257-bit range.\<close>

theorem compound_division_code:
  assumes "(op, n, f) \<in> set (compoundCodeSpecs args)" "length xs = n" "st_Stack s = st @ map VInt xs"
  shows "case f xs of
      Inl e \<Rightarrow> fst (ao_Action op args s) = Inl e
    | Inr rs \<Rightarrow> ao_Action op args s = pushInts rs (s\<lparr>st_Stack := st\<rparr>)"
  using compoundCodeSpecs_met [OF assms(1)] assms(2, 3) by (auto simp: meets_def)

theorem compound_division_code_witness:
  "ao_Action mulRShiftRCodeModOp 1 (demoState 9 [VInt 7, VInt 5]) = pushInts [9, -1] (demoState 9 [])"
proof -
  have "(mulRShiftRCodeModOp, 2, on2 (\<lambda>x y. divSpec RNearest [True, False] (x * y) (2 ^ bytePlusOneValue 1))) \<in> set (compoundCodeSpecs 1)"
    by (simp add: compoundCodeSpecs_def)
  from compound_division_code [OF this, of "[7, 5]" "demoState 9 [VInt 7, VInt 5]" "[]"]
  have "ao_Action mulRShiftRCodeModOp 1 (demoState 9 [VInt 7, VInt 5]) =
      pushInts [(2 * 35 + 2 ^ bytePlusOneValue 1) div (2 * 2 ^ bytePlusOneValue 1),
        35 - 2 ^ bytePlusOneValue 1 * ((2 * 35 + 2 ^ bytePlusOneValue 1) div (2 * 2 ^ bytePlusOneValue 1))] (demoState 9 [])"
    by (simp add: on2_def divSpec_def roundQuot_def demoState_def NewExecutionState_def Let_def)
  moreover have "bytePlusOneValue 1 = 2" by code_simp
  ultimately show ?thesis by simp
qed

end
