(* ===== verification/Spec2Isabelle.thy ===== *)
theory Spec2Isabelle
  imports Vm_Props Cell_Props Run_Props Slice_Props Dict_Props Math_Props
begin

text \<open>
  A model of the cell library and of the TVM core of \<^verbatim>\<open>tonutils-go\<close>.

  \<^bold>\<open>The program.\<close>  Package \<^verbatim>\<open>src/tvm/cell\<close> stores data in cells: at most 1023 bits and four references,
  immutable once built.  A builder accumulates bits and references, finalisation turns it into a
  hashed cell, and a slice is a read cursor over a cell.  Package \<^verbatim>\<open>src/tvm/vm\<close> is the virtual
  machine: a stack of tagged values, control registers holding continuations and cells, gas
  counters, and the operations that call, jump, return and throw.

  \<^bold>\<open>Common ground.\<close>  Tvm_Prelude has the shape of every stateful operation: an action maps a state to an
  outcome (an error or a value) and the new state, so what a failing call leaves behind is part of
  the model.  \<open>keeps\<close> says that an action preserves a predicate on every branch.  An \<open>int64\<close> is an
  integer with \<open>wrap64\<close> written where Go arithmetic wraps; bytes and 64-bit words are words of that
  width.  A Go run-time panic is the error \<open>GoPanic\<close>.  Vm_Error has the codes of \<^verbatim>\<open>vmerr/error.go\<close>.

  \<^bold>\<open>Cells.\<close>
  \<^item> Cell_Types: the types \<open>Cell\<close>, \<open>Builder\<close>, \<open>Slice\<close>.  A cell is a finite tree, as it is fully loaded.
  \<^item> Sha256: the digest, executable; Cell_Hash: level masks (\<^verbatim>\<open>level.go\<close>), descriptors, representation hashes and depths
    (\<^verbatim>\<open>proof.go\<close>: \<open>calculateHashes\<close>, \<open>getHash\<close>, \<open>getDepth\<close>).  Operations that only pass hashes on take the digest as an argument.
  \<^item> Cell_Bits: bit sequences of bytes and integers; Cell_Builder: the stores of \<^verbatim>\<open>builder.go\<close>, with the loops that write eight bytes
    at a time; Cell_Builder_Bits and Cell_Builder_Ints show for each store which bits it appends.
  \<^item> Cell_Slice and Cell_Slice_Bits: the same for the loads of \<^verbatim>\<open>slice.go\<close>.
  \<^item> Cell_Finalize: \<^verbatim>\<open>finalize.go\<close>, \<^verbatim>\<open>validate.go\<close>, snake strings; Cell_Roundtrip: finalising an ordinary builder and reading it
    back.
  \<^item> Cell_Codec: the locale \<open>codec\<close> is the contract between a store and a load (the store appends the
    encoding, the load consumes it); it is interpreted for the fixed-width integers, the bit, byte strings, the
    unsigned variable-length integers and the coins (not for \<open>StoreBigVarInt\<close> with \<open>LoadVarInt\<close>, which are only modelled), and its
    lemmas give the round trips, for single values and for sequences.
  \<^item> Cell_Props: the properties of this part.

  \<^bold>\<open>The machine.\<close>
  \<^item> Vm_Values: stack values, continuations and registers (\<^verbatim>\<open>stack.go\<close>, \<^verbatim>\<open>continuation.go\<close>, \<^verbatim>\<open>state.go\<close>) and the well-formedness
    of values: integers in the signed 257-bit range, tuples of at most 255 entries, complete register
    files, also inside captured stacks.
  \<^item> Vm_Stack, Vm_Gas, Vm_Tuple: \<^verbatim>\<open>stack.go\<close>, \<^verbatim>\<open>gas.go\<close>, \<^verbatim>\<open>tuple.go\<close>, each with the laws of its operations.  The stack is
    a list whose last entry is the top.
  \<^item> Vm_State: the record \<open>vm_state\<close>, the registers, gas charging, the set of loaded cells (locale \<open>load_set\<close>), globals in c7,
    commit.
  \<^item> Vm_Exec: the \<open>Jump\<close> methods, \<open>JumpTo\<close> (a terminating loop: each step hands on a proper part of the continuation), calls, returns, exceptions, and the
    capture of the current continuation.  The lemmas show that each of them keeps the machine well formed.
  \<^item> Vm_Props: the properties of this part: a call and its return, the frame that a call with arguments leaves behind, charges and
    limits of gas, the price of loading a cell under every schedule, globals, stack moves.

  \<^bold>\<open>Instructions and the run loop.\<close>
  \<^item> Cell_Slice_Ops: \<^verbatim>\<open>slice_ops.go\<close>, comparison and cutting of slices; Slice_Props: its properties.
  \<^item> Vm_Dispatch: the prefix trie of \<^verbatim>\<open>src/tvm/vm.go\<close> with its 16-bit index; Vm_Op: the helpers of \<^verbatim>\<open>src/tvm/op/helpers\<close> and the
    execution of one decoded instruction; Vm_Run: the step and run functions.  The loop \<open>execute\<close> is a partial function into
    options.
  \<^item> Vm_Gas_Safe: what the loop needs of an operation to terminate; Vm_Live: every step pays, so the
    loop returns.  The locale \<open>instruction_set\<close> is the contract between the loop and an opcode table.
  \<^item> Op_Stack and Op_Const: the opcodes of \<^verbatim>\<open>src/tvm/op/stack\<close>; Op_Math and Op_Div: those of \<^verbatim>\<open>src/tvm/op/math\<close>; Op_Registry: the codepage built from them, and the interpretation
    of the contract on it; Run_Props: the properties of this part.
  \<^item> Math_Spec: a table that gives every division opcode its rounding, dividend, divisor and results, and the proof that the opcodes
    meet it; Math_Props: the properties of the arithmetic.

  \<^bold>\<open>Dictionaries.\<close>  A dictionary is a Patricia tree of cells: every node starts with the label of its edge, a leaf
  goes on with the value, a fork with two references.
  \<^item> Cell_Append and Cell_Emit: what a store appends and a load consumes, as composable judgements (\<open>emits\<close>, \<open>reads\<close>).
  \<^item> Dict_Label: \<^verbatim>\<open>dict_label.go\<close>, reading, matching and writing of labels; a label has up to three encodings,
    \<open>label_enc\<close> relates it to all of them and \<open>labelBits\<close> is the one the writer chooses.
  \<^item> Dict_Core and Dict_Ops: the nodes of \<^verbatim>\<open>dict_core.go\<close> and the walks of \<^verbatim>\<open>dict.go\<close> (\<open>set\<close>, \<open>lookupDelete\<close>, \<open>findKeySliceInto\<close>, \<open>LoadMinMax\<close>, \<open>mapInner\<close>),
    each terminating because it descends in a finite tree; Dict_Api: the type \<open>Dictionary\<close> and its exported operations.
  \<^item> Dict_Tree: the abstract trees, with insertion, deletion and lookup, and that a map has one tree; Dict_Layout: how a tree lies in cells; Dict_Refine and
    Dict_Walk: every walk on cells simulates the operation on trees.  The locale \<open>label_code\<close> stands for the label
    encodings in use; it is interpreted for all accepted encodings and for the canonical one.
  \<^item> Dict_Map: the contract of the type, a finite map with one representation; the locale \<open>canonical_map\<close> draws the consequences for histories of
    updates.  Dict_Props: the properties of this part.

  \<^bold>\<open>Bounds.\<close>  No operation needs fuel: loops are structural or carry a termination proof, and the run loop is shown to return.  Gas lemmas assume \<open>gas_inv\<close>, the range in which \<open>int64\<close> does not wrap; a
  machine that starts with a non-negative limit is in it.  That the run loop returns and that every step pays at least five units is shown for
  global version 4 and later, where each charge is checked at once; versions 0 to 3, which check after the step, are modelled but not covered by these two properties.  Depth lemmas stop at 1024, the limit of
  the code.  Dictionary lemmas are for keys of at most 1023 bits, the bound of \<^verbatim>\<open>dict_validate.go\<close>, and values that leave room for the longest label and
  for the depth of the tree above them (\<open>dval_ok\<close>); outside it the stores fail with an error of the builder.

  \<^bold>\<open>Not modelled.\<close>  Lazy and virtualised cells, traces, library lookup and child machines (they need a loader or
  a host); bags of cells, augmented and prefix dictionaries, dictionary iterators and Merkle tree construction; the opcodes
  outside \<^verbatim>\<open>src/tvm/op/stack\<close> and \<^verbatim>\<open>src/tvm/op/math\<close>, and the quiet forms of the latter; the transaction emulator, the block schemes of \<^verbatim>\<open>src/tlb\<close> and the TL serialiser, which work by
  reflection; the network stack, which is I/O.
\<close>

end
